(* ===== verification/Py_Prelude.thy ===== *)
theory Py_Prelude
  imports Main "HOL-Library.AList" "HOL-Library.Char_ord" "HOL-Library.List_Lexorder"
begin

text \<open>
  What every component of the development shares: the errors a Python statement can raise, the
  result type that carries them, the string methods the sources call, and dictionaries.

  Strings are lists of HOL characters, that is of the 256 code points of Latin-1; the character
  tests below are those of Python's \<^verbatim>\<open>str\<close> on that range.  A dictionary is an association list
  with distinct keys in insertion order: \<open>AList.update\<close> overwrites in place or appends, as
  \<^verbatim>\<open>d[k] = v\<close> does, and \<open>map_of\<close> looks a key up.
\<close>

named_theorems py_simps \<open>rewrite rules for the modelled Python primitives\<close>
named_theorems dict_simps \<open>rewrite rules for dictionaries\<close>

section \<open>Errors and results\<close>

datatype py_error =
    IndexError
  | KeyError
  | ValueError
  | AttributeError
  | TypeError
  | UnboundLocalError
  | FileNotFoundError
  | ModuleNotFoundError
  | ZeroDivisionError
  | RuntimeError string
  | NameError
  | OverflowError
  | SystemExit int

type_synonym 'a res = "py_error + 'a"

definition res_bind :: "'a res \<Rightarrow> ('a \<Rightarrow> 'b res) \<Rightarrow> 'b res" where
  "res_bind m f = (case m of Inl e \<Rightarrow> Inl e | Inr x \<Rightarrow> f x)"

lemma res_bind_simps [simp, py_simps]:
  "res_bind (Inl e) f = Inl e"
  "res_bind (Inr x) f = f x"
  by (simp_all add: res_bind_def)

lemma res_bind_eq_Inr [simp]:
  "res_bind m f = Inr y \<longleftrightarrow> (\<exists>x. m = Inr x \<and> f x = Inr y)"
  by (cases m) auto

lemma res_bind_cong [fundef_cong]:
  assumes "m = m'" and "\<And>x. m' = Inr x \<Longrightarrow> f x = g x"
  shows "res_bind m f = res_bind m' g"
  using assms by (cases m') auto

lemma res_bind_Inr_right [simp]: "res_bind m Inr = m"
  by (cases m) auto

text \<open>A loop that stops at the first exception, collecting results or threading a state.\<close>

fun res_map :: "('a \<Rightarrow> 'b res) \<Rightarrow> 'a list \<Rightarrow> 'b list res" where
  "res_map f [] = Inr []"
| "res_map f (x # xs) = res_bind (f x) (\<lambda>y. res_bind (res_map f xs) (\<lambda>ys. Inr (y # ys)))"

fun res_fold :: "('a \<Rightarrow> 's \<Rightarrow> 's res) \<Rightarrow> 'a list \<Rightarrow> 's \<Rightarrow> 's res" where
  "res_fold f [] s = Inr s"
| "res_fold f (x # xs) s = res_bind (f x s) (res_fold f xs)"

lemma res_map_total:
  "(\<And>x. x \<in> set xs \<Longrightarrow> f x = Inr (g x)) \<Longrightarrow> res_map f xs = Inr (map g xs)"
  by (induction xs) auto

lemma res_fold_total:
  "(\<And>x s. x \<in> set xs \<Longrightarrow> f x s = Inr (g x s)) \<Longrightarrow> res_fold f xs s = Inr (fold g xs s)"
  by (induction xs arbitrary: s) auto

lemma res_fold_append:
  "res_fold f (xs @ ys) s = res_bind (res_fold f xs s) (res_fold f ys)"
  by (induction xs arbitrary: s) (auto simp: res_bind_def split: sum.splits)

lemma length_res_map: "res_map f xs = Inr ys \<Longrightarrow> length ys = length xs"
  by (induction xs arbitrary: ys) auto

lemma res_map_nth: "res_map f xs = Inr ys \<Longrightarrow> i < length xs \<Longrightarrow> f (xs ! i) = Inr (ys ! i)"
  by (induction xs arbitrary: ys i) (auto simp: nth_Cons split: nat.splits)

lemma res_map_cong [fundef_cong]:
  "xs = ys \<Longrightarrow> (\<And>x. x \<in> set ys \<Longrightarrow> f x = g x) \<Longrightarrow> res_map f xs = res_map g ys"
  by (induction ys arbitrary: xs) auto

lemma res_fold_inv:
  assumes "res_fold f xs s = Inr t" and "P s"
    and "\<And>x s t. x \<in> set xs \<Longrightarrow> P s \<Longrightarrow> f x s = Inr t \<Longrightarrow> P t"
  shows "P t"
  using assms
proof (induction xs arbitrary: s)
  case (Cons x xs)
  then obtain u where u: "f x s = Inr u" and t: "res_fold f xs u = Inr t" by auto
  have "P u" using Cons.prems(2,3) u by auto
  then show ?case using Cons.IH [OF t] Cons.prems(3) by auto
qed simp

section \<open>Lists\<close>

lemma sum_list_replicate_nat [simp]: "sum_list (replicate n (k::nat)) = n * k"
  by (induction n) auto

lemma concat_replicate_length: "length (concat (map (replicate n) xs)) = n * length xs"
  by (induction xs) auto

lemma filter_concat_map_replicate:
  "set (concat (map (replicate n) xs)) \<subseteq> set xs"
  by (auto simp: set_replicate_conv_if split: if_splits)

text \<open>
  The order in which Python lists a set is not specified: it is any function that lists the
  elements of a list without repetition.
\<close>

definition set_order :: "(string list \<Rightarrow> string list) \<Rightarrow> bool" where
  "set_order so \<longleftrightarrow> (\<forall>xs. distinct (so xs) \<and> set (so xs) = set xs)"

lemma set_orderD: "set_order so \<Longrightarrow> distinct (so xs)" "set_order so \<Longrightarrow> set (so xs) = set xs"
  by (auto simp: set_order_def)

lemma set_order_remdups: "set_order remdups"
  by (simp add: set_order_def)

section \<open>Characters and strings\<close>

definition py_isspace :: "char \<Rightarrow> bool" where
  "py_isspace c \<longleftrightarrow> c \<in> {CHR 0x09, CHR 0x0A, CHR 0x0B, CHR 0x0C, CHR 0x0D,
     CHR 0x1C, CHR 0x1D, CHR 0x1E, CHR 0x1F, CHR '' '', CHR 0x85, CHR 0xA0}"

definition py_isdigit :: "char \<Rightarrow> bool" where
  "py_isdigit c \<longleftrightarrow> c \<in> set ''0123456789''"

definition lstrip :: "string \<Rightarrow> string" where
  "lstrip s = dropWhile py_isspace s"

definition rstrip :: "string \<Rightarrow> string" where
  "rstrip s = rev (dropWhile py_isspace (rev s))"

definition strip :: "string \<Rightarrow> string" where
  "strip s = rstrip (lstrip s)"

text \<open>\<^verbatim>\<open>s.strip(c)\<close> with an argument removes the characters of the argument from both ends.\<close>

definition strip_chars :: "string \<Rightarrow> string \<Rightarrow> string" where
  "strip_chars cs s =
     rev (dropWhile (\<lambda>c. c \<in> set cs) (rev (dropWhile (\<lambda>c. c \<in> set cs) s)))"

definition startswith :: "string \<Rightarrow> string \<Rightarrow> bool" where
  "startswith p s \<longleftrightarrow> take (length p) s = p"

definition endswith :: "string \<Rightarrow> string \<Rightarrow> bool" where
  "endswith p s \<longleftrightarrow> startswith (rev p) (rev s)"

fun contains :: "string \<Rightarrow> string \<Rightarrow> bool" where
  "contains p [] = (p = [])"
| "contains p (c # s) = (startswith p (c # s) \<or> contains p s)"

lemma startswith_Nil [simp]: "startswith [] s"
  by (simp add: startswith_def)

lemma startswith_Cons [simp]:
  "startswith (p # ps) (c # s) \<longleftrightarrow> p = c \<and> startswith ps s"
  "\<not> startswith (p # ps) []"
  by (auto simp: startswith_def)

lemma startswith_append [simp]: "startswith p (p @ s)"
  by (simp add: startswith_def)

lemma startswith_iff: "startswith p s \<longleftrightarrow> (\<exists>t. s = p @ t)"
  by (metis append_take_drop_id startswith_append startswith_def)

lemma endswith_iff: "endswith p s \<longleftrightarrow> (\<exists>t. s = t @ p)"
  by (auto simp: endswith_def startswith_iff) (metis rev_append rev_rev_ident)

lemma contains_iff: "contains p s \<longleftrightarrow> (\<exists>u v. s = u @ p @ v)"
proof (induction s)
  case (Cons c s)
  show ?case
  proof
    assume "contains p (c # s)"
    then consider "startswith p (c # s)" | "contains p s" by auto
    then show "\<exists>u v. c # s = u @ p @ v"
    proof cases
      case 1
      then show ?thesis by (metis append_Nil startswith_iff)
    next
      case 2
      then show ?thesis using Cons by (metis append_Cons)
    qed
  next
    assume "\<exists>u v. c # s = u @ p @ v"
    then obtain u v where "c # s = u @ p @ v" by blast
    then show "contains p (c # s)"
      using Cons by (cases u) (metis append_Nil contains.simps(2) startswith_iff,
        metis append_Cons contains.simps(2) list.inject)
  qed
qed auto

text \<open>
  \<^verbatim>\<open>s.split(c)\<close> with a one-character separator; \<open>split_on\<close> is the same for a separator of
  any positive length (\<^verbatim>\<open>split\<close> raises on an empty one and no caller passes one).
\<close>

fun split_char :: "char \<Rightarrow> string \<Rightarrow> string list" where
  "split_char c [] = [[]]"
| "split_char c (x # xs) =
     (if x = c then [] # split_char c xs
      else (case split_char c xs of [] \<Rightarrow> [[x]] | p # ps \<Rightarrow> (x # p) # ps))"

function split_aux :: "string \<Rightarrow> string \<Rightarrow> string \<Rightarrow> string list" where
  "split_aux sep acc [] = [rev acc]"
| "split_aux sep acc (c # s) =
     (if sep \<noteq> [] \<and> startswith sep (c # s)
      then rev acc # split_aux sep [] (drop (length sep) (c # s))
      else split_aux sep (c # acc) s)"
  by pat_completeness auto
termination
  by (relation "measure (\<lambda>(sep, acc, s). length s)") (auto simp: neq_Nil_conv)

definition split_on :: "string \<Rightarrow> string \<Rightarrow> string list" where
  "split_on sep s = split_aux sep [] s"

text \<open>\<^verbatim>\<open>s.split()\<close>: maximal runs of non-space characters.\<close>

fun split_ws_aux :: "string \<Rightarrow> string \<Rightarrow> string list" where
  "split_ws_aux acc [] = (if acc = [] then [] else [rev acc])"
| "split_ws_aux acc (c # s) =
     (if py_isspace c
      then (if acc = [] then split_ws_aux [] s else rev acc # split_ws_aux [] s)
      else split_ws_aux (c # acc) s)"

definition split_ws :: "string \<Rightarrow> string list" where
  "split_ws s = split_ws_aux [] s"

fun join :: "string \<Rightarrow> string list \<Rightarrow> string" where
  "join sep [] = []"
| "join sep [x] = x"
| "join sep (x # y # ys) = x @ sep @ join sep (y # ys)"

text \<open>\<^verbatim>\<open>s.replace(old, new)\<close> for a non-empty \<^verbatim>\<open>old\<close>: left to right, without overlaps.\<close>

definition replace_str :: "string \<Rightarrow> string \<Rightarrow> string \<Rightarrow> string" where
  "replace_str old new s = join new (split_on old s)"

definition py_lower_char :: "char \<Rightarrow> char" where
  "py_lower_char c =
     (let n = (of_char c :: nat)
      in if 65 \<le> n \<and> n \<le> 90 \<or> 192 \<le> n \<and> n \<le> 222 \<and> n \<noteq> 215 then char_of (n + 32) else c)"

definition py_lower :: "string \<Rightarrow> string" where
  "py_lower s = map py_lower_char s"

fun nat_str :: "nat \<Rightarrow> string" where
  "nat_str n = (if n < 10 then [char_of (48 + n)] else nat_str (n div 10) @ [char_of (48 + n mod 10)])"

declare nat_str.simps [simp del]

definition int_str :: "int \<Rightarrow> string" where
  "int_str i = (if i < 0 then CHR ''-'' # nat_str (nat (- i)) else nat_str (nat i))"

text \<open>
  \<^verbatim>\<open>int(s)\<close>: surrounding white space, an optional sign, digits with single underscores
  between them; anything else is a \<open>ValueError\<close>.
\<close>

definition digit_val :: "char \<Rightarrow> int" where
  "digit_val c = of_char c - 48"

fun int_body :: "int \<Rightarrow> string \<Rightarrow> int option" where
  "int_body acc [] = Some acc"
| "int_body acc (c # s) =
     (if py_isdigit c then int_body (acc * 10 + digit_val c) s
      else if c = CHR ''_'' then
        (case s of [] \<Rightarrow> None
         | d # s' \<Rightarrow> if py_isdigit d then int_body (acc * 10 + digit_val d) s' else None)
      else None)"

definition unsigned_int :: "string \<Rightarrow> int option" where
  "unsigned_int s = (case s of [] \<Rightarrow> None | c # s' \<Rightarrow> if py_isdigit c then int_body 0 s else None)"

definition py_int :: "string \<Rightarrow> int res" where
  "py_int s =
     (let t = strip s;
          r = (case t of [] \<Rightarrow> None
               | c # u \<Rightarrow>
                   if c = CHR ''-'' then map_option uminus (unsigned_int u)
                   else if c = CHR ''+'' then unsigned_int u
                   else unsigned_int t)
      in case r of None \<Rightarrow> Inl ValueError | Some i \<Rightarrow> Inr i)"

text \<open>\<^verbatim>\<open>repr(s)\<close> of a string of Latin-1 characters.\<close>

definition py_repr :: "string \<Rightarrow> string" where
  "py_repr s =
     (let q = (if CHR 0x27 \<in> set s \<and> CHR 0x22 \<notin> set s then CHR 0x22 else CHR 0x27);
          hex = (\<lambda>n. if n < 10 then char_of (48 + n) else char_of (87 + n));
          esc = (\<lambda>c. let n = of_char c :: nat
                     in if c = q \<or> c = CHR 0x5C then [CHR 0x5C, c]
                        else if n = 9 then [CHR 0x5C, CHR ''t'']
                        else if n = 10 then [CHR 0x5C, CHR ''n'']
                        else if n = 13 then [CHR 0x5C, CHR ''r'']
                        else if n < 32 \<or> 127 \<le> n \<and> n \<le> 160 \<or> n = 173
                        then [CHR 0x5C, CHR ''x'', hex (n div 16), hex (n mod 16)]
                        else [c])
      in q # concat (map esc s) @ [q])"

text \<open>\<^verbatim>\<open>os.path.join\<close> and \<^verbatim>\<open>os.path.basename\<close>.\<close>

definition path_join2 :: "string \<Rightarrow> string \<Rightarrow> string" where
  "path_join2 a b =
     (if startswith ''/'' b then b
      else if a = [] \<or> endswith ''/'' a then a @ b
      else a @ ''/'' @ b)"

definition path_join :: "string \<Rightarrow> string list \<Rightarrow> string" where
  "path_join a bs = foldl path_join2 a bs"

definition basename :: "string \<Rightarrow> string" where
  "basename p = rev (takeWhile (\<lambda>c. c \<noteq> CHR ''/'') (rev p))"

text \<open>
  A file is the list of its lines with their line ends, as reading it in text mode gives them, or
  \<open>None\<close> when it does not exist.  \<open>text_lines\<close> is what reading gives after a text was written:
  every kind of line end is a line feed.
\<close>

type_synonym files = "string \<Rightarrow> string list option"

fun univ_newlines :: "string \<Rightarrow> string" where
  "univ_newlines [] = []"
| "univ_newlines [c] = [if c = CHR 0x0D then CHR 0x0A else c]"
| "univ_newlines (c # d # s) =
     (if c = CHR 0x0D \<and> d = CHR 0x0A then CHR 0x0A # univ_newlines s
      else (if c = CHR 0x0D then CHR 0x0A else c) # univ_newlines (d # s))"

fun lines_keep :: "string \<Rightarrow> string \<Rightarrow> string list" where
  "lines_keep acc [] = (if acc = [] then [] else [rev acc])"
| "lines_keep acc (c # s) =
     (if c = CHR 0x0A then rev (c # acc) # lines_keep [] s else lines_keep (c # acc) s)"

definition text_lines :: "string \<Rightarrow> string list" where
  "text_lines s = lines_keep [] (univ_newlines s)"

definition read_file :: "files \<Rightarrow> string \<Rightarrow> string list res" where
  "read_file fs f = (case fs f of None \<Rightarrow> Inl FileNotFoundError | Some ls \<Rightarrow> Inr ls)"

subsection \<open>Facts about the string methods\<close>

lemma split_char_ne [simp]: "split_char c s \<noteq> []"
  by (induction s) (auto split: list.splits)

lemma join_Cons: "join sep (x # xs) = (if xs = [] then x else x @ sep @ join sep xs)"
  by (cases xs) auto

lemma join_split_char: "join [c] (split_char c s) = s"
proof (induction s)
  case (Cons x s)
  then show ?case
    by (cases "split_char c s") (auto simp: join_Cons)
qed simp

lemma split_char_no_sep: "c \<notin> set s \<Longrightarrow> split_char c s = [s]"
  by (induction s) auto

lemma split_char_append:
  "c \<notin> set p \<Longrightarrow> split_char c (p @ c # s) = p # split_char c s"
  by (induction p) (auto split: list.splits)

lemma split_char_join:
  "xs \<noteq> [] \<Longrightarrow> (\<forall>x \<in> set xs. c \<notin> set x) \<Longrightarrow> split_char c (join [c] xs) = xs"
proof (induction xs)
  case (Cons x xs)
  then show ?case
    by (cases "xs = []") (auto simp: join_Cons split_char_no_sep split_char_append)
qed simp

lemma split_char_pieces: "p \<in> set (split_char c s) \<Longrightarrow> c \<notin> set p"
proof (induction s arbitrary: p)
  case (Cons x s)
  then show ?case
    by (cases "split_char c s") (auto split: if_splits)
qed simp

lemma length_split_char: "length (split_char c s) = Suc (count_list s c)"
  by (induction s) (auto split: list.splits)

lemma dropWhile_rev_last:
  "xs \<noteq> [] \<Longrightarrow> \<not> P (last xs) \<Longrightarrow> dropWhile P (rev xs) = rev xs"
  by (cases xs rule: rev_cases) auto

lemma rstrip_idem [simp]: "rstrip (rstrip s) = rstrip s"
  by (simp add: rstrip_def)

lemma lstrip_idem [simp]: "lstrip (lstrip s) = lstrip s"
  by (simp add: lstrip_def)

lemma strip_Nil [simp]: "strip [] = []"
  by (simp add: strip_def rstrip_def lstrip_def)

lemma set_strip: "set (strip s) \<subseteq> set s"
  by (auto simp: strip_def rstrip_def lstrip_def dest!: set_dropWhileD)

lemma dropWhile_all_iff: "(\<forall>x \<in> set (dropWhile P s). P x) \<longleftrightarrow> (\<forall>x \<in> set s. P x)"
  by (induction s) (auto dest: set_dropWhileD)

lemma strip_eq_Nil_iff: "strip s = [] \<longleftrightarrow> (\<forall>c \<in> set s. py_isspace c)"
  by (simp add: strip_def rstrip_def lstrip_def dropWhile_all_iff)

lemma hd_strip: "strip s \<noteq> [] \<Longrightarrow> \<not> py_isspace (hd (strip s))"
proof -
  let ?t = "dropWhile py_isspace s"
  assume ne: "strip s \<noteq> []"
  then have t: "?t \<noteq> []" by (simp add: strip_eq_Nil_iff)
  then have h: "\<not> py_isspace (hd ?t)" by (rule hd_dropWhile)
  obtain w where w: "rev ?t = w @ dropWhile py_isspace (rev ?t)"
    by (metis takeWhile_dropWhile_id)
  then have "?t = strip s @ rev w"
    by (metis lstrip_def rev_append rev_rev_ident rstrip_def strip_def)
  then show ?thesis using h ne by (metis hd_append2)
qed

lemma strip_idem [simp]: "strip (strip s) = strip s"
proof (cases "strip s = []")
  case False
  then have "lstrip (strip s) = strip s"
    using hd_strip [OF False] by (cases "strip s") (auto simp: lstrip_def)
  then show ?thesis by (simp add: strip_def)
qed simp

lemma set_join: "set (join sep xs) \<subseteq> set sep \<union> \<Union> (set ` set xs)"
  by (induction sep xs rule: join.induct) auto

lemma not_in_join: "c \<notin> set sep \<Longrightarrow> \<forall>x \<in> set xs. c \<notin> set x \<Longrightarrow> c \<notin> set (join sep xs)"
  using set_join [of sep xs] by blast

lemma py_lower_length [simp]: "length (py_lower s) = length s"
  by (simp add: py_lower_def)

section \<open>Dictionaries\<close>

type_synonym 'v dict = "(string \<times> 'v) list"

abbreviation dict_set :: "string \<Rightarrow> 'v \<Rightarrow> 'v dict \<Rightarrow> 'v dict" where
  "dict_set \<equiv> AList.update"

abbreviation keys :: "'v dict \<Rightarrow> string list" where
  "keys d \<equiv> map fst d"

text \<open>\<^verbatim>\<open>d[k]\<close>, which raises on a missing key, and \<^verbatim>\<open>d.update(e)\<close>.\<close>

definition dict_get :: "'v dict \<Rightarrow> string \<Rightarrow> 'v res" where
  "dict_get d k = (case map_of d k of None \<Rightarrow> Inl KeyError | Some v \<Rightarrow> Inr v)"

definition dict_update :: "'v dict \<Rightarrow> 'v dict \<Rightarrow> 'v dict" where
  "dict_update d e = fold (\<lambda>(k, v). dict_set k v) e d"

lemma dict_get_eq_Inr [simp]: "dict_get d k = Inr v \<longleftrightarrow> map_of d k = Some v"
  by (auto simp: dict_get_def split: option.splits)

lemma map_of_dict_set [simp, dict_simps]: "map_of (dict_set k v d) = (map_of d)(k \<mapsto> v)"
  by (rule update_conv')

lemma keys_dict_set [dict_simps]:
  "keys (dict_set k v d) = (if k \<in> set (keys d) then keys d else keys d @ [k])"
  by (rule update_keys)

lemma in_keys_iff: "c \<in> set (keys d) \<longleftrightarrow> map_of d c \<noteq> None"
  by (simp add: map_of_eq_None_iff)

lemma in_fst_iff: "c \<in> fst ` set d \<longleftrightarrow> map_of d c \<noteq> None"
  by (simp add: map_of_eq_None_iff)

lemma distinct_dict_set [intro]: "distinct (keys d) \<Longrightarrow> distinct (keys (dict_set k v d))"
  by (rule distinct_update)

lemma map_of_dict_update [dict_simps]:
  "map_of (dict_update d e) = map_of d ++ map_of (rev e)"
proof (induction e arbitrary: d)
  case (Cons p e)
  show ?case
  proof (cases p)
    case (Pair k v)
    then have step: "map_of (dict_update d (p # e)) = map_of (dict_update (dict_set k v d) e)"
      by (simp add: dict_update_def)
    show ?thesis
      unfolding step Cons.IH
      using Pair by (auto simp: map_add_def fun_eq_iff split: option.splits)
  qed
qed (simp add: dict_update_def)

lemma distinct_dict_update [intro]:
  "distinct (keys d) \<Longrightarrow> distinct (keys (dict_update d e))"
  by (induction e arbitrary: d) (auto simp: dict_update_def distinct_dict_set)

lemma dict_set_fresh: "k \<notin> set (keys d) \<Longrightarrow> dict_set k v d = d @ [(k, v)]"
  by (induction d) auto

lemma dict_update_fresh: "distinct (keys (d @ e)) \<Longrightarrow> dict_update d e = d @ e"
proof (induction e arbitrary: d)
  case (Cons p e)
  have "dict_set (fst p) (snd p) d = d @ [p]"
    using Cons.prems by (subst dict_set_fresh) auto
  then have "dict_update d (p # e) = dict_update (d @ [p]) e"
    by (simp add: dict_update_def case_prod_unfold)
  also have "\<dots> = (d @ [p]) @ e" by (rule Cons.IH) (use Cons.prems in simp)
  finally show ?case by simp
qed (simp add: dict_update_def)

lemma dict_of_distinct: "distinct (keys e) \<Longrightarrow> dict_update [] e = e"
  using dict_update_fresh [of "[]" e] by simp

lemma map_of_map_key:
  "inj_on h (insert x (set xs)) \<Longrightarrow>
    map_of (map (\<lambda>y. (h y, v y)) xs) (h x) = (if x \<in> set xs then Some (v x) else None)"
  by (induction xs) (auto simp: inj_on_def)

lemma split_aux_prefix:
  assumes "\<And>u v. x = u @ v \<Longrightarrow> v \<noteq> [] \<Longrightarrow> \<not> startswith sep (v @ r)"
  shows "split_aux sep acc (x @ r) = split_aux sep (rev x @ acc) r"
  using assms
proof (induction x arbitrary: acc)
  case (Cons c x)
  have "\<not> startswith sep (c # x @ r)" using Cons.prems [of "[]" "c # x"] by simp
  then have "split_aux sep acc ((c # x) @ r) = split_aux sep (c # acc) (x @ r)" by simp
  also have "\<dots> = split_aux sep (rev x @ c # acc) r"
    by (rule Cons.IH) (use Cons.prems [of "c # _"] in auto)
  finally show ?case by simp
qed simp

lemma split_on_none: "\<not> contains sep s \<Longrightarrow> split_on sep s = [s]"
  using split_aux_prefix [of s sep "[]" "[]"] by (auto simp: split_on_def contains_iff startswith_iff)

lemma split_on_hit:
  assumes "sep \<noteq> []" "\<And>u v. x = u @ v \<Longrightarrow> v \<noteq> [] \<Longrightarrow> \<not> startswith sep (v @ sep @ r)"
  shows "split_on sep (x @ sep @ r) = x # split_on sep r"
proof -
  have "split_aux sep [] (x @ sep @ r) = split_aux sep (rev x) (sep @ r)"
    using split_aux_prefix [of x sep "sep @ r" "[]"] assms(2) by simp
  also have "\<dots> = x # split_aux sep [] r"
    using assms(1) by (cases sep) auto
  finally show ?thesis by (simp add: split_on_def)
qed

lemma startswith_barrier:
  "c \<notin> set p \<Longrightarrow> startswith p (v @ c # s) \<Longrightarrow> startswith p v"
proof (induction p arbitrary: v)
  case (Cons x p)
  then show ?case by (cases v) auto
qed simp

text \<open>Lines glued with a separator that holds no line break are cut where they were glued.\<close>

lemma split_on_join_lines:
  assumes "sep \<noteq> []" "CHR 0x0A \<notin> set sep" and "xs \<noteq> []"
    and "\<And>x. x \<in> set xs \<Longrightarrow> \<not> contains sep x \<and> (x = [] \<or> last x = CHR 0x0A)"
  shows "split_on sep (join sep xs) = xs"
  using assms(3,4)
proof (induction xs)
  case (Cons x xs)
  show ?case
  proof (cases "xs = []")
    case True
    then show ?thesis using Cons.prems by (simp add: split_on_none)
  next
    case False
    have "split_on sep (x @ sep @ join sep xs) = x # split_on sep (join sep xs)"
    proof (rule split_on_hit [OF assms(1)])
      fix u v assume uv: "x = u @ v" "v \<noteq> []"
      then have "last v = CHR 0x0A" using Cons.prems(2) by fastforce
      then obtain w where w: "v = w @ [CHR 0x0A]" using uv(2) by (metis append_butlast_last_id)
      show "\<not> startswith sep (v @ sep @ join sep xs)"
      proof
        assume "startswith sep (v @ sep @ join sep xs)"
        then have "startswith sep w" using w startswith_barrier [OF assms(2)] by simp
        then obtain t where "x = u @ sep @ t @ [CHR 0x0A]" using uv w by (auto simp: startswith_iff)
        then have "contains sep x" unfolding contains_iff by blast
        then show False using Cons.prems(2) by simp
      qed
    qed
    then show ?thesis using False Cons by (simp add: join_Cons)
  qed
qed simp

end
