(* ===== verification/Work_Queue.thy ===== *)
theory Work_Queue
  imports Py_Prelude
begin

text \<open>
  The interface between a source of work and the loops that empty it:
  \<^verbatim>\<open>while q.peek() is not None: x = q.pop(); ...\<close> .  The provider promises which items are
  pending and what a peek and a pop do to them; the client is \<open>drain\<close>, the collecting loop of
  \<^verbatim>\<open>precompile_rxpc\<close> (autotest/exp_runner.py), and its facts are proved once from the promises.
\<close>

text \<open>
  The loop over any pair of operations.  \<open>None\<close> is a loop that has not ended after the given
  number of rounds; an exception of an operation ends it.
\<close>

fun drain ::
  "('h \<Rightarrow> ('a option \<times> 'h) res) \<Rightarrow> ('h \<Rightarrow> ('a option \<times> 'h) res) \<Rightarrow> nat \<Rightarrow> 'h
     \<Rightarrow> ('a option list \<times> 'h) res option" where
  "drain peek pop 0 h = None"
| "drain peek pop (Suc fuel) h =
     (case peek h of
        Inl e \<Rightarrow> Some (Inl e)
      | Inr (None, h1) \<Rightarrow> Some (Inr ([], h1))
      | Inr (Some _, h1) \<Rightarrow>
          (case pop h1 of
             Inl e \<Rightarrow> Some (Inl e)
           | Inr (x, h2) \<Rightarrow>
               (case drain peek pop fuel h2 of
                  None \<Rightarrow> None
                | Some r \<Rightarrow> Some (res_bind r (\<lambda>(xs, h3). Inr (x # xs, h3))))))"

locale work_queue =
  fixes pending :: "'h \<Rightarrow> 'a list"
    and peek :: "'h \<Rightarrow> ('a option \<times> 'h) res"
    and pop :: "'h \<Rightarrow> ('a option \<times> 'h) res"
    and ready :: "'h \<Rightarrow> bool"
  assumes peek_empty: "ready h \<Longrightarrow> pending h = [] \<Longrightarrow> peek h = Inr (None, h)"
    and peek_next: "ready h \<Longrightarrow> pending h = x # xs \<Longrightarrow> peek h = Inr (Some x, h)"
    and pop_next: "ready h \<Longrightarrow> pending h = x # xs \<Longrightarrow>
      \<exists>h'. pop h = Inr (Some x, h') \<and> ready h' \<and> pending h' = xs"
begin

lemma drain_pending:
  assumes "ready h" and "length (pending h) < fuel"
  shows "\<exists>h'. drain peek pop fuel h = Some (Inr (map Some (pending h), h')) \<and>
    ready h' \<and> pending h' = []"
  using assms
proof (induction fuel arbitrary: h)
  case (Suc fuel)
  show ?case
  proof (cases "pending h")
    case Nil
    then show ?thesis using Suc.prems(1) peek_empty by simp
  next
    case (Cons x xs)
    obtain h' where h': "pop h = Inr (Some x, h')" "ready h'" "pending h' = xs"
      using pop_next [OF Suc.prems(1) Cons] by blast
    obtain h'' where "drain peek pop fuel h' = Some (Inr (map Some xs, h''))"
      and "ready h''" "pending h'' = []"
      using Suc.IH [OF h'(2)] h'(3) Suc.prems(2) Cons by auto
    then show ?thesis using h' Cons peek_next [OF Suc.prems(1) Cons] by simp
  qed
qed simp

lemma drain_preserves:
  assumes "drain peek pop fuel h = Some (Inr (xs, h'))" and "ready h" and "P h"
    and keep: "\<And>g x ys g'. ready g \<Longrightarrow> P g \<Longrightarrow> pending g = x # ys \<Longrightarrow> pop g = Inr (Some x, g') \<Longrightarrow> P g'"
  shows "P h'"
  using assms(1-3)
proof (induction fuel arbitrary: h xs)
  case (Suc fuel)
  show ?case
  proof (cases "pending h")
    case Nil
    then show ?thesis using Suc.prems peek_empty [OF Suc.prems(2) Nil] by simp
  next
    case (Cons x ys)
    obtain g where g: "pop h = Inr (Some x, g)" "ready g" "pending g = ys"
      using pop_next [OF Suc.prems(2) Cons] by blast
    have "\<exists>zs. drain peek pop fuel g = Some (Inr (zs, h'))"
      using Suc.prems(1) g(1) peek_next [OF Suc.prems(2) Cons]
      by (auto split: option.splits)
    then show ?thesis
      using Suc.IH g(2) keep [OF Suc.prems(2,3) Cons g(1)] by blast
  qed
qed simp

lemma drain_more_fuel:
  assumes "ready h" and "length (pending h) < fuel" and "fuel \<le> fuel'"
  shows "drain peek pop fuel' h = drain peek pop fuel h"
  using assms
proof (induction fuel arbitrary: h fuel')
  case (Suc fuel)
  then obtain g where g: "fuel' = Suc g" by (cases fuel') auto
  show ?case
  proof (cases "pending h")
    case Nil
    then show ?thesis using Suc.prems(1) peek_empty g by simp
  next
    case (Cons x xs)
    obtain h' where h': "pop h = Inr (Some x, h')" "ready h'" "pending h' = xs"
      using pop_next [OF Suc.prems(1) Cons] by blast
    have "drain peek pop g h' = drain peek pop fuel h'"
      using h'(3) Suc.prems(2,3) Cons g by (intro Suc.IH [OF h'(2)]) auto
    then show ?thesis using g h'(1) peek_next [OF Suc.prems(1) Cons] by simp
  qed
qed simp

end

end
