(* ===== verification/Params.thy ===== *)
theory Params
  imports Work_Queue "HOL-Library.Multiset"
begin

text \<open>
  \<^verbatim>\<open>ParameterHandler\<close> of autotest/expelib.py: the Cartesian product of the experiment's
  parameters, filtered, repeated, and handed out one configuration at a time, with the state it
  saves to resume an interrupted experiment.

  A configuration is a dictionary from parameter names to values of any type.  The attributes
  \<^verbatim>\<open>_configs_left\<close> and \<^verbatim>\<open>_configs_popped\<close> do not exist before the configurations are built:
  they are optional, and reading one that is missing is an \<open>AttributeError\<close>.  An entry of
  \<^verbatim>\<open>params_sets\<close> may be Python's \<^verbatim>\<open>None\<close>: \<^verbatim>\<open>load_state\<close> puts the saved \<^verbatim>\<open>curr_params\<close>
  there, whatever it is.  A filter is a Python callable, so it may raise.
\<close>

section \<open>State\<close>

type_synonym 'v pset = "'v dict"
type_synonym 'v pfilter = "'v pset \<Rightarrow> bool res"

record 'v handler =
  n_repeats :: int
  started :: bool
  parameter_names :: "string list"
  parameter_vals :: "'v list list"
  params_sets :: "'v pset option list"
  curr_params :: "'v pset option"
  param_filters :: "'v pfilter list"
  filtered_out_cnt :: int
  total_configs :: int
  configs_left :: "int option"
  configs_popped :: "int option"

section \<open>Operations\<close>

definition blank_handler :: "int \<Rightarrow> 'v handler" where
  "blank_handler n =
     \<lparr>n_repeats = n, started = False, parameter_names = [], parameter_vals = [],
      params_sets = [], curr_params = None, param_filters = [], filtered_out_cnt = 0,
      total_configs = 0, configs_left = None, configs_popped = None\<rparr>"

definition add_param :: "string \<Rightarrow> 'v list \<Rightarrow> 'v handler \<Rightarrow> 'v handler res" where
  "add_param name vals h =
     (if started h then Inl (RuntimeError ''Cannot add parameters to a running experiment !'')
      else Inr (h\<lparr>parameter_names := parameter_names h @ [name],
                  parameter_vals := parameter_vals h @ [vals]\<rparr>))"

definition init_handler :: "(string \<times> 'v list) list \<Rightarrow> int \<Rightarrow> 'v handler res" where
  "init_handler params n = res_fold (\<lambda>(name, vals). add_param name vals) params (blank_handler n)"

definition add_param_filter :: "'v pfilter \<Rightarrow> 'v handler \<Rightarrow> 'v handler res" where
  "add_param_filter f h =
     (if started h then Inl (RuntimeError ''Cannot add filters to a running experiment !'')
      else Inr (h\<lparr>param_filters := param_filters h @ [f]\<rparr>))"

text \<open>The dictionary built from one element of the product, and the verdict of all filters.\<close>

definition make_cfg :: "string list \<Rightarrow> 'v list \<Rightarrow> 'v pset res" where
  "make_cfg names p =
     (if length p \<le> length names then Inr (dict_update [] (zip names p)) else Inl IndexError)"

fun keep_cfg :: "'v pfilter list \<Rightarrow> 'v pset \<Rightarrow> bool res" where
  "keep_cfg [] cfg = Inr True"
| "keep_cfg (f # fs) cfg =
     res_bind (f cfg) (\<lambda>b. res_bind (keep_cfg fs cfg) (\<lambda>r. Inr (b \<and> r)))"

definition build_one :: "'v list \<Rightarrow> 'v handler \<Rightarrow> 'v handler res" where
  "build_one p h =
     res_bind (make_cfg (parameter_names h) p) (\<lambda>cfg.
     res_bind (keep_cfg (param_filters h) cfg) (\<lambda>keep.
       Inr (if keep
            then h\<lparr>params_sets := params_sets h @ replicate (nat (n_repeats h)) (Some cfg)\<rparr>
            else h\<lparr>filtered_out_cnt := filtered_out_cnt h + 1\<rparr>)))"

definition build_configs :: "'v handler \<Rightarrow> 'v handler res" where
  "build_configs h =
     res_bind (res_fold build_one (product_lists (parameter_vals h)) h) (\<lambda>h'.
       let n = int (length (params_sets h'))
       in Inr (h'\<lparr>configs_left := Some n, configs_popped := Some 0, total_configs := n,
                  started := True\<rparr>))"

definition start :: "'v handler \<Rightarrow> 'v handler res" where
  "start h =
     (if started h then Inl (RuntimeError ''Parameters handling can only be started once !'')
      else build_configs h)"

definition ensure_built :: "'v handler \<Rightarrow> 'v handler res" where
  "ensure_built h = (if started h then Inr h else build_configs h)"

definition pop_params :: "'v handler \<Rightarrow> ('v pset option \<times> 'v handler) res" where
  "pop_params h0 =
     res_bind (ensure_built h0) (\<lambda>h.
       case params_sets h of
         [] \<Rightarrow> Inr (None, h)
       | ret # rest \<Rightarrow>
           (case (configs_left h, configs_popped h) of
              (Some l, Some q) \<Rightarrow>
                Inr (ret, h\<lparr>params_sets := rest, configs_left := Some (l - 1),
                            configs_popped := Some (q + 1), curr_params := ret\<rparr>)
            | _ \<Rightarrow> Inl AttributeError))"

definition peek_params :: "'v handler \<Rightarrow> ('v pset option \<times> 'v handler) res" where
  "peek_params h0 =
     res_bind (ensure_built h0) (\<lambda>h.
       case params_sets h of [] \<Rightarrow> Inr (None, h) | p # _ \<Rightarrow> Inr (p, h))"

definition get_configs_popped :: "'v handler \<Rightarrow> int res" where
  "get_configs_popped h =
     (if \<not> started h
      then Inl (RuntimeError ''Cannot get config popped if the experiment is not started !'')
      else case configs_popped h of None \<Rightarrow> Inl AttributeError | Some n \<Rightarrow> Inr n)"

definition get_configs_left :: "'v handler \<Rightarrow> int res" where
  "get_configs_left h =
     (if \<not> started h
      then Inl (RuntimeError ''Cannot get configs left if the experiment is not started !'')
      else case configs_left h of None \<Rightarrow> Inl AttributeError | Some n \<Rightarrow> Inr n)"

definition get_total_configs :: "'v handler \<Rightarrow> int" where
  "get_total_configs h = total_configs h"

definition get_nb_combs :: "'v handler \<Rightarrow> int" where
  "get_nb_combs h = fold (\<lambda>p ret. ret * int (length p)) (parameter_vals h) (n_repeats h)"

fun vals_of :: "string list \<Rightarrow> 'v list list \<Rightarrow> string \<Rightarrow> 'v list option res" where
  "vals_of [] vs param = Inr None"
| "vals_of (n # ns) vs param =
     (if n = param then (case vs of [] \<Rightarrow> Inl IndexError | v # _ \<Rightarrow> Inr (Some v))
      else vals_of ns (tl vs) param)"

definition get_param_vals :: "'v handler \<Rightarrow> string \<Rightarrow> 'v list option res" where
  "get_param_vals h param = vals_of (parameter_names h) (parameter_vals h) param"

text \<open>
  The hash used to decide whether a saved experiment is the one being launched.  Python's
  built-in \<^verbatim>\<open>hash\<close> of a string and of a tuple of values are the first two arguments; the
  second raises on an unhashable value.
\<close>

fun hash_loop ::
  "(string \<Rightarrow> int) \<Rightarrow> ('v list \<Rightarrow> int res) \<Rightarrow> string list \<Rightarrow> 'v list list \<Rightarrow> int \<Rightarrow> int res" where
  "hash_loop hs hv [] vs h = Inr h"
| "hash_loop hs hv (n # ns) vs h =
     (case vs of
        [] \<Rightarrow> Inl IndexError
      | v # vs' \<Rightarrow>
          res_bind (hv v) (\<lambda>x. hash_loop hs hv ns vs' ((h + (hs n + x)) mod 15485863)))"

definition handler_hash ::
  "(string \<Rightarrow> int) \<Rightarrow> ('v list \<Rightarrow> int res) \<Rightarrow> 'v handler \<Rightarrow> int res" where
  "handler_hash hs hv h = hash_loop hs hv (parameter_names h) (parameter_vals h) 0"

text \<open>The pickled dictionary, and the handler rebuilt from it.\<close>

record 'v saved =
  s_started :: bool
  s_parameter_names :: "string list"
  s_parameter_vals :: "'v list list"
  s_params_sets :: "'v pset option list"
  s_n_repeats :: int
  s_configs_left :: int
  s_configs_popped :: int
  s_curr_params :: "'v pset option"

definition save_state :: "'v handler \<Rightarrow> 'v saved res" where
  "save_state h =
     (case (configs_left h, configs_popped h) of
        (Some l, Some q) \<Rightarrow>
          Inr \<lparr>s_started = started h, s_parameter_names = parameter_names h,
               s_parameter_vals = parameter_vals h, s_params_sets = params_sets h,
               s_n_repeats = n_repeats h, s_configs_left = l, s_configs_popped = q,
               s_curr_params = curr_params h\<rparr>
      | _ \<Rightarrow> Inl AttributeError)"

definition load_state :: "'v saved option \<Rightarrow> 'v handler option" where
  "load_state file =
     (case file of
        None \<Rightarrow> None
      | Some s \<Rightarrow>
          Some ((blank_handler (s_n_repeats s))
            \<lparr>started := s_started s, parameter_names := s_parameter_names s,
             parameter_vals := s_parameter_vals s,
             params_sets := [s_curr_params s] @ s_params_sets s,
             configs_left := Some (s_configs_left s),
             configs_popped := Some (s_configs_popped s), curr_params := None\<rparr>))"

section \<open>Building the configurations\<close>

definition cfg_of :: "'v handler \<Rightarrow> 'v list \<Rightarrow> 'v pset" where
  "cfg_of h p = dict_update [] (zip (parameter_names h) p)"

definition well_named :: "'v handler \<Rightarrow> bool" where
  "well_named h \<longleftrightarrow> length (parameter_names h) = length (parameter_vals h)"

lemmas handler_defs = add_param_def add_param_filter_def start_def ensure_built_def
  pop_params_def peek_params_def

lemma product_lists_length: "p \<in> set (product_lists vs) \<Longrightarrow> length p = length vs"
  by (rule in_set_product_lists_length)

lemma build_one_frame:
  assumes "build_one p h = Inr h'"
  shows "parameter_names h' = parameter_names h" "parameter_vals h' = parameter_vals h"
    "param_filters h' = param_filters h" "n_repeats h' = n_repeats h" "started h' = started h"
    "curr_params h' = curr_params h"
  using assms by (auto simp: build_one_def split: if_splits)

lemma build_fold_frame:
  assumes "res_fold build_one ps h = Inr h'"
  shows "parameter_names h' = parameter_names h \<and> parameter_vals h' = parameter_vals h \<and>
    param_filters h' = param_filters h \<and> n_repeats h' = n_repeats h \<and> started h' = started h \<and>
    curr_params h' = curr_params h"
  by (rule res_fold_inv [OF assms]) (auto dest: build_one_frame)

lemma build_fold_sets:
  assumes "\<And>p. p \<in> set ps \<Longrightarrow> length p \<le> length (parameter_names h)"
    and "\<And>p. p \<in> set ps \<Longrightarrow> keep_cfg (param_filters h) (cfg_of h p) = Inr (ok p)"
  shows "\<exists>h'. res_fold build_one ps h = Inr h' \<and>
    params_sets h' = params_sets h @
      concat (map (\<lambda>p. replicate (nat (n_repeats h)) (Some (cfg_of h p))) (filter ok ps))"
  using assms
proof (induction ps arbitrary: h)
  case (Cons p ps)
  have mk: "make_cfg (parameter_names h) p = Inr (cfg_of h p)"
    using Cons.prems(1) by (simp add: make_cfg_def cfg_of_def)
  have kp: "keep_cfg (param_filters h) (cfg_of h p) = Inr (ok p)" using Cons.prems(2) by simp
  obtain g where g: "build_one p h = Inr g"
    "params_sets g = params_sets h @ (if ok p then replicate (nat (n_repeats h)) (Some (cfg_of h p)) else [])"
    by (auto simp: build_one_def mk kp)
  note fr = build_one_frame [OF g(1)]
  have cfg: "cfg_of g q = cfg_of h q" for q by (simp add: cfg_of_def fr)
  have "\<exists>h'. res_fold build_one ps g = Inr h' \<and>
    params_sets h' = params_sets g @
      concat (map (\<lambda>p. replicate (nat (n_repeats g)) (Some (cfg_of g p))) (filter ok ps))"
    by (rule Cons.IH) (use Cons.prems in \<open>auto simp: fr cfg\<close>)
  then show ?case using g by (auto simp: fr cfg)
qed simp

text \<open>Every combination is either refused by a filter or repeated.\<close>

lemma build_fold_count:
  assumes "res_fold build_one ps h = Inr h'" and "0 \<le> n_repeats h"
  shows "int (length (params_sets h')) + n_repeats h * filtered_out_cnt h' =
    int (length (params_sets h)) + n_repeats h * filtered_out_cnt h + n_repeats h * int (length ps)"
  using assms
proof (induction ps arbitrary: h)
  case (Cons p ps)
  then obtain g where g: "build_one p h = Inr g" and rest: "res_fold build_one ps g = Inr h'"
    by auto
  have n: "n_repeats g = n_repeats h" using build_one_frame [OF g] by simp
  have "int (length (params_sets g)) + n_repeats h * filtered_out_cnt g =
    int (length (params_sets h)) + n_repeats h * filtered_out_cnt h + n_repeats h"
    using g Cons.prems(2) by (auto simp: build_one_def algebra_simps split: if_splits)
  then show ?case using Cons.IH [OF rest] Cons.prems(2) n by (simp add: algebra_simps)
qed simp

lemma nb_combs_product:
  "get_nb_combs h = n_repeats h * int (length (product_lists (parameter_vals h)))"
proof -
  have "fold (\<lambda>p r. r * int (length p)) vs n = n * int (length (product_lists vs))" for vs :: "'a list list" and n
    by (induction vs arbitrary: n) (auto simp: length_product_lists mult.assoc simp del: product_lists.simps)
  then show ?thesis by (simp add: get_nb_combs_def)
qed

lemma build_one_some:
  "build_one p h = Inr h' \<Longrightarrow> None \<notin> set (params_sets h) \<Longrightarrow> None \<notin> set (params_sets h')"
  by (auto simp: build_one_def set_replicate_conv_if split: if_splits)

section \<open>Reachable handlers\<close>

text \<open>
  What a handler that was not loaded from a file can do.  The constructor is the initial state;
  operations that raise leave the program, so only the successful ones are steps.
\<close>

inductive handler_step :: "'v handler \<Rightarrow> 'v handler \<Rightarrow> bool" where
  step_add_param: "add_param n vs h = Inr h' \<Longrightarrow> handler_step h h'"
| step_add_filter: "add_param_filter f h = Inr h' \<Longrightarrow> handler_step h h'"
| step_start: "start h = Inr h' \<Longrightarrow> handler_step h h'"
| step_peek: "peek_params h = Inr (r, h') \<Longrightarrow> handler_step h h'"
| step_pop: "pop_params h = Inr (r, h') \<Longrightarrow> handler_step h h'"

inductive handler_reach :: "'v handler \<Rightarrow> bool" where
  reach_init: "init_handler params n = Inr h \<Longrightarrow> handler_reach h"
| reach_step: "handler_reach h \<Longrightarrow> handler_step h h' \<Longrightarrow> handler_reach h'"

definition handler_ok :: "'v handler \<Rightarrow> bool" where
  "handler_ok h \<longleftrightarrow> well_named h \<and> None \<notin> set (params_sets h) \<and>
     (if started h
      then configs_left h = Some (int (length (params_sets h))) \<and>
           (\<exists>q. configs_popped h = Some q \<and> 0 \<le> q \<and>
              total_configs h = int (length (params_sets h)) + q)
      else params_sets h = [] \<and> configs_left h = None \<and> configs_popped h = None \<and>
           curr_params h = None)"

lemma handler_ok_blank: "handler_ok (blank_handler n)"
  by (simp add: handler_ok_def well_named_def blank_handler_def)

lemma handler_ok_add_param: "handler_ok h \<Longrightarrow> add_param n vs h = Inr h' \<Longrightarrow> handler_ok h'"
  by (auto simp: handler_ok_def add_param_def well_named_def split: if_splits)

lemma handler_ok_init:
  assumes "init_handler params n = Inr h"
  shows "handler_ok h"
  by (rule res_fold_inv [OF assms [unfolded init_handler_def], of handler_ok])
    (auto intro: handler_ok_blank handler_ok_add_param)

lemma build_configs_ok:
  assumes "build_configs h = Inr h'" and "handler_ok h" and "\<not> started h"
  shows "handler_ok h' \<and> started h' \<and> configs_popped h' = Some 0 \<and> curr_params h' = None \<and>
    total_configs h' = int (length (params_sets h'))"
proof -
  obtain g where g: "res_fold build_one (product_lists (parameter_vals h)) h = Inr g"
    and h': "h' = g\<lparr>configs_left := Some (int (length (params_sets g))), configs_popped := Some 0,
      total_configs := int (length (params_sets g)), started := True\<rparr>"
    using assms(1) by (auto simp: build_configs_def Let_def)
  have "None \<notin> set (params_sets g)"
    by (rule res_fold_inv [OF g]) (use assms(2) in \<open>auto simp: handler_ok_def dest: build_one_some\<close>)
  moreover have "well_named g" "curr_params g = None"
    using build_fold_frame [OF g] assms(2,3) by (auto simp: handler_ok_def well_named_def)
  ultimately show ?thesis by (simp add: h' handler_ok_def well_named_def)
qed

lemma ensure_built_ok:
  "ensure_built h = Inr h' \<Longrightarrow> handler_ok h \<Longrightarrow> handler_ok h' \<and> started h'"
  by (auto simp: ensure_built_def dest: build_configs_ok split: if_splits)

lemma pop_params_started:
  assumes "handler_ok h" and "started h" and "params_sets h = r # rest"
  shows "\<exists>h'. pop_params h = Inr (r, h') \<and> handler_ok h' \<and> started h' \<and> params_sets h' = rest \<and>
    total_configs h' = total_configs h \<and> curr_params h' = r"
  using assms by (auto simp: pop_params_def ensure_built_def handler_ok_def well_named_def)

lemma pop_params_ok:
  assumes "pop_params h = Inr (r, h')" and "handler_ok h"
  shows "handler_ok h'"
proof -
  obtain g where g: "ensure_built h = Inr g"
    using assms(1) by (auto simp: pop_params_def)
  note ok = ensure_built_ok [OF g assms(2)]
  have eq: "pop_params g = pop_params h"
    using ok g by (simp add: pop_params_def ensure_built_def)
  show ?thesis
  proof (cases "params_sets g")
    case Nil
    then show ?thesis using assms(1) g ok by (simp add: pop_params_def)
  next
    case (Cons x xs)
    then show ?thesis using pop_params_started [of g x xs] ok eq assms(1) by auto
  qed
qed

lemma handler_step_ok: "handler_step h h' \<Longrightarrow> handler_ok h \<Longrightarrow> handler_ok h'"
proof (induction rule: handler_step.induct)
  case (step_add_param n vs h h')
  then show ?case by (blast intro: handler_ok_add_param)
next
  case (step_add_filter f h h')
  then show ?case by (auto simp: handler_ok_def add_param_filter_def well_named_def split: if_splits)
next
  case (step_start h h')
  then show ?case by (auto simp: start_def dest: build_configs_ok split: if_splits)
next
  case (step_peek h r h')
  then obtain g where g: "ensure_built h = Inr g" by (auto simp: peek_params_def)
  then have "h' = g" using step_peek.hyps by (cases "params_sets g") (auto simp: peek_params_def)
  then show ?case using ensure_built_ok [OF g step_peek.prems] by simp
next
  case (step_pop h r h')
  then show ?case by (blast intro: pop_params_ok)
qed

lemma handler_reach_ok: "handler_reach h \<Longrightarrow> handler_ok h"
  by (induction rule: handler_reach.induct) (auto intro: handler_ok_init handler_step_ok)

section \<open>The handler is a work queue\<close>

definition pending_sets :: "'v handler \<Rightarrow> 'v pset list" where
  "pending_sets h = map the (params_sets h)"

definition queue_ready :: "'v handler \<Rightarrow> bool" where
  "queue_ready h \<longleftrightarrow> started h \<and> None \<notin> set (params_sets h) \<and>
     configs_left h \<noteq> None \<and> configs_popped h \<noteq> None"

interpretation param_queue: work_queue pending_sets peek_params pop_params queue_ready
proof unfold_locales
  fix h :: "'v handler" and x xs
  assume ready: "queue_ready h" and nxt: "pending_sets h = x # xs"
  then obtain rest where rest: "params_sets h = Some x # rest" "map the rest = xs"
    by (auto simp: queue_ready_def pending_sets_def)
  show "peek_params h = Inr (Some x, h)"
    using ready rest by (simp add: queue_ready_def peek_params_def ensure_built_def)
  show "\<exists>h'. pop_params h = Inr (Some x, h') \<and> queue_ready h' \<and> pending_sets h' = xs"
    using ready rest
    by (auto simp: queue_ready_def pop_params_def ensure_built_def pending_sets_def)
qed (auto simp: queue_ready_def pending_sets_def peek_params_def ensure_built_def)

lemma handler_ok_ready: "handler_ok h \<Longrightarrow> started h \<Longrightarrow> queue_ready h"
  by (auto simp: handler_ok_def queue_ready_def)

lemma map_Some_pending: "queue_ready h \<Longrightarrow> map Some (pending_sets h) = params_sets h"
  by (auto simp: queue_ready_def pending_sets_def intro!: map_idI) (metis option.exhaust_sel)

section \<open>Properties\<close>

text \<open>A small experiment for the witnesses: two parameters, one filter, two repetitions.\<close>

definition demo_filter :: "int pset \<Rightarrow> bool res" where
  "demo_filter p = res_bind (dict_get p ''rgx'') (\<lambda>r. res_bind (dict_get p ''hs'') (\<lambda>h. Inr (r \<noteq> h)))"

definition demo_handler :: "int handler" where
  "demo_handler = (blank_handler 2)\<lparr>parameter_names := [''rgx'', ''hs''],
     parameter_vals := [[0, 1], [0, 1]], param_filters := [demo_filter]\<rparr>"

lemmas demo_simps = demo_handler_def blank_handler_def demo_filter_def cfg_of_def dict_update_def
  dict_get_def make_cfg_def build_one_def build_configs_def Let_def

lemma demo_reach: "handler_reach demo_handler"
proof -
  have "init_handler [(''rgx'', [0, 1]), (''hs'', [0, 1])] 2 =
    Inr (demo_handler\<lparr>param_filters := []\<rparr>)"
    by (simp add: init_handler_def add_param_def demo_handler_def blank_handler_def)
  then have "handler_reach (demo_handler\<lparr>param_filters := []\<rparr>)" by (rule reach_init)
  moreover have "add_param_filter demo_filter (demo_handler\<lparr>param_filters := []\<rparr>) = Inr demo_handler"
    by (simp add: add_param_filter_def demo_handler_def blank_handler_def)
  ultimately show ?thesis by (blast intro: reach_step step_add_filter)
qed

definition demo_started :: "int handler" where
  "demo_started = demo_handler\<lparr>params_sets :=
     [Some [(''rgx'', 0), (''hs'', 1)], Some [(''rgx'', 0), (''hs'', 1)],
      Some [(''rgx'', 1), (''hs'', 0)], Some [(''rgx'', 1), (''hs'', 0)]],
     filtered_out_cnt := 2, total_configs := 4, configs_left := Some 4,
     configs_popped := Some 0, started := True\<rparr>"

lemma demo_start: "start demo_handler = Inr demo_started"
  by (simp add: start_def demo_started_def demo_simps numeral_2_eq_2)

lemma demo_started_reach: "handler_reach demo_started"
  using demo_reach demo_start by (blast intro: reach_step step_start)

text \<open>C4: starting a fresh handler whose filters do not raise yields exactly the product of the
  parameter values, in the order of \<^verbatim>\<open>itertools.product\<close>, without the combinations a filter
  refuses, each as a dictionary of names to values and repeated \<^verbatim>\<open>n_repeats\<close> times in a row.\<close>

theorem start_builds_product:
  assumes "\<not> started h" and "params_sets h = []"
    and "length (parameter_names h) = length (parameter_vals h)"
    and "\<And>p. p \<in> set (product_lists (parameter_vals h)) \<Longrightarrow>
      keep_cfg (param_filters h) (cfg_of h p) = Inr (ok p)"
  shows "\<exists>h'. start h = Inr h' \<and> started h' \<and>
    params_sets h' = concat (map (\<lambda>p. replicate (nat (n_repeats h)) (Some (cfg_of h p)))
      (filter ok (product_lists (parameter_vals h))))"
proof -
  have "\<And>p. p \<in> set (product_lists (parameter_vals h)) \<Longrightarrow> length p \<le> length (parameter_names h)"
    by (simp add: product_lists_length assms(3))
  from build_fold_sets [of "product_lists (parameter_vals h)" h ok, OF this assms(4)]
  obtain g where "res_fold build_one (product_lists (parameter_vals h)) h = Inr g"
    and "params_sets g = params_sets h @ concat (map (\<lambda>p. replicate (nat (n_repeats h))
      (Some (cfg_of h p))) (filter ok (product_lists (parameter_vals h))))"
    by auto
  then show ?thesis using assms(1,2) by (simp add: start_def build_configs_def Let_def)
qed

theorem start_builds_product_witness:
  "\<exists>h'. start demo_handler = Inr h' \<and> started h' \<and>
    params_sets h' = concat (map (\<lambda>p. replicate 2 (Some (cfg_of demo_handler p))) [[0, 1], [1, 0]])"
proof -
  have "\<exists>h'. start demo_handler = Inr h' \<and> started h' \<and>
    params_sets h' = concat (map (\<lambda>p. replicate (nat (n_repeats demo_handler)) (Some (cfg_of demo_handler p)))
      (filter (\<lambda>p. p ! 0 \<noteq> p ! 1) (product_lists (parameter_vals demo_handler))))"
    by (rule start_builds_product) (auto simp: demo_simps)
  then show ?thesis by (simp add: demo_handler_def blank_handler_def)
qed

text \<open>Every combination of the product is accounted for when the experiment starts: the
  configurations handed out plus the repetitions of the refused combinations are the
  \<^verbatim>\<open>get_nb_combs\<close> combinations that the log line announces.\<close>

theorem start_conservation:
  assumes "handler_reach h" and "start h = Inr h'" and "0 \<le> n_repeats h"
  shows "get_total_configs h' + n_repeats h * (filtered_out_cnt h' - filtered_out_cnt h) = get_nb_combs h"
proof -
  have ok: "handler_ok h" "\<not> started h" and b: "build_configs h = Inr h'"
    using assms(1,2) handler_reach_ok by (auto simp: start_def split: if_splits)
  then obtain g where g: "res_fold build_one (product_lists (parameter_vals h)) h = Inr g"
    and h': "total_configs h' = int (length (params_sets g))" "filtered_out_cnt h' = filtered_out_cnt g"
    by (auto simp: build_configs_def Let_def)
  show ?thesis
    using build_fold_count [OF g assms(3)] ok h'
    by (simp add: handler_ok_def get_total_configs_def nb_combs_product algebra_simps)
qed

theorem start_conservation_witness:
  "get_total_configs demo_started + 2 * (2 - 0) = (8 :: int)"
  using start_conservation [OF demo_reach demo_start]
  by (simp add: demo_started_def demo_handler_def blank_handler_def get_nb_combs_def)

text \<open>C6: in every handler reachable without loading a file, once the experiment has started,
  \<^verbatim>\<open>get_configs_left\<close> is the number of queued configurations, and configurations left plus
  configurations popped is \<^verbatim>\<open>get_total_configs\<close>.\<close>

theorem handler_accounting:
  assumes "handler_reach h" and "started h"
  shows "\<exists>l q. get_configs_left h = Inr l \<and> get_configs_popped h = Inr q \<and>
    l = int (length (params_sets h)) \<and> 0 \<le> q \<and> l + q = get_total_configs h"
  using handler_reach_ok [OF assms(1)] assms(2)
  by (auto simp: handler_ok_def get_configs_left_def get_configs_popped_def get_total_configs_def)

theorem handler_accounting_witness:
  "\<exists>l q. get_configs_left demo_started = Inr l \<and> get_configs_popped demo_started = Inr q \<and>
    l = 4 \<and> 0 \<le> q \<and> l + q = get_total_configs demo_started"
  using handler_accounting [OF demo_started_reach] by (simp add: demo_started_def)

lemma drain_accounting:
  assumes "handler_ok h" and "started h" and "length (params_sets h) < fuel"
  shows "\<exists>h'. drain peek_params pop_params fuel h = Some (Inr (params_sets h, h')) \<and>
    handler_ok h' \<and> started h' \<and> params_sets h' = [] \<and> total_configs h' = total_configs h"
proof -
  note rdy = handler_ok_ready [OF assms(1,2)]
  obtain h' where h': "drain peek_params pop_params fuel h = Some (Inr (params_sets h, h'))"
    "queue_ready h'" "pending_sets h' = []"
    using param_queue.drain_pending [OF rdy, of fuel] assms(3) map_Some_pending [OF rdy]
    by (auto simp: pending_sets_def)
  have "handler_ok h' \<and> started h' \<and> total_configs h' = total_configs h"
  proof (rule param_queue.drain_preserves [OF h'(1) rdy])
    show "handler_ok h \<and> started h \<and> total_configs h = total_configs h" using assms by simp
  next
    fix g x ys g'
    assume "handler_ok g \<and> started g \<and> total_configs g = total_configs h"
      and "pending_sets g = x # ys" and "pop_params g = Inr (Some x, g')"
    then show "handler_ok g' \<and> started g' \<and> total_configs g' = total_configs h"
      using pop_params_started [of g] by (cases "params_sets g") (auto simp: pending_sets_def)
  qed
  then show ?thesis using h' by (auto simp: pending_sets_def)
qed

text \<open>C7: the loop \<^verbatim>\<open>while peek_params() is not None: pop_params()\<close> run from a started handler
  ends, hands out every queued configuration once and in order, and leaves the counters at
  \<^verbatim>\<open>left = 0\<close> and \<^verbatim>\<open>popped = total\<close>; one more round than there are configurations is enough.\<close>

theorem drain_hands_out_all:
  assumes "handler_reach h" and "start h = Inr h1" and "length (params_sets h1) < fuel"
  shows "\<exists>h2. drain peek_params pop_params fuel h1 = Some (Inr (params_sets h1, h2)) \<and>
    get_configs_left h2 = Inr 0 \<and> get_configs_popped h2 = Inr (get_total_configs h1)"
proof -
  have "handler_reach h1" using assms(1,2) by (blast intro: reach_step step_start)
  moreover have "started h1" using assms(2) by (auto simp: start_def build_configs_def Let_def split: if_splits)
  ultimately obtain h2 where "drain peek_params pop_params fuel h1 = Some (Inr (params_sets h1, h2))"
    "handler_ok h2" "started h2" "params_sets h2 = []" "total_configs h2 = total_configs h1"
    using drain_accounting [OF handler_reach_ok _ assms(3)] by blast
  then show ?thesis
    by (auto simp: handler_ok_def get_configs_left_def get_configs_popped_def get_total_configs_def)
qed

theorem drain_hands_out_all_witness:
  "\<exists>h2. drain peek_params pop_params 5 demo_started = Some (Inr (params_sets demo_started, h2)) \<and>
    get_configs_left h2 = Inr 0 \<and> get_configs_popped h2 = Inr (get_total_configs demo_started)"
  by (rule drain_hands_out_all [OF demo_reach demo_start]) (simp add: demo_started_def)

text \<open>Once a configuration was asked for (\<^verbatim>\<open>start\<close>, \<^verbatim>\<open>peek_params\<close> or
  \<^verbatim>\<open>pop_params\<close> returned), adding a parameter, adding a filter and starting again all raise a
  \<open>RuntimeError\<close>.\<close>

theorem no_change_after_start:
  assumes "handler_reach h"
    and "start h = Inr h' \<or> (\<exists>r. peek_params h = Inr (r, h')) \<or> (\<exists>r. pop_params h = Inr (r, h'))"
  shows "(\<exists>m. add_param name vals h' = Inl (RuntimeError m)) \<and>
    (\<exists>m. add_param_filter f h' = Inl (RuntimeError m)) \<and> (\<exists>m. start h' = Inl (RuntimeError m))"
proof -
  have built: "started g" if "ensure_built h = Inr g" for g
    using that ensure_built_ok handler_reach_ok [OF assms(1)] by blast
  have "started h'"
    using assms(2)
  proof (elim disjE exE)
    assume "start h = Inr h'"
    then show ?thesis by (auto simp: start_def build_configs_def Let_def split: if_splits)
  next
    fix r assume "peek_params h = Inr (r, h')"
    then obtain g where "ensure_built h = Inr g"
      "(case params_sets g of [] \<Rightarrow> Inr (None, g) | p # _ \<Rightarrow> Inr (p, g)) = (Inr (r, h') :: ('a pset option \<times> 'a handler) res)"
      by (auto simp: peek_params_def)
    then show ?thesis using built by (cases "params_sets g") auto
  next
    fix r assume pop: "pop_params h = Inr (r, h')"
    then obtain g where g: "ensure_built h = Inr g" by (auto simp: pop_params_def)
    then show ?thesis using built [OF g] pop
      by (cases "params_sets g") (auto simp: pop_params_def split: option.splits)
  qed
  then show ?thesis by (simp add: handler_defs)
qed

theorem no_change_after_start_witness:
  "(\<exists>m. add_param ''n_rules'' [1] demo_started = Inl (RuntimeError m)) \<and>
    (\<exists>m. add_param_filter demo_filter demo_started = Inl (RuntimeError m)) \<and>
    (\<exists>m. start demo_started = Inl (RuntimeError m))"
  by (rule no_change_after_start [OF demo_reach]) (simp add: demo_start)

subsection \<open>Saving, resuming and the hash\<close>

lemma save_load_after_pop:
  assumes "handler_ok h" and "started h" and "params_sets h = Some c # rest"
    and "pop_params h = Inr (r, h1)" and "save_state h1 = Inr s" and "load_state (Some s) = Some h2"
  shows "started h2 \<and> params_sets h2 = params_sets h \<and> configs_left h2 = Some (int (length rest)) \<and>
    (\<exists>q. configs_popped h2 = Some q) \<and> total_configs h2 = 0 \<and> well_named h2 \<and> queue_ready h2"
  using assms
  by (auto simp: handler_ok_def pop_params_def ensure_built_def save_state_def load_state_def
      blank_handler_def well_named_def queue_ready_def)

text \<open>Resuming never skips work: when an experiment is saved after a configuration was popped
  and loaded again, the loop hands out that configuration once more and then every configuration
  still queued, in order.\<close>

theorem resume_repeats_current:
  assumes "handler_reach h" and "started h" and "params_sets h = Some c # rest"
    and "pop_params h = Inr (r, h1)" and "save_state h1 = Inr s" and "load_state (Some s) = Some h2"
    and "length (params_sets h) < fuel"
  shows "\<exists>h3. drain peek_params pop_params fuel h2 = Some (Inr (Some c # params_sets h1, h3)) \<and>
    params_sets h3 = []"
proof -
  note l = save_load_after_pop [OF handler_reach_ok [OF assms(1)] assms(2-6)]
  have "params_sets h1 = rest"
    using assms(4) pop_params_started [OF handler_reach_ok [OF assms(1)] assms(2,3)] by auto
  moreover have "map Some (pending_sets h2) = params_sets h2" using l map_Some_pending by blast
  moreover have "length (pending_sets h2) < fuel" using l assms(7) by (simp add: pending_sets_def)
  ultimately show ?thesis
    using param_queue.drain_pending [of h2 fuel] l assms(3) by (auto simp: pending_sets_def)
qed

definition demo_popped :: "int handler" where
  "demo_popped = demo_started\<lparr>params_sets := tl (params_sets demo_started), configs_left := Some 3,
     configs_popped := Some 1, curr_params := hd (params_sets demo_started)\<rparr>"

definition demo_saved :: "int saved" where
  "demo_saved = \<lparr>s_started = True, s_parameter_names = [''rgx'', ''hs''],
     s_parameter_vals = [[0, 1], [0, 1]], s_params_sets = tl (params_sets demo_started),
     s_n_repeats = 2, s_configs_left = 3, s_configs_popped = 1,
     s_curr_params = hd (params_sets demo_started)\<rparr>"

definition demo_loaded :: "int handler" where
  "demo_loaded = (blank_handler 2)\<lparr>started := True, parameter_names := [''rgx'', ''hs''],
     parameter_vals := [[0, 1], [0, 1]], params_sets := params_sets demo_started,
     configs_left := Some 3, configs_popped := Some 1\<rparr>"

lemmas demo_resume_defs = demo_started_def demo_popped_def demo_saved_def demo_loaded_def
  demo_handler_def blank_handler_def

lemma demo_pop: "pop_params demo_started = Inr (hd (params_sets demo_started), demo_popped)"
  by (simp add: pop_params_def ensure_built_def demo_resume_defs)

lemma demo_save: "save_state demo_popped = Inr demo_saved"
  by (simp add: save_state_def demo_resume_defs)

lemma demo_load: "load_state (Some demo_saved) = Some demo_loaded"
  by (simp add: load_state_def demo_resume_defs)

lemma demo_sets: "params_sets demo_started =
    Some [(''rgx'', 0), (''hs'', 1)] # tl (params_sets demo_started)"
  by (simp add: demo_started_def)

theorem resume_repeats_current_witness:
  "\<exists>h3. drain peek_params pop_params 5 demo_loaded =
      Some (Inr (Some [(''rgx'', 0), (''hs'', 1)] # params_sets demo_popped, h3)) \<and> params_sets h3 = []"
  by (rule resume_repeats_current [OF demo_started_reach _ demo_sets demo_pop demo_save demo_load])
    (simp_all add: demo_started_def)

text \<open>C8: the counters of a resumed experiment do not describe its queue: \<^verbatim>\<open>load_state\<close> puts the
  interrupted configuration back without counting it and forgets the total, so
  \<^verbatim>\<open>get_configs_left\<close> is one less than the number of queued configurations, the total reads 0,
  and popping everything leaves \<open>-1\<close> configurations to run.\<close>

theorem resume_miscounts:
  assumes "handler_reach h" and "started h" and "params_sets h = Some c # rest"
    and "pop_params h = Inr (r, h1)" and "save_state h1 = Inr s" and "load_state (Some s) = Some h2"
    and "length (params_sets h) < fuel"
  shows "get_configs_left h2 = Inr (int (length (params_sets h2)) - 1) \<and> get_total_configs h2 = 0 \<and>
    (\<exists>xs h3. drain peek_params pop_params fuel h2 = Some (Inr (xs, h3)) \<and> get_configs_left h3 = Inr (- 1))"
proof -
  note l = save_load_after_pop [OF handler_reach_ok [OF assms(1)] assms(2-6)]
  have "length (pending_sets h2) < fuel" using l assms(7) by (simp add: pending_sets_def)
  then obtain h3 where h3: "drain peek_params pop_params fuel h2 =
      Some (Inr (map Some (pending_sets h2), h3))" "pending_sets h3 = []" "queue_ready h3"
    using param_queue.drain_pending l by blast
  have "configs_left h3 = Some (int (length (params_sets h3)) - 1)"
  proof (rule param_queue.drain_preserves [OF h3(1)])
    show "queue_ready h2" using l by blast
    show "configs_left h2 = Some (int (length (params_sets h2)) - 1)" using l assms(3) by simp
  next
    fix g x ys g'
    assume "queue_ready g" "configs_left g = Some (int (length (params_sets g)) - 1)"
      "pending_sets g = x # ys" "pop_params g = Inr (Some x, g')"
    then show "configs_left g' = Some (int (length (params_sets g')) - 1)"
      by (auto simp: queue_ready_def pop_params_def ensure_built_def pending_sets_def)
  qed
  then show ?thesis
    using l h3 assms(3)
    by (auto simp: get_configs_left_def get_total_configs_def queue_ready_def pending_sets_def)
qed

theorem resume_miscounts_witness:
  "get_configs_left demo_loaded = Inr (int (length (params_sets demo_loaded)) - 1) \<and>
    get_total_configs demo_loaded = 0 \<and>
    (\<exists>xs h3. drain peek_params pop_params 5 demo_loaded = Some (Inr (xs, h3)) \<and>
      get_configs_left h3 = Inr (- 1))"
  by (rule resume_miscounts [OF demo_started_reach _ demo_sets demo_pop demo_save demo_load])
    (simp_all add: demo_started_def)

lemma hash_loop_sum:
  assumes "length ns = length vs" and "\<And>v. v \<in> set vs \<Longrightarrow> hv v = Inr (w v)"
    and "0 \<le> h" and "h < 15485863"
  shows "hash_loop hs hv ns vs h =
    Inr ((h + sum_list (map (\<lambda>(n, v). hs n + w v) (zip ns vs))) mod 15485863)"
  using assms
proof (induction ns vs arbitrary: h rule: list_induct2)
  case (Cons n ns v vs)
  let ?h' = "(h + (hs n + w v)) mod 15485863"
  have "hash_loop hs hv (n # ns) (v # vs) h = hash_loop hs hv ns vs ?h'"
    using Cons.prems by simp
  also have "\<dots> = Inr ((?h' + sum_list (map (\<lambda>(n, v). hs n + w v) (zip ns vs))) mod 15485863)"
    by (rule Cons.IH) (use Cons.prems in auto)
  also have "(?h' + sum_list (map (\<lambda>(n, v). hs n + w v) (zip ns vs))) mod 15485863 =
      (h + (hs n + w v) + sum_list (map (\<lambda>(n, v). hs n + w v) (zip ns vs))) mod 15485863"
    by (rule mod_add_left_eq)
  finally show ?case by (simp add: add.assoc)
qed simp

text \<open>The hash that decides whether a saved experiment may be resumed does not see the order
  of the parameters: two handlers with the same (name, values) pairs in any order have the same
  hash, a number below 15485863, although they run their configurations in different orders.\<close>

theorem hash_ignores_order:
  assumes "length (parameter_names h) = length (parameter_vals h)"
    and "length (parameter_names g) = length (parameter_vals g)"
    and "mset (zip (parameter_names h) (parameter_vals h)) = mset (zip (parameter_names g) (parameter_vals g))"
    and "\<And>v. hv v = Inr (w v)"
  shows "handler_hash hs hv h = handler_hash hs hv g \<and>
    (\<exists>x. handler_hash hs hv h = Inr x \<and> 0 \<le> x \<and> x < 15485863)"
proof -
  let ?f = "\<lambda>(n, v). hs n + w v"
  have "sum_list (map ?f (zip (parameter_names h) (parameter_vals h))) =
      sum_list (map ?f (zip (parameter_names g) (parameter_vals g)))"
    using arg_cong [OF assms(3), of "\<lambda>M. sum_mset (image_mset ?f M)"]
    by (simp only: mset_map [symmetric] sum_mset_sum_list)
  moreover have "handler_hash hs hv h =
      Inr ((0 + sum_list (map ?f (zip (parameter_names h) (parameter_vals h)))) mod 15485863)"
    unfolding handler_hash_def by (rule hash_loop_sum [OF assms(1)]) (simp_all add: assms(4))
  moreover have "handler_hash hs hv g =
      Inr ((0 + sum_list (map ?f (zip (parameter_names g) (parameter_vals g)))) mod 15485863)"
    unfolding handler_hash_def by (rule hash_loop_sum [OF assms(2)]) (simp_all add: assms(4))
  ultimately show ?thesis by simp
qed

theorem hash_ignores_order_witness:
  "handler_hash (\<lambda>n. int (length n)) (\<lambda>v. Inr (sum_list v))
      (blank_handler 1\<lparr>parameter_names := [''a'', ''bc''], parameter_vals := [[1, 2], [3 :: int]]\<rparr>) =
    handler_hash (\<lambda>n. int (length n)) (\<lambda>v. Inr (sum_list v))
      (blank_handler 1\<lparr>parameter_names := [''bc'', ''a''], parameter_vals := [[3], [1, 2]]\<rparr>)"
  by (rule conjunct1, rule hash_ignores_order) (auto simp: blank_handler_def)

end
