(* ===== verification/Events.thy ===== *)
theory Events
  imports Params
begin

text \<open>
  \<^verbatim>\<open>ParameterEventManager\<close> of autotest/expelib.py: callbacks that run when some (or all) of the
  parameters they watch differ from those of the previous configuration, and the one event that
  autotest/exp_runner.py registers with it, the preparation of the rules on the receiver.

  A callback receives the parameters and may change everything else that exists (the current
  configuration, the remote machine): that is the state \<open>'s\<close>.  It may raise.
\<close>

section \<open>State and operations\<close>

definition evt_conjunction :: string where
  "evt_conjunction = ''conjunction''"

definition evt_disjunction :: string where
  "evt_disjunction = ''disjunction''"

type_synonym ('v, 's) callback = "'v pset \<Rightarrow> 's \<Rightarrow> 's res"

record ('v, 's) event_manager =
  trigger_on_blank :: bool
  callbacks :: "('v, 's) callback list"
  triggers :: "(string \<times> string set) list"
  previous_params :: "'v pset option"

definition new_event_manager :: "bool \<Rightarrow> ('v, 's) event_manager" where
  "new_event_manager blank =
     \<lparr>trigger_on_blank = blank, callbacks = [], triggers = [], previous_params = None\<rparr>"

definition register_parameter_event ::
  "string list \<Rightarrow> ('v, 's) callback \<Rightarrow> string \<Rightarrow> ('v, 's) event_manager
     \<Rightarrow> ('v, 's) event_manager" where
  "register_parameter_event trigger callback mode m =
     m\<lparr>callbacks := callbacks m @ [callback], triggers := triggers m @ [(mode, set trigger)]\<rparr>"

text \<open>The keys of the previous configuration whose value changed; a key that the new one lacks
  is a \<open>KeyError\<close>, and a key that only the new one has is not looked at.\<close>

fun diff_keys :: "'v pset \<Rightarrow> string list \<Rightarrow> 'v pset \<Rightarrow> string list res" where
  "diff_keys prev [] new = Inr []"
| "diff_keys prev (k # ks) new =
     res_bind (dict_get prev k) (\<lambda>a. res_bind (dict_get new k) (\<lambda>b.
     res_bind (diff_keys prev ks new) (\<lambda>d. Inr (if a \<noteq> b then k # d else d))))"

definition get_param_diff :: "('v, 's) event_manager \<Rightarrow> 'v pset \<Rightarrow> string set res" where
  "get_param_diff m new =
     (case previous_params m of
        None \<Rightarrow> Inr (if trigger_on_blank m then set (keys new) else {})
      | Some prev \<Rightarrow> res_bind (diff_keys prev (keys prev) new) (\<lambda>d. Inr (set d)))"

definition fires :: "string set \<Rightarrow> string \<times> string set \<Rightarrow> bool" where
  "fires curr_trigger evt =
     (case evt of (mode, trigger) \<Rightarrow>
        (if mode = evt_disjunction \<and> curr_trigger \<inter> trigger \<noteq> {} then True
         else mode = evt_conjunction \<and> trigger \<subseteq> curr_trigger))"

fun run_events ::
  "string set \<Rightarrow> 'v pset \<Rightarrow> (string \<times> string set) list \<Rightarrow> ('v, 's) callback list \<Rightarrow> 's \<Rightarrow> 's res" where
  "run_events d params [] cbs s = Inr s"
| "run_events d params (t # ts) cbs s =
     (if fires d t
      then (case cbs of
              [] \<Rightarrow> Inl IndexError
            | cb # cbs' \<Rightarrow> res_bind (cb params s) (run_events d params ts cbs'))
      else run_events d params ts (tl cbs) s)"

definition process_parameters ::
  "('v, 's) event_manager \<Rightarrow> 'v pset \<Rightarrow> 's \<Rightarrow> (('v, 's) event_manager \<times> 's) res" where
  "process_parameters m params s =
     res_bind (get_param_diff m params) (\<lambda>d.
     res_bind (run_events d params (triggers m) (callbacks m) s) (\<lambda>s'.
       Inr (m\<lparr>previous_params := Some params\<rparr>, s')))"

section \<open>Which callbacks run\<close>

lemma diff_keys_total:
  assumes "\<And>k. k \<in> set ks \<Longrightarrow> map_of prev k \<noteq> None \<and> map_of new k \<noteq> None"
  shows "diff_keys prev ks new = Inr (filter (\<lambda>k. map_of prev k \<noteq> map_of new k) ks)"
  using assms
proof (induction ks)
  case (Cons k ks)
  then obtain a b where "map_of prev k = Some a" "map_of new k = Some b" by fastforce
  then show ?case using Cons by (simp add: dict_get_def)
qed simp

lemma map_of_keys: "k \<in> set (keys d) \<Longrightarrow> map_of d k \<noteq> None"
  by (simp add: map_of_eq_None_iff)

lemma get_param_diff_some:
  assumes "previous_params m = Some prev" and "set (keys prev) \<subseteq> set (keys new)"
  shows "get_param_diff m new = Inr {k \<in> set (keys prev). map_of prev k \<noteq> map_of new k}"
proof -
  have "diff_keys prev (keys prev) new = Inr (filter (\<lambda>k. map_of prev k \<noteq> map_of new k) (keys prev))"
    by (rule diff_keys_total) (use assms(2) in \<open>blast dest: map_of_keys\<close>)
  then show ?thesis using assms(1) by (auto simp: get_param_diff_def)
qed

lemma run_events_matching:
  assumes "length cbs = length ts" and "\<And>cb s. cb \<in> set cbs \<Longrightarrow> cb params s = Inr (eff cb s)"
  shows "run_events d params ts cbs s =
    Inr (fold eff (map snd (filter (\<lambda>(t, cb). fires d t) (zip ts cbs))) s)"
  using assms
proof (induction ts arbitrary: cbs s)
  case (Cons t ts)
  then obtain cb cbs' where cbs: "cbs = cb # cbs'" by (cases cbs) auto
  have cb: "cb params s = Inr (eff cb s)" using Cons.prems(2) cbs by simp
  have "run_events d params ts cbs' s' =
      Inr (fold eff (map snd (filter (\<lambda>(t, cb). fires d t) (zip ts cbs'))) s')" for s'
    by (rule Cons.IH) (use Cons.prems cbs in auto)
  then show ?case using cbs cb by simp
qed simp

lemma run_events_none:
  "(\<And>t. t \<in> set ts \<Longrightarrow> \<not> fires d t) \<Longrightarrow> run_events d params ts cbs s = Inr s"
  by (induction ts arbitrary: cbs) auto

section \<open>The preparation event of the experiment\<close>

text \<open>
  \<^verbatim>\<open>main\<close> registers one event: on a change of one of \<open>prep_trigger\<close> the script
  \<^verbatim>\<open>prep_rules.sh\<close> is run on the receiver.  The script samples, extracts and compiles the rules
  of the configuration it is rendered with; here the receiver is the configuration that was last
  prepared, \<open>None\<close> for a clean directory.
\<close>

definition prep_trigger :: "string list" where
  "prep_trigger = [''n_rules'', ''rgx_enabled'', ''rule_subset_ratio'']"

type_synonym 'v receiver = "'v pset option"

definition prep_rules :: "('v, 'v receiver) callback" where
  "prep_rules params r = Inr (Some params)"

definition params_evts :: "bool \<Rightarrow> ('v, 'v receiver) event_manager" where
  "params_evts loaded_from_save =
     register_parameter_event prep_trigger prep_rules evt_disjunction
       (new_event_manager (\<not> loaded_from_save))"

fun process_all ::
  "('v, 's) event_manager \<Rightarrow> 'v pset list \<Rightarrow> 's \<Rightarrow> (('v, 's) event_manager \<times> 's) res" where
  "process_all m [] s = Inr (m, s)"
| "process_all m (p # ps) s = res_bind (process_parameters m p s) (\<lambda>(m', s'). process_all m' ps s')"

lemma process_prep:
  assumes "triggers m = triggers (params_evts b)" and "callbacks m = callbacks (params_evts b)"
    and "get_param_diff m p = Inr d"
  shows "process_parameters m p r =
    Inr (m\<lparr>previous_params := Some p\<rparr>, if d \<inter> set prep_trigger \<noteq> {} then Some p else r)"
  using assms
  by (simp add: process_parameters_def params_evts_def register_parameter_event_def
      new_event_manager_def fires_def prep_rules_def evt_disjunction_def evt_conjunction_def)

definition agree_on :: "string set \<Rightarrow> 'v pset \<Rightarrow> 'v pset \<Rightarrow> bool" where
  "agree_on K p q \<longleftrightarrow> (\<forall>k \<in> K. map_of p k = map_of q k)"

lemma process_all_prep:
  assumes "triggers m = triggers (params_evts b)" "callbacks m = callbacks (params_evts b)"
    and "previous_params m = Some prev" "r = Some q" "agree_on (set prep_trigger) q prev"
    and "set (keys prev) = K" "set prep_trigger \<subseteq> K" "\<And>p. p \<in> set ps \<Longrightarrow> set (keys p) = K"
  shows "\<exists>m' q'. process_all m ps r = Inr (m', Some q') \<and> q' \<in> insert q (set ps) \<and>
    agree_on (set prep_trigger) q' (last (prev # ps))"
  using assms
proof (induction ps arbitrary: m prev q r)
  case (Cons p ps)
  let ?d = "{k \<in> set (keys prev). map_of prev k \<noteq> map_of p k}"
  have keys: "set (keys p) = K" using Cons.prems by simp
  have d: "get_param_diff m p = Inr ?d"
    by (rule get_param_diff_some) (use Cons.prems keys in auto)
  let ?m = "m\<lparr>previous_params := Some p\<rparr>"
  define q1 where "q1 = (if ?d \<inter> set prep_trigger \<noteq> {} then p else q)"
  have step: "process_parameters m p r = Inr (?m, Some q1)"
    using process_prep [OF Cons.prems(1,2) d, of r] Cons.prems(4) by (auto simp: q1_def)
  have agree: "agree_on (set prep_trigger) q1 p"
    using Cons.prems(5-7) by (auto simp: q1_def agree_on_def)
  have "\<exists>m' q'. process_all ?m ps (Some q1) = Inr (m', Some q') \<and> q' \<in> insert q1 (set ps) \<and>
    agree_on (set prep_trigger) q' (last (p # ps))"
    by (rule Cons.IH [OF _ _ _ refl agree]) (use Cons.prems keys in auto)
  then obtain m' q' where r: "process_all ?m ps (Some q1) = Inr (m', Some q')"
    "q' \<in> insert q1 (set ps)" "agree_on (set prep_trigger) q' (last (p # ps))" by blast
  have "q' \<in> insert q (set (p # ps))" using r(2) by (auto simp: q1_def split: if_splits)
  moreover have "last (prev # p # ps) = last (p # ps)" by simp
  ultimately show ?case using step r(1,3) by auto
qed auto

section \<open>Properties\<close>

text \<open>C9: after the first configuration, processing the next one runs exactly the callbacks whose
  trigger matches the set of changed parameters (some watched parameter changed for a disjunction,
  all of them for a conjunction), each once and in the order of registration.\<close>

theorem process_runs_matching:
  assumes "length (callbacks m) = length (triggers m)" and "previous_params m = Some prev"
    and "set (keys prev) \<subseteq> set (keys params)"
    and "\<And>cb s. cb \<in> set (callbacks m) \<Longrightarrow> cb params s = Inr (eff cb s)"
    and "d = {k \<in> set (keys prev). map_of prev k \<noteq> map_of params k}"
  shows "process_parameters m params s = Inr (m\<lparr>previous_params := Some params\<rparr>,
    fold eff (map snd (filter (\<lambda>((mode, t), cb).
        mode = evt_disjunction \<and> d \<inter> t \<noteq> {} \<or> mode = evt_conjunction \<and> t \<subseteq> d)
      (zip (triggers m) (callbacks m)))) s)"
proof -
  have "(\<lambda>(t, cb :: ('a, 'b) callback). fires d t) = (\<lambda>((mode, t), cb).
        mode = evt_disjunction \<and> d \<inter> t \<noteq> {} \<or> mode = evt_conjunction \<and> t \<subseteq> d)"
    by (auto simp: fires_def fun_eq_iff)
  then show ?thesis
    using run_events_matching [of "callbacks m" "triggers m" params eff d s, OF assms(1)] assms(4)
      get_param_diff_some [OF assms(2,3)] assms(5)
    by (simp add: process_parameters_def)
qed

definition demo_callback :: "nat \<Rightarrow> (int, nat list) callback" where
  "demo_callback i p s = Inr (s @ [i])"

definition demo_events :: "(int, nat list) event_manager" where
  "demo_events = (register_parameter_event [''a'', ''b''] (demo_callback 1) evt_conjunction
     (register_parameter_event [''a'', ''b''] (demo_callback 0) evt_disjunction
       (new_event_manager True)))\<lparr>previous_params := Some [(''a'', 1), (''b'', 2)]\<rparr>"

theorem process_runs_matching_witness:
  "process_parameters demo_events [(''a'', 1), (''b'', 3)] [] =
     Inr (demo_events\<lparr>previous_params := Some [(''a'', 1), (''b'', 3)]\<rparr>, [0])"
proof -
  have d: "{''b''} = {k \<in> set (keys [(''a'', 1), (''b'', 2 :: int)]).
      map_of [(''a'', 1), (''b'', 2 :: int)] k \<noteq> map_of [(''a'', 1), (''b'', 3)] k}"
    by auto
  have "process_parameters demo_events [(''a'', 1), (''b'', 3)] [] =
    Inr (demo_events\<lparr>previous_params := Some [(''a'', 1), (''b'', 3)]\<rparr>,
      fold (\<lambda>cb s. case cb [] s of Inr s' \<Rightarrow> s' | Inl e \<Rightarrow> s)
        (map snd (filter (\<lambda>((mode, t), cb). mode = evt_disjunction \<and> {''b''} \<inter> t \<noteq> {} \<or>
            mode = evt_conjunction \<and> t \<subseteq> {''b''}) (zip (triggers demo_events) (callbacks demo_events)))) [])"
    by (rule process_runs_matching [OF _ _ _ _ d])
      (auto simp: demo_events_def register_parameter_event_def new_event_manager_def demo_callback_def)
  then show ?thesis
    by (simp add: demo_events_def register_parameter_event_def new_event_manager_def
        demo_callback_def evt_disjunction_def evt_conjunction_def)
qed

text \<open>C10: in a fresh run the receiver is always prepared for the watched parameters: after any
  sequence of configurations over the same parameter names, the rules last prepared were those of
  a configuration of the sequence that agrees with the latest one on \<^verbatim>\<open>n_rules\<close>,
  \<^verbatim>\<open>rgx_enabled\<close> and \<^verbatim>\<open>rule_subset_ratio\<close>.\<close>

theorem fresh_run_prepared:
  assumes "ps \<noteq> []" and "\<And>p. p \<in> set ps \<Longrightarrow> set (keys p) = K" and "set prep_trigger \<subseteq> K"
  shows "\<exists>m q. process_all (params_evts False) ps r = Inr (m, Some q) \<and> q \<in> set ps \<and>
    agree_on (set prep_trigger) q (last ps)"
proof -
  obtain p ps' where ps: "ps = p # ps'" using assms(1) by (cases ps) auto
  have d: "get_param_diff (params_evts False) p = Inr K"
    using assms(2) ps
    by (simp add: get_param_diff_def params_evts_def register_parameter_event_def new_event_manager_def)
  have ne: "K \<inter> set prep_trigger \<noteq> {}" using assms(3) by (auto simp: prep_trigger_def)
  let ?m = "(params_evts False)\<lparr>previous_params := Some p\<rparr>"
  have step: "process_parameters (params_evts False) p r = Inr (?m, Some p)"
    using process_prep [OF refl refl d, of r] ne by simp
  have "\<exists>m' q'. process_all ?m ps' (Some p) = Inr (m', Some q') \<and> q' \<in> insert p (set ps') \<and>
    agree_on (set prep_trigger) q' (last (p # ps'))"
    by (rule process_all_prep [where b = False and K = K])
      (use assms ps in \<open>auto simp: agree_on_def\<close>)
  then show ?thesis using step ps by auto
qed

definition demo_run :: "int pset list" where
  "demo_run = [[(''n_rules'', 1), (''rgx_enabled'', 1), (''rule_subset_ratio'', 1), (''pkt_size'', 1)],
     [(''n_rules'', 1), (''rgx_enabled'', 1), (''rule_subset_ratio'', 1), (''pkt_size'', 2)]]"

theorem fresh_run_prepared_witness:
  "\<exists>m q. process_all (params_evts False) demo_run None = Inr (m, Some q) \<and> q \<in> set demo_run \<and>
    agree_on (set prep_trigger) q (last demo_run)"
  by (rule fresh_run_prepared [where K = "{''n_rules'', ''rgx_enabled'', ''rule_subset_ratio'', ''pkt_size''}"])
    (auto simp: demo_run_def prep_trigger_def)

text \<open>The guarantee stops at the watched parameters and at a resume.  A change of any other
  parameter alone (\<^verbatim>\<open>rules_use_pcre_kw\<close> or \<^verbatim>\<open>pattern_db\<close>, which
  \<^verbatim>\<open>prep_rules.sh\<close> also reads) keeps the old rules on the receiver, and in a run resumed from a
  file the first configuration never prepares them, although \<^verbatim>\<open>setup\<close> has emptied the
  directory.\<close>

theorem preparation_skipped:
  assumes "set (keys p) = set (keys p')" and "agree_on (set prep_trigger) p p'"
  shows "process_all (params_evts True) [p] r = Inr ((params_evts True)\<lparr>previous_params := Some p\<rparr>, r) \<and>
    (\<exists>m. process_all ((params_evts b)\<lparr>previous_params := Some p\<rparr>) [p'] r = Inr (m, r))"
proof
  have "get_param_diff (params_evts True) p = Inr {}"
    by (simp add: get_param_diff_def params_evts_def register_parameter_event_def new_event_manager_def)
  then show "process_all (params_evts True) [p] r =
      Inr ((params_evts True)\<lparr>previous_params := Some p\<rparr>, r)"
    using process_prep [OF refl refl, of True p "{}" r] by simp
  let ?m = "(params_evts b)\<lparr>previous_params := Some p\<rparr>"
  have d: "get_param_diff ?m p' = Inr {k \<in> set (keys p). map_of p k \<noteq> map_of p' k}"
    by (rule get_param_diff_some) (use assms(1) in auto)
  have "{k \<in> set (keys p). map_of p k \<noteq> map_of p' k} \<inter> set prep_trigger = {}"
    using assms(2) by (auto simp: agree_on_def)
  moreover have "process_parameters ?m p' r = Inr (?m\<lparr>previous_params := Some p'\<rparr>,
      if {k \<in> set (keys p). map_of p k \<noteq> map_of p' k} \<inter> set prep_trigger \<noteq> {} then Some p' else r)"
    by (rule process_prep [OF _ _ d, of b]) simp_all
  ultimately show "\<exists>m. process_all ?m [p'] r = Inr (m, r)" by simp
qed

theorem preparation_skipped_witness:
  "\<exists>m. process_all ((params_evts False)\<lparr>previous_params := Some [(''n_rules'', ''1''), (''rules_use_pcre_kw'', ''1'')]\<rparr>)
      [[(''n_rules'', ''1''), (''rules_use_pcre_kw'', ''0'')]]
      (Some [(''n_rules'', ''1''), (''rules_use_pcre_kw'', ''1'')]) =
    Inr (m, Some [(''n_rules'', ''1''), (''rules_use_pcre_kw'', ''1'')])"
  using preparation_skipped [of "[(''n_rules'', ''1''), (''rules_use_pcre_kw'', ''1'')]"
      "[(''n_rules'', ''1''), (''rules_use_pcre_kw'', ''0'')]"
      "Some [(''n_rules'', ''1''), (''rules_use_pcre_kw'', ''1'')]" False]
  by (auto simp: agree_on_def prep_trigger_def)

end
