(* ===== verification/Py_Re.thy ===== *)
theory Py_Re
  imports Py_Prelude
begin

text \<open>
  The fragment of Python's \<^verbatim>\<open>re\<close> the sources use: character classes, concatenation,
  alternation, greedy repetition, numbered groups, \<^verbatim>\<open>^\<close>, \<^verbatim>\<open>$\<close> and a negative one-character
  look-behind.  A pattern is matched by backtracking: \<open>rmatch\<close> lists every way to match at a
  position in the order in which \<^verbatim>\<open>re\<close> tries them, so the first one is the match that
  \<^verbatim>\<open>re\<close> returns.  The regular expressions of the components are constants of type \<open>re\<close>.
\<close>

section \<open>Patterns and matching\<close>

datatype re =
    RClass "char \<Rightarrow> bool"
  | REmpty
  | RSeq re re
  | RAlt re re
  | RStar re
  | RGroup nat re
  | RBegin
  | REnd
  | RNotAfter char

text \<open>A position: what was read, in reverse, and what is left; with it go the groups captured.\<close>

type_synonym groups = "(nat \<times> string) list"
type_synonym mstate = "string \<times> string \<times> groups"

function rmatch :: "re \<Rightarrow> mstate \<Rightarrow> mstate list" where
  "rmatch (RClass P) (b, a, g) =
     (case a of [] \<Rightarrow> [] | c # a' \<Rightarrow> if P c then [(c # b, a', g)] else [])"
| "rmatch REmpty (b, a, g) = [(b, a, g)]"
| "rmatch (RSeq r s) (b, a, g) = concat (map (rmatch s) (rmatch r (b, a, g)))"
| "rmatch (RAlt r s) (b, a, g) = rmatch r (b, a, g) @ rmatch s (b, a, g)"
| "rmatch (RStar r) (b, a, g) =
     concat (map (\<lambda>(b', a', g'). if length a' < length a then rmatch (RStar r) (b', a', g') else [])
       (rmatch r (b, a, g))) @ [(b, a, g)]"
| "rmatch (RGroup i r) (b, a, g) =
     map (\<lambda>(b', a', g'). (b', a', (i, take (length a - length a') a) # g')) (rmatch r (b, a, g))"
| "rmatch RBegin (b, a, g) = (if b = [] then [(b, a, g)] else [])"
| "rmatch REnd (b, a, g) = (if a = [] \<or> a = [CHR 0x0A] then [(b, a, g)] else [])"
| "rmatch (RNotAfter c) (b, a, g) = (if b \<noteq> [] \<and> hd b = c then [] else [(b, a, g)])"
  by pat_completeness auto
termination
  by (relation "measures [\<lambda>(r, st). size r, \<lambda>(r, (b, a, g)). length a]") auto

lemmas rmatch_star = rmatch.simps(5)

declare rmatch.simps(5) [simp del]

fun rlit :: "string \<Rightarrow> re" where
  "rlit [] = REmpty"
| "rlit (c # s) = RSeq (RClass (\<lambda>x. x = c)) (rlit s)"

definition rplus :: "re \<Rightarrow> re" where
  "rplus r = RSeq r (RStar r)"

definition ropt :: "re \<Rightarrow> re" where
  "ropt r = RAlt r REmpty"

text \<open>A match: its text, what follows it, and the groups.\<close>

definition group :: "groups \<Rightarrow> nat \<Rightarrow> string" where
  "group g i = (case map_of g i of None \<Rightarrow> [] | Some s \<Rightarrow> s)"

definition match_at :: "re \<Rightarrow> string \<Rightarrow> string \<Rightarrow> mstate option" where
  "match_at r b a = (case rmatch r (b, a, []) of [] \<Rightarrow> None | m # _ \<Rightarrow> Some m)"

text \<open>\<^verbatim>\<open>re.search\<close>: the leftmost position with a match; the result is what was before the match,
  the matched text, what follows it, and the groups.\<close>

fun search_from :: "re \<Rightarrow> string \<Rightarrow> string \<Rightarrow> (string \<times> string \<times> string \<times> groups) option" where
  "search_from r b a =
     (case match_at r b a of
        Some (b', a', g) \<Rightarrow> Some (rev b, take (length a - length a') a, a', g)
      | None \<Rightarrow> (case a of [] \<Rightarrow> None | c # a' \<Rightarrow> search_from r (c # b) a'))"

declare search_from.simps [simp del]

definition re_search :: "re \<Rightarrow> string \<Rightarrow> (string \<times> string \<times> string \<times> groups) option" where
  "re_search r s = search_from r [] s"

text \<open>\<^verbatim>\<open>re.match\<close>: only at the start.\<close>

definition re_match :: "re \<Rightarrow> string \<Rightarrow> groups option" where
  "re_match r s = map_option (\<lambda>(b, a, g). g) (match_at r [] s)"

text \<open>\<^verbatim>\<open>findall\<close>: the groups of the successive matches; after an empty match the search moves on
  by one character.\<close>

function findall_from :: "re \<Rightarrow> string \<Rightarrow> string \<Rightarrow> groups list" where
  "findall_from r b a =
     (case match_at r b a of
        Some (b', a', g) \<Rightarrow>
          (if length a' < length a then g # findall_from r b' a'
           else g # (case a of [] \<Rightarrow> [] | c # a'' \<Rightarrow> findall_from r (c # b) a''))
      | None \<Rightarrow> (case a of [] \<Rightarrow> [] | c # a'' \<Rightarrow> findall_from r (c # b) a''))"
  by pat_completeness auto
termination
  by (relation "measure (\<lambda>(r, b, a). length a)") auto

declare findall_from.simps [simp del]

definition re_findall :: "re \<Rightarrow> string \<Rightarrow> groups list" where
  "re_findall r s = findall_from r [] s"

text \<open>\<^verbatim>\<open>re.sub\<close> with a function of the matched text, for patterns that never match the empty string
  (an empty match would be skipped over).\<close>

function sub_from :: "re \<Rightarrow> (string \<Rightarrow> string) \<Rightarrow> string \<Rightarrow> string \<Rightarrow> string" where
  "sub_from r f b a =
     (case match_at r b a of
        Some (b', a', g) \<Rightarrow>
          (if length a' < length a then f (take (length a - length a') a) @ sub_from r f b' a'
           else (case a of [] \<Rightarrow> [] | c # a'' \<Rightarrow> c # sub_from r f (c # b) a''))
      | None \<Rightarrow> (case a of [] \<Rightarrow> [] | c # a'' \<Rightarrow> c # sub_from r f (c # b) a''))"
  by pat_completeness auto
termination
  by (relation "measure (\<lambda>(r, f, b, a). length a)") auto

declare sub_from.simps [simp del]

definition re_sub :: "re \<Rightarrow> (string \<Rightarrow> string) \<Rightarrow> string \<Rightarrow> string" where
  "re_sub r f s = sub_from r f [] s"

section \<open>Character classes\<close>

text \<open>\<^verbatim>\<open>\\w\<close>, \<^verbatim>\<open>\\d\<close> and \<^verbatim>\<open>\\s\<close> of \<^verbatim>\<open>str\<close> patterns on the first 256 code points.\<close>

definition is_word :: "char \<Rightarrow> bool" where
  "is_word c \<longleftrightarrow>
     (let n = (of_char c :: nat)
      in 48 \<le> n \<and> n \<le> 57 \<or> 65 \<le> n \<and> n \<le> 90 \<or> n = 95 \<or> 97 \<le> n \<and> n \<le> 122 \<or>
         n \<in> {170, 178, 179, 181, 185, 186, 188, 189, 190} \<or>
         192 \<le> n \<and> n \<noteq> 215 \<and> n \<noteq> 247)"

definition is_ascii_letter :: "char \<Rightarrow> bool" where
  "is_ascii_letter c \<longleftrightarrow>
     (let n = (of_char c :: nat) in 65 \<le> n \<and> n \<le> 90 \<or> 97 \<le> n \<and> n \<le> 122)"

section \<open>Longest matches\<close>

text \<open>
  Where a repeated class is followed by a pattern that cannot start with a character of the
  class, backtracking never helps: the only continuation is after the longest run.
\<close>

lemma star_class_step [simp]:
  "rmatch (RStar (RClass P)) (b, [], g) = [(b, [], g)]"
  "rmatch (RStar (RClass P)) (b, c # a, g) =
     (if P c then rmatch (RStar (RClass P)) (c # b, a, g) else []) @ [(b, c # a, g)]"
  by (simp_all add: rmatch_star)

lemma star_class_refused:
  assumes "\<And>b c a. P c \<Longrightarrow> K (b, c # a, g) = []"
  shows "concat (map K (rmatch (RStar (RClass P)) (b, a, g))) =
     K (rev (takeWhile P a) @ b, dropWhile P a, g)"
proof (induction a arbitrary: b)
  case (Cons c a)
  then show ?case using assms by simp
qed simp

lemma plus_class_refused:
  assumes "\<And>b c a. P c \<Longrightarrow> K (b, c # a, g) = []"
  shows "concat (map K (rmatch (rplus (RClass P)) (b, a, g))) =
     (if takeWhile P a = [] then [] else K (rev (takeWhile P a) @ b, dropWhile P a, g))"
  using star_class_refused [of P K g, OF assms] by (cases a) (auto simp: rplus_def)

lemma take_drop_While: "take (length a - length (dropWhile P a)) a = takeWhile P a"
  by (metis append_eq_conv_conj diff_diff_cancel length_append le_add1 takeWhile_dropWhile_id
      add_diff_cancel_right')

lemma plus_states:
  assumes "(b', a', g') \<in> set (rmatch (rplus (RClass P)) (b, a, g))"
  shows "g' = g \<and> length a' < length a"
proof -
  have star: "(b', a', g') \<in> set (rmatch (RStar (RClass P)) (b, a, g)) \<Longrightarrow>
    g' = g \<and> length a' \<le> length a" for b a
    by (induction a arbitrary: b) (fastforce split: if_splits)+
  show ?thesis
    using assms by (cases a) (auto simp: rplus_def dest: star split: if_splits)
qed

locale munch =
  fixes P :: "char \<Rightarrow> bool" and K :: "mstate \<Rightarrow> mstate list"
  assumes refuse: "P c \<Longrightarrow> K (b, c # a, g) = []"
begin

lemma longest_plus:
  "concat (map K (rmatch (rplus (RClass P)) (b, a, g))) =
     (if takeWhile P a = [] then [] else K (rev (takeWhile P a) @ b, dropWhile P a, g))"
  by (rule plus_class_refused) (rule refuse)

lemma longest_group:
  "concat (map K (rmatch (RGroup i (rplus (RClass P))) (b, a, g))) =
     (if takeWhile P a = [] then []
      else K (rev (takeWhile P a) @ b, dropWhile P a, (i, takeWhile P a) # g))"
proof -
  let ?K = "\<lambda>(b', a', g'). K (b', a', (i, take (length a - length a') a) # g')"
  have "concat (map K (rmatch (RGroup i (rplus (RClass P))) (b, a, g))) =
      concat (map ?K (rmatch (rplus (RClass P)) (b, a, g)))"
    by (simp add: comp_def case_prod_unfold)
  also have "\<dots> = (if takeWhile P a = [] then []
      else ?K (rev (takeWhile P a) @ b, dropWhile P a, g))"
    by (rule plus_class_refused) (simp add: refuse)
  finally show ?thesis by (simp add: take_drop_While)
qed

end

lemma rmatch_plus_seq:
  assumes "\<And>b c a. P c \<Longrightarrow> rmatch s (b, c # a, g) = []"
  shows "rmatch (RSeq (rplus (RClass P)) s) (b, a, g) =
    (if takeWhile P a = [] then [] else rmatch s (rev (takeWhile P a) @ b, dropWhile P a, g))"
  using plus_class_refused [of P "rmatch s" g, OF assms] by simp

lemma re_search_at_start:
  "match_at r [] a = Some (b', a', g) \<Longrightarrow> re_search r a = Some ([], take (length a - length a') a, a', g)"
  unfolding re_search_def by (subst search_from.simps) simp

text \<open>Without that condition the longest run still comes first when it can be continued.\<close>

lemma star_class_first:
  assumes "K (rev (takeWhile P a) @ b, dropWhile P a, g) = m # ms"
  shows "\<exists>ms'. concat (map K (rmatch (RStar (RClass P)) (b, a, g))) = m # ms'"
  using assms
proof (induction a arbitrary: b)
  case (Cons c a)
  show ?case
  proof (cases "P c")
    case True
    then obtain ms' where "concat (map K (rmatch (RStar (RClass P)) (c # b, a, g))) = m # ms'"
      using Cons.IH [of "c # b"] Cons.prems by auto
    then show ?thesis using True by (simp del: rmatch.simps(5))
  next
    case False
    then show ?thesis using Cons.prems by (simp del: rmatch.simps(5))
  qed
qed auto

lemma group_star_first:
  "\<exists>ms. rmatch (RGroup i (RStar (RClass P))) (b, a, g) =
     (rev (takeWhile P a) @ b, dropWhile P a, (i, takeWhile P a) # g) # ms"
proof -
  have "\<exists>ms. concat (map (\<lambda>m. [m]) (rmatch (RStar (RClass P)) (b, a, g))) =
    (rev (takeWhile P a) @ b, dropWhile P a, g) # ms"
    by (rule star_class_first) simp
  then show ?thesis by (auto simp: take_drop_While)
qed

lemma group_plus_first:
  assumes "\<And>b' a'. K (b', a', (i, takeWhile P a) # g) = F b' a' # M b' a'" and "takeWhile P a \<noteq> []"
  shows "\<exists>ms. concat (map K (rmatch (RGroup i (rplus (RClass P))) (b, a, g))) =
    F (rev (takeWhile P a) @ b) (dropWhile P a) # ms"
proof -
  obtain c a' where a: "a = c # a'" "P c" using assms(2) by (cases a) (auto split: if_splits)
  let ?K = "\<lambda>(b', a', g'). K (b', a', (i, take (length a - length a') a) # g')"
  have "?K (rev (takeWhile P a') @ c # b, dropWhile P a', g) =
    F (rev (takeWhile P a') @ c # b) (dropWhile P a') # M (rev (takeWhile P a') @ c # b) (dropWhile P a')"
    using assms(1) take_drop_While [of a P] a by simp
  then obtain ms where "concat (map ?K (rmatch (RStar (RClass P)) (c # b, a', g))) =
      F (rev (takeWhile P a') @ c # b) (dropWhile P a') # ms"
    using star_class_first [of ?K P a' "c # b" g] by blast
  then show ?thesis
    using a by (simp add: rplus_def comp_def case_prod_unfold)
qed

lemma rlit_match:
  "rmatch (rlit p) (b, a, g) =
     (if startswith p a then [(rev p @ b, drop (length p) a, g)] else [])"
  by (induction p arbitrary: b a) (auto split: list.splits)

declare rlit.simps [simp del]

lemma rmatch_lit_seq:
  "rmatch (RSeq (rlit p) r) (b, a, g) =
     (if startswith p a then rmatch r (rev p @ b, drop (length p) a, g) else [])"
  by (simp add: rlit_match)

lemma rmatch_seq_fun: "rmatch (RSeq r s) = (\<lambda>st. concat (map (rmatch s) (rmatch r st)))"
  by (rule ext) (auto simp: split_paired_all)

lemma search_from_step:
  assumes "match_at r b (c # a) = None"
  shows "search_from r b (c # a) = search_from r (c # b) a"
  using assms by (subst search_from.simps) simp

lemma findall_from_skip:
  assumes "match_at r b (c # a) = None"
  shows "findall_from r b (c # a) = findall_from r (c # b) a"
  using assms by (subst findall_from.simps) simp

lemma findall_from_hit:
  assumes "match_at r b a = Some (b', a', g)" and "length a' < length a"
  shows "findall_from r b a = g # findall_from r b' a'"
  using assms by (subst findall_from.simps) simp

lemma rmatch_splits:
  "(b', a', g') \<in> set (rmatch r (b, a, g)) \<Longrightarrow> \<exists>w. a = w @ a' \<and> b' = rev w @ b"
proof (induction r "(b, a, g)" arbitrary: b a g b' a' g' rule: rmatch.induct)
  case (3 r s b a g)
  then obtain b1 a1 g1 where 1: "(b1, a1, g1) \<in> set (rmatch r (b, a, g))"
    and 2: "(b', a', g') \<in> set (rmatch s (b1, a1, g1))" by auto
  show ?case using "3.hyps"(1) [OF 1] "3.hyps"(2) [OF 1 2] by auto
next
  case (5 r b a g)
  then consider "(b', a', g') = (b, a, g)"
    | b1 a1 g1 where "(b1, a1, g1) \<in> set (rmatch r (b, a, g))" "length a1 < length a"
      "(b', a', g') \<in> set (rmatch (RStar r) (b1, a1, g1))"
    by (auto simp: rmatch_star [of r b a g] split: if_splits)
  then show ?case
  proof cases
    case 2
    show ?thesis using "5.hyps"(1) [OF 2(1)] "5.hyps"(2) [OF 2(1) refl refl 2(2,3)] by auto
  qed auto
qed (auto split: list.splits if_splits)

section \<open>Patterns read from left to right\<close>

text \<open>
  The patterns for log lines never look behind and never match the empty string, so a match is
  decided by what is left to read.  \<open>scan\<close> is such a reader: what is left after the match, and
  the groups; \<open>scan_all\<close> and \<open>scan_first\<close> run it over a text.
\<close>

function scan_all :: "(string \<Rightarrow> (string \<times> groups) option) \<Rightarrow> string \<Rightarrow> groups list" where
  "scan_all scan a =
     (case scan a of
        Some (a', g) \<Rightarrow> if length a' < length a then g # scan_all scan a' else []
      | None \<Rightarrow> (case a of [] \<Rightarrow> [] | c # a'' \<Rightarrow> scan_all scan a''))"
  by pat_completeness auto
termination
  by (relation "measure (\<lambda>(scan, a). length a)") auto

declare scan_all.simps [simp del]

fun scan_first :: "(string \<Rightarrow> (string \<times> groups) option) \<Rightarrow> string \<Rightarrow> groups option" where
  "scan_first scan [] = map_option snd (scan [])"
| "scan_first scan (c # a) =
     (case scan (c # a) of Some (a', g) \<Rightarrow> Some g | None \<Rightarrow> scan_first scan a)"

locale scanner =
  fixes r :: re and scan :: "string \<Rightarrow> (string \<times> groups) option"
  assumes scan_correct: "map_option (\<lambda>(b, a, g). (a, g)) (match_at r b a) = scan a"
    and scan_progress: "scan a = Some (a', g) \<Longrightarrow> length a' < length a"
begin

lemma findall_scan: "findall_from r b a = scan_all scan a"
proof (induction "length a" arbitrary: a b rule: less_induct)
  case less
  show ?case
  proof (cases "match_at r b a")
    case None
    then have "scan a = None" using scan_correct [of b a] by simp
    then show ?thesis
      using None less [of "tl a"] by (subst findall_from.simps, subst scan_all.simps) (auto split: list.splits)
  next
    case (Some m)
    obtain b' a' g where m: "m = (b', a', g)" by (cases m) auto
    then have s: "scan a = Some (a', g)" using scan_correct [of b a] Some by simp
    have lt: "length a' < length a" using scan_progress [OF s] .
    have "scan_all scan a = g # scan_all scan a'" using s lt by (subst scan_all.simps) simp
    then show ?thesis
      using findall_from_hit [OF Some [unfolded m] lt] less [OF lt] by simp
  qed
qed

lemma search_scan: "map_option (\<lambda>(pre, w, rest, g). g) (search_from r b a) = scan_first scan a"
proof (induction a arbitrary: b)
  case Nil
  then show ?case
    using scan_correct [of b "[]", symmetric] by (subst search_from.simps) (auto split: option.splits)
next
  case (Cons c a)
  then show ?case
    using scan_correct [of b "c # a"] by (subst search_from.simps) (auto split: option.splits)
qed

end

lemma scan_all_skip: "scan (c # a) = None \<Longrightarrow> scan_all scan (c # a) = scan_all scan a"
  by (subst scan_all.simps) simp

lemma scan_all_hit:
  "scan a = Some (a', g) \<Longrightarrow> length a' < length a \<Longrightarrow> scan_all scan a = g # scan_all scan a'"
  by (subst scan_all.simps) simp

lemma scan_all_skip_prefix:
  assumes "\<And>u v. p = u @ v \<Longrightarrow> v \<noteq> [] \<Longrightarrow> scan (v @ a) = None"
  shows "scan_all scan (p @ a) = scan_all scan a"
  using assms
proof (induction p)
  case (Cons c p)
  have "scan_all scan ((c # p) @ a) = scan_all scan (p @ a)"
    using Cons.prems [of "[]" "c # p"] scan_all_skip [of scan c "p @ a"] by simp
  moreover have "scan_all scan (p @ a) = scan_all scan a"
  proof (rule Cons.IH)
    fix u v assume "p = u @ v" "v \<noteq> []"
    then show "scan (v @ a) = None" using Cons.prems [of "c # u" v] by simp
  qed
  ultimately show ?case by simp
qed simp

end
