(* ===== verification/Result_Parse.thy ===== *)
theory Result_Parse
  imports Py_Re
begin

text \<open>
  The protocol between the test programs and the experiment (autotest/expelib.py): lines
  \<^verbatim>\<open>RESULT-<field> <value><unit>\<close>, \<^verbatim>\<open>EXPRUN-FAILED:<reason>\<close> and \<^verbatim>\<open>EVENT <name>\<close> in the
  terminal output, and the dictionaries of results read from them.

  Where the code lists a Python set, the order is the argument \<open>so\<close> (\<open>set_order\<close> of the prelude).
\<close>

section \<open>The patterns\<close>

definition field_char :: "char \<Rightarrow> bool" where
  "field_char c \<longleftrightarrow> c = CHR ''.'' \<or> is_word c \<or> py_isdigit c \<or> c = CHR ''-''"

definition value_char :: "char \<Rightarrow> bool" where
  "value_char c \<longleftrightarrow> c = CHR ''.'' \<or> py_isdigit c"

definition reason_char :: "char \<Rightarrow> bool" where
  "reason_char c \<longleftrightarrow> c = CHR ''.'' \<or> is_word c \<or> py_isdigit c \<or> c = CHR ''-'' \<or> py_isspace c \<or>
     c = CHR '',''"

definition name_char :: "char \<Rightarrow> bool" where
  "name_char c \<longleftrightarrow> is_word c \<or> py_isdigit c \<or> c = CHR ''-''"

definition result_regex :: re where
  "result_regex = RSeq (rlit ''RESULT-'') (RSeq (RGroup 1 (rplus (RClass field_char)))
     (RSeq (rplus (RClass py_isspace)) (RSeq (RGroup 2 (rplus (RClass value_char)))
       (RGroup 3 (RStar (RClass is_ascii_letter))))))"

definition result_empty_regex :: re where
  "result_empty_regex = RSeq (rlit ''RESULT-'') (RSeq (RGroup 1 (rplus (RClass field_char)))
     (rplus (RClass py_isspace)))"

definition experiment_failed_rgx :: re where
  "experiment_failed_rgx = RSeq (rlit ''EXPRUN-FAILED:'') (RGroup 1 (rplus (RClass reason_char)))"

definition event_regex :: re where
  "event_regex = RSeq (rlit ''EVENT '') (RGroup 1 (rplus (RClass name_char)))"

definition new_data_entry_kw :: string where
  "new_data_entry_kw = ''NEW_DATA_ENTRY''"

section \<open>Reading the output\<close>

definition output_scan_error :: "string \<Rightarrow> string option" where
  "output_scan_error output =
     (case re_search experiment_failed_rgx output of
        None \<Rightarrow> None | Some (_, _, _, g) \<Rightarrow> Some (group g 1))"

text \<open>\<^verbatim>\<open>if err:\<close> also lets an empty reason pass, which the pattern excludes.\<close>

definition check_error :: "string \<Rightarrow> unit res" where
  "check_error output =
     (case output_scan_error output of
        Some (c # err) \<Rightarrow> Inl (RuntimeError (c # err)) | _ \<Rightarrow> Inr ())"

definition host_parse_single_result ::
  "(string list \<Rightarrow> string list) \<Rightarrow> string \<Rightarrow> string list dict" where
  "host_parse_single_result so to_parse =
     (let results = map (\<lambda>g. (group g 1, group g 2)) (re_findall result_regex to_parse);
          fields = so (map fst results);
          ret = dict_update [] (map (\<lambda>f. (py_lower f,
                  map snd (filter (\<lambda>x. fst x = f) results))) fields);
          results_empty = map (\<lambda>g. group g 1) (re_findall result_empty_regex to_parse);
          fields_empty = filter (\<lambda>f. f \<notin> set fields) (so results_empty)
      in dict_update ret (dict_update [] (map (\<lambda>f. (py_lower f, [''NaN''])) fields_empty)))"

definition host_parse_results ::
  "(string list \<Rightarrow> string list) \<Rightarrow> string \<Rightarrow> string list dict list" where
  "host_parse_results so to_parse =
     map (host_parse_single_result so) (split_on new_data_entry_kw to_parse)"

section \<open>What the patterns accept\<close>

lemma field_not_space: "field_char c \<Longrightarrow> \<not> py_isspace c"
  by (auto simp: field_char_def py_isspace_def is_word_def py_isdigit_def)

lemma space_not_value: "py_isspace c \<Longrightarrow> \<not> value_char c"
  by (auto simp: value_char_def py_isspace_def py_isdigit_def)

lemma letter_not_space: "is_ascii_letter c \<Longrightarrow> \<not> py_isspace c"
  by (auto simp: is_ascii_letter_def py_isspace_def)


definition scan_result :: "string \<Rightarrow> (string \<times> groups) option" where
  "scan_result a =
     (if startswith ''RESULT-'' a
      then (let a1 = drop (length ''RESULT-'') a; f = takeWhile field_char a1; r1 = dropWhile field_char a1;
                r2 = dropWhile py_isspace r1; v = takeWhile value_char r2;
                r3 = dropWhile value_char r2; u = takeWhile is_ascii_letter r3
            in if f = [] \<or> takeWhile py_isspace r1 = [] \<or> v = [] then None
               else Some (dropWhile is_ascii_letter r3, [(3, u), (2, v), (1, f)]))
      else None)"

definition scan_empty :: "string \<Rightarrow> (string \<times> groups) option" where
  "scan_empty a =
     (if startswith ''RESULT-'' a
      then (let a1 = drop (length ''RESULT-'') a; f = takeWhile field_char a1; r1 = dropWhile field_char a1
            in if f = [] \<or> takeWhile py_isspace r1 = [] then None
               else Some (dropWhile py_isspace r1, [(1, f)]))
      else None)"

definition scan_event :: "string \<Rightarrow> (string \<times> groups) option" where
  "scan_event a =
     (if startswith ''EVENT '' a
      then (let n = takeWhile name_char (drop (length ''EVENT '') a)
            in if n = [] then None else Some (dropWhile name_char (drop (length ''EVENT '') a), [(1, n)]))
      else None)"

definition scan_failed :: "string \<Rightarrow> (string \<times> groups) option" where
  "scan_failed a =
     (if startswith ''EXPRUN-FAILED:'' a
      then (let n = takeWhile reason_char (drop (length ''EXPRUN-FAILED:'') a)
            in if n = [] then None else Some (dropWhile reason_char (drop (length ''EXPRUN-FAILED:'') a), [(1, n)]))
      else None)"

text \<open>Each repeated class of the patterns is followed by something it cannot be confused with.\<close>

interpretation field_then_space: munch field_char "\<lambda>st. concat (map K (rmatch (rplus (RClass py_isspace)) st))"
  by unfold_locales (auto simp: rplus_def dest: field_not_space)

interpretation space_then_value: munch py_isspace "\<lambda>st. concat (map K (rmatch (RGroup 2 (rplus (RClass value_char))) st))"
  by unfold_locales (auto simp: rplus_def dest: space_not_value)

lemma value_unit_first:
  assumes "takeWhile value_char a \<noteq> []"
  shows "\<exists>b' ms. concat (map (rmatch (RGroup 3 (RStar (RClass is_ascii_letter))))
      (rmatch (RGroup 2 (rplus (RClass value_char))) (b, a, g))) =
    (b', dropWhile is_ascii_letter (dropWhile value_char a),
      (3, takeWhile is_ascii_letter (dropWhile value_char a)) # (2, takeWhile value_char a) # g) # ms"
proof -
  let ?K = "rmatch (RGroup 3 (RStar (RClass is_ascii_letter)))"
  let ?F = "\<lambda>b' a'. (rev (takeWhile is_ascii_letter a') @ b', dropWhile is_ascii_letter a',
    (3, takeWhile is_ascii_letter a') # (2, takeWhile value_char a) # g)"
  have "?K (b', a', (2, takeWhile value_char a) # g) =
      ?F b' a' # tl (?K (b', a', (2, takeWhile value_char a) # g))" for b' a'
    using group_star_first [of 3 is_ascii_letter b' a' "(2, takeWhile value_char a) # g"]
    by (auto simp del: rmatch.simps)
  from group_plus_first [of ?K 2 value_char a g ?F, OF this assms, of b]
  show ?thesis by blast
qed

lemma value_unit_none:
  assumes "takeWhile value_char a = []"
  shows "rmatch (RGroup 2 (rplus (RClass value_char))) (b, a, g) = []"
  using assms by (cases a) (auto simp: rplus_def split: if_splits)

lemma scan_result_correct:
  "map_option (\<lambda>(b, a, g). (a, g)) (match_at result_regex b a) = scan_result a"
proof (cases "startswith ''RESULT-'' a")
  case False
  then have "rmatch result_regex (b, a, []) = []"
    unfolding result_regex_def by (simp only: rmatch_lit_seq if_False)
  then show ?thesis using False by (simp add: match_at_def scan_result_def)
next
  case True
  define a1 where "a1 = drop (length ''RESULT-'') a"
  define f where "f = takeWhile field_char a1"
  define r1 where "r1 = dropWhile field_char a1"
  define r2 where "r2 = dropWhile py_isspace r1"
  define b1 where "b1 = rev ''RESULT-'' @ b"
  define K where "K = rmatch (RGroup 3 (RStar (RClass is_ascii_letter)))"
  have "rmatch result_regex (b, a, []) = concat (map (\<lambda>st. concat (map (\<lambda>st. concat (map K
      (rmatch (RGroup 2 (rplus (RClass value_char))) st))) (rmatch (rplus (RClass py_isspace)) st)))
      (rmatch (RGroup 1 (rplus (RClass field_char))) (b1, a1, [])))"
    using True unfolding result_regex_def rmatch_lit_seq
    by (simp add: rmatch_seq_fun K_def a1_def b1_def
        del: rmatch.simps(6) rmatch.simps(3))
  also have "\<dots> = (if f = [] then [] else
      if takeWhile py_isspace r1 = [] then [] else
      concat (map K (rmatch (RGroup 2 (rplus (RClass value_char)))
        (rev (takeWhile py_isspace r1) @ rev f @ b1, r2, [(1, f)]))))"
    by (simp only: field_then_space.longest_group space_then_value.longest_plus f_def r1_def r2_def)
  finally have eq: "rmatch result_regex (b, a, []) = \<dots>" .
  show ?thesis
  proof (cases "f = [] \<or> takeWhile py_isspace r1 = [] \<or> takeWhile value_char r2 = []")
    case True
    then have "rmatch result_regex (b, a, []) = []"
      unfolding eq by (auto simp: value_unit_none simp del: rmatch.simps)
    then show ?thesis
      using True \<open>startswith ''RESULT-'' a\<close>
      by (auto simp: match_at_def scan_result_def Let_def f_def r1_def r2_def a1_def)
  next
    case False
    then obtain b' ms where "rmatch result_regex (b, a, []) =
      (b', dropWhile is_ascii_letter (dropWhile value_char r2),
        [(3, takeWhile is_ascii_letter (dropWhile value_char r2)), (2, takeWhile value_char r2), (1, f)]) # ms"
      unfolding eq K_def using value_unit_first [of r2 "rev (takeWhile py_isspace r1) @ rev f @ b1" "[(1, f)]"]
      by (auto simp del: rmatch.simps)
    then show ?thesis
      using False \<open>startswith ''RESULT-'' a\<close>
      by (simp add: match_at_def scan_result_def Let_def f_def r1_def r2_def a1_def)
  qed
qed

interpretation result_scanner: scanner result_regex scan_result
proof
  fix a a' g
  assume "scan_result a = Some (a', g)"
  then have st: "startswith ''RESULT-'' a" and
    a': "a' = dropWhile is_ascii_letter (dropWhile value_char (dropWhile py_isspace (dropWhile field_char (drop (length ''RESULT-'') a))))"
    by (auto simp: scan_result_def Let_def split: if_splits)
  have "length a' \<le> length (drop (length ''RESULT-'') a)"
    unfolding a' by (meson le_trans length_dropWhile_le)
  moreover have "7 \<le> length a" using st by (auto simp: startswith_iff)
  ultimately show "length a' < length a" by simp
qed (rule scan_result_correct)

lemma scan_empty_correct:
  "map_option (\<lambda>(b, a, g). (a, g)) (match_at result_empty_regex b a) = scan_empty a"
proof (cases "startswith ''RESULT-'' a")
  case False
  then have "rmatch result_empty_regex (b, a, []) = []"
    unfolding result_empty_regex_def by (simp only: rmatch_lit_seq if_False)
  then show ?thesis using False by (simp add: match_at_def scan_empty_def)
next
  case True
  define a1 where "a1 = drop (length ''RESULT-'') a"
  define f where "f = takeWhile field_char a1"
  define r1 where "r1 = dropWhile field_char a1"
  have "rmatch result_empty_regex (b, a, []) = concat (map (\<lambda>st. concat (map (\<lambda>m. [m]) (rmatch (rplus (RClass py_isspace)) st)))
      (rmatch (RGroup 1 (rplus (RClass field_char))) (rev ''RESULT-'' @ b, a1, [])))"
    using True unfolding result_empty_regex_def rmatch_lit_seq
    by (simp add: rmatch_seq_fun a1_def
        del: rmatch.simps(6) rmatch.simps(3))
  also have "\<dots> = (if f = [] then [] else
      concat (map (\<lambda>m. [m]) (rmatch (rplus (RClass py_isspace)) (rev f @ rev ''RESULT-'' @ b, r1, [(1, f)]))))"
    by (simp only: field_then_space.longest_group f_def r1_def)
  finally have eq: "rmatch result_empty_regex (b, a, []) = \<dots>" .
  show ?thesis
  proof (cases "f = [] \<or> takeWhile py_isspace r1 = []")
    case True
    then have "rmatch result_empty_regex (b, a, []) = []"
      unfolding eq by (cases r1) (auto simp: rplus_def split: if_splits)
    then show ?thesis
      using True \<open>startswith ''RESULT-'' a\<close>
      by (auto simp: match_at_def scan_empty_def Let_def f_def r1_def a1_def)
  next
    case False
    then obtain c r where r: "r1 = c # r" "py_isspace c" by (cases r1) (auto split: if_splits)
    obtain ms where "concat (map (\<lambda>m. [m]) (rmatch (RStar (RClass py_isspace))
        (c # rev f @ rev ''RESULT-'' @ b, r, [(1, f)]))) =
        (rev (takeWhile py_isspace r) @ c # rev f @ rev ''RESULT-'' @ b, dropWhile py_isspace r, [(1, f)]) # ms"
      using star_class_first [of "\<lambda>m. [m]" py_isspace r "c # rev f @ rev ''RESULT-'' @ b" "[(1, f)]" _ "[]"]
      by blast
    then have "rmatch result_empty_regex (b, a, []) =
        (rev (takeWhile py_isspace r) @ c # rev f @ rev ''RESULT-'' @ b, dropWhile py_isspace r, [(1, f)]) # ms"
      unfolding eq using False r by (simp add: rplus_def)
    then show ?thesis
      using False r \<open>startswith ''RESULT-'' a\<close>
      by (auto simp: match_at_def scan_empty_def Let_def f_def r1_def a1_def)
  qed
qed

interpretation empty_scanner: scanner result_empty_regex scan_empty
proof
  fix a a' g
  assume "scan_empty a = Some (a', g)"
  then have st: "startswith ''RESULT-'' a" and
    a': "a' = dropWhile py_isspace (dropWhile field_char (drop (length ''RESULT-'') a))"
    by (auto simp: scan_empty_def Let_def split: if_splits)
  have "length a' \<le> length (drop (length ''RESULT-'') a)"
    unfolding a' by (meson le_trans length_dropWhile_le)
  moreover have "7 \<le> length a" using st by (auto simp: startswith_iff)
  ultimately show "length a' < length a" by simp
qed (rule scan_empty_correct)

lemma lit_group_scan:
  "map_option (\<lambda>(b, a, g). (a, g)) (match_at (RSeq (rlit p) (RGroup 1 (rplus (RClass P)))) b a) =
    (if startswith p a
     then (let n = takeWhile P (drop (length p) a)
           in if n = [] then None else Some (dropWhile P (drop (length p) a), [(1, n)]))
     else None)"
proof (cases "startswith p a \<and> takeWhile P (drop (length p) a) \<noteq> []")
  case True
  let ?a = "drop (length p) a"
  have "\<exists>ms. concat (map (\<lambda>m. [m]) (rmatch (RGroup 1 (rplus (RClass P))) (rev p @ b, ?a, []))) =
      (rev (takeWhile P ?a) @ rev p @ b, dropWhile P ?a, [(1, takeWhile P ?a)]) # ms"
    by (rule group_plus_first [where F = "\<lambda>b' a'. (b', a', [(1, takeWhile P ?a)])" and M = "\<lambda>b' a'. []"])
      (use True in auto)
  then show ?thesis
    using True by (auto simp: match_at_def rmatch_lit_seq Let_def simp del: rmatch.simps)
next
  case False
  have "rmatch (RGroup 1 (rplus (RClass P))) (b', a', []) = []" if "takeWhile P a' = []" for b' a'
    using that by (cases a') (auto simp: rplus_def split: if_splits)
  then show ?thesis
    using False by (auto simp: match_at_def rmatch_lit_seq Let_def simp del: rmatch.simps)
qed

interpretation event_scanner: scanner event_regex scan_event
proof
  fix b a
  show "map_option (\<lambda>(b, a, g). (a, g)) (match_at event_regex b a) = scan_event a"
    unfolding event_regex_def lit_group_scan scan_event_def by simp
next
  fix a a' g assume "scan_event a = Some (a', g)"
  then have st: "startswith ''EVENT '' a" and a': "a' = dropWhile name_char (drop (length ''EVENT '') a)"
    by (auto simp: scan_event_def Let_def split: if_splits)
  have "length a' \<le> length (drop (length ''EVENT '') a)" unfolding a' by (rule length_dropWhile_le)
  moreover have "6 \<le> length a" using st by (auto simp: startswith_iff)
  ultimately show "length a' < length a" by simp
qed

interpretation failed_scanner: scanner experiment_failed_rgx scan_failed
proof
  fix b a
  show "map_option (\<lambda>(b, a, g). (a, g)) (match_at experiment_failed_rgx b a) = scan_failed a"
    unfolding experiment_failed_rgx_def lit_group_scan scan_failed_def by simp
next
  fix a a' g assume "scan_failed a = Some (a', g)"
  then have st: "startswith ''EXPRUN-FAILED:'' a" and a': "a' = dropWhile reason_char (drop (length ''EXPRUN-FAILED:'') a)"
    by (auto simp: scan_failed_def Let_def split: if_splits)
  have "length a' \<le> length (drop (length ''EXPRUN-FAILED:'') a)" unfolding a' by (rule length_dropWhile_le)
  moreover have "14 \<le> length a" using st by (auto simp: startswith_iff)
  ultimately show "length a' < length a" by simp
qed

lemma scan_first_skip:
  assumes "\<And>u v. p = u @ v \<Longrightarrow> v \<noteq> [] \<Longrightarrow> scan (v @ a) = None"
  shows "scan_first scan (p @ a) = scan_first scan a"
  using assms
proof (induction p)
  case (Cons c p)
  have "scan ((c # p) @ a) = None" using Cons.prems [of "[]" "c # p"] by simp
  moreover have "scan_first scan (p @ a) = scan_first scan a"
    by (rule Cons.IH) (use Cons.prems [of "c # _"] in auto)
  ultimately show ?case by simp
qed simp

lemma scan_first_here: "scan a = Some (a', g) \<Longrightarrow> scan_first scan a = Some g"
  by (cases a) auto

text \<open>The error reason found is the run of reason characters after the first marker.\<close>

lemma no_marker_before:
  assumes "\<not> contains p (pre @ butlast p)" and "pre = u @ v" and "v \<noteq> []"
  shows "\<not> startswith p (v @ p @ r)"
proof
  assume "startswith p (v @ p @ r)"
  then have "take (length p) (v @ p @ r) = p" by (simp add: startswith_def)
  moreover have "take (length p) (v @ p @ r) = take (length p) (v @ butlast p)"
  proof (cases "p = []")
    case False
    then have p: "p = butlast p @ [last p]" by simp
    have "length p \<le> length (v @ butlast p)" using assms(3) by (cases v) auto
    then have "take (length p) ((v @ butlast p) @ [last p] @ r) = take (length p) (v @ butlast p)" by simp
    then show ?thesis using p by (metis append.assoc)
  qed simp
  ultimately have "startswith p (v @ butlast p)" by (simp add: startswith_def)
  then have "contains p (u @ v @ butlast p)" by (metis append.assoc contains_iff startswith_iff)
  then show False using assms(1,2) by simp
qed

lemma output_scan_error_first:
  assumes "\<not> contains ''EXPRUN-FAILED:'' (pre @ butlast ''EXPRUN-FAILED:'')"
    and "reason \<noteq> []" "list_all reason_char reason" "rest = [] \<or> \<not> reason_char (hd rest)"
  shows "output_scan_error (pre @ ''EXPRUN-FAILED:'' @ reason @ rest) = Some reason"
proof -
  let ?p = "''EXPRUN-FAILED:''"
  have "scan_failed (v @ ?p @ reason @ rest) = None" if "pre = u @ v" "v \<noteq> []" for u v
    using no_marker_before [OF assms(1) that, of "reason @ rest"] by (simp add: scan_failed_def)
  then have "scan_first scan_failed (pre @ ?p @ reason @ rest) = scan_first scan_failed (?p @ reason @ rest)"
    by (rule scan_first_skip)
  also have "\<dots> = Some [(1, reason)]"
  proof (rule scan_first_here [where a' = rest])
    have "takeWhile reason_char (reason @ rest) = reason" "dropWhile reason_char (reason @ rest) = rest"
      using assms(3,4) by (cases rest; simp add: list_all_iff)+
    then show "scan_failed (?p @ reason @ rest) = Some (rest, [(1, reason)])"
      using assms(2) by (simp add: scan_failed_def)
  qed
  finally have s: "map_option (\<lambda>(pre, m, rest, g). g) (re_search experiment_failed_rgx (pre @ ?p @ reason @ rest)) =
      Some [(1, reason)]"
    by (simp only: re_search_def failed_scanner.search_scan)
  then show ?thesis by (auto simp: output_scan_error_def group_def split: option.splits)
qed

lemma output_scan_error_none:
  assumes "\<not> contains ''EXPRUN-FAILED:'' output"
  shows "output_scan_error output = None"
proof -
  have "scan_failed (v @ []) = None" if "output = u @ v" for u v
    using assms that by (auto simp: scan_failed_def contains_iff startswith_iff)
  then have "scan_first scan_failed (output @ []) = scan_first scan_failed []"
    by (intro scan_first_skip) blast
  then have "map_option (\<lambda>(pre, m, rest, g). g) (re_search experiment_failed_rgx output) = None"
    by (simp add: re_search_def failed_scanner.search_scan scan_failed_def)
  then show ?thesis by (auto simp: output_scan_error_def)
qed

section \<open>Reports\<close>

text \<open>
  The output of a test program as a list of lines: a result, a result whose value is missing,
  and anything else.  \<open>line_ok\<close> is what the programs print: a result line has a field, a
  value and a unit of the right characters, and other lines do not hold the marker.

  White space in the patterns goes over line breaks.  A field without a value therefore borrows the
  number, if there is one, with which the next line that is not blank begins.
\<close>

datatype report_line = Result string string string | Missing string | Noise string

fun render_line :: "report_line \<Rightarrow> string" where
  "render_line (Result f v u) = ''RESULT-'' @ f @ '' '' @ v @ u @ [CHR 0x0A]"
| "render_line (Missing f) = ''RESULT-'' @ f @ '' '' @ [CHR 0x0A]"
| "render_line (Noise s) = s @ [CHR 0x0A]"

definition render_report :: "report_line list \<Rightarrow> string" where
  "render_report ls = concat (map render_line ls)"








subsection \<open>Scanning a rendered line\<close>

lemma startswith_set: "startswith p v \<Longrightarrow> set p \<subseteq> set v"
  by (auto simp: startswith_iff)

lemma scan_none:
  "\<not> startswith ''RESULT-'' a \<Longrightarrow> scan_result a = None"
  "\<not> startswith ''RESULT-'' a \<Longrightarrow> scan_empty a = None"
  by (simp_all add: scan_result_def scan_empty_def)

lemma class_space [simp]: "\<not> field_char (CHR '' '')" "py_isspace (CHR '' '')" "py_isspace (CHR 0x0A)"
  "\<not> is_ascii_letter (CHR 0x0A)" "\<not> value_char (CHR 0x0A)" "\<not> field_char (CHR 0x0A)"
  "\<not> value_char (CHR ''R'')" "\<not> py_isspace (CHR ''R'')"
  by (simp_all add: field_char_def py_isspace_def is_word_def py_isdigit_def is_ascii_letter_def value_char_def)

lemma takeWhile_all_append:
  "list_all P xs \<Longrightarrow> takeWhile P (xs @ ys) = xs @ takeWhile P ys"
  "list_all P xs \<Longrightarrow> dropWhile P (xs @ ys) = dropWhile P ys"
  by (induction xs) auto

lemma value_not_space: "value_char c \<Longrightarrow> \<not> py_isspace c"
  using space_not_value by blast









lemma suffix_newline:
  assumes "p @ [CHR 0x0A] = u @ v" and "v \<noteq> []"
  shows "\<exists>w. v = w @ [CHR 0x0A] \<and> set w \<subseteq> set p"
proof -
  obtain w c where v: "v = w @ [c]" using assms(2) by (cases v rule: rev_cases) auto
  then have "p = u @ w" "c = CHR 0x0A" using assms(1) by (auto simp: append_assoc [symmetric] simp del: append_assoc)
  then show ?thesis using v by auto
qed

lemma scan_skip_line:
  assumes "\<And>w x. p = x @ w \<Longrightarrow> \<not> startswith ''RESULT-'' w"
  shows "scan_all scan_result (p @ CHR 0x0A # rest) = scan_all scan_result rest"
    and "scan_all scan_empty (p @ CHR 0x0A # rest) = scan_all scan_empty rest"
proof -
  have no: "\<not> startswith ''RESULT-'' (v @ rest)" if uv: "p @ [CHR 0x0A] = u @ v" "v \<noteq> []" for u v
  proof
    assume st: "startswith ''RESULT-'' (v @ rest)"
    obtain w c where v: "v = w @ [c]" using uv(2) by (cases v rule: rev_cases) auto
    then have w: "p = u @ w" "c = CHR 0x0A"
      using uv(1) by (auto simp: append_assoc [symmetric] simp del: append_assoc)
    have "startswith ''RESULT-'' (w @ CHR 0x0A # rest)" using st v w by simp
    then have "startswith ''RESULT-'' w" by (rule startswith_barrier [rotated]) simp
    then show False using assms w(1) by blast
  qed
  have "scan_all scan_result ((p @ [CHR 0x0A]) @ rest) = scan_all scan_result rest"
    by (rule scan_all_skip_prefix) (rule scan_none, rule no)
  then show "scan_all scan_result (p @ CHR 0x0A # rest) = scan_all scan_result rest" by simp
  have "scan_all scan_empty ((p @ [CHR 0x0A]) @ rest) = scan_all scan_empty rest"
    by (rule scan_all_skip_prefix) (rule scan_none, rule no)
  then show "scan_all scan_empty (p @ CHR 0x0A # rest) = scan_all scan_empty rest" by simp
qed

lemma no_marker_value_unit:
  assumes "list_all value_char v" "list_all is_ascii_letter u" "v @ u = x @ w"
  shows "\<not> startswith ''RESULT-'' w"
proof
  assume "startswith ''RESULT-'' w"
  then have "CHR ''-'' \<in> set w" using startswith_set by fastforce
  then have "CHR ''-'' \<in> set (v @ u)" using assms(3) by simp
  moreover have "\<not> value_char (CHR ''-'')" "\<not> is_ascii_letter (CHR ''-'')"
    by (simp_all add: value_char_def py_isdigit_def is_ascii_letter_def)
  ultimately show False using assms(1,2) unfolding list_all_iff set_append by blast
qed

lemma scan_all_newline:
  "scan_all scan_result (CHR 0x0A # rest) = scan_all scan_result rest"
  "scan_all scan_empty (CHR 0x0A # rest) = scan_all scan_empty rest"
  using scan_skip_line [of "[]" rest] by auto


lemma noise_no_marker: "\<not> contains p s \<Longrightarrow> s = x @ w \<Longrightarrow> \<not> startswith p w"
  by (metis append.assoc contains_iff startswith_iff)









section \<open>Properties\<close>









text \<open>The output of one run may hold several data entries, separated by the keyword
  \<^verbatim>\<open>NEW_DATA_ENTRY\<close>: each report between two keywords is read on its own, in order.\<close>

theorem parse_entries:
  assumes "es \<noteq> []" and "\<And>ls. ls \<in> set es \<Longrightarrow> \<not> contains new_data_entry_kw (render_report ls)"
  shows "host_parse_results so (join new_data_entry_kw (map render_report es)) =
    map (\<lambda>ls. host_parse_single_result so (render_report ls)) es"
proof -
  have last: "render_report ls = [] \<or> last (render_report ls) = CHR 0x0A" for ls
  proof (cases ls rule: rev_cases)
    case (snoc ls l)
    then show ?thesis by (cases l) (auto simp: render_report_def)
  qed (simp add: render_report_def)
  have "split_on new_data_entry_kw (join new_data_entry_kw (map render_report es)) = map render_report es"
    by (rule split_on_join_lines) (use assms last in \<open>auto simp: new_data_entry_kw_def\<close>)
  then show ?thesis by (simp add: host_parse_results_def)
qed

theorem parse_entries_witness:
  "host_parse_results remdups (join new_data_entry_kw (map render_report [[Missing ''a''], [Missing ''b'']])) =
    [host_parse_single_result remdups (render_report [Missing ''a'']),
     host_parse_single_result remdups (render_report [Missing ''b''])]"
proof -
  have "\<not> contains new_data_entry_kw (render_report ls)" if "ls \<in> set [[Missing ''a''], [Missing ''b'']]" for ls
    using that by (auto simp: render_report_def new_data_entry_kw_def)
  from parse_entries [OF _ this, of "[[Missing ''a''], [Missing ''b'']]" remdups] show ?thesis by simp
qed

text \<open>The value of a result may be on a later line.  When a program prints a marker without a
  value and the next non-blank text begins with digits, that number becomes the value of the field,
  although the code means such a field to be recorded as missing.\<close>

theorem missing_value_borrowed:
  assumes "f \<noteq> []" "list_all field_char f" "v \<noteq> []" "list_all value_char v"
    and "list_all py_isspace sp" and "\<not> contains ''RESULT-'' rest" and "set_order so"
  shows "host_parse_single_result so (''RESULT-'' @ f @ CHR '' '' # sp @ v @ CHR 0x0A # rest) =
    [(py_lower f, [v])]"
proof -
  let ?t = "''RESULT-'' @ f @ CHR '' '' # sp @ v @ CHR 0x0A # rest"
  obtain c v' where v: "v = c # v'" "\<not> py_isspace c"
    using assms(3,4) value_not_space by (cases v) auto
  have d: "drop (length ''RESULT-'') ?t = f @ CHR '' '' # sp @ v @ CHR 0x0A # rest" by simp
  have f: "takeWhile field_char (f @ CHR '' '' # sp @ v @ CHR 0x0A # rest) = f"
    "dropWhile field_char (f @ CHR '' '' # sp @ v @ CHR 0x0A # rest) = CHR '' '' # sp @ v @ CHR 0x0A # rest"
    using assms(2) by (simp_all add: takeWhile_all_append)
  have sp: "takeWhile py_isspace (CHR '' '' # sp @ v @ CHR 0x0A # rest) = CHR '' '' # sp"
    "dropWhile py_isspace (CHR '' '' # sp @ v @ CHR 0x0A # rest) = v @ CHR 0x0A # rest"
    using assms(5) v by (simp_all add: takeWhile_all_append)
  have v2: "takeWhile value_char (v @ CHR 0x0A # rest) = v"
    "dropWhile value_char (v @ CHR 0x0A # rest) = CHR 0x0A # rest"
    using assms(4) by (simp_all add: takeWhile_all_append)
  have "scan_result ?t = Some (CHR 0x0A # rest, [(3, []), (2, v), (1, f)])"
    unfolding scan_result_def Let_def d f sp v2 using assms(1,3) by simp
  then have "scan_all scan_result ?t = [(3, []), (2, v), (1, f)] # scan_all scan_result (CHR 0x0A # rest)"
    by (rule scan_all_hit) simp
  moreover have rest: "scan_all scan_result rest = []" "scan_all scan_empty rest = []"
  proof -
    have none: "\<not> startswith ''RESULT-'' w" if "rest = x @ w" for x w
      using noise_no_marker [OF assms(6) that] .
    have "scan_all scan_result (rest @ []) = scan_all scan_result []"
      by (rule scan_all_skip_prefix) (auto intro: scan_none dest: none)
    moreover have "scan_all scan_empty (rest @ []) = scan_all scan_empty []"
      by (rule scan_all_skip_prefix) (auto intro: scan_none dest: none)
    ultimately show "scan_all scan_result rest = []" "scan_all scan_empty rest = []"
      by (simp_all add: scan_all.simps scan_none)
  qed
  ultimately have results: "map (\<lambda>g. (group g 1, group g 2)) (re_findall result_regex ?t) = [(f, v)]"
    by (simp add: re_findall_def result_scanner.findall_scan scan_all_newline group_def)
  have "scan_empty ?t = Some (v @ CHR 0x0A # rest, [(1, f)])"
    unfolding scan_empty_def Let_def d f sp using assms(1) by simp
  then have "scan_all scan_empty ?t = [(1, f)] # scan_all scan_empty (v @ CHR 0x0A # rest)"
    by (rule scan_all_hit) simp
  moreover have "scan_all scan_empty (v @ CHR 0x0A # rest) = scan_all scan_empty rest"
    by (rule scan_skip_line) (rule no_marker_value_unit [of v "[]"], use assms(4) in auto)
  ultimately have fields: "map (\<lambda>g. group g 1) (re_findall result_empty_regex ?t) = [f]"
    using rest by (simp add: re_findall_def empty_scanner.findall_scan group_def)
  have so: "so [f] = [f]"
  proof -
    have "distinct (so [f])" "set (so [f]) = {f}" using assms(7) by (simp_all add: set_orderD)
    then show ?thesis by (metis distinct.simps(2) distinct_card empty_set card.empty card_insert_disjoint
        length_0_conv length_Suc_conv finite.emptyI empty_iff list.set_intros(1) singletonD One_nat_def)
  qed
  show ?thesis
    unfolding host_parse_single_result_def Let_def results fields by (simp add: so dict_update_def)
qed

theorem missing_value_borrowed_witness:
  "host_parse_single_result remdups (''RESULT-lat '' @ [CHR 0x0A] @ ''42'' @ [CHR 0x0A]) = [(''lat'', [''42''])]"
proof -
  have "py_lower ''lat'' = ''lat''" by code_simp
  then show ?thesis
    using missing_value_borrowed [of "''lat''" "''42''" "[CHR 0x0A]" "[]" remdups]
    by (simp add: field_char_def value_char_def is_word_def py_isdigit_def py_isspace_def
        set_order_remdups)
qed

text \<open>A failure printed by a remote program is always reported, with the run of reason
  characters after the first marker as its reason, white space and line breaks included; output
  without the marker is no failure.\<close>

theorem failure_reported:
  assumes "\<not> contains ''EXPRUN-FAILED:'' (pre @ butlast ''EXPRUN-FAILED:'')"
    and "reason \<noteq> []" "list_all reason_char reason" "rest = [] \<or> \<not> reason_char (hd rest)"
  shows "check_error (pre @ ''EXPRUN-FAILED:'' @ reason @ rest) = Inl (RuntimeError reason) \<and>
    check_error pre = Inr ()"
proof -
  have "\<not> contains ''EXPRUN-FAILED:'' pre"
    using assms(1) unfolding contains_iff by (metis append.assoc)
  then show ?thesis
    using output_scan_error_first [OF assms] output_scan_error_none [of pre] assms(2)
    by (auto simp: check_error_def neq_Nil_conv)
qed

theorem failure_reported_witness:
  "check_error (''ok'' @ ''EXPRUN-FAILED:'' @ ''no port'' @ [CHR 0x22]) = Inl (RuntimeError ''no port'')"
  using failure_reported [of "''ok''" "''no port''" "[CHR 0x22]"]
  by (simp add: reason_char_def is_word_def py_isdigit_def py_isspace_def)

end
