(* ===== verification/Data_Manager.thy ===== *)
theory Data_Manager
  imports Py_Prelude
begin

text \<open>
  The results of the experiment (autotest/expelib.py): entries are dictionaries from column names
  to lists of cells, completed with an invalid token, numbered, and written to and read from
  comma-separated files by \<^verbatim>\<open>DataManager\<close>.

  The columns, the entries, the row counter and the metrics of \<^verbatim>\<open>DataManager\<close> are attributes of
  the class.  An assignment through \<^verbatim>\<open>self\<close> gives the instance its own copy, an in-place change
  (\<^verbatim>\<open>append\<close>, item assignment) is seen by every instance: the two records below keep what is the
  class's and what is the instance's apart, and the operations thread both.

  A cell is a string, a machine-made index, a missing value of a short row, or an object of the
  caller (a parameter value or a metric), whose rendering by \<^verbatim>\<open>str\<close> is the argument \<open>st\<close>.
\<close>

section \<open>Entries\<close>

datatype 'o cell = CStr string | CInt int | CNone | CObj 'o

type_synonym 'o entry = "'o cell list dict"

definition first_cell :: "'o cell list \<Rightarrow> 'o cell res" where
  "first_cell v = (case v of [] \<Rightarrow> Inl IndexError | c # _ \<Rightarrow> Inr c)"

definition has_invalid :: "'o entry \<Rightarrow> string \<Rightarrow> bool res" where
  "has_invalid result_line invalid_token =
     res_fold (\<lambda>(k, v) found. res_bind (first_cell v) (\<lambda>c. Inr (found \<or> c = CStr invalid_token)))
       result_line False"

definition fill_invalid :: "'o entry \<Rightarrow> string list \<Rightarrow> string \<Rightarrow> 'o entry" where
  "fill_invalid result_line cols invalid_token =
     fold (\<lambda>c d. if c \<notin> set (keys result_line) then dict_set c [CStr invalid_token] d else d) cols result_line"

definition update_cols :: "(string list \<Rightarrow> string list) \<Rightarrow> 'o entry \<Rightarrow> string list \<Rightarrow> string list" where
  "update_cols so result_line cols = so (cols @ keys result_line)"

section \<open>Writing\<close>

definition cell_str :: "('o \<Rightarrow> string) \<Rightarrow> 'o cell \<Rightarrow> string" where
  "cell_str st c = (case c of CStr s \<Rightarrow> s | CInt i \<Rightarrow> int_str i | CNone \<Rightarrow> ''None'' | CObj x \<Rightarrow> st x)"

definition matrix_line :: "string list \<Rightarrow> 'o entry \<Rightarrow> 'o cell list res" where
  "matrix_line cols r =
     res_map (\<lambda>c. case map_of r c of Some v \<Rightarrow> first_cell v | None \<Rightarrow> Inr (CStr ''NaN'')) cols"

definition matrix_cols :: "'o entry list \<Rightarrow> string list" where
  "matrix_cols results = sort (remdups (concat (map keys results)))"

text \<open>The header is one string, the joined column names; the other rows are lists.\<close>

definition results_to_matrix :: "'o entry list \<Rightarrow> bool \<Rightarrow> (string list \<times> 'o cell list list) res" where
  "results_to_matrix results header =
     res_bind (res_map (matrix_line (matrix_cols results)) results) (\<lambda>rows.
       Inr (if header then [join '','' (matrix_cols results)] else [], rows))"

text \<open>The text of the written file.\<close>

definition results_to_csv :: "('o \<Rightarrow> string) \<Rightarrow> 'o entry list \<Rightarrow> bool \<Rightarrow> string res" where
  "results_to_csv st results header =
     res_bind (results_to_matrix results header) (\<lambda>(head, rows).
       Inr (concat (map (\<lambda>h. h @ [CHR 0x0A]) head) @
         concat (map (\<lambda>l. join '', '' (map (cell_str st) l) @ [CHR 0x0A]) rows)))"

section \<open>Reading\<close>

text \<open>
  \<^verbatim>\<open>csv.reader\<close> with its default dialect: commas, double quotes (doubled inside), records that
  end at a line break outside quotes.  The states are those of the library's parser; \<open>rec\<close> is
  the reversed list of finished fields, \<open>fld\<close> the reversed current field.
\<close>

datatype csv_state = StartRecord | StartField | InField | InQuoted | QuoteInQuoted

definition is_nl :: "char \<Rightarrow> bool" where
  "is_nl c \<longleftrightarrow> c = CHR 0x0A \<or> c = CHR 0x0D"

fun csv_rows_aux :: "csv_state \<Rightarrow> string list \<Rightarrow> string \<Rightarrow> string \<Rightarrow> string list list" where
  "csv_rows_aux StartRecord rec fld [] = []"
| "csv_rows_aux q rec fld [] = [rev (rev fld # rec)]"
| "csv_rows_aux StartRecord rec fld (c # s) =
     (if is_nl c then [] # csv_rows_aux StartRecord [] [] s
      else if c = CHR 0x22 then csv_rows_aux InQuoted [] [] s
      else if c = CHR '','' then csv_rows_aux StartField [[]] [] s
      else csv_rows_aux InField [] [c] s)"
| "csv_rows_aux StartField rec fld (c # s) =
     (if is_nl c then rev ([] # rec) # csv_rows_aux StartRecord [] [] s
      else if c = CHR 0x22 then csv_rows_aux InQuoted rec [] s
      else if c = CHR '','' then csv_rows_aux StartField ([] # rec) [] s
      else csv_rows_aux InField rec [c] s)"
| "csv_rows_aux InField rec fld (c # s) =
     (if is_nl c then rev (rev fld # rec) # csv_rows_aux StartRecord [] [] s
      else if c = CHR '','' then csv_rows_aux StartField (rev fld # rec) [] s
      else csv_rows_aux InField rec (c # fld) s)"
| "csv_rows_aux InQuoted rec fld (c # s) =
     (if c = CHR 0x22 then csv_rows_aux QuoteInQuoted rec fld s
      else csv_rows_aux InQuoted rec (c # fld) s)"
| "csv_rows_aux QuoteInQuoted rec fld (c # s) =
     (if c = CHR 0x22 then csv_rows_aux InQuoted rec (c # fld) s
      else if c = CHR '','' then csv_rows_aux StartField (rev fld # rec) [] s
      else if is_nl c then rev (rev fld # rec) # csv_rows_aux StartRecord [] [] s
      else csv_rows_aux InField rec (c # fld) s)"

text \<open>A file opened for reading translates \<^verbatim>\<open>CR LF\<close> and \<^verbatim>\<open>CR\<close> to \<^verbatim>\<open>LF\<close>.\<close>

fun universal_newlines :: "string \<Rightarrow> string" where
  "universal_newlines [] = []"
| "universal_newlines [c] = (if c = CHR 0x0D then [CHR 0x0A] else [c])"
| "universal_newlines (c # d # s) =
     (if c = CHR 0x0D then CHR 0x0A # universal_newlines (if d = CHR 0x0A then s else d # s)
      else c # universal_newlines (d # s))"

definition csv_rows :: "string \<Rightarrow> string list list" where
  "csv_rows s = csv_rows_aux StartRecord [] [] (universal_newlines s)"

text \<open>
  \<^verbatim>\<open>csv.DictReader\<close>: the first record names the columns, empty records are skipped, a short
  record is completed with \<^verbatim>\<open>None\<close>.  The surplus of a record longer than the header goes under
  the key \<^verbatim>\<open>None\<close>, which is no column name: the model has no such entry and stops with an error.
\<close>

definition dict_row :: "string list \<Rightarrow> string list \<Rightarrow> 'o cell dict res" where
  "dict_row names row =
     (if length names < length row then Inl TypeError
      else Inr (dict_update [] (zip names (map CStr row @ replicate (length names - length row) CNone))))"

definition dict_reader :: "string \<Rightarrow> 'o cell dict list res" where
  "dict_reader s =
     (case csv_rows s of
        [] \<Rightarrow> Inr []
      | names # rows \<Rightarrow> res_map (dict_row names) (filter (\<lambda>r. r \<noteq> []) rows))"

section \<open>The manager\<close>

type_synonym 'o metric = "'o entry \<Rightarrow> 'o cell res"
type_synonym 'o post_metric = "'o entry \<Rightarrow> 'o entry res"

record 'o dm_class =
  cls_columns :: "string list"
  cls_entries :: "'o entry list"
  cls_row_idx :: int
  metrics_to_compute :: "'o metric dict"
  post_metrics_compute :: "'o post_metric dict"

record dm =
  invalid_token :: string
  use_index :: bool
  parameter_prefix :: string
  own_columns :: "string list option"
  own_row_idx :: "int option"

definition dm_initial_class :: "'o dm_class" where
  "dm_initial_class = \<lparr>cls_columns = [], cls_entries = [], cls_row_idx = 0,
     metrics_to_compute = [], post_metrics_compute = []\<rparr>"

definition columns :: "dm \<Rightarrow> 'o dm_class \<Rightarrow> string list" where
  "columns d k = (case own_columns d of Some cs \<Rightarrow> cs | None \<Rightarrow> cls_columns k)"

definition row_idx :: "dm \<Rightarrow> 'o dm_class \<Rightarrow> int" where
  "row_idx d k = (case own_row_idx d of Some i \<Rightarrow> i | None \<Rightarrow> cls_row_idx k)"

definition data_manager ::
  "string \<Rightarrow> bool \<Rightarrow> string list \<Rightarrow> string \<Rightarrow> 'o dm_class \<Rightarrow> dm \<times> 'o dm_class" where
  "data_manager token index expected_columns prefix k =
     (\<lparr>invalid_token = token, use_index = index, parameter_prefix = prefix,
       own_columns = None, own_row_idx = None\<rparr>,
      k\<lparr>cls_columns := cls_columns k @ expected_columns\<rparr>)"

text \<open>An operation returns a result or raises, and in both cases leaves a state behind.\<close>

type_synonym ('o, 'a) dm_op = "dm \<times> 'o dm_class \<Rightarrow> 'a res \<times> (dm \<times> 'o dm_class)"

definition compute_metrics :: "'o dm_class \<Rightarrow> 'o entry \<Rightarrow> 'o entry res" where
  "compute_metrics k entry =
     res_fold (\<lambda>(n, f) e. res_bind (f e) (\<lambda>x.
         case map_of (post_metrics_compute k) n of
           None \<Rightarrow> Inr (dict_set n [x] e)
         | Some g \<Rightarrow> g (dict_set n [x] e)))
       (metrics_to_compute k) entry"

definition set_params :: "string \<Rightarrow> 'o dict \<Rightarrow> 'o entry \<Rightarrow> 'o entry" where
  "set_params prefix params entry = fold (\<lambda>(k, v). dict_set (prefix @ k) [CObj v]) params entry"

definition learn_columns :: "(string list \<Rightarrow> string list) \<Rightarrow> bool \<Rightarrow> 'o entry \<Rightarrow> dm \<Rightarrow> 'o dm_class \<Rightarrow> dm" where
  "learn_columns so do_update entry d k =
     (if do_update then d\<lparr>own_columns := Some (update_cols so entry (columns d k))\<rparr> else d)"

text \<open>The index is assigned before the parameters, and the counter moves before a metric can raise.\<close>

definition number_entry :: "dm \<Rightarrow> 'o dm_class \<Rightarrow> 'o entry \<Rightarrow> 'o entry \<times> dm" where
  "number_entry d k entry =
     (if use_index d
      then (dict_set ''index'' [CInt (row_idx d k)] entry, d\<lparr>own_row_idx := Some (row_idx d k + 1)\<rparr>)
      else (entry, d))"

definition add_entry ::
  "(string list \<Rightarrow> string list) \<Rightarrow> 'o entry \<Rightarrow> 'o dict option \<Rightarrow> bool \<Rightarrow> bool \<Rightarrow> ('o, bool) dm_op" where
  "add_entry so entry current_parameters force do_update = (\<lambda>(d0, k).
     let d = learn_columns so do_update entry d0 k;
         e1 = fill_invalid entry (columns d k) (invalid_token d)
     in case has_invalid e1 (invalid_token d) of
          Inl x \<Rightarrow> (Inl x, (d, k))
        | Inr bad \<Rightarrow>
            if bad \<and> \<not> force then (Inr False, (d, k))
            else
              let (e2, d2) = number_entry d k e1;
                  e3 = (case current_parameters of None \<Rightarrow> e2 | Some ps \<Rightarrow> set_params (parameter_prefix d) ps e2)
              in case compute_metrics k e3 of
                   Inl x \<Rightarrow> (Inl x, (d2, k))
                 | Inr e4 \<Rightarrow> (Inr True, (d2, k\<lparr>cls_entries := cls_entries k @ [e4]\<rparr>)))"

definition validate_entry :: "'o entry \<Rightarrow> dm \<times> 'o dm_class \<Rightarrow> bool res" where
  "validate_entry entry = (\<lambda>(d, k).
     res_bind (has_invalid (fill_invalid entry (columns d k) (invalid_token d)) (invalid_token d))
       (\<lambda>bad. Inr (\<not> bad)))"

definition export_csv :: "('o \<Rightarrow> string) \<Rightarrow> bool \<Rightarrow> dm \<times> 'o dm_class \<Rightarrow> string res" where
  "export_csv st save_headers = (\<lambda>(d, k). results_to_csv st (cls_entries k) save_headers)"

fun load_rows :: "(string list \<Rightarrow> string list) \<Rightarrow> 'o cell dict list \<Rightarrow> ('o, unit) dm_op" where
  "load_rows so [] s = (Inr (), s)"
| "load_rows so (row # rows) s =
     (case add_entry so (map (\<lambda>(k, v). (k, [v])) row) None False False s of
        (Inl e, s') \<Rightarrow> (Inl e, s')
      | (Inr _, s') \<Rightarrow> load_rows so rows s')"

definition load_from_csv :: "(string list \<Rightarrow> string list) \<Rightarrow> string \<Rightarrow> ('o, unit) dm_op" where
  "load_from_csv so text s =
     (case dict_reader text of Inl e \<Rightarrow> (Inl e, s) | Inr rows \<Rightarrow> load_rows so rows s)"

definition add_computed_metric ::
  "string \<Rightarrow> 'o metric \<Rightarrow> 'o post_metric option \<Rightarrow> 'o dm_class \<Rightarrow> 'o dm_class" where
  "add_computed_metric name compute post k =
     (let k1 = k\<lparr>metrics_to_compute := dict_set name compute (metrics_to_compute k)\<rparr>
      in case post of None \<Rightarrow> k1
         | Some g \<Rightarrow> k1\<lparr>post_metrics_compute := dict_set name g (post_metrics_compute k1)\<rparr>)"

fun show_fields ::
  "('o \<Rightarrow> string) \<Rightarrow> nat \<Rightarrow> 'o entry \<Rightarrow> nat \<Rightarrow> string list \<Rightarrow> string \<Rightarrow> string res" where
  "show_fields st per last_line i [] to_show = Inr to_show"
| "show_fields st per last_line i (c # cs) to_show =
     (if c = ''index'' then show_fields st per last_line (Suc i) cs to_show
      else if 0 < i \<and> per = 0 then Inl ZeroDivisionError
      else res_bind (dict_get last_line c) (\<lambda>v. res_bind (first_cell v) (\<lambda>x.
        show_fields st per last_line (Suc i) cs
          ((if 0 < i \<and> i mod per = 0 then to_show @ [CHR 0x0A] else to_show) @
            c @ '' = '' @ cell_str st x @ '','' @ [CHR 0x09, CHR 0x09]))))"

definition show_last :: "('o \<Rightarrow> string) \<Rightarrow> nat \<Rightarrow> dm \<times> 'o dm_class \<Rightarrow> string res" where
  "show_last st per = (\<lambda>(d, k).
     if cls_entries k = [] then Inr ''No data yet !''
     else show_fields st per (last (cls_entries k)) 0 (columns d k) [])"

section \<open>Completing and checking entries\<close>

definition good_cells :: "string \<Rightarrow> 'o cell list option \<Rightarrow> bool" where
  "good_cells token v = (case v of Some (c # cs) \<Rightarrow> c \<noteq> CStr token | _ \<Rightarrow> False)"

definition entry_wf :: "'o entry \<Rightarrow> bool" where
  "entry_wf e \<longleftrightarrow> distinct (keys e) \<and> (\<forall>(c, v) \<in> set e. v \<noteq> [])"

lemma has_invalid_total:
  assumes "\<forall>(c, v) \<in> set e. v \<noteq> []"
  shows "has_invalid e token = Inr (\<exists>(c, v) \<in> set e. hd v = CStr token)"
proof -
  have "res_fold (\<lambda>(k, v) found. res_bind (first_cell v) (\<lambda>c. Inr (found \<or> c = CStr token))) e b =
      Inr (b \<or> (\<exists>(c, v) \<in> set e. hd v = CStr token))" for b
    using assms
  proof (induction e arbitrary: b)
    case (Cons x e)
    obtain n v where x: "x = (n, v)" by (cases x)
    then obtain c cs where v: "v = c # cs" using Cons.prems by (cases v) auto
    show ?case using Cons x v by (auto simp: first_cell_def)
  qed simp
  then show ?thesis by (simp add: has_invalid_def)
qed

lemma map_of_fill:
  "map_of (fill_invalid e cols token) c =
     (if c \<in> set cols \<and> c \<notin> set (keys e) then Some [CStr token] else map_of e c)"
proof -
  have "map_of (fold (\<lambda>c d. if c \<notin> set (keys e) then dict_set c [CStr token] d else d) cols d) c =
     (if c \<in> set cols \<and> c \<notin> set (keys e) then Some [CStr token] else map_of d c)" for d
    by (induction cols arbitrary: d) auto
  then show ?thesis by (simp only: fill_invalid_def)
qed

lemma distinct_fill: "distinct (keys e) \<Longrightarrow> distinct (keys (fill_invalid e cols token))"
proof -
  have "distinct (keys d) \<Longrightarrow>
    distinct (keys (fold (\<lambda>c d. if c \<notin> set (keys e) then dict_set c [CStr token] d else d) cols d))" for d
    by (induction cols arbitrary: d) (auto intro: distinct_dict_set simp: keys_dict_set)
  then show "distinct (keys e) \<Longrightarrow> distinct (keys (fill_invalid e cols token))"
    by (simp add: fill_invalid_def)
qed

lemma keys_fill: "set (keys (fill_invalid e cols token)) = set (keys e) \<union> set cols"
  unfolding set_eq_iff Un_iff in_keys_iff map_of_fill by auto

lemma entry_wf_fill: "entry_wf e \<Longrightarrow> entry_wf (fill_invalid e cols token)"
proof -
  assume wf: "entry_wf e"
  have "v \<noteq> []" if "(c, v) \<in> set (fill_invalid e cols token)" for c v
  proof -
    have "map_of (fill_invalid e cols token) c = Some v"
      using that wf by (simp add: entry_wf_def distinct_fill)
    then show ?thesis using wf
      by (auto simp: map_of_fill entry_wf_def dest: map_of_SomeD split: if_splits)
  qed
  then show ?thesis using wf by (auto simp: entry_wf_def distinct_fill)
qed

text \<open>An entry passes the check when every column, known or its own, holds a real first cell.\<close>

lemma has_invalid_fill:
  assumes "entry_wf e"
  shows "has_invalid (fill_invalid e cols token) token =
    Inr (\<exists>c \<in> set cols \<union> set (keys e). \<not> good_cells token (map_of e c))"
proof -
  let ?f = "fill_invalid e cols token"
  have wf: "entry_wf ?f" by (rule entry_wf_fill [OF assms])
  have "(\<exists>(c, v) \<in> set ?f. hd v = CStr token) \<longleftrightarrow>
      (\<exists>c \<in> set (keys ?f). hd (the (map_of ?f c)) = CStr token)"
  proof -
    have "(c, v) \<in> set ?f \<longleftrightarrow> c \<in> set (keys ?f) \<and> the (map_of ?f c) = v" for c v
      using wf by (force simp: entry_wf_def)
    then show ?thesis by auto
  qed
  also have "\<dots> \<longleftrightarrow> (\<exists>c \<in> set cols \<union> set (keys e). \<not> good_cells token (map_of e c))"
  proof -
    have "hd (the (map_of ?f c)) = CStr token \<longleftrightarrow> \<not> good_cells token (map_of e c)"
      if "c \<in> set cols \<union> set (keys e)" for c
    proof (cases "c \<in> set (keys e)")
      case True
      then obtain v where v: "map_of e c = Some v" by (metis map_of_eq_None_iff not_None_eq set_map)
      then have "v \<noteq> []" using assms by (auto simp: entry_wf_def dest: map_of_SomeD)
      then show ?thesis using v True by (cases v) (simp_all add: map_of_fill good_cells_def)
    next
      case False
      then have "map_of e c = None" by (simp add: map_of_eq_None_iff)
      then show ?thesis using False that by (simp add: map_of_fill good_cells_def)
    qed
    then show ?thesis unfolding keys_fill by blast
  qed
  finally show ?thesis
    using has_invalid_total [of ?f token] wf by (simp add: entry_wf_def)
qed

lemma columns_learn:
  "set_order so \<Longrightarrow> set (columns (learn_columns so upd e d k) k) =
     set (columns d k) \<union> (if upd then set (keys e) else {})"
  by (auto simp: learn_columns_def columns_def update_cols_def set_order_def)

lemma learn_simps [simp]:
  "invalid_token (learn_columns so upd e d k) = invalid_token d"
  "use_index (learn_columns so upd e d k) = use_index d"
  "parameter_prefix (learn_columns so upd e d k) = parameter_prefix d"
  "row_idx (learn_columns so upd e d k) k = row_idx d k"
  by (simp_all add: learn_columns_def row_idx_def)

definition entry_complete :: "dm \<Rightarrow> 'o dm_class \<Rightarrow> 'o entry \<Rightarrow> bool" where
  "entry_complete d k e \<longleftrightarrow>
     (\<forall>c \<in> set (columns d k) \<union> set (keys e). good_cells (invalid_token d) (map_of e c))"

section \<open>Adding entries\<close>

lemma map_of_set_params:
  assumes "distinct (keys ps)"
  shows "map_of (set_params prefix ps e) c =
    (case map_of (map (\<lambda>(k, v). (prefix @ k, [CObj v])) ps) c of Some x \<Rightarrow> Some x | None \<Rightarrow> map_of e c)"
  using assms
proof (induction ps arbitrary: e)
  case (Cons p ps)
  obtain k v where p: "p = (k, v)" by (cases p)
  have "set_params prefix (p # ps) e = set_params prefix ps (dict_set (prefix @ k) [CObj v] e)"
    by (simp add: set_params_def p)
  moreover have "map_of (map (\<lambda>(k, v). (prefix @ k, [CObj v])) ps) (prefix @ k) = None"
    using Cons.prems p by (force simp: map_of_eq_None_iff)
  ultimately show ?case using Cons p by (simp split: option.split)
qed (simp add: set_params_def)

lemma map_of_set_params_other:
  "(\<And>k. k \<in> set (keys ps) \<Longrightarrow> c \<noteq> prefix @ k) \<Longrightarrow> map_of (set_params prefix ps e) c = map_of e c"
  unfolding set_params_def by (induction ps arbitrary: e) auto

lemma map_of_set_params_own:
  assumes "distinct (keys ps)" "map_of ps n = Some v"
  shows "map_of (set_params prefix ps e) (prefix @ n) = Some [CObj v]"
proof -
  have "map_of (map (\<lambda>(k, v). (prefix @ k, [CObj v])) ps) (prefix @ n) = Some [CObj v]"
    using assms(2) by (induction ps) auto
  then show ?thesis using map_of_set_params [OF assms(1), of prefix e "prefix @ n"] by simp
qed

definition with_params :: "string \<Rightarrow> 'o dict option \<Rightarrow> 'o entry \<Rightarrow> 'o entry" where
  "with_params prefix ps e = (case ps of None \<Rightarrow> e | Some q \<Rightarrow> set_params prefix q e)"

text \<open>Without metrics an addition is decided by the check alone.\<close>

lemma add_entry_plain:
  assumes "entry_wf e" and "metrics_to_compute k = []" and "d' = learn_columns so upd e d k"
  shows "add_entry so e ps force upd (d, k) =
    (if entry_complete d' k e \<or> force
     then (Inr True, (snd (number_entry d' k (fill_invalid e (columns d' k) (invalid_token d))),
       k\<lparr>cls_entries := cls_entries k @
         [with_params (parameter_prefix d) ps (fst (number_entry d' k (fill_invalid e (columns d' k) (invalid_token d))))]\<rparr>))
     else (Inr False, (d', k)))"
proof -
  let ?f = "fill_invalid e (columns d' k) (invalid_token d)"
  have check: "has_invalid ?f (invalid_token d) = Inr (\<not> entry_complete d' k e)"
    using has_invalid_fill [OF assms(1)] assms(3) by (auto simp: entry_complete_def)
  obtain e2 d2 where n: "number_entry d' k ?f = (e2, d2)" by (cases "number_entry d' k ?f")
  show ?thesis
    using check n assms(2,3)
    by (auto simp: add_entry_def Let_def compute_metrics_def with_params_def split: option.splits)
qed

text \<open>C12: a result is recorded exactly when every column known after it, the fields of the
  result included, has a real value in it.  A recorded entry keeps these values, and holds each
  parameter of the configuration under its prefixed name; a refused one leaves the entries and
  the row counter alone but its fields have become columns.\<close>

theorem add_entry_decides:
  assumes "set_order so" and "entry_wf e" and "metrics_to_compute k = []" and "distinct (keys ps)"
    and "d' = learn_columns so True e d k"
  shows "set (columns d' k) = set (columns d k) \<union> set (keys e) \<and>
    (if entry_complete d' k e
     then \<exists>e' d''. add_entry so e (Some ps) False True (d, k) =
            (Inr True, (d'', k\<lparr>cls_entries := cls_entries k @ [e']\<rparr>)) \<and>
          columns d'' k = columns d' k \<and>
          (\<forall>c \<in> set (columns d' k). c \<noteq> ''index'' \<and> (\<forall>p \<in> set (keys ps). c \<noteq> parameter_prefix d @ p) \<longrightarrow>
             map_of e' c = map_of e c \<and> good_cells (invalid_token d) (map_of e c)) \<and>
          (\<forall>p v. map_of ps p = Some v \<longrightarrow> map_of e' (parameter_prefix d @ p) = Some [CObj v])
     else add_entry so e (Some ps) False True (d, k) = (Inr False, (d', k)) \<and> row_idx d' k = row_idx d k)"
proof -
  let ?f = "fill_invalid e (columns d' k) (invalid_token d)"
  have cols: "set (columns d' k) = set (columns d k) \<union> set (keys e)"
    using columns_learn [OF assms(1), of True e d k] assms(5) by simp
  note step = add_entry_plain [OF assms(2,3,5), of "Some ps" False]
  show ?thesis
  proof (cases "entry_complete d' k e")
    case True
    obtain e2 d2 where n: "number_entry d' k ?f = (e2, d2)" by (cases "number_entry d' k ?f")
    let ?e = "set_params (parameter_prefix d) ps e2"
    have other: "map_of e2 c = map_of e c" if "c \<noteq> ''index''" "c \<in> set (columns d' k)" for c
    proof -
      have "good_cells (invalid_token d) (map_of e c)"
        using True that(2) assms(5) by (simp add: entry_complete_def)
      then have "c \<in> set (keys e)"
        unfolding in_keys_iff by (auto simp: good_cells_def split: option.splits)
      then have "map_of ?f c = map_of e c" by (simp only: map_of_fill if_False not_True_eq_False simp_thms)
      then show ?thesis
        using n that by (cases "use_index d'") (auto simp: number_entry_def)
    qed
    have "map_of ?e c = map_of e c \<and> good_cells (invalid_token d) (map_of e c)"
      if "c \<in> set (columns d' k)" "c \<noteq> ''index''" "\<forall>p \<in> set (keys ps). c \<noteq> parameter_prefix d @ p" for c
    proof
      show "map_of ?e c = map_of e c"
        using map_of_set_params_other [of ps c "parameter_prefix d" e2] other that by auto
      show "good_cells (invalid_token d) (map_of e c)"
        using True that(1) assms(5) by (simp add: entry_complete_def)
    qed
    moreover have "columns d2 k = columns d' k"
      using n by (auto simp: number_entry_def columns_def split: if_splits)
    moreover have "add_entry so e (Some ps) False True (d, k) =
        (Inr True, (d2, k\<lparr>cls_entries := cls_entries k @ [?e]\<rparr>))"
      using step True n by (simp add: with_params_def)
    moreover have "\<forall>p v. map_of ps p = Some v \<longrightarrow> map_of ?e (parameter_prefix d @ p) = Some [CObj v]"
      using map_of_set_params_own [OF assms(4)] by blast
    ultimately show ?thesis using cols True by auto
  next
    case False
    then show ?thesis using cols step assms(5) by simp
  qed
qed

definition demo_dm :: dm where
  "demo_dm = \<lparr>invalid_token = ''NaN'', use_index = True, parameter_prefix = ''param_'',
     own_columns = Some [''lat''], own_row_idx = Some 4\<rparr>"

theorem add_entry_decides_witness:
  "add_entry remdups [(''thr'', [CStr ''3''])] (Some [(''n'', 7 :: int)]) False True (demo_dm, dm_initial_class) =
     (Inr False, (learn_columns remdups True [(''thr'', [CStr ''3'' :: int cell])] demo_dm dm_initial_class, dm_initial_class))"
proof -
  have inc: "\<not> entry_complete (learn_columns remdups True [(''thr'', [CStr ''3'' :: int cell])] demo_dm dm_initial_class)
      dm_initial_class [(''thr'', [CStr ''3'' :: int cell])]"
    by (simp add: entry_complete_def learn_columns_def columns_def demo_dm_def update_cols_def good_cells_def)
  show ?thesis
    using add_entry_decides [of remdups "[(''thr'', [CStr ''3'' :: int cell])]" dm_initial_class
        "[(''n'', 7 :: int)]" _ demo_dm, OF set_order_remdups _ _ _ refl] inc
    by (simp add: entry_wf_def dm_initial_class_def)
qed

fun add_all ::
  "(string list \<Rightarrow> string list) \<Rightarrow> ('o entry \<times> 'o dict option \<times> bool \<times> bool) list
     \<Rightarrow> dm \<times> 'o dm_class \<Rightarrow> dm \<times> 'o dm_class" where
  "add_all so [] s = s"
| "add_all so ((e, ps, force, upd) # xs) s = add_all so xs (snd (add_entry so e ps force upd s))"

text \<open>The state of a manager that numbers its rows: its counter, and the entries added since the
  class had \<open>es0\<close>, numbered from \<open>i0\<close>.\<close>

definition numbered :: "'o entry list \<Rightarrow> int \<Rightarrow> dm \<times> 'o dm_class \<Rightarrow> bool" where
  "numbered es0 i0 = (\<lambda>(d, k). use_index d \<and> metrics_to_compute k = [] \<and>
     (\<exists>es. cls_entries k = es0 @ es \<and> row_idx d k = i0 + int (length es) \<and>
       map (\<lambda>e. map_of e ''index'') es = map (\<lambda>j. Some [CInt (i0 + int j)]) [0..<length es]))"

lemma numbered_add:
  assumes "numbered es0 i0 s" and "entry_wf e"
    and "\<forall>q. ps = Some q \<longrightarrow> (\<forall>n \<in> set (keys q). ''index'' \<noteq> parameter_prefix (fst s) @ n)"
  shows "numbered es0 i0 (snd (add_entry so e ps force upd s)) \<and>
    parameter_prefix (fst (snd (add_entry so e ps force upd s))) = parameter_prefix (fst s)"
proof -
  obtain d k where s: "s = (d, k)" by (cases s)
  from assms(1) obtain es where inv: "use_index d" "metrics_to_compute k = []" "cls_entries k = es0 @ es"
    "row_idx d k = i0 + int (length es)"
    "map (\<lambda>e. map_of e ''index'') es = map (\<lambda>j. Some [CInt (i0 + int j)]) [0..<length es]"
    unfolding numbered_def s by blast
  let ?d = "learn_columns so upd e d k"
  note step = add_entry_plain [OF assms(2) inv(2) refl, where so = so and upd = upd and d = d and ps = ps and force = force]
  show ?thesis
  proof (cases "entry_complete ?d k e \<or> force")
    case True
    let ?f = "fill_invalid e (columns ?d k) (invalid_token d)"
    let ?e = "with_params (parameter_prefix d) ps (dict_set ''index'' [CInt (row_idx d k)] ?f)"
    have idx: "map_of ?e ''index'' = Some [CInt (i0 + int (length es))]"
    proof (cases ps)
      case (Some q)
      then have "map_of (set_params (parameter_prefix d) q (dict_set ''index'' [CInt (row_idx d k)] ?f)) ''index'' =
          map_of (dict_set ''index'' [CInt (row_idx d k)] ?f) ''index''"
        by (intro map_of_set_params_other) (use assms(3) s in auto)
      then show ?thesis using Some inv(4) by (simp add: with_params_def)
    qed (simp add: with_params_def inv(4))
    have "snd (add_entry so e ps force upd s) =
        (?d\<lparr>own_row_idx := Some (row_idx d k + 1)\<rparr>, k\<lparr>cls_entries := cls_entries k @ [?e]\<rparr>)"
      using step True inv(1) s by (simp add: number_entry_def)
    moreover have "numbered es0 i0 \<dots>"
      unfolding numbered_def using inv idx by (auto simp: row_idx_def intro!: exI [of _ "es @ [?e]"])
    ultimately show ?thesis using s by simp
  next
    case False
    then have "snd (add_entry so e ps force upd s) = (?d, k)" using step s by simp
    moreover have "numbered es0 i0 (?d, k)" unfolding numbered_def using inv by auto
    ultimately show ?thesis using s by simp
  qed
qed

lemma cls_row_idx_add: "cls_row_idx (snd (snd (add_entry so e ps force upd s))) = cls_row_idx (snd s)"
  by (cases s) (auto simp: add_entry_def Let_def split: sum.splits prod.splits)

lemma cls_row_idx_add_all: "cls_row_idx (snd (add_all so xs s)) = cls_row_idx (snd s)"
  by (induction so xs s rule: add_all.induct) (simp_all add: cls_row_idx_add)

lemma numbered_add_all:
  assumes "numbered es0 i0 s"
    and "\<And>e ps force upd. (e, ps, force, upd) \<in> set xs \<Longrightarrow> entry_wf e \<and>
      (\<forall>q. ps = Some q \<longrightarrow> (\<forall>n \<in> set (keys q). ''index'' \<noteq> parameter_prefix (fst s) @ n))"
  shows "numbered es0 i0 (add_all so xs s)"
  using assms
proof (induction xs arbitrary: s)
  case (Cons x xs)
  obtain e ps force upd where x: "x = (e, ps, force, upd)" by (cases x)
  have "numbered es0 i0 (snd (add_entry so e ps force upd s)) \<and>
    parameter_prefix (fst (snd (add_entry so e ps force upd s))) = parameter_prefix (fst s)"
    by (rule numbered_add) (use Cons.prems(1) Cons.prems(2) [of e ps force upd] x in auto)
  then have first: "numbered es0 i0 (snd (add_entry so e ps force upd s))"
    and prefix: "parameter_prefix (fst (snd (add_entry so e ps force upd s))) = parameter_prefix (fst s)"
    by auto
  have "numbered es0 i0 (add_all so xs (snd (add_entry so e ps force upd s)))"
  proof (rule Cons.IH [OF first], unfold prefix)
    fix e ps force upd
    assume "(e, ps, force, upd) \<in> set xs"
    then have "(e, ps, force, upd) \<in> set (x # xs)" by simp
    then show "entry_wf e \<and> (\<forall>q. ps = Some q \<longrightarrow> (\<forall>n \<in> set (keys q). ''index'' \<noteq> parameter_prefix (fst s) @ n))"
      by (rule Cons.prems(2))
  qed
  then show ?case using x by simp
qed simp

text \<open>Whatever is added, forced or refused, the rows a manager adds are numbered without gaps
  from its row counter, in the order in which they were added.\<close>

theorem rows_numbered:
  assumes "use_index d" and "metrics_to_compute k = []"
    and "\<And>e ps force upd. (e, ps, force, upd) \<in> set xs \<Longrightarrow> entry_wf e \<and>
      (\<forall>q. ps = Some q \<longrightarrow> (\<forall>n \<in> set (keys q). ''index'' \<noteq> parameter_prefix d @ n))"
    and "add_all so xs (d, k) = (d', k')"
  shows "\<exists>es. cls_entries k' = cls_entries k @ es \<and> row_idx d' k' = row_idx d k + int (length es) \<and>
    map (\<lambda>e. map_of e ''index'') es = map (\<lambda>j. Some [CInt (row_idx d k + int j)]) [0..<length es]"
proof -
  have "numbered (cls_entries k) (row_idx d k) (add_all so xs (d, k))"
    by (rule numbered_add_all) (use assms(1-3) in \<open>auto simp: numbered_def\<close>)
  then show ?thesis unfolding assms(4) by (auto simp: numbered_def)
qed

definition demo_additions :: "(int entry \<times> int dict option \<times> bool \<times> bool) list" where
  "demo_additions = [([(''a'', [CStr ''1''])], None, True, True), ([(''b'', [CStr ''2''])], None, False, True),
     ([(''b'', [CStr ''3''])], None, True, False)]"

theorem rows_numbered_witness:
  "\<exists>es. cls_entries (snd (add_all remdups demo_additions (demo_dm, dm_initial_class))) = es \<and>
    map (\<lambda>e. map_of e ''index'') es = map (\<lambda>j. Some [CInt (4 + int j)]) [0..<length es]"
proof -
  have "\<exists>es. cls_entries (snd (add_all remdups demo_additions (demo_dm, dm_initial_class))) =
      cls_entries dm_initial_class @ es \<and>
    row_idx (fst (add_all remdups demo_additions (demo_dm, dm_initial_class)))
      (snd (add_all remdups demo_additions (demo_dm, dm_initial_class))) =
      row_idx demo_dm (dm_initial_class :: int dm_class) + int (length es) \<and>
    map (\<lambda>e. map_of e ''index'') es =
      map (\<lambda>j. Some [CInt (row_idx demo_dm (dm_initial_class :: int dm_class) + int j)]) [0..<length es]"
    by (rule rows_numbered [OF _ _ _ prod.collapse [symmetric]])
      (auto simp: demo_dm_def dm_initial_class_def entry_wf_def demo_additions_def)
  then show ?thesis by (simp add: row_idx_def demo_dm_def dm_initial_class_def)
qed

text \<open>The entries and the columns belong to the class.  A second manager starts with the
  entries of the first, exports them as its own, and numbers its rows from the class counter again,
  so that row numbers repeat.\<close>

theorem managers_share_entries:
  assumes "data_manager t1 True cs1 p1 dm_initial_class = (d1, k1)"
    and "add_all so xs (d1, k1) = (d1', k2)"
    and "data_manager t2 True cs2 p2 k2 = (d2, k3)" and "add_all so ys (d2, k3) = (d2', k4)"
    and "\<And>e ps force upd. (e, ps, force, upd) \<in> set (xs @ ys) \<Longrightarrow> entry_wf e \<and> ps = None"
  shows "export_csv st header (d1', k4) = export_csv st header (d2', k4) \<and>
    (\<exists>es1 es2. cls_entries k2 = es1 \<and> cls_entries k4 = es1 @ es2 \<and>
      (\<forall>j < min (length es1) (length es2). map_of (es1 ! j) ''index'' = map_of (es2 ! j) ''index''))"
proof -
  have d1: "numbered [] 0 (d1, k1)" "cls_row_idx k1 = 0"
    using assms(1) by (auto simp: numbered_def data_manager_def dm_initial_class_def row_idx_def)
  have "numbered [] 0 (d1', k2)"
    unfolding assms(2) [symmetric] by (rule numbered_add_all [OF d1(1)]) (use assms(5) in auto)
  then obtain es1 where es1: "cls_entries k2 = es1" "metrics_to_compute k2 = []"
    "map (\<lambda>e. map_of e ''index'') es1 = map (\<lambda>j. Some [CInt (0 + int j)]) [0..<length es1]"
    by (auto simp: numbered_def)
  have "cls_row_idx k2 = 0" using cls_row_idx_add_all [of so xs "(d1, k1)"] assms(2) d1(2) by simp
  then have d2: "numbered es1 0 (d2, k3)"
    using assms(3) es1 by (auto simp: numbered_def data_manager_def row_idx_def)
  have "numbered es1 0 (d2', k4)"
    unfolding assms(4) [symmetric] by (rule numbered_add_all [OF d2]) (use assms(5) in auto)
  then obtain es2 where es2: "cls_entries k4 = es1 @ es2"
    "map (\<lambda>e. map_of e ''index'') es2 = map (\<lambda>j. Some [CInt (0 + int j)]) [0..<length es2]"
    by (auto simp: numbered_def)
  have nth: "map_of (es ! j) ''index'' = Some [CInt (int j)]"
    if "map (\<lambda>e. map_of e ''index'') es = map (\<lambda>j. Some [CInt (0 + int j)]) [0..<length es]" "j < length es"
    for es :: "'a entry list" and j
    using arg_cong [OF that(1), of "\<lambda>l. l ! j"] that(2) by simp
  have "map_of (es1 ! j) ''index'' = map_of (es2 ! j) ''index''" if "j < min (length es1) (length es2)" for j
    using nth [OF es1(3)] nth [OF es2(2)] that by simp
  then show ?thesis using es1(1) es2(1) by (auto simp: export_csv_def)
qed

theorem managers_share_entries_witness:
  "let (d1, k1) = data_manager ''NaN'' True [] ''param_'' dm_initial_class;
       (d1', k2) = add_all remdups [([(''a'', [CStr ''1'' :: int cell])], None, True, True)] (d1, k1);
       (d2, k3) = data_manager ''NaN'' True [] ''param_'' k2;
       (d2', k4) = add_all remdups [([(''a'', [CStr ''2'' :: int cell])], None, True, True)] (d2, k3)
   in export_csv int_str True (d1', k4) = export_csv int_str True (d2', k4)"
proof -
  obtain d1 k1 where 1: "data_manager ''NaN'' True [] ''param_'' (dm_initial_class :: int dm_class) = (d1, k1)" by fastforce
  obtain d1' k2 where 2: "add_all remdups [([(''a'', [CStr ''1'' :: int cell])], None, True, True)] (d1, k1) = (d1', k2)"
    by fastforce
  obtain d2 k3 where 3: "data_manager ''NaN'' True [] ''param_'' k2 = (d2, k3)" by fastforce
  obtain d2' k4 where 4: "add_all remdups [([(''a'', [CStr ''2'' :: int cell])], None, True, True)] (d2, k3) = (d2', k4)"
    by fastforce
  have "export_csv int_str True (d1', k4) = export_csv int_str True (d2', k4)"
    by (rule managers_share_entries [OF 1 2 3 4, THEN conjunct1]) (auto simp: entry_wf_def)
  then show ?thesis by (simp only: 1 2 3 4 Let_def case_prod_conv)
qed

section \<open>The exported table\<close>

lemma first_cell_hd: "v \<noteq> [] \<Longrightarrow> first_cell v = Inr (hd v)"
  by (cases v) (auto simp: first_cell_def)

definition table_cell :: "'o entry \<Rightarrow> string \<Rightarrow> 'o cell" where
  "table_cell e c = (case map_of e c of Some v \<Rightarrow> hd v | None \<Rightarrow> CStr ''NaN'')"

lemma matrix_line_total: "entry_wf e \<Longrightarrow> matrix_line cols e = Inr (map (table_cell e) cols)"
  unfolding matrix_line_def
proof (rule res_map_total)
  fix c assume "entry_wf e"
  then show "(case map_of e c of None \<Rightarrow> Inr (CStr ''NaN'') | Some v \<Rightarrow> first_cell v) = Inr (table_cell e c)"
    by (cases "map_of e c") (auto simp: table_cell_def entry_wf_def dest!: map_of_SomeD intro!: first_cell_hd)
qed

lemma matrix_total:
  assumes "\<And>e. e \<in> set es \<Longrightarrow> entry_wf e"
  shows "results_to_matrix es header =
    Inr (if header then [join '','' (matrix_cols es)] else [], map (\<lambda>e. map (table_cell e) (matrix_cols es)) es)"
proof -
  have "res_map (matrix_line (matrix_cols es)) es = Inr (map (\<lambda>e. map (table_cell e) (matrix_cols es)) es)"
    by (rule res_map_total) (simp add: assms matrix_line_total)
  then show ?thesis by (simp add: results_to_matrix_def)
qed

text \<open>C13: exporting entries whose cells are not empty never raises.  The columns are exactly the
  keys of the entries, each once, in increasing order; there is one row per entry, in order, and
  under each column the row has the first cell of the entry, or \<^verbatim>\<open>NaN\<close> when the entry lacks it.\<close>

theorem matrix_correct:
  assumes "\<And>e. e \<in> set es \<Longrightarrow> entry_wf e"
  shows "results_to_matrix es header =
      Inr (if header then [join '','' (matrix_cols es)] else [], map (\<lambda>e. map (table_cell e) (matrix_cols es)) es) \<and>
    sorted (matrix_cols es) \<and> distinct (matrix_cols es) \<and>
    set (matrix_cols es) = (\<Union>e \<in> set es. set (keys e))"
proof -
  have "set (matrix_cols es) = (\<Union>e \<in> set es. set (keys e))" by (simp add: matrix_cols_def)
  moreover have "sorted (matrix_cols es)" "distinct (matrix_cols es)" by (simp_all add: matrix_cols_def)
  ultimately show ?thesis using matrix_total [OF assms] by blast
qed

theorem matrix_correct_witness:
  "results_to_matrix [[(''b'', [CStr ''1'', CInt 3])], [(''a'', [CInt 2 :: int cell])]] True =
    Inr ([''a,b''], [[CStr ''NaN'', CStr ''1''], [CInt 2, CStr ''NaN'']])"
proof -
  let ?es = "[[(''b'', [CStr ''1'', CInt 3])], [(''a'', [CInt 2 :: int cell])]]"
  have "matrix_cols ?es = [''a'', ''b'']" by (simp add: matrix_cols_def)
  moreover have wf: "entry_wf e" if "e \<in> set ?es" for e using that by (auto simp: entry_wf_def)
  ultimately have "matrix_cols ?es = [''a'', ''b'']" by simp
  then show ?thesis
    using matrix_correct [of ?es True, OF wf] by (simp add: table_cell_def)
qed

section \<open>Reading an exported table\<close>

definition plain :: "string \<Rightarrow> bool" where
  "plain s \<longleftrightarrow> s \<noteq> [] \<and> CHR '','' \<notin> set s \<and> CHR 0x22 \<notin> set s \<and> CHR 0x0A \<notin> set s \<and> CHR 0x0D \<notin> set s"

lemma universal_newlines_id: "CHR 0x0D \<notin> set s \<Longrightarrow> universal_newlines s = s"
  by (induction s rule: universal_newlines.induct) auto

lemma csv_in_field:
  "CHR '','' \<notin> set f \<Longrightarrow> CHR 0x0A \<notin> set f \<Longrightarrow> CHR 0x0D \<notin> set f \<Longrightarrow>
    csv_rows_aux InField rec fld (f @ s) = csv_rows_aux InField rec (rev f @ fld) s"
  by (induction f arbitrary: fld) (auto simp: is_nl_def)

lemma csv_start_field:
  "plain f \<Longrightarrow> csv_rows_aux StartField rec [] (f @ s) = csv_rows_aux InField rec (rev f) s"
  using csv_in_field [of "tl f" rec "[hd f]" s] by (cases f) (auto simp: plain_def is_nl_def)

lemma csv_start_record:
  "plain f \<Longrightarrow> csv_rows_aux StartRecord [] [] (f @ s) = csv_rows_aux InField [] (rev f) s"
  using csv_in_field [of "tl f" "[]" "[hd f]" s] by (cases f) (auto simp: plain_def is_nl_def)

lemma csv_fields:
  "list_all plain fs \<Longrightarrow>
    csv_rows_aux InField rec fld (concat (map (\<lambda>f. CHR '','' # f) fs) @ CHR 0x0A # s) =
      rev (rev fs @ rev fld # rec) # csv_rows_aux StartRecord [] [] s"
proof (induction fs arbitrary: rec fld)
  case (Cons f fs)
  then show ?case
    using csv_start_field [of f "rev fld # rec" "concat (map (\<lambda>f. CHR '','' # f) fs) @ CHR 0x0A # s"]
      Cons.IH [of "rev fld # rec" "rev f"] by (simp add: is_nl_def)
qed (simp add: is_nl_def)

lemma csv_line:
  assumes "plain f" and "list_all plain fs"
  shows "csv_rows_aux StartRecord [] [] (f @ concat (map (\<lambda>f. CHR '','' # f) fs) @ CHR 0x0A # s) =
    (f # fs) # csv_rows_aux StartRecord [] [] s"
  using csv_start_record [OF assms(1)] csv_fields [OF assms(2), of "[]" "rev f" s] by simp

lemma join_concat: "join sep (x # xs) = x @ concat (map (\<lambda>y. sep @ y) xs)"
  by (induction xs arbitrary: x) auto

text \<open>The rows are joined with a comma and a blank, the header with a comma only.\<close>

fun spaced :: "string list \<Rightarrow> string list" where
  "spaced [] = []"
| "spaced (x # xs) = x # map (\<lambda>y. CHR '' '' # y) xs"

lemma spaced_text: "xs \<noteq> [] \<Longrightarrow>
    join '', '' xs @ s = hd xs @ concat (map (\<lambda>f. CHR '','' # f) (tl (spaced xs))) @ s"
  by (cases xs) (auto simp: join_concat comp_def)

lemma plain_spaced: "list_all plain xs \<Longrightarrow> list_all plain (spaced xs)"
  by (cases xs) (auto simp: plain_def list_all_iff)

lemma csv_rows_lines:
  assumes "\<forall>l \<in> set ls. l \<noteq> [] \<and> list_all plain l"
  shows "csv_rows_aux StartRecord [] [] (concat (map (\<lambda>l. join '', '' l @ [CHR 0x0A]) ls)) = map spaced ls"
  using assms
proof (induction ls)
  case (Cons l ls)
  let ?s = "concat (map (\<lambda>l. join '', '' l @ [CHR 0x0A]) ls)"
  obtain x xs where l: "l = x # xs" using Cons.prems by (cases l) auto
  have "list_all plain (spaced l)" by (rule plain_spaced) (use Cons.prems in auto)
  then have p: "plain x" "list_all plain (map (\<lambda>y. CHR '' '' # y) xs)" by (simp_all add: l)
  have "concat (map (\<lambda>l. join '', '' l @ [CHR 0x0A]) (l # ls)) =
      x @ concat (map (\<lambda>f. CHR '','' # f) (map (\<lambda>y. CHR '' '' # y) xs)) @ CHR 0x0A # ?s"
    using spaced_text [of l "CHR 0x0A # ?s"] by (simp add: l)
  then show ?case using csv_line [OF p, of ?s] Cons by (simp only: l spaced.simps) simp
qed simp

lemma csv_rows_table:
  assumes "names \<noteq> []" "list_all plain names" "\<forall>l \<in> set ls. l \<noteq> [] \<and> list_all plain l"
  shows "csv_rows (join '','' names @ CHR 0x0A # concat (map (\<lambda>l. join '', '' l @ [CHR 0x0A]) ls)) =
    names # map spaced ls"
proof -
  let ?s = "concat (map (\<lambda>l. join '', '' l @ [CHR 0x0A]) ls)"
  obtain n ns where n: "names = n # ns" using assms(1) by (cases names) auto
  have no_cr: "CHR 0x0D \<notin> set (join sep l)" if "CHR 0x0D \<notin> set sep" "list_all plain l" for sep l
    using that(1) by (rule not_in_join) (use that(2) in \<open>simp add: list_all_iff plain_def\<close>)
  have "CHR 0x0D \<notin> set ?s" using assms(3) no_cr [of "'', ''"] by simp
  then have "CHR 0x0D \<notin> set (join '','' names @ CHR 0x0A # ?s)"
    using assms(2) no_cr [of "'',''" names] by simp
  then have "csv_rows (join '','' names @ CHR 0x0A # ?s) =
      csv_rows_aux StartRecord [] [] (join '','' names @ CHR 0x0A # ?s)"
    unfolding csv_rows_def by (rule arg_cong [OF universal_newlines_id])
  moreover have "join '','' names @ CHR 0x0A # ?s = n @ concat (map (\<lambda>f. CHR '','' # f) ns) @ CHR 0x0A # ?s"
    by (simp add: n join_concat)
  moreover have "csv_rows_aux StartRecord [] [] (n @ concat (map (\<lambda>f. CHR '','' # f) ns) @ CHR 0x0A # ?s) =
      names # csv_rows_aux StartRecord [] [] ?s"
    unfolding n by (rule csv_line) (use assms(2) n in auto)
  moreover have "csv_rows_aux StartRecord [] [] ?s = map spaced ls" by (rule csv_rows_lines [OF assms(3)])
  ultimately show ?thesis by metis
qed

lemma spaced_length [simp]: "length (spaced xs) = length xs"
  by (cases xs) auto

lemma dict_reader_table:
  assumes "names \<noteq> []" "distinct names" "list_all plain names"
    and "\<forall>l \<in> set ls. length l = length names \<and> list_all plain l"
  shows "dict_reader (join '','' names @ CHR 0x0A # concat (map (\<lambda>l. join '', '' l @ [CHR 0x0A]) ls)) =
    Inr (map (\<lambda>l. zip names (map CStr (spaced l))) ls)"
proof -
  have ls: "\<forall>l \<in> set ls. l \<noteq> [] \<and> list_all plain l" using assms(1,4) by auto
  have "filter (\<lambda>r. r \<noteq> []) (map spaced ls) = map spaced ls"
    using ls by (induction ls) (auto simp: neq_Nil_conv)
  moreover have "res_map (dict_row names) (map spaced ls) = Inr (map (\<lambda>r. zip names (map CStr r)) (map spaced ls))"
  proof (rule res_map_total)
    fix r assume "r \<in> set (map spaced ls)"
    then have len: "length r = length names" using assms(4) by auto
    then have "dict_update [] (zip names (map CStr r)) = zip names (map CStr r)"
      by (intro dict_of_distinct) (simp add: assms(2) map_fst_zip)
    then show "dict_row names r = Inr (zip names (map CStr r))" using len by (simp add: dict_row_def)
  qed
  ultimately show ?thesis
    using csv_rows_table [OF assms(1,3) ls] by (simp add: dict_reader_def comp_def)
qed

text \<open>The text of an entry under the columns of a table, and the row the reader makes of it.\<close>

definition table_text :: "('o \<Rightarrow> string) \<Rightarrow> string list \<Rightarrow> 'o entry \<Rightarrow> string list" where
  "table_text st cols e = map (\<lambda>c. cell_str st (table_cell e c)) cols"

definition reloaded :: "('o \<Rightarrow> string) \<Rightarrow> string list \<Rightarrow> 'o entry \<Rightarrow> 'o entry" where
  "reloaded st cols e = zip cols (map (\<lambda>t. [CStr t]) (spaced (table_text st cols e)))"

lemma results_to_csv_text:
  assumes "\<And>e. e \<in> set es \<Longrightarrow> entry_wf e"
  shows "results_to_csv st es True = Inr (join '','' (matrix_cols es) @ CHR 0x0A #
    concat (map (\<lambda>l. join '', '' l @ [CHR 0x0A]) (map (table_text st (matrix_cols es)) es)))"
proof -
  have "results_to_matrix es True =
      Inr ([join '','' (matrix_cols es)], map (\<lambda>e. map (table_cell e) (matrix_cols es)) es)"
    using matrix_total [OF assms, of es True] by simp
  then have "results_to_csv st es True = Inr (concat (map (\<lambda>h. h @ [CHR 0x0A]) [join '','' (matrix_cols es)]) @
      concat (map (\<lambda>l. join '', '' (map (cell_str st) l) @ [CHR 0x0A])
        (map (\<lambda>e. map (table_cell e) (matrix_cols es)) es)))"
    by (simp only: results_to_csv_def res_bind_simps case_prod_conv)
  also have "\<dots> = Inr ((join '','' (matrix_cols es) @ [CHR 0x0A]) @
      concat (map (\<lambda>l. join '', '' l @ [CHR 0x0A]) (map (table_text st (matrix_cols es)) es)))"
    unfolding table_text_def map_map comp_def by (simp only: list.map concat.simps append_Nil2)
  finally show ?thesis by (simp only: append_assoc append_Cons append_Nil)
qed

lemma dict_reader_reload:
  assumes "results_to_csv st es True = Inr text" and "\<And>e. e \<in> set es \<Longrightarrow> entry_wf e"
    and "matrix_cols es \<noteq> []" and "list_all plain (matrix_cols es)"
    and "\<And>e. e \<in> set es \<Longrightarrow> list_all plain (table_text st (matrix_cols es) e)"
  shows "dict_reader text =
    Inr (map (\<lambda>e. zip (matrix_cols es) (map CStr (spaced (table_text st (matrix_cols es) e)))) es)"
proof -
  have "text = join '','' (matrix_cols es) @ CHR 0x0A #
    concat (map (\<lambda>l. join '', '' l @ [CHR 0x0A]) (map (table_text st (matrix_cols es)) es))"
    using results_to_csv_text [OF assms(2), of es st] assms(1) by simp
  moreover have "dict_reader \<dots> =
      Inr (map (\<lambda>l. zip (matrix_cols es) (map CStr (spaced l))) (map (table_text st (matrix_cols es)) es))"
    by (rule dict_reader_table [OF assms(3) _ assms(4)])
      (use assms(5) in \<open>auto simp: matrix_cols_def table_text_def\<close>)
  ultimately show ?thesis by (simp add: comp_def)
qed

text \<open>A manager whose columns are still unknown accepts every row without an invalid token.\<close>

lemma load_rows_plain:
  assumes "use_index d" "columns d k = []" "metrics_to_compute k = []"
    and "\<And>r. r \<in> set rows \<Longrightarrow> distinct (keys r) \<and> (\<forall>(c, x) \<in> set r. x \<noteq> CStr (invalid_token d))"
  shows "\<exists>d'. load_rows so rows (d, k) = (Inr (), (d', k\<lparr>cls_entries := cls_entries k @
      map (\<lambda>(j, r). dict_set ''index'' [CInt (row_idx d k + int j)] (map (\<lambda>(c, x). (c, [x])) r))
        (enumerate 0 rows)\<rparr>))"
  using assms
proof (induction rows arbitrary: d k)
  case (Cons r rows)
  let ?e = "map (\<lambda>(c, x). (c, [x])) r"
  have wf: "entry_wf ?e" using Cons.prems(4) [of r] by (auto simp: entry_wf_def comp_def case_prod_unfold)
  have "good_cells (invalid_token d) (map_of ?e c)" if c: "c \<in> set (keys ?e)" for c
  proof -
    obtain v where v: "map_of ?e c = Some v" using c unfolding in_keys_iff not_None_eq ..
    have "(c, v) \<in> set ?e" using v by (rule map_of_SomeD)
    then obtain x where "v = [x]" "(c, x) \<in> set r" by auto
    then show ?thesis using v Cons.prems(4) [of r] by (auto simp: good_cells_def)
  qed
  then have entry_complete: "entry_complete d k ?e"
    using Cons.prems(2) by (simp add: entry_complete_def)
  have nolearn: "learn_columns so False ?e d k = d" by (simp add: learn_columns_def)
  let ?d = "d\<lparr>own_row_idx := Some (row_idx d k + 1)\<rparr>"
  let ?k = "k\<lparr>cls_entries := cls_entries k @ [dict_set ''index'' [CInt (row_idx d k)] ?e]\<rparr>"
  have add: "add_entry so ?e None False False (d, k) = (Inr True, (?d, ?k))"
    using add_entry_plain [OF wf Cons.prems(3) nolearn [symmetric]] entry_complete Cons.prems(1,2)
    by (simp add: number_entry_def with_params_def fill_invalid_def)
  have "\<exists>d'. load_rows so rows (?d, ?k) = (Inr (), (d', ?k\<lparr>cls_entries := cls_entries ?k @
      map (\<lambda>(j, r). dict_set ''index'' [CInt (row_idx ?d ?k + int j)] (map (\<lambda>(c, x). (c, [x])) r))
        (enumerate 0 rows)\<rparr>))"
    by (rule Cons.IH) (use Cons.prems in \<open>auto simp: columns_def split: option.splits\<close>)
  moreover have "map (\<lambda>(j, r). dict_set ''index'' [CInt (row_idx ?d ?k + int j)] (map (\<lambda>(c, x). (c, [x])) r))
        (enumerate 0 rows) =
      map (\<lambda>(j, r). dict_set ''index'' [CInt (row_idx d k + int j)] (map (\<lambda>(c, x). (c, [x])) r))
        (enumerate (Suc 0) rows)"
    by (rule nth_equalityI) (auto simp: nth_enumerate_eq row_idx_def add.assoc)
  ultimately show ?case using add by (auto simp: case_prod_unfold)
qed auto

text \<open>C14: what a resumed experiment finds in its result file.  Exported entries come back in
  order, renumbered from 0, every cell as its text; and every cell but that of the first column has
  gained a leading blank, since rows are joined with a comma and a blank and read with a comma.  So
  \<^verbatim>\<open>NaN\<close> in such a column is no longer the invalid token.\<close>

theorem reload_gains_blanks:
  assumes "export_csv st True (d0, k0) = Inr text"
    and "\<And>e. e \<in> set (cls_entries k0) \<Longrightarrow> entry_wf e"
    and "cols = matrix_cols (cls_entries k0)" and "cols \<noteq> []" and "list_all plain cols"
    and "\<And>e. e \<in> set (cls_entries k0) \<Longrightarrow> list_all plain (table_text st cols e)"
    and "\<And>e. e \<in> set (cls_entries k0) \<Longrightarrow> hd (table_text st cols e) \<noteq> token"
    and "CHR '' '' \<notin> set token"
    and "data_manager token True [] prefix dm_initial_class = (d, k)"
  shows "\<exists>d'. load_from_csv so text (d, k) = (Inr (), (d', k\<lparr>cls_entries :=
      map (\<lambda>(j, e). dict_set ''index'' [CInt (int j)] (reloaded st cols e)) (enumerate 0 (cls_entries k0))\<rparr>))"
proof -
  let ?row = "\<lambda>e. zip cols (map (CStr :: string \<Rightarrow> 'a cell) (spaced (table_text st cols e)))"
  have rows: "dict_reader text = Inr (map ?row (cls_entries k0))"
    using dict_reader_reload [of st "cls_entries k0" "text"] assms(1-6) by (simp add: export_csv_def)
  have d: "use_index d" "columns d k = []" "metrics_to_compute k = []" "invalid_token d = token"
    "cls_entries k = []" "row_idx d k = 0"
    using assms(9) by (auto simp: data_manager_def dm_initial_class_def columns_def row_idx_def)
  have ok: "distinct (keys (?row e)) \<and> (\<forall>(c, x) \<in> set (?row e). x \<noteq> CStr token)"
    if "e \<in> set (cls_entries k0)" for e
  proof
    have len: "length cols = length (table_text st cols e)" by (simp add: table_text_def)
    then show "distinct (keys (?row e))"
      using assms(3) by (simp add: map_fst_zip matrix_cols_def)
    have "token \<notin> set (spaced (table_text st cols e))"
      using assms(7) [OF that] assms(4,8) by (cases "table_text st cols e") (auto simp: table_text_def)
    then show "\<forall>(c, x) \<in> set (?row e). x \<noteq> CStr token" by (auto dest!: set_zip_rightD)
  qed
  have "\<exists>d'. load_rows so (map ?row (cls_entries k0)) (d, k) = (Inr (), (d', k\<lparr>cls_entries := cls_entries k @
      map (\<lambda>(j, r). dict_set ''index'' [CInt (row_idx d k + int j)] (map (\<lambda>(c, x). (c, [x])) r))
        (enumerate 0 (map ?row (cls_entries k0)))\<rparr>))"
    by (rule load_rows_plain [OF d(1-3)]) (use ok d(4) in auto)
  moreover have "map (\<lambda>(j, r). dict_set ''index'' [CInt (row_idx d k + int j)] (map (\<lambda>(c, x). (c, [x])) r))
        (enumerate 0 (map ?row (cls_entries k0))) =
      map (\<lambda>(j, e). dict_set ''index'' [CInt (int j)] (reloaded st cols e)) (enumerate 0 (cls_entries k0))"
    by (rule nth_equalityI) (auto simp: nth_enumerate_eq reloaded_def d(6) zip_map2 comp_def case_prod_unfold)
  ultimately show ?thesis using d(5) rows by (simp add: load_from_csv_def)
qed

definition demo_class :: "int dm_class" where
  "demo_class = dm_initial_class\<lparr>cls_entries := [[(''lat'', [CStr ''1'']), (''thr'', [CStr ''NaN''])]]\<rparr>"

theorem reload_gains_blanks_witness:
  "\<exists>d'. load_from_csv remdups (''lat,thr'' @ [CHR 0x0A] @ ''1, NaN'' @ [CHR 0x0A])
      (data_manager ''NaN'' True [] ''param_'' dm_initial_class) =
    (Inr (), (d', (dm_initial_class :: int dm_class)\<lparr>cls_entries :=
      [[(''lat'', [CStr ''1'']), (''thr'', [CStr '' NaN'']), (''index'', [CInt 0])]]\<rparr>))"
proof -
  let ?e = "[(''lat'', [CStr ''1'' :: int cell]), (''thr'', [CStr ''NaN''])]"
  have es: "cls_entries demo_class = [?e]" by (simp add: demo_class_def)
  have cols: "matrix_cols (cls_entries demo_class) = [''lat'', ''thr'']" by (simp add: es matrix_cols_def)
  have cells: "table_text int_str [''lat'', ''thr''] ?e = [''1'', ''NaN'']"
    by (simp add: table_text_def table_cell_def cell_str_def)
  have wf: "entry_wf e" if "e \<in> set (cls_entries demo_class)" for e using that by (simp add: es entry_wf_def)
  have out: "export_csv int_str True (demo_dm, demo_class) = Inr (''lat,thr'' @ [CHR 0x0A] @ ''1, NaN'' @ [CHR 0x0A])"
    using results_to_csv_text [of "cls_entries demo_class" int_str, OF wf] es cols cells
    by (simp add: export_csv_def)
  obtain d k where dk: "data_manager ''NaN'' True [] ''param_'' (dm_initial_class :: int dm_class) = (d, k)"
    by fastforce
  have k: "k = dm_initial_class" using dk by (simp add: data_manager_def dm_initial_class_def)
  show ?thesis
    unfolding dk
    using reload_gains_blanks [OF out wf cols [symmetric] _ _ _ _ _ dk, of remdups] cells
    by (simp add: es plain_def k reloaded_def)
qed

end
