(* ===== verification/Tmux.thy ===== *)
theory Tmux
  imports Complex_Main Result_Parse
begin

text \<open>
  The remote control of autotest/expelib.py: terminal sessions driven through \<^verbatim>\<open>tmux\<close>, files
  copied with \<^verbatim>\<open>scp\<close> or \<^verbatim>\<open>cp\<close>, rendered scripts, batched uploads and their cleaning.

  The programs that run outside are not part of the sources.  What the code does to them is a list
  of actions, the latest first; what they answer is a function of that list, the record
  \<open>outside\<close>, about which nothing is assumed.  An operation maps the actions so far to a result
  and more actions, or never returns (\<open>None\<close>): the code waits in loops without a bound.  Times are
  rational numbers.  The text of a \<^verbatim>\<open>RuntimeError\<close> is its fixed beginning, and logging is left
  out.
\<close>

section \<open>Actions and answers\<close>

datatype action =
    Run "string list"
  | Sleep rat
  | ReadClock
  | WriteFile string string
  | AppendFile string string
  | ZipFiles string "string list"
  | Remove string

type_synonym history = "action list"

record run_result =
  returncode :: int
  stdout :: string

record outside =
  answer :: "history \<Rightarrow> run_result"
  clock :: "history \<Rightarrow> rat"
  random :: "history \<Rightarrow> nat \<Rightarrow> nat"
  is_file :: "history \<Rightarrow> string \<Rightarrow> bool"
  is_dir :: "history \<Rightarrow> string \<Rightarrow> bool"
  glob_paths :: "history \<Rightarrow> string \<Rightarrow> string list"
  file_lines :: "history \<Rightarrow> string \<Rightarrow> string list"
  template :: "string \<Rightarrow> string dict \<Rightarrow> string res"
  getcwd :: string
  expanduser :: "string \<Rightarrow> string"
  abspath :: "string \<Rightarrow> string"

type_synonym 'a tm = "history \<Rightarrow> ('a res \<times> history) option"

definition tret :: "'a \<Rightarrow> 'a tm" where
  "tret x h = Some (Inr x, h)"

definition traise :: "py_error \<Rightarrow> 'a tm" where
  "traise e h = Some (Inl e, h)"

definition tbind :: "'a tm \<Rightarrow> ('a \<Rightarrow> 'b tm) \<Rightarrow> 'b tm" where
  "tbind m f h = (case m h of
     None \<Rightarrow> None | Some (Inl e, h') \<Rightarrow> Some (Inl e, h') | Some (Inr x, h') \<Rightarrow> f x h')"

definition tseq :: "'a tm \<Rightarrow> 'b tm \<Rightarrow> 'b tm" where
  "tseq m n = tbind m (\<lambda>_. n)"

definition sp_run :: "outside \<Rightarrow> string list \<Rightarrow> run_result tm" where
  "sp_run w cmd h = Some (Inr (answer w (Run cmd # h)), Run cmd # h)"

definition act :: "action \<Rightarrow> unit tm" where
  "act a h = Some (Inr (), a # h)"

fun tmap :: "('a \<Rightarrow> 'b tm) \<Rightarrow> 'a list \<Rightarrow> 'b list tm" where
  "tmap f [] = tret []"
| "tmap f (x # xs) = tbind (f x) (\<lambda>y. tbind (tmap f xs) (\<lambda>ys. tret (y # ys)))"

lemma tm_simps [simp]:
  "tbind (tret x) f = f x" "tseq (tret x) n = n"
  "tbind (traise e) f = traise e" "tseq (traise e) n = (traise e :: 'b tm)"
  by (simp_all add: fun_eq_iff tbind_def tret_def traise_def tseq_def)

lemma tbind_run [simp]:
  "tbind (sp_run w cmd) f h = f (answer w (Run cmd # h)) (Run cmd # h)"
  "tseq (sp_run w cmd) n h = n (Run cmd # h)"
  "tseq (act a) n h = n (a # h)"
  by (simp_all add: tbind_def sp_run_def tseq_def act_def)

lemma tbind_Some:
  "m h = Some (Inr x, h') \<Longrightarrow> tbind m f h = f x h'"
  "m h = Some (Inr x, h') \<Longrightarrow> tseq m n h = n h'"
  "m h = Some (Inl e, h') \<Longrightarrow> tbind m f h = Some (Inl e, h')"
  by (simp_all add: tbind_def tseq_def)

section \<open>Paths and commands\<close>

text \<open>\<^verbatim>\<open>os.path.splitext\<close>: the last dot of the last component, unless only dots precede it.\<close>

definition splitext :: "string \<Rightarrow> string \<times> string" where
  "splitext p =
     (let f = basename p; e = rev (takeWhile (\<lambda>c. c \<noteq> CHR ''.'') (rev f));
          stem = take (length f - Suc (length e)) f
      in if CHR ''.'' \<in> set f \<and> (\<exists>c \<in> set stem. c \<noteq> CHR ''.'')
         then (take (length p - Suc (length e)) p, CHR ''.'' # e)
         else (p, []))"

text \<open>\<^verbatim>\<open>shlex.split\<close>: blanks separate words, quotes protect them; inside double quotes a backslash
  escapes a double quote or a backslash only.  \<open>None\<close> as the current word is no word yet.\<close>

definition shlex_ws :: "char \<Rightarrow> bool" where
  "shlex_ws c \<longleftrightarrow> c \<in> {CHR '' '', CHR 0x09, CHR 0x0D, CHR 0x0A}"

datatype shlex_state = Plain | Single | Double | Escape bool

definition add_char :: "string option \<Rightarrow> char \<Rightarrow> string option" where
  "add_char w c = Some (case w of None \<Rightarrow> [c] | Some s \<Rightarrow> c # s)"

definition the_word :: "string option \<Rightarrow> string list" where
  "the_word w = (case w of None \<Rightarrow> [] | Some s \<Rightarrow> [rev s])"

definition open_word :: "string option \<Rightarrow> string option" where
  "open_word w = (case w of None \<Rightarrow> Some [] | Some s \<Rightarrow> Some s)"

fun shlex_aux :: "shlex_state \<Rightarrow> string option \<Rightarrow> string \<Rightarrow> string list res" where
  "shlex_aux Plain w [] = Inr (the_word w)"
| "shlex_aux q w [] = Inl ValueError"
| "shlex_aux Plain w (c # s) =
     (if shlex_ws c then res_bind (shlex_aux Plain None s) (\<lambda>ws. Inr (the_word w @ ws))
      else if c = CHR 0x27 then shlex_aux Single (open_word w) s
      else if c = CHR 0x22 then shlex_aux Double (open_word w) s
      else if c = CHR 0x5C then shlex_aux (Escape False) (open_word w) s
      else shlex_aux Plain (add_char w c) s)"
| "shlex_aux Single w (c # s) =
     (if c = CHR 0x27 then shlex_aux Plain w s else shlex_aux Single (add_char w c) s)"
| "shlex_aux Double w (c # s) =
     (if c = CHR 0x22 then shlex_aux Plain w s
      else if c = CHR 0x5C then shlex_aux (Escape True) w s
      else shlex_aux Double (add_char w c) s)"
| "shlex_aux (Escape True) w (c # s) =
     (if c = CHR 0x22 \<or> c = CHR 0x5C then shlex_aux Double (add_char w c) s
      else shlex_aux Double (add_char (add_char w (CHR 0x5C)) c) s)"
| "shlex_aux (Escape False) w (c # s) = shlex_aux Plain (add_char w c) s"

definition shlex_split :: "string \<Rightarrow> string list res" where
  "shlex_split s = shlex_aux Plain None s"

definition nonblank_lines :: "string \<Rightarrow> string list" where
  "nonblank_lines output = filter (\<lambda>x. 0 < length x) (split_char (CHR 0x0A) output)"

definition localhost :: string where
  "localhost = ''local''"

definition renders_dir :: string where
  "renders_dir = ''renders''"

record ssh_config =
  identity :: string
  user :: string
  host_address :: string

section \<open>Time stamps\<close>

text \<open>\<^verbatim>\<open>round\<close> of Python: to the nearest integer, ties to the even one.\<close>

definition py_round :: "rat \<Rightarrow> int" where
  "py_round x =
     (let f = floor x; d = x - of_int f
      in if d < 1 / 2 then f else if d > 1 / 2 then f + 1 else if even f then f else f + 1)"

definition timestamp :: "outside \<Rightarrow> nat \<Rightarrow> nat \<Rightarrow> history \<Rightarrow> int" where
  "timestamp w rand_ext_size ts_period h =
     (let now = py_round (clock w h);
          now_period = now mod int ts_period
      in now_period * 10 ^ rand_ext_size + int (random w h (10 ^ rand_ext_size - 1)))"

section \<open>Sessions\<close>

definition remote_tmux_session_name :: "string \<Rightarrow> string" where
  "remote_tmux_session_name remote = ''expelib-tmux-'' @ remote"

definition has_session_cmd :: "string \<Rightarrow> string list" where
  "has_session_cmd remote = [''tmux'', ''has-session'', ''-t'', remote_tmux_session_name remote]"

definition remote_tmux_check :: "outside \<Rightarrow> string \<Rightarrow> bool tm" where
  "remote_tmux_check w remote = tbind (sp_run w (has_session_cmd remote)) (\<lambda>r. tret (returncode r = 0))"

definition capture_cmd :: "string \<Rightarrow> string list" where
  "capture_cmd remote = [''tmux'', ''capture-pane'', ''-b'', remote, ''-S'', ''-10000'', ''-t'',
     remote_tmux_session_name remote]"

definition show_buffer_cmd :: "string \<Rightarrow> string list" where
  "show_buffer_cmd remote = [''tmux'', ''show-buffer'', ''-b'', remote]"

definition remote_tmux_get_output :: "outside \<Rightarrow> string \<Rightarrow> string tm" where
  "remote_tmux_get_output w remote =
     tseq (sp_run w (capture_cmd remote))
       (tbind (sp_run w (show_buffer_cmd remote)) (\<lambda>r. tret (stdout r)))"

text \<open>What one look at the session adds to the actions, and what it shows.\<close>

definition looked :: "string \<Rightarrow> history \<Rightarrow> history" where
  "looked remote h = Run (show_buffer_cmd remote) # Run (capture_cmd remote) # h"

definition screen :: "outside \<Rightarrow> string \<Rightarrow> history \<Rightarrow> string" where
  "screen w remote h = stdout (answer w (looked remote h))"

lemma get_output_eq: "remote_tmux_get_output w remote h = Some (Inr (screen w remote h), looked remote h)"
  by (simp add: remote_tmux_get_output_def screen_def looked_def tret_def)

definition prompt_char :: "char \<Rightarrow> bool" where
  "prompt_char c \<longleftrightarrow> c = CHR ''-'' \<or> is_word c \<or> py_isdigit c"

definition path_char :: "char \<Rightarrow> bool" where
  "path_char c \<longleftrightarrow> c = CHR ''~'' \<or> c = CHR ''/'' \<or> is_word c \<or> py_isdigit c \<or> c = CHR ''-''"

definition prompt_regex :: re where
  "prompt_regex = RSeq (rplus (RClass prompt_char)) (RSeq (rlit ''@'') (RSeq (rplus (RClass prompt_char))
     (RSeq (rlit '':'') (RSeq (rplus (RClass path_char)) (RClass (\<lambda>c. c = CHR ''$'' \<or> c = CHR ''#''))))))"

definition at_prompt :: "string \<Rightarrow> bool" where
  "at_prompt last_line =
     (case re_search prompt_regex last_line of
        None \<Rightarrow> False | Some (pre, m, rest, g) \<Rightarrow> endswith m last_line)"

text \<open>The loop of the wait: the last non-empty line must end with the leftmost prompt in it.\<close>

partial_function (option) prompt_loop :: "outside \<Rightarrow> string \<Rightarrow> rat \<Rightarrow> history \<Rightarrow> (unit res \<times> history) option" where
  "prompt_loop w remote interval h =
     (let lines = nonblank_lines (screen w remote h); h1 = looked remote h
      in if lines = [] then Some (Inl IndexError, h1)
         else if at_prompt (strip (last lines)) then Some (Inr (), h1)
         else prompt_loop w remote interval (Sleep interval # h1))"

definition remote_tmux_wait_for_prompt :: "outside \<Rightarrow> string \<Rightarrow> rat \<Rightarrow> unit tm" where
  "remote_tmux_wait_for_prompt w remote interval h = prompt_loop w remote interval (Sleep (1 / 10) # h)"

partial_function (option) event_loop ::
  "outside \<Rightarrow> string \<Rightarrow> string \<Rightarrow> rat \<Rightarrow> rat \<Rightarrow> rat \<Rightarrow> rat \<Rightarrow> history \<Rightarrow> (bool res \<times> history) option" where
  "event_loop w remote event refresh timeout tot_time t0 h =
     (if tot_time < timeout
      then
        let output = screen w remote h; h1 = ReadClock # looked remote h; t1 = clock w h1
        in (case re_search event_regex output of
              Some (pre, m, rest, g) \<Rightarrow>
                (if group g 1 = event then Some (Inr True, h1)
                 else event_loop w remote event refresh timeout (tot_time + (t1 - t0)) t1 h1)
            | None \<Rightarrow>
                event_loop w remote event refresh timeout (tot_time + (t1 - t0)) t1 (Sleep refresh # h1))
      else Some (Inr False, looked remote h))"

definition wait_for_remote_event :: "outside \<Rightarrow> string \<Rightarrow> string \<Rightarrow> rat \<Rightarrow> rat \<Rightarrow> bool tm" where
  "wait_for_remote_event w remote event refresh timeout h =
     event_loop w remote event refresh timeout 0 (clock w (ReadClock # h)) (ReadClock # h)"

definition clear_screen :: "outside \<Rightarrow> string \<Rightarrow> unit tm" where
  "clear_screen w remote =
     tseq (sp_run w [''tmux'', ''send'', ''-t'', remote_tmux_session_name remote, ''clear'', ''C-m''])
       (tseq (sp_run w [''tmux'', ''clear-history'', ''-t'', remote_tmux_session_name remote]) (tret ()))"

definition send_keys :: "outside \<Rightarrow> string \<Rightarrow> string \<Rightarrow> unit tm" where
  "send_keys w remote typed =
     tseq (sp_run w [''tmux'', ''send'', ''-t'', remote_tmux_session_name remote, typed, ''C-m'']) (tret ())"

text \<open>\<^verbatim>\<open>lines[1:len(lines) - 1]\<close>, without the echo of the command and the prompt.\<close>

definition command_output :: "string \<Rightarrow> string" where
  "command_output output = join [CHR 0x0A] (tl (butlast (nonblank_lines output)))"

definition remote_tmux_send ::
  "outside \<Rightarrow> string \<Rightarrow> string \<Rightarrow> bool \<Rightarrow> bool \<Rightarrow> string option tm" where
  "remote_tmux_send w remote cmd return_stdout blocking =
     tbind (remote_tmux_check w remote) (\<lambda>ok.
       if \<not> ok then traise (RuntimeError (''No tmux session on '' @ remote @ ''.''))
       else
         tseq (clear_screen w remote) (tseq (act (Sleep (1 / 5)))
        (tseq (send_keys w remote cmd) (tseq (act (Sleep (1 / 5)))
        (tseq (if blocking then remote_tmux_wait_for_prompt w remote 1 else tret ())
          (if \<not> return_stdout then tret None
           else
             tbind (remote_tmux_get_output w remote) (\<lambda>output.
             tseq (clear_screen w remote) (tseq (act (Sleep (1 / 5)))
               (tret (Some (command_output output))))))))))) "

definition send_cmd :: "outside \<Rightarrow> string \<Rightarrow> string \<Rightarrow> unit tm" where
  "send_cmd w remote cmd = tseq (remote_tmux_send w remote cmd True True) (tret ())"

text \<open>\<^verbatim>\<open>lines[-2]\<close> raises when there are fewer than two lines.\<close>

definition remote_tmux_succeeded :: "outside \<Rightarrow> string \<Rightarrow> bool tm" where
  "remote_tmux_succeeded w remote =
     tbind (remote_tmux_check w remote) (\<lambda>ok.
       if \<not> ok then traise (RuntimeError (''No tmux session on '' @ remote @ ''.''))
       else
         tseq (send_keys w remote ''echo $?'') (tseq (act (Sleep (1 / 10)))
        (tseq (sp_run w [''tmux'', ''capture-pane'', ''-t'', remote_tmux_session_name remote])
        (tbind (sp_run w [''tmux'', ''show-buffer'']) (\<lambda>r.
           let lines = nonblank_lines (stdout r)
           in if length lines < 2 then traise IndexError
              else tret (lines ! (length lines - 2) = ''0''))))))"

definition remote_tmux_ensure_dir :: "outside \<Rightarrow> string \<Rightarrow> string \<Rightarrow> unit tm" where
  "remote_tmux_ensure_dir w remote directory =
     tseq (remote_tmux_send w remote ''cd ~'' False True)
       (tseq (remote_tmux_send w remote (''mkdir -p '' @ directory) False True) (tret ()))"

definition remote_tmux_dir_exists :: "outside \<Rightarrow> string \<Rightarrow> string \<Rightarrow> bool tm" where
  "remote_tmux_dir_exists w remote directory =
     tseq (remote_tmux_send w remote ''cd ~'' False True)
       (tseq (remote_tmux_send w remote (''test -d '' @ directory) False True)
         (remote_tmux_succeeded w remote))"

definition remote_tmux_stop :: "outside \<Rightarrow> string \<Rightarrow> unit tm" where
  "remote_tmux_stop w remote =
     tbind (sp_run w (has_session_cmd remote)) (\<lambda>r.
       if returncode r \<noteq> 0 then tret ()
       else tseq (sp_run w [''tmux'', ''kill-session'', ''-t'', remote_tmux_session_name remote]) (tret ()))"

definition ssh_target :: "string \<Rightarrow> ssh_config option \<Rightarrow> string" where
  "ssh_target remote ssh_cfg =
     (case ssh_cfg of Some s \<Rightarrow> user s @ ''@'' @ host_address s | None \<Rightarrow> remote)"

definition ssh_command :: "string \<Rightarrow> ssh_config option \<Rightarrow> string" where
  "ssh_command remote ssh_cfg =
     ''ssh '' @ (case ssh_cfg of Some s \<Rightarrow> ''-i '' @ identity s | None \<Rightarrow> []) @ '' '' @ ssh_target remote ssh_cfg"

definition new_session :: "outside \<Rightarrow> string \<Rightarrow> ssh_config option \<Rightarrow> unit tm" where
  "new_session w remote ssh_cfg =
     tseq (sp_run w [''tmux'', ''set-option'', ''-g'', ''history-limit'', ''10000''])
    (tseq (sp_run w [''tmux'', ''set-option'', ''-g'', ''default-size'', ''240x48''])
    (tseq (sp_run w [''tmux'', ''new-session'', ''-d'', ''-s'', remote_tmux_session_name remote])
      (if startswith localhost remote then tret ()
       else tseq (send_keys w remote (ssh_command remote ssh_cfg)) (remote_tmux_wait_for_prompt w remote 1))))"

definition remote_tmux_start ::
  "outside \<Rightarrow> string \<Rightarrow> string \<Rightarrow> ssh_config option \<Rightarrow> string option tm" where
  "remote_tmux_start w remote experiment_path ssh_cfg =
     tbind (sp_run w (has_session_cmd remote)) (\<lambda>r.
     tseq (if returncode r = 0 then tret ()
           else
             tseq (new_session w remote ssh_cfg)
            (tseq (send_cmd w remote ''cd $HOME'')
            (tseq (remote_tmux_ensure_dir w remote experiment_path)
            (tseq (send_cmd w remote (''cd '' @ experiment_path))
            (tseq (send_cmd w remote ''export EXPATH=$PWD'')
                  (send_cmd w remote (''export RENDIR=$EXPATH/'' @ renders_dir)))))))
       (remote_tmux_send w remote ''echo $PWD'' True True))"

section \<open>Rendering and copying\<close>

text \<open>The name of a rendered file: the stem of the template, or of the given name, a time stamp, an
  extra part, and the extension of the template.\<close>

definition rendered_name :: "string \<Rightarrow> string option \<Rightarrow> string option \<Rightarrow> int option \<Rightarrow> string" where
  "rendered_name template_name filename name_extra stamp =
     (let (name, ext) = splitext template_name;
          extra = (case name_extra of Some (c # e) \<Rightarrow> CHR ''_'' # c # e | _ \<Rightarrow> []);
          stem = (case filename of Some (c # f) \<Rightarrow> fst (splitext (c # f)) | _ \<Rightarrow> name)
      in path_join2 renders_dir
           (stem @ (case stamp of None \<Rightarrow> [] | Some t \<Rightarrow> CHR ''_'' # int_str t) @ extra @ ext))"

definition render_script ::
  "outside \<Rightarrow> string \<Rightarrow> string dict \<Rightarrow> bool \<Rightarrow> string option \<Rightarrow> string option \<Rightarrow> string tm" where
  "render_script w template_name values do_timestamp filename name_extra h =
     (case template w template_name values of
        Inl e \<Rightarrow> Some (Inl e, h)
      | Inr content \<Rightarrow>
          let stamp = (if do_timestamp then Some (timestamp w 4 1000000 h) else None);
              out = rendered_name template_name filename name_extra stamp
          in Some (Inr (path_join2 (getcwd w) out), WriteFile out content # h))"

text \<open>The variables a template depends on: its file is read and the parser of \<^verbatim>\<open>jinja2\<close> lists those
  it leaves undeclared.\<close>

definition script_get_depending_variables ::
  "(string \<Rightarrow> string res) \<Rightarrow> (string \<Rightarrow> string list res) \<Rightarrow> string \<Rightarrow> string list res" where
  "script_get_depending_variables open_read undeclared template_name =
     res_bind (open_read (''scripts/'' @ template_name)) undeclared"

definition scp_command :: "string \<Rightarrow> ssh_config option \<Rightarrow> string list \<Rightarrow> string \<Rightarrow> string" where
  "scp_command remote ssh_cfg srcs dst =
     ''scp '' @ (case ssh_cfg of Some s \<Rightarrow> ''-i'' | None \<Rightarrow> []) @ '' '' @
       (case ssh_cfg of Some s \<Rightarrow> '' '' @ identity s | None \<Rightarrow> []) @ '' '' @
       join '' '' srcs @ '' '' @ ssh_target remote ssh_cfg @ '':'' @ dst"

definition in_tmux :: "string \<Rightarrow> string" where
  "in_tmux cmd = ''tmux -c '' @ [CHR 0x22] @ cmd @ [CHR 0x22]"

text \<open>
  The retry loop.  \<open>run_res\<close>, the result of the last \<^verbatim>\<open>scp\<close>, is unbound until one ran; the
  destination is expanded again at every attempt.
\<close>

definition copy_cmd :: "string \<Rightarrow> string \<Rightarrow> string \<Rightarrow> ssh_config option \<Rightarrow> string list res" where
  "copy_cmd remote src dst ssh_cfg =
     (if startswith localhost remote then Inr [''cp'', src, dst]
      else shlex_split (in_tmux (scp_command remote ssh_cfg [src] dst)))"

function upload_loop ::
  "outside \<Rightarrow> string \<Rightarrow> string \<Rightarrow> ssh_config option \<Rightarrow> nat \<Rightarrow> rat \<Rightarrow> nat \<Rightarrow> string \<Rightarrow> run_result option
     \<Rightarrow> history \<Rightarrow> ((bool \<times> nat \<times> run_result option) res \<times> history) option" where
  "upload_loop w remote src ssh_cfg max_retries pause n_retries dst run_res h =
     (if n_retries < max_retries
      then
        let h1 = (if 0 < n_retries then Sleep pause # h else h);
            local = startswith localhost remote;
            dst1 = (if local then expanduser w dst else dst)
        in case copy_cmd remote src dst1 ssh_cfg of
             Inl e \<Rightarrow> Some (Inl e, h1)
           | Inr cmd \<Rightarrow>
               let h2 = Run cmd # h1; r = answer w h2; rr = (if local then run_res else Some r)
               in if returncode r = 0 then Some (Inr (True, Suc n_retries, rr), h2)
                  else upload_loop w remote src ssh_cfg max_retries pause (Suc n_retries) dst1 rr h2
      else Some (Inr (False, n_retries, run_res), h))"
  by pat_completeness auto
termination
  by (relation "measure (\<lambda>(w, remote, src, ssh_cfg, m, pause, n, dst, rr, h). m - n)") auto

declare upload_loop.simps [simp del]

definition remote_upload_file ::
  "outside \<Rightarrow> string \<Rightarrow> string \<Rightarrow> string \<Rightarrow> nat \<Rightarrow> rat \<Rightarrow> ssh_config option \<Rightarrow> unit tm" where
  "remote_upload_file w remote src dst max_retries pause ssh_cfg h =
     (if \<not> is_file w h src then Some (Inl FileNotFoundError, h)
      else
        tbind (upload_loop w remote (abspath w src) ssh_cfg max_retries pause 0 dst None)
          (\<lambda>(succeeded, n_retries, run_res).
             if succeeded then tret ()
             else case run_res of None \<Rightarrow> traise UnboundLocalError | Some r \<Rightarrow> tret ()) h)"

definition rendered_dst :: "string \<Rightarrow> string \<Rightarrow> string" where
  "rendered_dst experiment_path src = path_join ''~'' [experiment_path, renders_dir, basename src]"

definition remote_upload_rendered_script ::
  "outside \<Rightarrow> string \<Rightarrow> string \<Rightarrow> string \<Rightarrow> string dict \<Rightarrow> bool \<Rightarrow> string option \<Rightarrow> string option
     \<Rightarrow> ssh_config option \<Rightarrow> string tm" where
  "remote_upload_rendered_script w remote experiment_path script_name config do_timestamp filename name_extra ssh_cfg =
     tseq (remote_tmux_ensure_dir w remote (path_join experiment_path [renders_dir]))
       (tbind (render_script w script_name config do_timestamp filename name_extra) (\<lambda>script_src.
         let script_dst = rendered_dst experiment_path script_src
         in tseq (remote_upload_file w remote script_src script_dst 3 10 ssh_cfg) (tret script_dst)))"

definition allowed_methods :: "string list" where
  "allowed_methods = [''source'', ''sh'', ''bash'']"

definition remote_tmux_launch_script ::
  "outside \<Rightarrow> string \<Rightarrow> string \<Rightarrow> string \<Rightarrow> string dict \<Rightarrow> bool \<Rightarrow> string option \<Rightarrow> ssh_config option \<Rightarrow> bool
     \<Rightarrow> string \<Rightarrow> string option tm" where
  "remote_tmux_launch_script w remote experiment_path script_name config do_timestamp filename ssh_cfg blocking way =
     (if way \<notin> set allowed_methods
      then traise (RuntimeError (''Unrecognized execution method: '' @ way @ ''.''))
      else
        tbind (remote_upload_rendered_script w remote experiment_path script_name config do_timestamp filename None ssh_cfg)
          (\<lambda>script_dst. remote_tmux_send w remote (way @ '' '' @ script_dst) True blocking))"

text \<open>The lines of the script are typed one by one; \<^verbatim>\<open>None\<close> cannot occur among the outputs.\<close>

definition host_tmux_source_script ::
  "outside \<Rightarrow> string \<Rightarrow> string \<Rightarrow> string \<Rightarrow> string dict \<Rightarrow> string option \<Rightarrow> string tm" where
  "host_tmux_source_script w remote experiment_path script_name config filename =
     tbind (render_script w script_name config True filename None) (\<lambda>script_src h.
       let in_lines = file_lines w h script_src
       in tseq (send_cmd w remote (''cd ~/'' @ experiment_path))
            (tbind (tmap (\<lambda>l. remote_tmux_send w remote l True True) in_lines) (\<lambda>outs.
               tret (join [CHR 0x0A] (map (\<lambda>x. case x of None \<Rightarrow> [] | Some out \<Rightarrow> out) outs)))) h)"

section \<open>Cleaning the rendered files\<close>

definition is_zip :: "string \<Rightarrow> bool" where
  "is_zip file = endswith ''.zip'' file"

definition clean_renders :: "outside \<Rightarrow> bool \<Rightarrow> unit tm" where
  "clean_renders w compress h =
     (if is_dir w h renders_dir
      then
        let file_list = glob_paths w h (renders_dir @ ''/*'');
            to_clean = filter (\<lambda>f. \<not> is_zip f) file_list;
            h1 = (if compress
                  then ZipFiles (renders_dir @ ''/'' @ int_str (timestamp w 4 1000000 h) @ ''.zip'') to_clean # h
                  else h)
        in Some (Inr (), rev (map Remove to_clean) @ h1)
      else Some (Inr (), h))"

section \<open>Batches\<close>

record uploader =
  up_experiment_path :: string
  to_upload :: "string list"
  dsts :: "string list"

definition batched_uploader :: "string \<Rightarrow> uploader" where
  "batched_uploader experiment_path = \<lparr>up_experiment_path = experiment_path, to_upload = [], dsts = []\<rparr>"

definition queue_file :: "string \<Rightarrow> uploader \<Rightarrow> string \<times> uploader" where
  "queue_file src u =
     (let dst = rendered_dst (up_experiment_path u) src
      in (dst, u\<lparr>to_upload := to_upload u @ [src], dsts := dsts u @ [dst]\<rparr>))"

definition add_rendered_script ::
  "outside \<Rightarrow> string \<Rightarrow> string dict \<Rightarrow> bool \<Rightarrow> string option \<Rightarrow> uploader \<Rightarrow> (string \<times> uploader) tm" where
  "add_rendered_script w script_name config do_timestamp filename u =
     tbind (render_script w script_name config do_timestamp filename None) (\<lambda>src. tret (queue_file src u))"

definition add_script :: "string \<Rightarrow> uploader \<Rightarrow> string \<times> uploader" where
  "add_script script_name u = queue_file script_name u"

text \<open>The batch after an upload: emptied when it succeeded, as it was when it raised.\<close>

definition upload_batch ::
  "outside \<Rightarrow> string \<Rightarrow> ssh_config option \<Rightarrow> uploader \<Rightarrow> (string list \<times> uploader) tm" where
  "upload_batch w remote ssh_cfg u =
     tseq (remote_tmux_ensure_dir w remote (path_join (up_experiment_path u) [renders_dir]))
       (if to_upload u = [] then traise (RuntimeError ''Cannot upload empty file list'')
        else (\<lambda>h.
          if \<not> list_all (is_file w h) (to_upload u) then Some (Inl FileNotFoundError, h)
          else
            case shlex_split (in_tmux (scp_command remote ssh_cfg (to_upload u)
                   (path_join ''~'' [up_experiment_path u, renders_dir]))) of
              Inl e \<Rightarrow> Some (Inl e, h)
            | Inr cmd \<Rightarrow>
                tbind (sp_run w cmd) (\<lambda>ran.
                  if returncode ran \<noteq> 0 then traise (RuntimeError ''Could not upload file list !'')
                  else tret (dsts u, u\<lparr>to_upload := [], dsts := []\<rparr>)) h))"

section \<open>The file generator\<close>

record generator =
  gen_path :: string
  gen_remote :: string
  gen_ssh :: "ssh_config option"
  batcher :: uploader

definition home_paths :: "string list" where
  "home_paths = [''~'', ''~/'', ''~'' @ [CHR 0x5C], ''.'', ''./'', []]"

definition gen_clean :: "outside \<Rightarrow> string \<Rightarrow> string \<Rightarrow> unit tm" where
  "gen_clean w remote experiment_path =
     (let script_dst = path_join2 ''~'' experiment_path
      in if script_dst \<in> set home_paths then tret ()
         else send_cmd w remote (''rm -rf '' @ script_dst))"

definition file_generator ::
  "outside \<Rightarrow> string \<Rightarrow> string \<Rightarrow> bool \<Rightarrow> ssh_config option \<Rightarrow> generator tm" where
  "file_generator w experiment_path remote clean ssh_cfg =
     tseq (if clean then gen_clean w remote experiment_path else tret ())
       (tret \<lparr>gen_path = experiment_path, gen_remote = remote, gen_ssh = ssh_cfg,
          batcher = batched_uploader experiment_path\<rparr>)"

definition gen_render_script :: "outside \<Rightarrow> string \<Rightarrow> string dict \<Rightarrow> generator \<Rightarrow> string tm" where
  "gen_render_script w file config g =
     remote_upload_rendered_script w (gen_remote g) (gen_path g) file config True None None (gen_ssh g)"

definition upload_script :: "outside \<Rightarrow> string \<Rightarrow> generator \<Rightarrow> string tm" where
  "upload_script w file g =
     tseq (remote_tmux_ensure_dir w (gen_remote g) (path_join (gen_path g) [renders_dir]))
       (let script_dst = rendered_dst (gen_path g) file
        in tseq (remote_upload_file w (gen_remote g) file script_dst 3 10 (gen_ssh g)) (tret script_dst))"

definition expand_paths :: "outside \<Rightarrow> history \<Rightarrow> bool \<Rightarrow> string list \<Rightarrow> string list" where
  "expand_paths w h use_glob files =
     concat (map (\<lambda>p. if use_glob \<and> CHR ''*'' \<in> set p then glob_paths w h p else [p]) files)"

definition upload_scripts :: "outside \<Rightarrow> string list \<Rightarrow> bool \<Rightarrow> generator \<Rightarrow> (string list \<times> generator) tm" where
  "upload_scripts w files use_glob g h =
     (let u = fold (\<lambda>f u. snd (add_script f u)) (expand_paths w h use_glob files) (batcher g)
      in tbind (upload_batch w (gen_remote g) (gen_ssh g) u) (\<lambda>(ds, u'). tret (ds, g\<lparr>batcher := u'\<rparr>)) h)"

section \<open>Waiting for the prompt\<close>

text \<open>The actions when the loop looks for the \<open>k\<close>-th time.\<close>

fun polls :: "string \<Rightarrow> rat \<Rightarrow> nat \<Rightarrow> history \<Rightarrow> history" where
  "polls remote interval 0 h = h"
| "polls remote interval (Suc k) h = polls remote interval k (Sleep interval # looked remote h)"

definition shows_prompt :: "outside \<Rightarrow> string \<Rightarrow> history \<Rightarrow> bool" where
  "shows_prompt w remote h \<longleftrightarrow>
     nonblank_lines (screen w remote h) \<noteq> [] \<and> at_prompt (strip (last (nonblank_lines (screen w remote h))))"

definition waits :: "outside \<Rightarrow> string \<Rightarrow> history \<Rightarrow> bool" where
  "waits w remote h \<longleftrightarrow>
     nonblank_lines (screen w remote h) \<noteq> [] \<and> \<not> at_prompt (strip (last (nonblank_lines (screen w remote h))))"

lemma prompt_loop_unfold:
  "prompt_loop w remote interval h =
     (if shows_prompt w remote h then Some (Inr (), looked remote h)
      else if waits w remote h then prompt_loop w remote interval (Sleep interval # looked remote h)
      else Some (Inl IndexError, looked remote h))"
  by (subst prompt_loop.simps) (auto simp: shows_prompt_def waits_def Let_def)

lemma prompt_loop_returns:
  assumes "\<And>j. j < k \<Longrightarrow> waits w remote (polls remote interval j h)"
    and "\<not> waits w remote (polls remote interval k h)"
  shows "prompt_loop w remote interval h =
    Some (if shows_prompt w remote (polls remote interval k h) then Inr () else Inl IndexError,
      looked remote (polls remote interval k h))"
  using assms
proof (induction k arbitrary: h)
  case 0
  then show ?case by (subst prompt_loop_unfold) simp
next
  case (Suc k)
  have "waits w remote h" using Suc.prems(1) [of 0] by simp
  then have "prompt_loop w remote interval h = prompt_loop w remote interval (Sleep interval # looked remote h)"
    by (subst prompt_loop_unfold) (auto simp: shows_prompt_def waits_def)
  also have "\<dots> = Some (if shows_prompt w remote (polls remote interval (Suc k) h) then Inr () else Inl IndexError,
      looked remote (polls remote interval (Suc k) h))"
    using Suc.IH [of "Sleep interval # looked remote h"] Suc.prems(1) [of "Suc _"] Suc.prems(2) by simp
  finally show ?case .
qed

lemmas prompt_loop_induct = prompt_loop.raw_induct [rotated, consumes 1, case_names step]
lemmas event_loop_induct = event_loop.raw_induct [rotated, consumes 1, case_names step]

lemma prompt_loop_stops:
  "prompt_loop w remote interval h = Some r \<Longrightarrow> \<exists>k. \<not> waits w remote (polls remote interval k h)"
proof (induction rule: prompt_loop_induct)
  case (step f w remote interval h r)
  show ?case
  proof (cases "waits w remote h")
    case True
    then have "f w remote interval (Sleep interval # looked remote h) = Some r"
      using step(2) by (auto simp: waits_def Let_def)
    from step(1) [OF this] obtain k
      where "\<not> waits w remote (polls remote interval k (Sleep interval # looked remote h))" ..
    then show ?thesis by (intro exI [of _ "Suc k"]) simp
  next
    case False
    then show ?thesis by (intro exI [of _ 0]) simp
  qed
qed

text \<open>C15: the wait for a prompt returns exactly when some look finds a last line that ends with a
  prompt, at the first such look; it raises an \<open>IndexError\<close> when an earlier look finds no text at
  all, and it never returns when every look finds a last line without a prompt.\<close>

theorem wait_for_prompt_spec:
  shows "(\<forall>k. (\<forall>j < k. waits w remote (polls remote interval j (Sleep (1 / 10) # h))) \<and>
      \<not> waits w remote (polls remote interval k (Sleep (1 / 10) # h)) \<longrightarrow>
    remote_tmux_wait_for_prompt w remote interval h =
      Some (if shows_prompt w remote (polls remote interval k (Sleep (1 / 10) # h)) then Inr () else Inl IndexError,
        looked remote (polls remote interval k (Sleep (1 / 10) # h)))) \<and>
    ((\<forall>k. waits w remote (polls remote interval k (Sleep (1 / 10) # h))) \<longrightarrow>
      remote_tmux_wait_for_prompt w remote interval h = None)"
  using prompt_loop_returns [of _ w remote interval "Sleep (1 / 10) # h"]
    prompt_loop_stops [of w remote interval "Sleep (1 / 10) # h"]
  by (cases "prompt_loop w remote interval (Sleep (1 / 10) # h)")
    (auto simp: remote_tmux_wait_for_prompt_def)

text \<open>An outside world in which every command succeeds and every look shows the same text.\<close>

definition constant_world :: "string \<Rightarrow> outside" where
  "constant_world shown = \<lparr>answer = \<lambda>h. \<lparr>returncode = 0, stdout = shown\<rparr>, clock = \<lambda>h. of_nat (length h),
     random = \<lambda>h n. 0, is_file = \<lambda>h p. True, is_dir = \<lambda>h p. True, glob_paths = \<lambda>h p. [p],
     file_lines = \<lambda>h p. [], template = \<lambda>p d. Inr p, getcwd = ''/tmp'', expanduser = id, abspath = id\<rparr>"

lemma constant_screen [simp]: "screen (constant_world shown) remote h = shown"
  by (simp add: screen_def constant_world_def)

theorem wait_for_prompt_spec_witness:
  "remote_tmux_wait_for_prompt (constant_world ''me@box:~/x'') ''box'' 1 [] = None"
proof -
  have "waits (constant_world ''me@box:~/x'') ''box'' h'" for h'
  proof -
    have "nonblank_lines ''me@box:~/x'' = [''me@box:~/x'']" by (simp add: nonblank_lines_def)
    moreover have "\<not> at_prompt (strip ''me@box:~/x'')" by code_simp
    ultimately show ?thesis by (simp add: waits_def)
  qed
  then show ?thesis using wait_for_prompt_spec [of "constant_world ''me@box:~/x''" "''box''" 1 "[]"] by simp
qed

section \<open>Copying with retries\<close>

text \<open>The actions after the first \<open>k\<close> attempts, the \<open>j\<close>-th of which runs \<open>cmd j\<close>.\<close>

fun attempts :: "(nat \<Rightarrow> string list) \<Rightarrow> rat \<Rightarrow> nat \<Rightarrow> history \<Rightarrow> history" where
  "attempts cmd pause 0 h = h"
| "attempts cmd pause (Suc k) h =
     Run (cmd k) # (if 0 < k then Sleep pause # attempts cmd pause k h else attempts cmd pause k h)"

definition attempt_ok :: "outside \<Rightarrow> (nat \<Rightarrow> string list) \<Rightarrow> rat \<Rightarrow> history \<Rightarrow> nat \<Rightarrow> bool" where
  "attempt_ok w cmd pause h k \<longleftrightarrow> returncode (answer w (attempts cmd pause (Suc k) h)) = 0"

text \<open>The destination is expanded before each attempt when the machine is the local one.\<close>

definition dst_at :: "outside \<Rightarrow> string \<Rightarrow> string \<Rightarrow> nat \<Rightarrow> string" where
  "dst_at w remote dst k = (if startswith localhost remote then (expanduser w ^^ Suc k) dst else dst)"

lemma upload_loop_first:
  assumes "\<And>j. j < m \<Longrightarrow> copy_cmd remote src (dst_at w remote dst j) cfg = Inr (cmd j)"
    and "i \<le> k" "k < m" "attempt_ok w cmd pause h k" "\<And>j. i \<le> j \<Longrightarrow> j < k \<Longrightarrow> \<not> attempt_ok w cmd pause h j"
    and "d = (if startswith localhost remote then (expanduser w ^^ i) dst else dst)"
  shows "\<exists>rr. upload_loop w remote src cfg m pause i d run_res (attempts cmd pause i h) =
    Some (Inr (True, Suc k, rr), attempts cmd pause (Suc k) h)"
  using assms(2-6)
proof (induction "k - i" arbitrary: i d run_res)
  case 0
  then have "i = k" by simp
  then show ?case
    using 0 assms(1) [of k] by (subst upload_loop.simps) (auto simp: Let_def attempt_ok_def dst_at_def)
next
  case (Suc n)
  then have i: "i < k" "i < m" by auto
  have bad: "\<not> attempt_ok w cmd pause h i" using Suc.prems i by simp
  let ?d = "if startswith localhost remote then (expanduser w ^^ Suc i) dst else dst"
  have "\<exists>rr'. upload_loop w remote src cfg m pause i d run_res (attempts cmd pause i h) =
      upload_loop w remote src cfg m pause (Suc i) ?d rr' (attempts cmd pause (Suc i) h)"
    using bad i Suc.prems(5) assms(1) [OF i(2)]
    by (subst upload_loop.simps) (auto simp: Let_def attempt_ok_def dst_at_def)
  moreover have "\<exists>rr. upload_loop w remote src cfg m pause (Suc i) ?d rr' (attempts cmd pause (Suc i) h) =
      Some (Inr (True, Suc k, rr), attempts cmd pause (Suc k) h)" for rr'
    by (rule Suc.hyps(1)) (use Suc.hyps(2) Suc.prems i in auto)
  ultimately show ?case by metis
qed

lemma upload_loop_all_fail:
  assumes "\<And>j. j < m \<Longrightarrow> copy_cmd remote src (dst_at w remote dst j) cfg = Inr (cmd j)"
    and "i \<le> m" "\<And>j. i \<le> j \<Longrightarrow> j < m \<Longrightarrow> \<not> attempt_ok w cmd pause h j"
    and "d = (if startswith localhost remote then (expanduser w ^^ i) dst else dst)"
    and "run_res = None \<longleftrightarrow> startswith localhost remote \<or> i = 0"
  shows "\<exists>rr. upload_loop w remote src cfg m pause i d run_res (attempts cmd pause i h) =
    Some (Inr (False, m, rr), attempts cmd pause m h) \<and> (rr = None \<longleftrightarrow> startswith localhost remote \<or> m = 0)"
  using assms(2-5)
proof (induction "m - i" arbitrary: i d run_res)
  case 0
  then show ?case by (subst upload_loop.simps) auto
next
  case (Suc n)
  then have i: "i < m" by auto
  have bad: "\<not> attempt_ok w cmd pause h i" using Suc.prems i by simp
  let ?d = "if startswith localhost remote then (expanduser w ^^ Suc i) dst else dst"
  have "\<exists>rr'. upload_loop w remote src cfg m pause i d run_res (attempts cmd pause i h) =
      upload_loop w remote src cfg m pause (Suc i) ?d rr' (attempts cmd pause (Suc i) h) \<and>
      (rr' = None \<longleftrightarrow> startswith localhost remote)"
    using bad i Suc.prems(3,4) assms(1) [OF i]
    by (subst upload_loop.simps) (auto simp: Let_def attempt_ok_def dst_at_def)
  moreover have "\<exists>rr. upload_loop w remote src cfg m pause (Suc i) ?d rr' (attempts cmd pause (Suc i) h) =
      Some (Inr (False, m, rr), attempts cmd pause m h) \<and> (rr = None \<longleftrightarrow> startswith localhost remote \<or> m = 0)"
    if "rr' = None \<longleftrightarrow> startswith localhost remote" for rr'
    by (rule Suc.hyps(1)) (use Suc.hyps(2) Suc.prems i that in auto)
  ultimately show ?case by metis
qed

text \<open>C16: a copy is attempted until it succeeds, at most \<open>m\<close> times, with a pause before each
  attempt but the first.  When no attempt succeeds the function still returns without an error for
  a remote machine, and raises \<^verbatim>\<open>UnboundLocalError\<close> for the local one, or when no attempt was
  allowed.\<close>

theorem upload_retries:
  assumes "is_file w h src"
    and "\<And>j. j < m \<Longrightarrow> copy_cmd remote (abspath w src) (dst_at w remote dst j) cfg = Inr (cmd j)"
  shows "(\<forall>k < m. attempt_ok w cmd pause h k \<and> (\<forall>j < k. \<not> attempt_ok w cmd pause h j) \<longrightarrow>
      remote_upload_file w remote src dst m pause cfg h = Some (Inr (), attempts cmd pause (Suc k) h)) \<and>
    ((\<forall>j < m. \<not> attempt_ok w cmd pause h j) \<longrightarrow>
      remote_upload_file w remote src dst m pause cfg h =
        Some (if startswith localhost remote \<or> m = 0 then Inl UnboundLocalError else Inr (), attempts cmd pause m h))"
proof (intro conjI allI impI)
  fix k assume k: "k < m" "attempt_ok w cmd pause h k \<and> (\<forall>j < k. \<not> attempt_ok w cmd pause h j)"
  have "\<exists>rr. upload_loop w remote (abspath w src) cfg m pause 0 dst None (attempts cmd pause 0 h) =
      Some (Inr (True, Suc k, rr), attempts cmd pause (Suc k) h)"
    by (rule upload_loop_first [OF assms(2)]) (use k in auto)
  then show "remote_upload_file w remote src dst m pause cfg h = Some (Inr (), attempts cmd pause (Suc k) h)"
    using assms(1) by (auto simp: remote_upload_file_def tbind_def tret_def simp del: attempts.simps(2))
next
  assume bad: "\<forall>j < m. \<not> attempt_ok w cmd pause h j"
  have "\<exists>rr. upload_loop w remote (abspath w src) cfg m pause 0 dst None (attempts cmd pause 0 h) =
      Some (Inr (False, m, rr), attempts cmd pause m h) \<and> (rr = None \<longleftrightarrow> startswith localhost remote \<or> m = 0)"
    by (rule upload_loop_all_fail [OF assms(2)]) (use bad in auto)
  then show "remote_upload_file w remote src dst m pause cfg h =
      Some (if startswith localhost remote \<or> m = 0 then Inl UnboundLocalError else Inr (), attempts cmd pause m h)"
    using assms(1) by (cases "m = 0")
      (auto simp: remote_upload_file_def tbind_def tret_def traise_def split: option.splits)
qed

definition failing_world :: outside where
  "failing_world = (constant_world [])\<lparr>answer := \<lambda>h. \<lparr>returncode = 1, stdout = []\<rparr>\<rparr>"

theorem upload_retries_witness:
  "remote_upload_file failing_world ''local'' ''a.sh'' ''~/a.sh'' 2 10 None [] =
    Some (Inl UnboundLocalError, [Run [''cp'', ''a.sh'', ''~/a.sh''], Sleep 10, Run [''cp'', ''a.sh'', ''~/a.sh'']])"
proof -
  have cmd: "copy_cmd ''local'' (abspath failing_world ''a.sh'') (dst_at failing_world ''local'' ''~/a.sh'' j) None =
      Inr ((\<lambda>j. [''cp'', ''a.sh'', ''~/a.sh'']) j)" for j
    by (simp add: copy_cmd_def localhost_def dst_at_def failing_world_def constant_world_def)
  have bad: "\<not> attempt_ok failing_world (\<lambda>j. [''cp'', ''a.sh'', ''~/a.sh'']) 10 [] j" for j
    by (simp add: attempt_ok_def failing_world_def)
  show ?thesis
    using conjunct2 [OF upload_retries [of failing_world "[]" "''a.sh''" 2 "''local''" "''~/a.sh''" None, OF _ cmd, of 10]] bad
    by (simp add: failing_world_def constant_world_def localhost_def numeral_2_eq_2)
qed

section \<open>Commands as one argument\<close>

lemma shlex_double:
  "CHR 0x22 \<notin> set s \<Longrightarrow> CHR 0x5C \<notin> set s \<Longrightarrow>
    shlex_aux Double (Some acc) (s @ [CHR 0x22]) = Inr [rev acc @ s]"
  by (induction s arbitrary: acc) (auto simp: add_char_def the_word_def)

lemma shlex_in_tmux:
  assumes "CHR 0x22 \<notin> set s" "CHR 0x5C \<notin> set s"
  shows "shlex_split (in_tmux s) = Inr [''tmux'', ''-c'', s]"
  using shlex_double [OF assms, of "[]"]
  by (simp add: shlex_split_def in_tmux_def shlex_ws_def add_char_def open_word_def the_word_def)

section \<open>Sending a command\<close>

definition is_prompt :: "string \<Rightarrow> bool" where
  "is_prompt t \<longleftrightarrow> (\<exists>u m p c. t = u @ ''@'' @ m @ '':'' @ p @ [c] \<and> u \<noteq> [] \<and> m \<noteq> [] \<and> p \<noteq> [] \<and>
     list_all prompt_char u \<and> list_all prompt_char m \<and> list_all path_char p \<and> c \<in> set ''$#'')"

lemma prompt_classes:
  "\<not> prompt_char (CHR ''@'')" "\<not> prompt_char (CHR '':'')" "\<not> path_char (CHR ''$'')" "\<not> path_char (CHR ''#'')"
  by (simp_all add: prompt_char_def path_char_def is_word_def py_isdigit_def)

lemma at_prompt_complete:
  assumes "is_prompt t"
  shows "at_prompt t"
proof -
  obtain u m p c where t: "t = u @ CHR ''@'' # m @ CHR '':'' # p @ [c]"
    and ne: "u \<noteq> []" "m \<noteq> []" "p \<noteq> []"
    and all: "list_all prompt_char u" "list_all prompt_char m" "list_all path_char p"
    and c: "c = CHR ''$'' \<or> c = CHR ''#''"
    using assms by (auto simp: is_prompt_def)
  define R2 where "R2 = RSeq (rplus (RClass path_char)) (RClass (\<lambda>c. c = CHR ''$'' \<or> c = CHR ''#''))"
  define R1 where "R1 = RSeq (rplus (RClass prompt_char)) (RSeq (rlit '':'') R2)"
  have regex: "prompt_regex = RSeq (rplus (RClass prompt_char)) (RSeq (rlit ''@'') R1)"
    by (simp add: prompt_regex_def R1_def R2_def)
  have tw: "takeWhile prompt_char (u @ CHR ''@'' # r) = u" "dropWhile prompt_char (u @ CHR ''@'' # r) = CHR ''@'' # r"
    "takeWhile prompt_char (m @ CHR '':'' # r) = m" "dropWhile prompt_char (m @ CHR '':'' # r) = CHR '':'' # r"
    "takeWhile path_char (p @ [c]) = p" "dropWhile path_char (p @ [c]) = [c]" for r
    using all c prompt_classes by (auto simp: takeWhile_all_append)
  have 2: "rmatch R2 (b, p @ [c], []) = [(c # rev p @ b, [], [])]" for b
    unfolding R2_def by (subst rmatch_plus_seq) (use tw ne c prompt_classes in auto)
  have 1: "rmatch R1 (b, m @ CHR '':'' # p @ [c], []) = [(c # rev p @ CHR '':'' # rev m @ b, [], [])]" for b
    unfolding R1_def using prompt_classes
    by (subst rmatch_plus_seq) (auto simp: rmatch_lit_seq tw ne 2 simp del: rmatch.simps)
  have "rmatch prompt_regex ([], t, []) = [(rev t, [], [])]"
    unfolding regex t using prompt_classes
    by (subst rmatch_plus_seq) (auto simp: rmatch_lit_seq tw ne 1 simp del: rmatch.simps)
  then have "match_at prompt_regex [] t = Some (rev t, [], [])" by (simp add: match_at_def)
  then show ?thesis
    by (simp add: at_prompt_def re_search_at_start endswith_def startswith_def)
qed

definition typed_history :: "string \<Rightarrow> string \<Rightarrow> history \<Rightarrow> history" where
  "typed_history remote cmd h =
     Sleep (1 / 5) # Run [''tmux'', ''send'', ''-t'', remote_tmux_session_name remote, cmd, ''C-m''] #
     Sleep (1 / 5) # Run [''tmux'', ''clear-history'', ''-t'', remote_tmux_session_name remote] #
     Run [''tmux'', ''send'', ''-t'', remote_tmux_session_name remote, ''clear'', ''C-m''] #
     Run (has_session_cmd remote) # h"

lemma nonblank_join:
  assumes "ls \<noteq> []" "\<And>l. l \<in> set ls \<Longrightarrow> CHR 0x0A \<notin> set l"
  shows "nonblank_lines (join [CHR 0x0A] ls) = filter (\<lambda>l. l \<noteq> []) ls"
  using split_char_join [OF assms(1), of "CHR 0x0A"] assms(2) by (simp add: nonblank_lines_def)

text \<open>Sending a command.  Without a session it raises and does nothing else.  With one, if
  the terminal from then on shows the echoed command, the lines it printed and a prompt, the
  result is exactly the printed lines that are not empty.\<close>

theorem send_returns_output:
  assumes "echo \<noteq> []" "CHR 0x0A \<notin> set echo" "CHR 0x0A \<notin> set prompt" "is_prompt (strip prompt)"
    and "\<And>l. l \<in> set out \<Longrightarrow> CHR 0x0A \<notin> set l"
    and "\<And>t. screen w remote (t @ typed_history remote cmd h) = join [CHR 0x0A] (echo # out @ [prompt])"
  shows "if returncode (answer w (Run (has_session_cmd remote) # h)) = 0
    then \<exists>t. remote_tmux_send w remote cmd True True h =
      Some (Inr (Some (join [CHR 0x0A] (filter (\<lambda>l. l \<noteq> []) out))), t @ typed_history remote cmd h)
    else remote_tmux_send w remote cmd True True h =
      Some (Inl (RuntimeError (''No tmux session on '' @ remote @ ''.'')), Run (has_session_cmd remote) # h)"
proof -
  let ?T = "typed_history remote cmd h"
  have "prompt \<noteq> []" using assms(4) by (auto simp: is_prompt_def)
  then have lines: "nonblank_lines (screen w remote (t @ ?T)) = echo # filter (\<lambda>l. l \<noteq> []) out @ [prompt]" for t
    using assms(1,2,3,5) unfolding assms(6) by (subst nonblank_join) auto
  have "shows_prompt w remote (Sleep (1 / 10) # ?T)"
    using lines [of "[Sleep (1 / 10)]"] at_prompt_complete [OF assms(4)] by (simp add: shows_prompt_def)
  then have wait: "remote_tmux_wait_for_prompt w remote 1 ?T = Some (Inr (), looked remote (Sleep (1 / 10) # ?T))"
    by (simp add: remote_tmux_wait_for_prompt_def prompt_loop_unfold)
  have out: "command_output (screen w remote (looked remote (Sleep (1 / 10) # ?T))) =
      join [CHR 0x0A] (filter (\<lambda>l. l \<noteq> []) out)"
    using lines [of "Run (show_buffer_cmd remote) # Run (capture_cmd remote) # [Sleep (1 / 10)]"]
    by (simp add: command_output_def looked_def butlast_append)
  show ?thesis
  proof (cases "returncode (answer w (Run (has_session_cmd remote) # h)) = 0")
    case True
    let ?h1 = "looked remote (looked remote (Sleep (1 / 10) # ?T))"
    have "remote_tmux_send w remote cmd True True h =
        tseq (remote_tmux_wait_for_prompt w remote 1) (tbind (remote_tmux_get_output w remote) (\<lambda>output.
             tseq (clear_screen w remote) (tseq (act (Sleep (1 / 5))) (tret (Some (command_output output)))))) ?T"
      using True
      by (simp add: remote_tmux_send_def remote_tmux_check_def tbind_Some tbind_def tseq_def sp_run_def tret_def
          clear_screen_def send_keys_def act_def typed_history_def)
    also have "\<dots> = Some (Inr (Some (join [CHR 0x0A] (filter (\<lambda>l. l \<noteq> []) out))),
      Sleep (1 / 5) # Run [''tmux'', ''clear-history'', ''-t'', remote_tmux_session_name remote] #
      Run [''tmux'', ''send'', ''-t'', remote_tmux_session_name remote, ''clear'', ''C-m''] # ?h1)"
      using wait out
      by (simp add: tbind_def tseq_def get_output_eq clear_screen_def sp_run_def tret_def act_def)
    finally show ?thesis using True by (auto simp: looked_def intro!: exI [of _ "_ # _"])
  next
    case False
    then show ?thesis
      by (simp add: remote_tmux_send_def remote_tmux_check_def tbind_def sp_run_def tret_def traise_def)
  qed
qed

definition demo_screen :: string where
  "demo_screen = join [CHR 0x0A] [''$ ls'', ''a'', [], ''b'', ''me@box:~$'']"

theorem send_returns_output_witness:
  "\<exists>t. remote_tmux_send (constant_world demo_screen) ''box'' ''ls'' True True [] =
    Some (Inr (Some (join [CHR 0x0A] [''a'', ''b''])), t)"
proof -
  have p: "is_prompt (strip ''me@box:~$'')"
  proof -
    have "strip ''me@box:~$'' = ''me'' @ ''@'' @ ''box'' @ '':'' @ ''~'' @ ''$''" by code_simp
    then show ?thesis unfolding is_prompt_def
      by (intro exI [of _ "''me''"] exI [of _ "''box''"] exI [of _ "''~''"] exI [of _ "CHR ''$''"])
        (simp add: prompt_char_def path_char_def is_word_def)
  qed
  have ok: "returncode (answer (constant_world demo_screen) (Run (has_session_cmd ''box'') # [])) = 0"
    by (simp add: constant_world_def)
  have "if returncode (answer (constant_world demo_screen) (Run (has_session_cmd ''box'') # [])) = 0
    then \<exists>t. remote_tmux_send (constant_world demo_screen) ''box'' ''ls'' True True [] =
      Some (Inr (Some (join [CHR 0x0A] (filter (\<lambda>l. l \<noteq> []) [''a'', [], ''b'']))), t @ typed_history ''box'' ''ls'' [])
    else remote_tmux_send (constant_world demo_screen) ''box'' ''ls'' True True [] =
      Some (Inl (RuntimeError (''No tmux session on '' @ ''box'' @ ''.'')), Run (has_session_cmd ''box'') # [])"
    by (rule send_returns_output [OF _ _ _ p, of "''$ ls''"]) (auto simp: demo_screen_def)
  then show ?thesis using ok by auto
qed

section \<open>Waiting for an event\<close>

lemma event_search_first:
  assumes "\<not> contains ''EVENT '' (pre @ butlast ''EVENT '')" "name \<noteq> []" "list_all name_char name"
    and "rest = [] \<or> \<not> name_char (hd rest)"
  shows "\<exists>p m r. re_search event_regex (pre @ ''EVENT '' @ name @ rest) = Some (p, m, r, [(1, name)])"
proof -
  let ?p = "''EVENT ''"
  have "scan_event (v @ ?p @ name @ rest) = None" if "pre = u @ v" "v \<noteq> []" for u v
    using no_marker_before [OF assms(1) that, of "name @ rest"] by (simp add: scan_event_def)
  then have "scan_first scan_event (pre @ ?p @ name @ rest) = scan_first scan_event (?p @ name @ rest)"
    by (rule scan_first_skip)
  also have "\<dots> = Some [(1, name)]"
  proof (rule scan_first_here [where a' = rest])
    have "takeWhile name_char (name @ rest) = name" "dropWhile name_char (name @ rest) = rest"
      using assms(3,4) by (cases rest; simp add: list_all_iff)+
    then show "scan_event (?p @ name @ rest) = Some (rest, [(1, name)])"
      using assms(2) by (simp add: scan_event_def)
  qed
  finally have "map_option (\<lambda>(pre, m, rest, g). g) (re_search event_regex (pre @ ?p @ name @ rest)) =
      Some [(1, name)]"
    by (simp only: re_search_def event_scanner.search_scan)
  then show ?thesis by auto
qed

text \<open>The clock shows at least \<open>\<delta>\<close> more at every look.\<close>

definition ticks :: "outside \<Rightarrow> string \<Rightarrow> rat \<Rightarrow> bool" where
  "ticks w remote \<delta> \<longleftrightarrow> 0 < \<delta> \<and>
     (\<forall>h. clock w (ReadClock # h) + \<delta> \<le> clock w (ReadClock # looked remote (ReadClock # h)) \<and>
      (\<forall>r. clock w (ReadClock # h) + \<delta> \<le> clock w (ReadClock # looked remote (Sleep r # ReadClock # h))))"

lemma event_loop_other:
  assumes "ticks w remote \<delta>" and "\<And>h. \<exists>p m r n. re_search event_regex (screen w remote h) = Some (p, m, r, [(1, n)]) \<and> n \<noteq> event"
    and "timeout - tot \<le> of_nat n * \<delta>"
  shows "\<exists>h'. event_loop w remote event refresh timeout tot (clock w (ReadClock # h)) (ReadClock # h) = Some (Inr False, h')"
  using assms(3)
proof (induction n arbitrary: tot h)
  case 0
  then show ?case by (subst event_loop.simps) simp
next
  case (Suc n)
  let ?h = "ReadClock # h"
  let ?h1 = "ReadClock # looked remote ?h"
  let ?tot = "tot + (clock w ?h1 - clock w ?h)"
  obtain p m r nm where s: "re_search event_regex (screen w remote ?h) = Some (p, m, r, [(1, nm)])" "nm \<noteq> event"
    using assms(2) by blast
  have d: "clock w ?h + \<delta> \<le> clock w ?h1" using assms(1) by (simp add: ticks_def)
  have "timeout - ?tot \<le> of_nat n * \<delta>"
    using Suc.prems d by (simp add: algebra_simps)
  then obtain h' where h': "event_loop w remote event refresh timeout ?tot (clock w ?h1) ?h1 = Some (Inr False, h')"
    using Suc.IH by blast
  show ?case
  proof (cases "tot < timeout")
    case True
    have nm: "group [(1, nm)] 1 = nm" by (simp add: group_def)
    have "event_loop w remote event refresh timeout tot (clock w ?h) ?h =
        event_loop w remote event refresh timeout ?tot (clock w ?h1) ?h1"
      by (subst event_loop.simps) (simp only: s(1) True Let_def if_True option.case case_prod_conv nm s(2) if_False)
    then show ?thesis using h' by simp
  next
    case False
    then show ?thesis by (subst event_loop.simps) simp
  qed
qed

lemma event_loop_now:
  assumes "re_search event_regex (screen w remote h) = Some (p, m, r, [(1, event)])" "tot < timeout"
  shows "event_loop w remote event refresh timeout tot t0 h = Some (Inr True, ReadClock # looked remote h)"
  using assms by (subst event_loop.simps) (simp add: Let_def group_def)

text \<open>Waiting for an event looks only at the first event on the screen.  When that is the
  awaited one the wait returns at once; when it is another one the wait times out, although the
  awaited event may be on the screen right after it.\<close>

theorem first_event_decides:
  assumes "\<And>h. screen w remote h = pre @ ''EVENT '' @ name @ rest"
    and "\<not> contains ''EVENT '' (pre @ butlast ''EVENT '')" "name \<noteq> []" "list_all name_char name"
    and "rest = [] \<or> \<not> name_char (hd rest)" and "ticks w remote \<delta>" and "0 < timeout"
  shows "\<exists>h'. wait_for_remote_event w remote event refresh timeout h = Some (Inr (name = event), h')"
proof -
  have s: "\<exists>p m r. re_search event_regex (screen w remote h) = Some (p, m, r, [(1, name)])" for h
    using event_search_first [OF assms(2-5)] assms(1) by simp
  show ?thesis
  proof (cases "name = event")
    case True
    obtain p m r where "re_search event_regex (screen w remote (ReadClock # h)) = Some (p, m, r, [(1, name)])"
      using s by blast
    then have "re_search event_regex (screen w remote (ReadClock # h)) = Some (p, m, r, [(1, event)])"
      by (simp only: True)
    from event_loop_now [OF this assms(7)] show ?thesis
      unfolding wait_for_remote_event_def by (simp add: True)
  next
    case False
    obtain n where "timeout / \<delta> \<le> of_nat n" using real_arch_simple by blast
    then have "timeout - 0 \<le> of_nat n * \<delta>" using assms(6) by (simp add: ticks_def field_simps)
    moreover have "\<exists>p m r n. re_search event_regex (screen w remote h) = Some (p, m, r, [(1, n)]) \<and> n \<noteq> event" for h
      using s False by blast
    ultimately show ?thesis
      using event_loop_other [OF assms(6), of event timeout 0 n refresh h] False
      by (simp add: wait_for_remote_event_def)
  qed
qed

definition two_events :: string where
  "two_events = ''EVENT starting-tx'' @ [CHR 0x0A] @ ''EVENT starting-rx''"

theorem first_event_decides_witness:
  "\<exists>h'. wait_for_remote_event (constant_world two_events) ''rx'' ''starting-rx'' (1 / 20) 60 [] = Some (Inr False, h')"
proof -
  have t: "ticks (constant_world two_events) ''rx'' 1"
    by (simp add: ticks_def constant_world_def looked_def)
  have "\<exists>h'. wait_for_remote_event (constant_world two_events) ''rx'' ''starting-rx'' (1 / 20) 60 [] =
      Some (Inr (''starting-tx'' = ''starting-rx''), h')"
    by (rule first_event_decides [where pre = "[]" and rest = "[CHR 0x0A] @ ''EVENT starting-rx''", OF _ _ _ _ _ t])
      (simp_all add: two_events_def name_char_def is_word_def py_isdigit_def)
  then show ?thesis by simp
qed

section \<open>Batches and cleaning\<close>

lemma queue_all:
  "fold (\<lambda>f u. snd (add_script f u)) fs u =
    u\<lparr>to_upload := to_upload u @ fs, dsts := dsts u @ map (rendered_dst (up_experiment_path u)) fs\<rparr>"
  by (induction fs arbitrary: u) (simp_all add: add_script_def queue_file_def Let_def)

lemma tseq_Some_iff:
  "tseq m n h = Some (Inr y, h'') \<longleftrightarrow> (\<exists>x h'. m h = Some (Inr x, h') \<and> n h' = Some (Inr y, h''))"
  by (auto simp: tseq_def tbind_def split: option.splits sum.splits)

lemma tbind_Some_iff:
  "tbind m f h = Some (Inr y, h'') \<longleftrightarrow> (\<exists>x h'. m h = Some (Inr x, h') \<and> f x h' = Some (Inr y, h''))"
  by (auto simp: tbind_def split: option.splits sum.splits)

text \<open>A successful upload of scripts returns the destinations of what was queued before and
  of every matching file, in order and once each; the last thing it ran is one copy of exactly
  these files to the directory of the rendered scripts; and the batch is empty again.\<close>

theorem batch_uploaded:
  assumes "upload_scripts w files use_glob g h = Some (Inr (ds, g'), h')"
    and "srcs = to_upload (batcher g) @ expand_paths w h use_glob files"
    and "cmd = scp_command (gen_remote g) (gen_ssh g) srcs
      (path_join ''~'' [up_experiment_path (batcher g), renders_dir])"
    and "CHR 0x22 \<notin> set cmd" "CHR 0x5C \<notin> set cmd"
  shows "ds = dsts (batcher g) @
      map (rendered_dst (up_experiment_path (batcher g))) (expand_paths w h use_glob files) \<and>
    g' = g\<lparr>batcher := batched_uploader (up_experiment_path (batcher g))\<rparr> \<and>
    srcs \<noteq> [] \<and> (\<exists>t. h' = Run [''tmux'', ''-c'', cmd] # t \<and> list_all (is_file w t) srcs) \<and>
    returncode (answer w h') = 0"
proof -
  let ?u = "fold (\<lambda>f u. snd (add_script f u)) (expand_paths w h use_glob files) (batcher g)"
  obtain u' where up: "upload_batch w (gen_remote g) (gen_ssh g) ?u h = Some (Inr (ds, u'), h')"
    and g': "g' = g\<lparr>batcher := u'\<rparr>"
    using assms(1) by (auto simp: upload_scripts_def Let_def tbind_Some_iff tret_def)
  have u: "to_upload ?u = srcs" "up_experiment_path ?u = up_experiment_path (batcher g)"
    "dsts ?u = dsts (batcher g) @ map (rendered_dst (up_experiment_path (batcher g))) (expand_paths w h use_glob files)"
    using assms(2) by (simp_all add: queue_all)
  have split: "shlex_split (in_tmux (scp_command (gen_remote g) (gen_ssh g) srcs
      (path_join ''~'' [up_experiment_path (batcher g), renders_dir]))) = Inr [''tmux'', ''-c'', cmd]"
    using shlex_in_tmux [OF assms(4,5)] assms(3) by simp
  obtain t where t: "list_all (is_file w t) srcs" "h' = Run [''tmux'', ''-c'', cmd] # t" "srcs \<noteq> []"
    "returncode (answer w h') = 0" "ds = dsts ?u" "u' = ?u\<lparr>to_upload := [], dsts := []\<rparr>"
    using up unfolding upload_batch_def tseq_Some_iff u(1,2) split
    by (auto simp: tret_def traise_def tbind_def sp_run_def split: if_splits)
  then show ?thesis using u g' by (auto simp: batched_uploader_def)
qed

text \<open>In a world whose terminal is always at the prompt, silent commands return.\<close>

lemma send_silent:
  assumes "\<And>h. shows_prompt w remote h" and "\<And>h. returncode (answer w h) = 0"
  shows "\<exists>h'. remote_tmux_send w remote cmd False True h = Some (Inr None, h')"
proof -
  have "remote_tmux_wait_for_prompt w remote 1 h = Some (Inr (), looked remote (Sleep (1 / 10) # h))" for h
    using assms(1) by (simp add: remote_tmux_wait_for_prompt_def prompt_loop_unfold)
  then show ?thesis
    using assms(2)
    by (simp add: remote_tmux_send_def remote_tmux_check_def tbind_def tseq_def sp_run_def tret_def
        clear_screen_def send_keys_def act_def)
qed

lemma ensure_dir_silent:
  assumes "\<And>h. shows_prompt w remote h" and "\<And>h. returncode (answer w h) = 0"
  shows "\<exists>h'. remote_tmux_ensure_dir w remote d h = Some (Inr (), h')"
  using send_silent [OF assms] unfolding remote_tmux_ensure_dir_def tseq_Some_iff
  by (metis tret_def)

definition demo_generator :: generator where
  "demo_generator = \<lparr>gen_path = ''exp'', gen_remote = ''box'', gen_ssh = None, batcher = batched_uploader ''exp''\<rparr>"

theorem batch_uploaded_witness:
  "\<exists>h'. upload_scripts (constant_world ''me@box:~$'') [''../a.c'', ''b.h''] True demo_generator [] =
      Some (Inr ([''~/exp/renders/a.c'', ''~/exp/renders/b.h''], demo_generator), h') \<and>
    (\<exists>t. h' = Run [''tmux'', ''-c'', ''scp   ../a.c b.h box:~/exp/renders''] # t)"
proof -
  let ?w = "constant_world ''me@box:~$''"
  have "nonblank_lines ''me@box:~$'' = [''me@box:~$'']" by (simp add: nonblank_lines_def)
  moreover have "at_prompt (strip ''me@box:~$'')" by code_simp
  ultimately have shown: "shows_prompt ?w ''box'' h" for h by (simp add: shows_prompt_def)
  have ok: "returncode (answer ?w h) = 0" for h by (simp add: constant_world_def)
  obtain h1 where h1: "remote_tmux_ensure_dir ?w ''box'' (path_join ''exp'' [renders_dir]) [] = Some (Inr (), h1)"
    using ensure_dir_silent [OF shown ok] by blast
  have paths: "expand_paths ?w h True [''../a.c'', ''b.h''] = [''../a.c'', ''b.h'']" for h
    by (simp add: expand_paths_def)
  have cmd: "scp_command ''box'' None [''../a.c'', ''b.h''] (path_join ''~'' [''exp'', renders_dir]) =
      ''scp   ../a.c b.h box:~/exp/renders''"
    by (simp add: scp_command_def ssh_target_def path_join_def path_join2_def renders_dir_def endswith_def)
  have dst: "rendered_dst ''exp'' ''../a.c'' = ''~/exp/renders/a.c''" "rendered_dst ''exp'' ''b.h'' = ''~/exp/renders/b.h''"
    by (simp_all add: rendered_dst_def path_join_def path_join2_def renders_dir_def endswith_def basename_def)
  have "upload_batch ?w ''box'' None (fold (\<lambda>f u. snd (add_script f u)) [''../a.c'', ''b.h''] (batched_uploader ''exp'')) [] =
      Some (Inr ([''~/exp/renders/a.c'', ''~/exp/renders/b.h''], batched_uploader ''exp''),
        Run [''tmux'', ''-c'', ''scp   ../a.c b.h box:~/exp/renders''] # h1)"
    unfolding queue_all upload_batch_def
    by (subst tbind_Some(2) [where h' = h1 and x = "()"])
      (simp_all add: h1 batched_uploader_def cmd shlex_in_tmux dst,
        simp add: constant_world_def tbind_def sp_run_def tret_def)
  then have up: "\<exists>h'. upload_scripts ?w [''../a.c'', ''b.h''] True demo_generator [] =
      Some (Inr ([''~/exp/renders/a.c'', ''~/exp/renders/b.h''], demo_generator), h')"
    unfolding upload_scripts_def paths Let_def
    by (simp add: demo_generator_def tbind_Some(1) tret_def)
  then obtain h' where h': "upload_scripts ?w [''../a.c'', ''b.h''] True demo_generator [] =
      Some (Inr ([''~/exp/renders/a.c'', ''~/exp/renders/b.h''], demo_generator), h')" by blast
  from batch_uploaded [OF this refl refl]
  have "\<exists>t. h' = Run [''tmux'', ''-c'', ''scp   ../a.c b.h box:~/exp/renders''] # t"
    by (auto simp: paths demo_generator_def batched_uploader_def cmd)
  then show ?thesis using h' by blast
qed

text \<open>Before it cleans, the file generator guards the home directory, but the guard refuses
  exactly the empty experiment path: for \<^verbatim>\<open>.\<close> or an absolute path such as \<^verbatim>\<open>/\<close> it removes
  the home directory or the root.\<close>

theorem clean_guard:
  "(path_join2 ''~'' p \<in> set home_paths \<longleftrightarrow> p = []) \<and>
   gen_clean w remote [] = tret () \<and>
   gen_clean w remote ''.'' = send_cmd w remote ''rm -rf ~/.'' \<and>
   gen_clean w remote ''/'' = send_cmd w remote ''rm -rf /''"
proof -
  have "path_join2 ''~'' p \<in> set home_paths \<longleftrightarrow> p = []"
    by (cases p) (auto simp: path_join2_def home_paths_def endswith_def)
  then show ?thesis
    by (auto simp: gen_clean_def path_join2_def home_paths_def endswith_def Let_def)
qed

end
