(* ===== verification/Runner.thy ===== *)
theory Runner
  imports Events Data_Manager Tmux
begin

text \<open>
  The experiment of autotest/exp_runner.py: its setup, the two threads that drive the sender and the
  receiver, the precompilation of the rules, and the loop that runs every configuration until it
  gives valid results, records them, and saves the state.

  The threads \<open>tx_run\<close> and \<open>rx_run\<close> are modelled one by one over the remote control of \<open>Tmux\<close>.
  The main loop is given what each pair of threads left in its two dictionaries, as the list of
  outcomes still to come: whatever the interleaving, this is all it sees of them.  It is not
  finished (\<open>None\<close>) when the outcomes run out.
\<close>

section \<open>The threads\<close>

text \<open>A dictionary filled by a thread: results, and the error under its own key.\<close>

datatype aval = Vals "string list" | Err "string option"

type_synonym agg = "aval dict"

record site =
  tx :: string
  rx :: string
  exp_name :: string
  rx_ssh_cfg :: "ssh_config option"
  rx_out_file :: string
  tx_out_file :: string

definition agg_results :: "(string list \<Rightarrow> string list) \<Rightarrow> string \<Rightarrow> agg \<Rightarrow> agg" where
  "agg_results so output a =
     dict_set ''error'' (Err (output_scan_error output))
       (dict_update a (map (\<lambda>(k, v). (k, Vals v)) (host_parse_single_result so output)))"

definition the_output :: "string option \<Rightarrow> string" where
  "the_output out = (case out of None \<Rightarrow> [] | Some s \<Rightarrow> s)"

text \<open>The log files on the host.  \<^verbatim>\<open>write\<close> refuses \<^verbatim>\<open>None\<close>, the answer of a command whose output is
  not awaited.\<close>

definition out_file :: "site \<Rightarrow> bool \<Rightarrow> string" where
  "out_file g to_rx = (if to_rx then rx_out_file g else tx_out_file g)"

definition log_cmd :: "site \<Rightarrow> bool \<Rightarrow> string option \<Rightarrow> unit tm" where
  "log_cmd g to_rx to_log =
     (case to_log of None \<Rightarrow> traise TypeError | Some s \<Rightarrow> act (AppendFile (out_file g to_rx) s))"

definition log_text :: "string \<Rightarrow> string" where
  "log_text to_log =
     (let bar = replicate 50 (CHR ''-'')
      in [CHR 0x0A] @ bar @ '' '' @ [CHR 0x0A] @ '' '' @ to_log @ '' '' @ [CHR 0x0A] @ bar @ [CHR 0x0A])"

definition log_msg :: "site \<Rightarrow> bool \<Rightarrow> string \<Rightarrow> bool \<Rightarrow> unit tm" where
  "log_msg g to_rx to_log append_it =
     act ((if append_it then AppendFile else WriteFile) (out_file g to_rx) (log_text to_log))"

definition rx_body :: "outside \<Rightarrow> site \<Rightarrow> (string list \<Rightarrow> string list) \<Rightarrow> string dict \<Rightarrow> agg \<Rightarrow> agg tm" where
  "rx_body w g so cfg a =
     tseq (remote_tmux_launch_script w (rx g) (exp_name g) ''rx.sh'' cfg True None (rx_ssh_cfg g) False ''source'')
    (tseq (wait_for_remote_event w (tx g) ''stopped-tx'' (1 / 20) 60)
    (tseq (remote_tmux_send w (rx g)
             ''sudo pkill regex-test && while pgrep -x regex-test > /dev/null; do sleep 1; done'' True True)
    (tbind (remote_tmux_send w (rx g) ''cd $EXPATH/builddir && cat rgx_output'' True True)
       (\<lambda>output. tseq (log_cmd g True output) (tret (agg_results so (the_output output) a))))))"

definition tx_body :: "outside \<Rightarrow> site \<Rightarrow> (string list \<Rightarrow> string list) \<Rightarrow> string dict \<Rightarrow> agg \<Rightarrow> agg tm" where
  "tx_body w g so cfg a =
     tbind (remote_upload_rendered_script w (tx g) (exp_name g) ''gen_pkts.lua'' cfg True None None None) (\<lambda>lua.
     tbind (wait_for_remote_event w (rx g) ''starting-rx'' (1 / 20) 60) (\<lambda>started.
       if \<not> started then tret (dict_set ''error'' (Err (Some ''Timeout reached for starting rx'')) a)
       else
         tbind (remote_tmux_launch_script w (tx g) (exp_name g) ''launch_pktgen.sh''
                  (dict_set ''gen_lua'' lua cfg) True None None True ''bash'')
           (\<lambda>output. tseq (log_cmd g False output) (tret (agg_results so (the_output output) a)))))"

text \<open>A thread that raises dies and leaves its dictionary as it was.\<close>

definition thread :: "(agg \<Rightarrow> agg tm) \<Rightarrow> agg \<Rightarrow> history \<Rightarrow> (agg \<times> history) option" where
  "thread body a h =
     (case body a h of
        None \<Rightarrow> None | Some (Inl e, h') \<Rightarrow> Some (a, h') | Some (Inr a', h') \<Rightarrow> Some (a', h'))"

definition rx_run where "rx_run w g so cfg = thread (rx_body w g so cfg)"

definition tx_run where "tx_run w g so cfg = thread (tx_body w g so cfg)"

section \<open>Setup and precompilation\<close>

definition remove_file :: "outside \<Rightarrow> string \<Rightarrow> unit tm" where
  "remove_file w path h = (if is_file w h path then act (Remove path) h else traise FileNotFoundError h)"

definition setup_files :: "string list" where
  "setup_files = [''../meson.build'', ''../*.c'', ''../*.h'', ''../data/working_set.rules'',
     ''../data/prefixes_4b_64k.rules'', ''../data/prefixes_8b_1M.rules'', ''../data/*.py'']"

definition setup_exp :: "outside \<Rightarrow> site \<Rightarrow> string dict \<Rightarrow> (generator \<times> generator) tm" where
  "setup_exp w g init_config =
     tseq (clean_renders w True)
    (tseq (remote_tmux_stop w (tx g)) (tseq (remote_tmux_stop w (rx g))
    (tseq (remote_tmux_start w (tx g) (exp_name g) None)
    (tseq (remote_tmux_start w (rx g) (exp_name g) (rx_ssh_cfg g))
    (tbind (file_generator w (exp_name g) (rx g) True (rx_ssh_cfg g)) (\<lambda>fgenrx.
     tbind (file_generator w (exp_name g) (tx g) True None) (\<lambda>fgentx.
     tbind (upload_scripts w setup_files True fgenrx) (\<lambda>(ds, fgenrx').
     tseq (remove_file w (rx_out_file g)) (tseq (remove_file w (tx_out_file g))
    (tseq (log_msg g True (''Start of '' @ rx g @ '' log'') False)
    (tseq (log_msg g False (''Start of '' @ tx g @ '' log'') False)
    (tbind (remote_tmux_launch_script w (rx g) (exp_name g) ''build_rgxtest.sh'' init_config True None
              (rx_ssh_cfg g) True ''sh'') (\<lambda>out.
       (case check_error (the_output out) of
          Inl e \<Rightarrow> traise e | Inr _ \<Rightarrow> tret (fgenrx', fgentx))))))))))))))) "

definition teardown :: "outside \<Rightarrow> site \<Rightarrow> unit tm" where
  "teardown w g = tseq (remote_tmux_stop w (tx g)) (remote_tmux_stop w (rx g))"

text \<open>The parameters that matter to the compilation of the rules.  A parameter the experiment lacks
  is \<^verbatim>\<open>None\<close>, which the product of the new handler refuses.  \<open>val\<close> makes a parameter
  value of a string.\<close>

definition compile_params :: "string list" where
  "compile_params = [''n_rules'', ''pattern_db'', ''rules_use_content_kw'', ''rules_use_pcre_kw'',
     ''rules_patlen_greaterthan'']"

definition precompile_space ::
  "(string \<Rightarrow> 'v) \<Rightarrow> 'v handler \<Rightarrow> 'v dict \<Rightarrow> (string \<times> 'v list) list res" where
  "precompile_space val exparams config =
     res_bind (res_map (\<lambda>p. res_bind (get_param_vals exparams p) (\<lambda>vs.
         case vs of None \<Rightarrow> Inl TypeError | Some v \<Rightarrow> Inr (p, v))) compile_params) (\<lambda>ps.
     res_bind (dict_get config ''fixed_seed'') (\<lambda>seed.
       Inr (ps @ [(''rgx_enabled'', [val ''1'']), (''hs_enabled'', [val ''0'']), (''fixed_seed'', [seed])])))"

definition precompile_cfgs :: "(string \<Rightarrow> 'v) \<Rightarrow> 'v handler \<Rightarrow> 'v dict \<Rightarrow> nat \<Rightarrow> 'v pset option list res option" where
  "precompile_cfgs val exparams config fuel =
     (case res_bind (precompile_space val exparams config) (\<lambda>ps. res_bind (init_handler ps 1) start) of
        Inl e \<Rightarrow> Some (Inl e)
      | Inr h \<Rightarrow> map_option (\<lambda>r. res_bind r (\<lambda>(cfgs, _). Inr cfgs)) (drain peek_params pop_params fuel h))"

definition precompile_command :: "string list \<Rightarrow> string" where
  "precompile_command scripts = join '' & '' (map (\<lambda>s. ''sh '' @ s) scripts) @ '' && wait''"

fun render_all :: "outside \<Rightarrow> string dict list \<Rightarrow> uploader \<Rightarrow> (string list \<times> uploader) tm" where
  "render_all w [] u = tret ([], u)"
| "render_all w (cfg # cfgs) u =
     tbind (add_rendered_script w ''prep_rules.sh'' cfg True None u) (\<lambda>(s, u1).
     tbind (render_all w cfgs u1) (\<lambda>(ss, u2). tret (s # ss, u2)))"

definition precompile_rxpc ::
  "outside \<Rightarrow> site \<Rightarrow> ('v \<Rightarrow> string) \<Rightarrow> (string \<Rightarrow> 'v) \<Rightarrow> 'v handler \<Rightarrow> 'v dict \<Rightarrow> nat \<Rightarrow> unit tm" where
  "precompile_rxpc w g sv val exparams config fuel h =
     (case precompile_cfgs val exparams config fuel of
        None \<Rightarrow> None
      | Some (Inl e) \<Rightarrow> Some (Inl e, h)
      | Some (Inr cfgs) \<Rightarrow>
          tbind (render_all w (map (\<lambda>c. map (\<lambda>(k, v). (k, sv v)) (case c of None \<Rightarrow> [] | Some d \<Rightarrow> d)) cfgs)
                   (batched_uploader (exp_name g))) (\<lambda>(scripts, u).
          tbind (upload_batch w (rx g) (rx_ssh_cfg g) u) (\<lambda>_.
          tbind (remote_tmux_send w (rx g) (precompile_command scripts) True True) (\<lambda>out.
            log_cmd g True out))) h)"

definition sec_to_hm :: "rat \<Rightarrow> string" where
  "sec_to_hm sec =
     (let h = floor (sec / 3600); m = floor ((sec - of_int h * 3600) / 60)
      in int_str h @ ''h'' @ int_str m)"

section \<open>The main loop\<close>

text \<open>What \<^verbatim>\<open>main\<close> keeps: the parameters, the data, the events and the configuration last
  prepared, and the two files it writes, the results and the saved state.\<close>

record 'v runner =
  exparams :: "'v handler"
  data :: "dm \<times> 'v dm_class"
  evts :: "('v, 'v receiver) event_manager"
  prepared :: "'v receiver"
  result_file :: "string option"
  save_file :: "'v saved option"
  run_cntr :: nat

definition validate_results :: "agg \<Rightarrow> bool" where
  "validate_results results \<longleftrightarrow>
     ''rgx_bs8_enq_brst_cnt'' \<in> set (keys results) \<or> ''hs_avg_scan_time_cycles'' \<in> set (keys results)"

definition merge_results :: "agg \<Rightarrow> agg \<Rightarrow> agg" where
  "merge_results rx_result tx_result =
     filter (\<lambda>(k, v). k \<noteq> ''error'') (dict_update (dict_update [] rx_result) tx_result)"

definition agg_entry :: "agg \<Rightarrow> 'v entry" where
  "agg_entry result = map (\<lambda>(k, v). (k, case v of Vals vs \<Rightarrow> map CStr vs | Err e \<Rightarrow> [])) result"

text \<open>The progress report divides by the number of configurations handed out.\<close>

definition progress :: "'v handler \<Rightarrow> unit res" where
  "progress h =
     res_bind (get_configs_popped h) (\<lambda>p. res_bind (get_configs_left h) (\<lambda>l.
       if p = 0 then Inl ZeroDivisionError else Inr ()))"

text \<open>An error left by a thread: a missing key raises, anything but \<^verbatim>\<open>None\<close> means another try.\<close>

definition agg_failed :: "agg \<Rightarrow> bool res" where
  "agg_failed a = res_bind (dict_get a ''error'') (\<lambda>e. Inr (e \<noteq> Err None))"

definition record_valid :: "('v \<Rightarrow> string) \<Rightarrow> 'v runner \<Rightarrow> bool res \<times> 'v runner" where
  "record_valid st s =
     (case show_last st 2 (data s) of
        Inl e \<Rightarrow> (Inl e, s)
      | Inr _ \<Rightarrow>
          let s1 = s\<lparr>run_cntr := Suc (run_cntr s)\<rparr>
          in case export_csv st True (data s1) of
               Inl e \<Rightarrow> (Inl e, s1)
             | Inr csv \<Rightarrow>
                 let s2 = s1\<lparr>result_file := Some csv\<rparr>
                 in case save_state (exparams s2) of
                      Inl e \<Rightarrow> (Inl e, s2)
                    | Inr sv \<Rightarrow> (Inr True, s2\<lparr>save_file := Some sv\<rparr>))"

text \<open>The message about invalid results contains a second call of \<^verbatim>\<open>add_entry\<close>.\<close>

definition report_invalid ::
  "(string list \<Rightarrow> string list) \<Rightarrow> 'v entry \<Rightarrow> 'v pset \<Rightarrow> 'v runner \<Rightarrow> bool res \<times> 'v runner" where
  "report_invalid so e params s =
     (case add_entry so e (Some params) False True (data s) of
        (Inl x, d) \<Rightarrow> (Inl x, s\<lparr>data := d\<rparr>)
      | (Inr _, d) \<Rightarrow> (Inr False, s\<lparr>data := d\<rparr>))"

definition attempt ::
  "(string list \<Rightarrow> string list) \<Rightarrow> ('v \<Rightarrow> string) \<Rightarrow> 'v pset \<Rightarrow> agg \<times> agg \<Rightarrow> 'v runner \<Rightarrow> bool res \<times> 'v runner" where
  "attempt so st params outcome s =
     (let (rx_result, tx_result) = outcome
      in case res_bind (progress (exparams s)) (\<lambda>_. agg_failed rx_result) of
           Inl e \<Rightarrow> (Inl e, s)
         | Inr True \<Rightarrow> (Inr False, s)
         | Inr False \<Rightarrow>
             (case agg_failed tx_result of
                Inl e \<Rightarrow> (Inl e, s)
              | Inr True \<Rightarrow> (Inr False, s)
              | Inr False \<Rightarrow>
                  let result = merge_results rx_result tx_result; e = agg_entry result
                  in if \<not> validate_results result then report_invalid so e params s
                     else
                       (case add_entry so e (Some params) True True (data s) of
                          (Inl x, d) \<Rightarrow> (Inl x, s\<lparr>data := d\<rparr>)
                        | (Inr False, d) \<Rightarrow> report_invalid so e params (s\<lparr>data := d\<rparr>)
                        | (Inr True, d) \<Rightarrow> record_valid st (s\<lparr>data := d\<rparr>))))"

fun until_valid ::
  "(string list \<Rightarrow> string list) \<Rightarrow> ('v \<Rightarrow> string) \<Rightarrow> 'v pset \<Rightarrow> (agg \<times> agg) list \<Rightarrow> 'v runner
     \<Rightarrow> (agg \<times> agg) list res option \<times> 'v runner" where
  "until_valid so st params [] s = (None, s)"
| "until_valid so st params (x # xs) s =
     (case attempt so st params x s of
        (Inl e, s') \<Rightarrow> (Some (Inl e), s')
      | (Inr True, s') \<Rightarrow> (Some (Inr xs), s')
      | (Inr False, s') \<Rightarrow> until_valid so st params xs s')"

definition next_config :: "'v runner \<Rightarrow> 'v pset option res \<times> 'v runner" where
  "next_config s =
     (case peek_params (exparams s) of
        Inl e \<Rightarrow> (Inl e, s)
      | Inr (None, h) \<Rightarrow> (Inr None, s\<lparr>exparams := h\<rparr>)
      | Inr (Some _, h) \<Rightarrow>
          (case pop_params h of
             Inl e \<Rightarrow> (Inl e, s\<lparr>exparams := h\<rparr>)
           | Inr (None, h') \<Rightarrow> (Inl TypeError, s\<lparr>exparams := h'\<rparr>)
           | Inr (Some p, h') \<Rightarrow> (Inr (Some p), s\<lparr>exparams := h'\<rparr>)))"

fun main_loop ::
  "(string list \<Rightarrow> string list) \<Rightarrow> ('v \<Rightarrow> string) \<Rightarrow> nat \<Rightarrow> (agg \<times> agg) list \<Rightarrow> 'v runner
     \<Rightarrow> unit res option \<times> 'v runner" where
  "main_loop so st 0 xs s = (None, s)"
| "main_loop so st (Suc fuel) xs s =
     (case next_config s of
        (Inl e, s1) \<Rightarrow> (Some (Inl e), s1)
      | (Inr None, s1) \<Rightarrow> (Some (Inr ()), s1)
      | (Inr (Some params), s1) \<Rightarrow>
          (case process_parameters (evts s1) params (prepared s1) of
             Inl e \<Rightarrow> (Some (Inl e), s1)
           | Inr (m, r) \<Rightarrow>
               (case until_valid so st params xs (s1\<lparr>evts := m, prepared := r\<rparr>) of
                  (None, s2) \<Rightarrow> (None, s2)
                | (Some (Inl e), s2) \<Rightarrow> (Some (Inl e), s2)
                | (Some (Inr rest), s2) \<Rightarrow> main_loop so st fuel rest s2)))"

text \<open>
  The beginning of \<^verbatim>\<open>main\<close>: \<open>save\<close> is \<open>None\<close> without the option, and the contents of the
  named file, which may be missing, with it; \<open>results\<close> is the result file of the earlier run.
\<close>

definition main_init ::
  "(string list \<Rightarrow> string list) \<Rightarrow> (string \<Rightarrow> int) \<Rightarrow> ('v list \<Rightarrow> int res) \<Rightarrow> (string \<times> 'v list) list \<Rightarrow> int
     \<Rightarrow> 'v pfilter list \<Rightarrow> 'v saved option option \<Rightarrow> string option \<Rightarrow> 'v runner res" where
  "main_init so hs hv test_params n_reps filters save results =
     (let d0 = data_manager ''NaN'' True [] ''param_'' dm_initial_class;
          loaded = Option.bind save load_state
      in res_bind (init_handler test_params n_reps) (\<lambda>h0.
         res_bind (res_fold add_param_filter filters h0) (\<lambda>h1.
         res_bind (case loaded of
                     None \<Rightarrow> Inr None
                   | Some hl \<Rightarrow> res_bind (handler_hash hs hv hl) (\<lambda>a. res_bind (handler_hash hs hv h1)
                       (\<lambda>b. Inr (if a = b then Some hl else None)))) (\<lambda>use.
         res_bind (case use of
                     None \<Rightarrow> res_bind (start h1) (\<lambda>h. Inr (h, d0))
                   | Some hl \<Rightarrow>
                       (case results of
                          None \<Rightarrow> Inl FileNotFoundError
                        | Some csv \<Rightarrow>
                            (case load_from_csv so csv d0 of
                               (Inl e, _) \<Rightarrow> Inl e | (Inr _, d) \<Rightarrow> Inr (hl, d)))) (\<lambda>(h, d).
           Inr \<lparr>exparams = h, data = d, evts = params_evts (use \<noteq> None), prepared = None,
                result_file = results, save_file = (case save of None \<Rightarrow> None | Some f \<Rightarrow> f), run_cntr = 0\<rparr>)))))"

section \<open>Recording a valid result\<close>

text \<open>What a thread leaves when it worked, and what makes the loop try again.\<close>

definition good_agg :: "agg \<Rightarrow> bool" where
  "good_agg a \<longleftrightarrow> map_of a ''error'' = Some (Err None) \<and>
     (\<forall>(k, v) \<in> set a. k \<noteq> ''error'' \<longrightarrow> (\<exists>x xs. v = Vals (x # xs)))"

definition good_outcome :: "agg \<times> agg \<Rightarrow> bool" where
  "good_outcome = (\<lambda>(r, t). good_agg r \<and> good_agg t \<and> validate_results (merge_results r t))"

definition failed_outcome :: "agg \<times> agg \<Rightarrow> bool" where
  "failed_outcome = (\<lambda>(r, t). (\<exists>e. map_of r ''error'' = Some e \<and> e \<noteq> Err None) \<or>
     map_of r ''error'' = Some (Err None) \<and> (\<exists>e. map_of t ''error'' = Some e \<and> e \<noteq> Err None))"

lemma distinct_map_filter: "distinct (keys d) \<Longrightarrow> distinct (keys (filter P d))"
  by (induction d) auto

lemma in_dict_set: "(k, v) \<in> set (dict_set k' v' d) \<Longrightarrow> (k, v) = (k', v') \<or> (k, v) \<in> set d"
  by (induction d) (auto split: if_splits)

lemma in_dict_update: "(k, v) \<in> set (dict_update d e) \<Longrightarrow> (k, v) \<in> set d \<union> set e"
proof (induction e arbitrary: d)
  case (Cons p e)
  obtain k' v' where p: "p = (k', v')" by (cases p)
  have "(k, v) \<in> set (dict_set k' v' d) \<union> set e"
    using Cons by (simp add: p dict_update_def)
  then show ?case using in_dict_set [of k v k' v' d] by (auto simp: p)
qed (simp add: dict_update_def)

lemma agg_entry_wf:
  assumes "good_agg r" "good_agg t"
  shows "entry_wf (agg_entry (merge_results r t) :: 'v entry)"
proof -
  let ?m = "merge_results r t"
  let ?e = "agg_entry ?m :: 'v entry"
  have "distinct (keys (dict_update (dict_update [] r) t))" by (intro distinct_dict_update) simp
  then have "distinct (keys ?m)" unfolding merge_results_def by (rule distinct_map_filter)
  moreover have "keys ?e = keys ?m" by (simp add: agg_entry_def comp_def case_prod_unfold)
  moreover have vals: "\<exists>x xs. v = Vals (x # xs)" if "(k, v) \<in> set ?m" for k v
  proof -
    have "(k, v) \<in> set r \<union> set t" "k \<noteq> ''error''"
      using that in_dict_update [of k v "dict_update [] r" t] in_dict_update [of k v "[]" r]
      by (auto simp: merge_results_def)
    then show ?thesis using assms by (auto simp: good_agg_def)
  qed
  moreover have "v \<noteq> []" if "(c, v) \<in> set ?e" for c v
    using that by (auto simp: agg_entry_def dest!: vals)
  ultimately show ?thesis unfolding entry_wf_def by auto
qed

lemma entry_wf_dict_set: "entry_wf e \<Longrightarrow> v \<noteq> [] \<Longrightarrow> entry_wf (dict_set k v e)"
  unfolding entry_wf_def by (intro conjI distinct_dict_set) (auto dest!: in_dict_set)

lemma entry_wf_set_params: "entry_wf e \<Longrightarrow> entry_wf (set_params prefix ps e)"
  unfolding set_params_def
  by (induction ps arbitrary: e) (auto intro: entry_wf_dict_set)

lemma show_fields_total:
  assumes "\<And>c. c \<in> set cs \<Longrightarrow> \<exists>x xs. map_of e c = Some (x # xs)" and "0 < per"
  shows "\<exists>out. show_fields st per e i cs acc = Inr out"
  using assms(1)
proof (induction cs arbitrary: i acc)
  case (Cons c cs)
  obtain x xs where "map_of e c = Some (x # xs)" using Cons.prems by force
  then have "dict_get e c = Inr (x # xs)" by simp
  then show ?case using Cons assms(2) by (auto simp: first_cell_def)
qed simp

definition hready :: "'v handler \<Rightarrow> bool" where
  "hready h \<longleftrightarrow> queue_ready h \<and> (\<exists>q. configs_popped h = Some q \<and> 0 \<le> q)"

lemma hready_pop:
  assumes "hready h" "params_sets h = Some c # rest"
  shows "\<exists>h' q. peek_params h = Inr (Some c, h) \<and> pop_params h = Inr (Some c, h') \<and> hready h' \<and>
    params_sets h' = rest \<and> configs_popped h' = Some q \<and> 0 < q \<and> curr_params h' = Some c \<and>
    parameter_names h' = parameter_names h \<and> parameter_vals h' = parameter_vals h"
  using assms
  by (auto simp: hready_def queue_ready_def pop_params_def peek_params_def ensure_built_def)

definition data_ok :: "dm \<times> 'v dm_class \<Rightarrow> bool" where
  "data_ok = (\<lambda>(d, k). metrics_to_compute k = [] \<and> (\<forall>e \<in> set (cls_entries k). entry_wf e) \<and>
     parameter_prefix d = ''param_'')"

text \<open>The row recorded for a configuration: its parameters under their prefixed names, and the
  results that do not have the name of such a column or of the index.\<close>

definition records :: "'v pset \<Rightarrow> 'v entry \<Rightarrow> 'v entry \<Rightarrow> bool" where
  "records params e row \<longleftrightarrow>
     (\<forall>p v. map_of params p = Some v \<longrightarrow> map_of row (''param_'' @ p) = Some [CObj v]) \<and>
     (\<forall>c v. map_of e c = Some v \<and> c \<noteq> ''index'' \<and> (\<forall>p \<in> set (keys params). c \<noteq> ''param_'' @ p) \<longrightarrow>
        map_of row c = Some v)"

lemma add_entry_forced:
  assumes "data_ok (d, k)" "entry_wf e" "distinct (keys params)" "set_order so"
  shows "\<exists>row d'. add_entry so e (Some params) True True (d, k) =
      (Inr True, (d', k\<lparr>cls_entries := cls_entries k @ [row]\<rparr>)) \<and>
    records params e row \<and> data_ok (d', k\<lparr>cls_entries := cls_entries k @ [row]\<rparr>) \<and>
    (\<forall>c \<in> set (columns d' k). c \<in> set (keys row))"
proof -
  let ?d = "learn_columns so True e d k"
  let ?f = "fill_invalid e (columns ?d k) (invalid_token d)"
  obtain e2 d2 where n: "number_entry ?d k ?f = (e2, d2)" by (cases "number_entry ?d k ?f")
  let ?row = "set_params ''param_'' params e2"
  have prefix: "parameter_prefix d = ''param_''" and metrics: "metrics_to_compute k = []"
    using assms(1) by (simp_all add: data_ok_def)
  have add: "add_entry so e (Some params) True True (d, k) =
      (Inr True, (d2, k\<lparr>cls_entries := cls_entries k @ [?row]\<rparr>))"
    using add_entry_plain [OF assms(2) metrics refl, where so = so and upd = True and d = d and ps = "Some params" and force = True]
      n by (simp add: with_params_def prefix)
  have f: "entry_wf ?f" by (rule entry_wf_fill [OF assms(2)])
  have e2: "entry_wf e2" "\<And>c. c \<noteq> ''index'' \<Longrightarrow> map_of e2 c = map_of ?f c" "\<And>c. map_of ?f c \<noteq> None \<Longrightarrow> map_of e2 c \<noteq> None"
    using n f by (auto simp: number_entry_def intro: entry_wf_dict_set split: if_splits)
  have row: "entry_wf ?row" by (rule entry_wf_set_params [OF e2(1)])
  have "map_of ?row c = Some v"
    if "map_of e c = Some v" "c \<noteq> ''index''" "\<forall>p \<in> set (keys params). c \<noteq> ''param_'' @ p" for c v
  proof -
    have "c \<in> set (keys e)" using that(1) unfolding in_keys_iff by simp
    then have "map_of ?f c = Some v" using that(1) by (simp only: map_of_fill if_False not_True_eq_False simp_thms)
    then show ?thesis using map_of_set_params_other [of params c "''param_''" e2] e2(2) that by auto
  qed
  then have "records params e ?row"
    using map_of_set_params_own [OF assms(3), where prefix = "''param_''" and e = e2] by (simp add: records_def)
  moreover have "c \<in> set (keys ?row)" if "c \<in> set (columns d2 k)" for c
  proof -
    have "columns d2 k = columns ?d k" using n by (auto simp: number_entry_def columns_def split: if_splits)
    then have "c \<in> set (keys ?f)" using that unfolding keys_fill by simp
    then have "map_of e2 c \<noteq> None" using e2(3) unfolding in_keys_iff by blast
    then show ?thesis unfolding in_keys_iff map_of_set_params [OF assms(3)] by (simp split: option.split)
  qed
  moreover have "data_ok (d2, k\<lparr>cls_entries := cls_entries k @ [?row]\<rparr>)"
    using assms(1) row n by (auto simp: data_ok_def number_entry_def prefix split: if_splits)
  ultimately show ?thesis using add by blast
qed

lemma columns_entries [simp]: "columns d (k\<lparr>cls_entries := es\<rparr>) = columns d k"
  by (simp add: columns_def split: option.split)

lemma record_valid_total:
  assumes "data s = (d, k)" "data_ok (d, k)" "cls_entries k = es @ [row]"
    and "\<forall>c \<in> set (columns d k). c \<in> set (keys row)" "hready (exparams s)"
  shows "\<exists>csv sv. record_valid st s = (Inr True, s\<lparr>run_cntr := Suc (run_cntr s), result_file := Some csv,
      save_file := Some sv\<rparr>) \<and> export_csv st True (d, k) = Inr csv \<and> save_state (exparams s) = Inr sv"
proof -
  have row: "entry_wf row" using assms(2,3) by (simp add: data_ok_def)
  have "\<exists>x xs. map_of row c = Some (x # xs)" if c: "c \<in> set (columns d k)" for c
  proof -
    have "map_of row c \<noteq> None" using assms(4) c unfolding in_keys_iff by blast
    then obtain v where v: "map_of row c = Some v" by blast
    then have "v \<noteq> []" using row by (auto simp: entry_wf_def dest: map_of_SomeD)
    then show ?thesis using v by (cases v) auto
  qed
  then obtain out where "show_fields st 2 row 0 (columns d k) [] = Inr out"
    using show_fields_total [of "columns d k" row 2 st 0 "[]"] by auto
  then have shown: "show_last st 2 (data s) = Inr out" by (simp add: show_last_def assms(1,3))
  obtain m where "results_to_matrix (cls_entries k) True = Inr m"
    using matrix_total [of "cls_entries k" True] assms(2) by (auto simp: data_ok_def)
  then obtain csv where csv: "export_csv st True (d, k) = Inr csv"
    by (cases m) (auto simp: export_csv_def results_to_csv_def)
  obtain sv where "save_state (exparams s) = Inr sv"
    using assms(5) by (auto simp: hready_def queue_ready_def save_state_def)
  then show ?thesis using shown csv by (simp add: record_valid_def Let_def assms(1))
qed

definition running :: "'v runner \<Rightarrow> bool" where
  "running s \<longleftrightarrow> data_ok (data s) \<and> hready (exparams s)"

definition counted :: "'v handler \<Rightarrow> bool" where
  "counted h \<longleftrightarrow> (\<exists>q. configs_popped h = Some q \<and> 0 < q)"

lemma progress_ok: "hready h \<Longrightarrow> counted h \<Longrightarrow> progress h = Inr ()"
  by (auto simp: hready_def queue_ready_def counted_def progress_def get_configs_popped_def get_configs_left_def
      res_bind_def)

lemma agg_failed_eq: "map_of a ''error'' = Some e \<Longrightarrow> agg_failed a = Inr (e \<noteq> Err None)"
  by (simp add: agg_failed_def dict_get_def)

lemma attempt_failed:
  assumes "failed_outcome x" "hready (exparams s)" "counted (exparams s)"
  shows "attempt so st params x s = (Inr False, s)"
  using assms progress_ok [OF assms(2,3)]
  by (cases x) (auto simp: failed_outcome_def attempt_def agg_failed_eq)

text \<open>What a recorded configuration leaves behind.\<close>

definition recorded :: "('v \<Rightarrow> string) \<Rightarrow> 'v pset \<Rightarrow> agg \<times> agg \<Rightarrow> 'v runner \<Rightarrow> 'v runner \<Rightarrow> bool" where
  "recorded st params x s s' \<longleftrightarrow>
     (\<exists>row. cls_entries (snd (data s')) = cls_entries (snd (data s)) @ [row] \<and>
        records params (agg_entry (merge_results (fst x) (snd x))) row) \<and>
     exparams s' = exparams s \<and> evts s' = evts s \<and> prepared s' = prepared s \<and> data_ok (data s') \<and>
     (\<exists>csv. result_file s' = Some csv \<and> export_csv st True (data s') = Inr csv) \<and>
     (\<exists>sv. save_file s' = Some sv \<and> save_state (exparams s) = Inr sv)"

lemma attempt_good:
  assumes "good_outcome x" "running s" "counted (exparams s)" "distinct (keys params)" "set_order so"
  shows "\<exists>s'. attempt so st params x s = (Inr True, s') \<and> recorded st params x s s'"
proof -
  obtain r t where x: "x = (r, t)" by (cases x)
  obtain d k where dk: "data s = (d, k)" by (cases "data s")
  let ?m = "merge_results r t"
  let ?e = "agg_entry ?m :: 'a entry"
  have good: "good_agg r" "good_agg t" "validate_results ?m"
    using assms(1) x by (auto simp: good_outcome_def)
  have ok: "data_ok (d, k)" and ready: "hready (exparams s)" using assms(2) dk by (auto simp: running_def)
  obtain row d' where add: "add_entry so ?e (Some params) True True (d, k) =
      (Inr True, (d', k\<lparr>cls_entries := cls_entries k @ [row]\<rparr>))"
    and row: "records params ?e row" "data_ok (d', k\<lparr>cls_entries := cls_entries k @ [row]\<rparr>)"
      "\<forall>c \<in> set (columns d' k). c \<in> set (keys row)"
    using add_entry_forced [OF ok agg_entry_wf [OF good(1,2)] assms(4,5)] by blast
  let ?k = "k\<lparr>cls_entries := cls_entries k @ [row]\<rparr>"
  let ?s = "s\<lparr>data := (d', ?k)\<rparr>"
  obtain csv sv where rec: "record_valid st ?s = (Inr True, ?s\<lparr>run_cntr := Suc (run_cntr ?s), result_file := Some csv,
      save_file := Some sv\<rparr>)" "export_csv st True (d', ?k) = Inr csv" "save_state (exparams s) = Inr sv"
    using record_valid_total [of ?s d' ?k "cls_entries k" row st] row ready by auto
  have "map_of r ''error'' = Some (Err None)" "map_of t ''error'' = Some (Err None)"
    using good by (auto simp: good_agg_def)
  then have "attempt so st params x s = record_valid st ?s"
    using progress_ok [OF ready assms(3)] good(3) add
    by (simp add: attempt_def x agg_failed_eq Let_def dk)
  then show ?thesis
    using rec row by (auto simp: recorded_def dk x)
qed

lemma until_valid_good:
  assumes "list_all failed_outcome errs" "good_outcome x" "running s" "counted (exparams s)"
    "distinct (keys params)" "set_order so"
  shows "\<exists>s'. until_valid so st params (errs @ x # rest) s = (Some (Inr rest), s') \<and> recorded st params x s s'"
  using assms(1)
proof (induction errs)
  case Nil
  obtain s' where "attempt so st params x s = (Inr True, s')" "recorded st params x s s'"
    using attempt_good [OF assms(2-6)] by blast
  then show ?case by simp
next
  case (Cons e errs)
  have "attempt so st params e s = (Inr False, s)"
    by (rule attempt_failed) (use Cons.prems assms(3,4) in \<open>auto simp: running_def\<close>)
  then show ?case using Cons by auto
qed

text \<open>The preparation event never raises when configurations have the same parameters.\<close>

definition prep_ready :: "'v runner \<Rightarrow> string set \<Rightarrow> bool" where
  "prep_ready s K \<longleftrightarrow> (\<exists>b. triggers (evts s) = triggers (params_evts b :: ('v, 'v receiver) event_manager) \<and>
       callbacks (evts s) = callbacks (params_evts b)) \<and>
     (case previous_params (evts s) of None \<Rightarrow> True | Some prev \<Rightarrow> set (keys prev) = K)"

lemma process_ready:
  assumes "prep_ready s K" "set (keys p) = K"
  shows "\<exists>r. process_parameters (evts s) p (prepared s) = Inr ((evts s)\<lparr>previous_params := Some p\<rparr>, r)"
proof -
  obtain b where b: "triggers (evts s) = triggers (params_evts b :: ('a, 'a receiver) event_manager)" "callbacks (evts s) = callbacks (params_evts b)"
    using assms(1) by (auto simp: prep_ready_def)
  have "\<exists>d. get_param_diff (evts s) p = Inr d"
  proof (cases "previous_params (evts s)")
    case (Some prev)
    then show ?thesis using get_param_diff_some [OF Some, of p] assms by (auto simp: prep_ready_def)
  qed (simp add: get_param_diff_def)
  then show ?thesis using process_prep [OF b] by blast
qed

lemma next_config_ready:
  assumes "hready (exparams s)" "params_sets (exparams s) = Some c # rest"
  shows "\<exists>h'. next_config s = (Inr (Some c), s\<lparr>exparams := h'\<rparr>) \<and> hready h' \<and> counted h' \<and> params_sets h' = rest \<and>
    curr_params h' = Some c \<and> parameter_names h' = parameter_names (exparams s) \<and>
    parameter_vals h' = parameter_vals (exparams s)"
  using hready_pop [OF assms] by (auto simp: next_config_def counted_def)

text \<open>The outcomes of a whole experiment: for each configuration failures, then a good one.\<close>

definition outcomes :: "((agg \<times> agg) list \<times> (agg \<times> agg)) list \<Rightarrow> (agg \<times> agg) list" where
  "outcomes plan = concat (map (\<lambda>(errs, x). errs @ [x]) plan)"

text \<open>What the configurations recorded so far leave behind.\<close>

definition advanced ::
  "('v \<Rightarrow> string) \<Rightarrow> 'v pset list \<Rightarrow> 'v entry list \<Rightarrow> 'v runner \<Rightarrow> 'v runner \<Rightarrow> bool" where
  "advanced st cs rows s s' \<longleftrightarrow>
     cls_entries (snd (data s')) = cls_entries (snd (data s)) @ rows \<and>
     parameter_names (exparams s') = parameter_names (exparams s) \<and>
     parameter_vals (exparams s') = parameter_vals (exparams s) \<and>
     (if cs = [] then s' = s
      else curr_params (exparams s') = Some (last cs) \<and>
        (\<exists>csv sv. result_file s' = Some csv \<and> export_csv st True (data s') = Inr csv \<and>
          save_file s' = Some sv \<and> save_state (exparams s') = Inr sv))"

lemma advanced_trans:
  "advanced st [c] [row] s s1 \<Longrightarrow> advanced st cs rows s1 s' \<Longrightarrow> advanced st (c # cs) (row # rows) s s'"
  by (auto simp: advanced_def split: if_splits)

lemma main_loop_step:
  assumes "running s" "params_sets (exparams s) = Some c # rest" "prep_ready s K" "set (keys c) = K" "distinct (keys c)"
    and "list_all failed_outcome errs" "good_outcome x" "set_order so"
  shows "\<exists>s' row. main_loop so st (Suc fuel) (errs @ x # xs) s = main_loop so st fuel xs s' \<and>
    running s' \<and> prep_ready s' K \<and> params_sets (exparams s') = rest \<and>
    records c (agg_entry (merge_results (fst x) (snd x))) row \<and> advanced st [c] [row] s s'"
proof -
  obtain h1 where h1: "next_config s = (Inr (Some c), s\<lparr>exparams := h1\<rparr>)" "hready h1" "counted h1" "params_sets h1 = rest"
    "curr_params h1 = Some c" "parameter_names h1 = parameter_names (exparams s)" "parameter_vals h1 = parameter_vals (exparams s)"
    using next_config_ready [of s c rest] assms(1,2) by (auto simp: running_def)
  let ?s1 = "s\<lparr>exparams := h1\<rparr>"
  obtain r where r: "process_parameters (evts ?s1) c (prepared ?s1) = Inr ((evts s)\<lparr>previous_params := Some c\<rparr>, r)"
    using process_ready [of ?s1 K c] assms(3,4) by (auto simp: prep_ready_def)
  let ?s2 = "?s1\<lparr>evts := (evts s)\<lparr>previous_params := Some c\<rparr>, prepared := r\<rparr>"
  have run2: "running ?s2" "counted (exparams ?s2)" using assms(1) h1 by (auto simp: running_def)
  obtain s3 where s3: "until_valid so st c (errs @ x # xs) ?s2 = (Some (Inr xs), s3)" "recorded st c x ?s2 s3"
    using until_valid_good [OF assms(6,7) run2 assms(5,8)] by blast
  have e3: "exparams s3 = h1" "evts s3 = (evts s)\<lparr>previous_params := Some c\<rparr>" "data_ok (data s3)"
    using s3(2) by (simp_all add: recorded_def)
  have "running s3" "prep_ready s3 K" using e3 h1 assms(3,4) by (auto simp: running_def prep_ready_def)
  moreover obtain row where "records c (agg_entry (merge_results (fst x) (snd x))) row" "advanced st [c] [row] s s3"
    using s3(2) e3(1) h1 by (auto simp: recorded_def advanced_def)
  ultimately show ?thesis using h1(1,4) r s3(1) e3(1) by (intro exI [of _ s3] exI [of _ row]) simp
qed

lemma main_loop_prefix:
  assumes "running s" and "params_sets (exparams s) = map Some (cs @ rest)" and "prep_ready s K"
    and "\<And>c. c \<in> set cs \<Longrightarrow> set (keys c) = K \<and> distinct (keys c)"
    and "length plan = length cs" and "\<And>errs x. (errs, x) \<in> set plan \<Longrightarrow> list_all failed_outcome errs \<and> good_outcome x"
    and "set_order so"
  shows "\<exists>s' rows. main_loop so st (length cs + fuel) (outcomes plan @ unused) s = main_loop so st fuel unused s' \<and>
    running s' \<and> prep_ready s' K \<and> params_sets (exparams s') = map Some rest \<and> advanced st cs rows s s' \<and>
    list_all2 (\<lambda>(c, (errs, x)) row. records c (agg_entry (merge_results (fst x) (snd x))) row) (zip cs plan) rows"
  using assms(1-6)
proof (induction cs arbitrary: s plan)
  case Nil
  then show ?case by (intro exI [of _ s] exI [of _ "[]"]) (simp add: advanced_def outcomes_def)
next
  case (Cons c cs)
  obtain errs x plan' where plan: "plan = (errs, x) # plan'" using Cons.prems(5) by (cases plan) auto
  have ok: "list_all failed_outcome errs" "good_outcome x" using Cons.prems(6) [of errs x] plan by simp_all
  have c: "set (keys c) = K" "distinct (keys c)" using Cons.prems(4) [of c] by auto
  have sets: "params_sets (exparams s) = Some c # map Some (cs @ rest)" using Cons.prems(2) by simp
  obtain s1 row where s1: "main_loop so st (Suc (length cs + fuel)) (errs @ x # outcomes plan' @ unused) s =
      main_loop so st (length cs + fuel) (outcomes plan' @ unused) s1"
    "running s1" "prep_ready s1 K" "params_sets (exparams s1) = map Some (cs @ rest)"
    "records c (agg_entry (merge_results (fst x) (snd x))) row" "advanced st [c] [row] s s1"
    using main_loop_step [OF Cons.prems(1) sets Cons.prems(3) c ok assms(7)] by blast
  have cs: "set (keys c') = K \<and> distinct (keys c')" if "c' \<in> set cs" for c'
    by (rule Cons.prems(4)) (use that in simp)
  have plan_ok: "list_all failed_outcome errs \<and> good_outcome x" if "(errs, x) \<in> set plan'" for errs x
    by (rule Cons.prems(6)) (use that plan in simp)
  have "length plan' = length cs" using Cons.prems(5) plan by simp
  from Cons.IH [OF s1(2,4,3) cs this plan_ok]
  obtain s' rows where "main_loop so st (length cs + fuel) (outcomes plan' @ unused) s1 = main_loop so st fuel unused s'"
    "running s'" "prep_ready s' K" "params_sets (exparams s') = map Some rest" "advanced st cs rows s1 s'"
    "list_all2 (\<lambda>(c, (errs, x)) row. records c (agg_entry (merge_results (fst x) (snd x))) row) (zip cs plan') rows"
    by blast
  then show ?case using s1(1,5) advanced_trans [OF s1(6)]
    by (intro exI [of _ s'] exI [of _ "row # rows"]) (simp add: plan outcomes_def)
qed

lemma main_loop_records:
  assumes "running s" and "params_sets (exparams s) = map Some cs" and "prep_ready s K"
    and "\<And>c. c \<in> set cs \<Longrightarrow> set (keys c) = K \<and> distinct (keys c)"
    and "length plan = length cs" and "\<And>errs x. (errs, x) \<in> set plan \<Longrightarrow> list_all failed_outcome errs \<and> good_outcome x"
    and "set_order so" and "length cs < fuel"
  shows "\<exists>s' rows. main_loop so st fuel (outcomes plan @ unused) s = (Some (Inr ()), s') \<and>
    params_sets (exparams s') = [] \<and> cls_entries (snd (data s')) = cls_entries (snd (data s)) @ rows \<and>
    list_all2 (\<lambda>(c, (errs, x)) row. records c (agg_entry (merge_results (fst x) (snd x))) row) (zip cs plan) rows \<and>
    (cs \<noteq> [] \<longrightarrow> (\<exists>csv sv. result_file s' = Some csv \<and> export_csv st True (data s') = Inr csv \<and>
      save_file s' = Some sv \<and> s_params_sets sv = []))"
proof -
  obtain n where n: "fuel = length cs + Suc n" using assms(8) less_imp_Suc_add by fastforce
  obtain s' rows where *: "main_loop so st fuel (outcomes plan @ unused) s = main_loop so st (Suc n) unused s'" "running s'"
    "params_sets (exparams s') = []" "advanced st cs rows s s'"
    "list_all2 (\<lambda>(c, (errs, x)) row. records c (agg_entry (merge_results (fst x) (snd x))) row) (zip cs plan) rows"
    using main_loop_prefix [OF assms(1) _ assms(3-7), of "[]" st "Suc n" unused] assms(2) unfolding n by auto
  have "next_config s' = (Inr None, s')"
    using *(2,3) by (simp add: running_def hready_def queue_ready_def next_config_def peek_params_def ensure_built_def)
  then have "main_loop so st fuel (outcomes plan @ unused) s = (Some (Inr ()), s')" by (simp add: *(1))
  moreover have "s_params_sets sv = []" if "save_state (exparams s') = Inr sv" for sv
    using that *(3) by (auto simp: save_state_def split: option.splits)
  ultimately show ?thesis using *(3-5) by (auto simp: advanced_def split: if_splits)
qed

text \<open>An experiment in which every configuration sooner or later gives good results, after any
  number of failed attempts, comes to its end.  It then has recorded exactly one row per
  configuration, in the order of the queue, with the parameters of that configuration and the
  results of its good attempt; nothing is left to run; and the files hold all rows and the state
  after the last configuration.\<close>

theorem experiment_records_all:
  assumes "running s" and "params_sets (exparams s) = map Some cs" and "prep_ready s K"
    and "\<And>c. c \<in> set cs \<Longrightarrow> set (keys c) = K \<and> distinct (keys c)"
    and "length plan = length cs" and "\<And>errs x. (errs, x) \<in> set plan \<Longrightarrow> list_all failed_outcome errs \<and> good_outcome x"
    and "set_order so" and "length cs < fuel"
  shows "\<exists>s' rows. main_loop so st fuel (outcomes plan @ unused) s = (Some (Inr ()), s') \<and>
    params_sets (exparams s') = [] \<and> cls_entries (snd (data s')) = cls_entries (snd (data s)) @ rows \<and>
    list_all2 (\<lambda>(c, (errs, x)) row. records c (agg_entry (merge_results (fst x) (snd x))) row) (zip cs plan) rows \<and>
    (cs \<noteq> [] \<longrightarrow> (\<exists>csv sv. result_file s' = Some csv \<and> export_csv st True (data s') = Inr csv \<and>
      save_file s' = Some sv \<and> s_params_sets sv = []))"
  by (rule main_loop_records [OF assms])

text \<open>A small experiment: one parameter with two values, and the outcomes of good and dead threads.\<close>

definition small_handler :: "int handler" where
  "small_handler = (blank_handler 1)\<lparr>started := True, parameter_names := [''n''], parameter_vals := [[1, 2]],
     params_sets := [Some [(''n'', 1)], Some [(''n'', 2)]], configs_left := Some 2, configs_popped := Some 0,
     total_configs := 2\<rparr>"

definition small_runner :: "int runner" where
  "small_runner = \<lparr>exparams = small_handler, data = data_manager ''NaN'' True [] ''param_'' dm_initial_class,
     evts = params_evts False, prepared = None, result_file = None, save_file = None, run_cntr = 0\<rparr>"

definition good_pair :: "agg \<times> agg" where
  "good_pair = ([(''hs_avg_scan_time_cycles'', Vals [''5'']), (''error'', Err None)], [(''error'', Err None)])"

definition late_pair :: "agg \<times> agg" where
  "late_pair = ([(''error'', Err (Some ''Timeout reached for starting rx''))], [(''error'', Err None)])"

lemma small_ready: "running small_runner" "prep_ready small_runner {''n''}"
  by (auto simp: running_def data_ok_def hready_def queue_ready_def small_runner_def small_handler_def
      blank_handler_def data_manager_def dm_initial_class_def prep_ready_def params_evts_def
      register_parameter_event_def new_event_manager_def)

lemma good_pair_merged: "merge_results (fst good_pair) (snd good_pair) = [(''hs_avg_scan_time_cycles'', Vals [''5''])]"
  by (simp add: merge_results_def dict_update_def good_pair_def)

lemma good_pair_ok: "good_outcome good_pair" "failed_outcome late_pair"
  using good_pair_merged
  by (simp_all add: good_outcome_def good_agg_def good_pair_def validate_results_def failed_outcome_def late_pair_def)

lemma small_sets: "params_sets (exparams small_runner) = map Some [[(''n'', 1)], [(''n'', 2)]]"
  by (simp add: small_runner_def small_handler_def)

theorem experiment_records_all_witness:
  "\<exists>s' rows. main_loop remdups int_str 3 (outcomes [([late_pair], good_pair), ([], good_pair)] @ []) small_runner =
      (Some (Inr ()), s') \<and>
    cls_entries (snd (data s')) = rows \<and> length rows = 2"
proof -
  have "\<exists>s' rows. main_loop remdups int_str 3 (outcomes [([late_pair], good_pair), ([], good_pair)] @ []) small_runner =
      (Some (Inr ()), s') \<and> params_sets (exparams s') = [] \<and>
    cls_entries (snd (data s')) = cls_entries (snd (data small_runner)) @ rows \<and>
    list_all2 (\<lambda>(c, (errs, x)) row. records c (agg_entry (merge_results (fst x) (snd x))) row)
      (zip [[(''n'', 1)], [(''n'', 2)]] [([late_pair], good_pair), ([], good_pair)]) rows \<and>
    ([[(''n'', 1)], [(''n'', 2 :: int)]] \<noteq> [] \<longrightarrow> (\<exists>csv sv. result_file s' = Some csv \<and> export_csv int_str True (data s') = Inr csv \<and>
      save_file s' = Some sv \<and> s_params_sets sv = []))"
    by (rule experiment_records_all [OF small_ready(1) small_sets small_ready(2) _ _ _ set_order_remdups])
      (use good_pair_ok in auto)
  then obtain s' rows where *: "main_loop remdups int_str 3 (outcomes [([late_pair], good_pair), ([], good_pair)] @ []) small_runner =
      (Some (Inr ()), s')" "cls_entries (snd (data s')) = cls_entries (snd (data small_runner)) @ rows"
    "list_all2 (\<lambda>(c, (errs, x)) row. records c (agg_entry (merge_results (fst x) (snd x))) row)
      (zip [[(''n'', 1)], [(''n'', 2)]] [([late_pair], good_pair), ([], good_pair)]) rows" by blast
  have "length rows = 2" using list_all2_lengthD [OF *(3)] by simp
  moreover have "cls_entries (snd (data small_runner)) = []"
    by (simp add: small_runner_def data_manager_def dm_initial_class_def)
  ultimately show ?thesis using * by auto
qed

text \<open>C17: results that are rejected as invalid are recorded all the same when they are complete.
  The message about them calls \<^verbatim>\<open>add_entry\<close> a second time: the attempt counts as failed and is
  repeated, but its row has been added to the data.\<close>

theorem invalid_result_recorded:
  assumes "running s" and "counted (exparams s)" and "good_agg r" and "good_agg t"
    and "\<not> validate_results (merge_results r t)" and "data s = (d, k)"
    and "entry_complete (learn_columns so True (agg_entry (merge_results r t)) d k) k (agg_entry (merge_results r t))"
  shows "\<exists>s' row. attempt so st params (r, t) s = (Inr False, s') \<and>
    cls_entries (snd (data s')) = cls_entries k @ [row]"
proof -
  let ?e = "agg_entry (merge_results r t) :: 'a entry"
  have "metrics_to_compute k = []" using assms(1,6) by (simp add: running_def data_ok_def)
  from add_entry_plain [OF agg_entry_wf [OF assms(3,4)] this refl, where so = so and upd = True and d = d
      and ps = "Some params" and force = False] assms(7)
  obtain d' row where add: "add_entry so ?e (Some params) False True (d, k) =
      (Inr True, (d', k\<lparr>cls_entries := cls_entries k @ [row]\<rparr>))" by auto
  have err: "map_of r ''error'' = Some (Err None)" "map_of t ''error'' = Some (Err None)"
    using assms(3,4) by (auto simp: good_agg_def)
  have "hready (exparams s)" using assms(1) by (simp add: running_def)
  then have "attempt so st params (r, t) s = report_invalid so ?e params s"
    using progress_ok [OF _ assms(2)] assms(5) err by (simp add: attempt_def agg_failed_eq Let_def)
  also have "\<dots> = (Inr False, s\<lparr>data := (d', k\<lparr>cls_entries := cls_entries k @ [row]\<rparr>)\<rparr>)"
    using add assms(6) by (simp add: report_invalid_def)
  finally show ?thesis by auto
qed

definition invalid_pair :: "agg \<times> agg" where
  "invalid_pair = ([(''thr'', Vals [''5'']), (''error'', Err None)], [(''error'', Err None)])"

theorem invalid_result_recorded_witness:
  "\<exists>s' row. attempt remdups int_str [(''n'', 1)] invalid_pair
      (small_runner\<lparr>exparams := small_handler\<lparr>configs_popped := Some 1\<rparr>\<rparr>) = (Inr False, s') \<and>
    cls_entries (snd (data s')) = [row]"
proof -
  let ?s = "small_runner\<lparr>exparams := small_handler\<lparr>configs_popped := Some 1\<rparr>\<rparr>"
  let ?r = "[(''thr'', Vals [''5'']), (''error'', Err None)]" and ?t = "[(''error'', Err None)]"
  obtain d k where dk: "data ?s = (d, k)" by fastforce
  have "running ?s" "counted (exparams ?s)"
    by (auto simp: running_def data_ok_def hready_def queue_ready_def small_runner_def small_handler_def
      blank_handler_def data_manager_def dm_initial_class_def counted_def)
  moreover have "good_agg ?r" "good_agg ?t" by (auto simp: good_agg_def)
  moreover have m: "merge_results ?r ?t = [(''thr'', Vals [''5''])]"
    by (simp add: merge_results_def dict_update_def)
  moreover have "\<not> validate_results (merge_results ?r ?t)" unfolding m by (simp add: validate_results_def)
  moreover have "entry_complete (learn_columns remdups True (agg_entry (merge_results ?r ?t)) d k) k (agg_entry (merge_results ?r ?t))"
    using dk unfolding m
    by (auto simp: entry_complete_def agg_entry_def learn_columns_def columns_def update_cols_def good_cells_def
        small_runner_def data_manager_def dm_initial_class_def)
  ultimately have "\<exists>s' row. attempt remdups int_str [(''n'', 1)] (?r, ?t) ?s = (Inr False, s') \<and>
      cls_entries (snd (data s')) = cls_entries k @ [row]"
    using dk by (intro invalid_result_recorded) auto
  moreover have "cls_entries k = []"
    using dk by (auto simp: small_runner_def data_manager_def dm_initial_class_def)
  ultimately show ?thesis by (simp add: invalid_pair_def)
qed

text \<open>A thread that dies before it stored its error stops the experiment with a
  \<open>KeyError\<close>.  The saved state is then that of the last recorded configuration, which loading
  puts back in front of the queue: nothing is lost, but a configuration whose row is already in the
  result file is run again.\<close>

theorem crash_repeats_recorded:
  assumes "running s" and "params_sets (exparams s) = Some c1 # Some c2 # rest" and "prep_ready s K"
    and "set (keys c1) = K" "set (keys c2) = K" "distinct (keys c1)" and "good_outcome x"
    and "map_of (fst y) ''error'' = None" and "set_order so"
  shows "\<exists>s' row sv h csv. main_loop so st (Suc (Suc fuel)) (x # y # unused) s = (Some (Inl KeyError), s') \<and>
    cls_entries (snd (data s')) = cls_entries (snd (data s)) @ [row] \<and>
    records c1 (agg_entry (merge_results (fst x) (snd x))) row \<and>
    result_file s' = Some csv \<and> export_csv st True (data s') = Inr csv \<and>
    save_file s' = Some sv \<and> load_state (Some sv) = Some h \<and> params_sets h = Some c1 # Some c2 # rest"
proof -
  obtain h1 where h1: "next_config s = (Inr (Some c1), s\<lparr>exparams := h1\<rparr>)" "hready h1" "counted h1"
    "params_sets h1 = Some c2 # rest" "curr_params h1 = Some c1"
    using hready_pop [of "exparams s" c1 "Some c2 # rest"] assms(1,2)
    by (auto simp: running_def next_config_def counted_def)
  let ?s1 = "s\<lparr>exparams := h1\<rparr>"
  obtain r where r: "process_parameters (evts ?s1) c1 (prepared ?s1) = Inr ((evts s)\<lparr>previous_params := Some c1\<rparr>, r)"
    using process_ready [of ?s1 K c1] assms(3,4) by (auto simp: prep_ready_def)
  let ?s2 = "?s1\<lparr>evts := (evts s)\<lparr>previous_params := Some c1\<rparr>, prepared := r\<rparr>"
  have run2: "running ?s2" "counted (exparams ?s2)" using assms(1) h1 by (auto simp: running_def)
  obtain s3 where s3: "until_valid so st c1 ([] @ x # y # unused) ?s2 = (Some (Inr (y # unused)), s3)" "recorded st c1 x ?s2 s3"
    using until_valid_good [of "[]", OF _ assms(7) run2 assms(6,9)] by auto
  have e3: "exparams s3 = h1" "evts s3 = (evts s)\<lparr>previous_params := Some c1\<rparr>"
    using s3(2) by (simp_all add: recorded_def)
  have prep3: "prep_ready s3 K" using assms(3,4) e3(2) by (auto simp: prep_ready_def)
  obtain h4 where h4: "next_config s3 = (Inr (Some c2), s3\<lparr>exparams := h4\<rparr>)" "hready h4" "counted h4"
    using next_config_ready [of s3 c2 rest] h1 e3(1) by auto
  let ?s4 = "s3\<lparr>exparams := h4\<rparr>"
  obtain r' where r': "process_parameters (evts ?s4) c2 (prepared ?s4) = Inr ((evts s3)\<lparr>previous_params := Some c2\<rparr>, r')"
    using process_ready [of ?s4 K c2] prep3 assms(5) by (auto simp: prep_ready_def)
  let ?s5 = "?s4\<lparr>evts := (evts s3)\<lparr>previous_params := Some c2\<rparr>, prepared := r'\<rparr>"
  have "attempt so st c2 y ?s5 = (Inl KeyError, ?s5)"
    using progress_ok [OF h4(2,3)] assms(8)
    by (cases y) (simp add: attempt_def agg_failed_def dict_get_def)
  then have main: "main_loop so st (Suc (Suc fuel)) (x # y # unused) s = (Some (Inl KeyError), ?s5)"
    using h1(1) r s3(1) h4(1) r' by simp
  obtain row csv sv where rec: "cls_entries (snd (data s3)) = cls_entries (snd (data s)) @ [row]"
    "records c1 (agg_entry (merge_results (fst x) (snd x))) row" "result_file s3 = Some csv"
    "export_csv st True (data s3) = Inr csv" "save_file s3 = Some sv" "save_state h1 = Inr sv"
    using s3(2) by (auto simp: recorded_def)
  obtain h where "load_state (Some sv) = Some h" "params_sets h = Some c1 # Some c2 # rest"
    using rec(6) h1(4,5) by (auto simp: save_state_def load_state_def split: option.splits)
  then show ?thesis using main rec by auto
qed

theorem crash_repeats_recorded_witness:
  "\<exists>s' row sv h csv. main_loop remdups int_str 2 [good_pair, ([], [])] small_runner = (Some (Inl KeyError), s') \<and>
    cls_entries (snd (data s')) = [row] \<and> save_file s' = Some sv \<and> load_state (Some sv) = Some h \<and>
    params_sets h = params_sets small_handler"
proof -
  have "params_sets (exparams small_runner) = Some [(''n'', 1)] # Some [(''n'', 2)] # []"
    by (simp add: small_runner_def small_handler_def)
  from crash_repeats_recorded [OF small_ready(1) this small_ready(2) _ _ _ good_pair_ok(1) _ set_order_remdups,
      of "([], [])" int_str 0 "[]"]
  show ?thesis
    by (auto simp: numeral_2_eq_2 small_runner_def data_manager_def dm_initial_class_def small_handler_def)
qed

end
