(* ===== verification/Rule_Lib.thy ===== *)
theory Rule_Lib
  imports Py_Re
begin

text \<open>
  The rule library data/rule_lib.py: options of Suricata rules, contents as regular expressions,
  pattern files for the RXP compiler and the filter that keeps the rules it can compile.

  Rules are parsed by the package \<^verbatim>\<open>suricataparser\<close>, which is not part of the sources: its
  operations are the fields of the record \<open>suricata\<close>, an argument of every definition that uses
  them, and what the code relies on is stated by \<open>rule_laws\<close>.  The lines of a file are an
  argument as well, with their line breaks, as \<^verbatim>\<open>readlines\<close> gives them.
\<close>

section \<open>Rules\<close>

text \<open>The value of an option: absent, a string, or what the code itself passes to
  \<^verbatim>\<open>add_option\<close>, a number or a whole option.\<close>

datatype oval = VNone | VStr string | VInt int | VOpt string oval

type_synonym opt = "string \<times> oval"

record 'r suricata =
  parse_rule :: "string \<Rightarrow> 'r res"
  options :: "'r \<Rightarrow> opt list"
  rebuild :: "opt list \<Rightarrow> 'r \<Rightarrow> 'r"
  get_option :: "string \<Rightarrow> 'r \<Rightarrow> opt list"
  pop_option :: "string \<Rightarrow> 'r \<Rightarrow> opt list \<times> 'r"
  add_option :: "string \<Rightarrow> oval \<Rightarrow> 'r \<Rightarrow> 'r"
  header :: "'r \<Rightarrow> string"
  set_header :: "string \<Rightarrow> 'r \<Rightarrow> 'r"
  build_rule :: "'r \<Rightarrow> string"
  rule_str :: "'r \<Rightarrow> string"
  new_rule :: "string \<Rightarrow> string \<Rightarrow> 'r"

text \<open>What the package documents: an option is found by its name, the options of a rebuilt rule
  are the given ones, and removing or adding options leaves the others and the header alone.\<close>

definition rule_laws :: "'r suricata \<Rightarrow> bool" where
  "rule_laws S \<longleftrightarrow>
     (\<forall>n r. get_option S n r = filter (\<lambda>p. fst p = n) (options S r)) \<and>
     (\<forall>os r. options S (rebuild S os r) = os \<and> header S (rebuild S os r) = header S r) \<and>
     (\<forall>n r. fst (pop_option S n r) = filter (\<lambda>p. fst p = n) (options S r) \<and>
        options S (snd (pop_option S n r)) = filter (\<lambda>p. fst p \<noteq> n) (options S r) \<and>
        header S (snd (pop_option S n r)) = header S r) \<and>
     (\<forall>n v r. set (options S (add_option S n v r)) = insert (n, v) (set (options S r)) \<and>
        header S (add_option S n v r) = header S r) \<and>
     (\<forall>h r. header S (set_header S h r) = h \<and> options S (set_header S h r) = options S r)"

text \<open>A method of \<^verbatim>\<open>str\<close> called on a value that is no string.\<close>

definition sval :: "oval \<Rightarrow> string res" where
  "sval v = (case v of VStr s \<Rightarrow> Inr s | _ \<Rightarrow> Inl AttributeError)"

definition content_modifiers :: "string list" where
  "content_modifiers = [''nocase'', ''depth'', ''startswith'', ''endswith'', ''offset'', ''distance'',
     ''within'', ''rawbytes'', ''isdataat'', ''bsize'', ''dsize'', ''byte_test'', ''byte_math'',
     ''byte_jump'', ''byte_extract'', ''rpc'', ''replace'', ''pcre'', ''fast_pattern'']"

definition filter_options :: "'r suricata \<Rightarrow> (opt \<Rightarrow> bool) \<Rightarrow> 'r \<Rightarrow> 'r" where
  "filter_options S f r = rebuild S (filter f (options S r)) r"

definition transform_options ::
  "'r suricata \<Rightarrow> string \<Rightarrow> (oval \<Rightarrow> oval res) \<Rightarrow> 'r \<Rightarrow> 'r res" where
  "transform_options S name f r =
     res_bind (res_map (\<lambda>(n, v). if n = name then res_bind (f v) (\<lambda>v'. Inr (n, v')) else Inr (n, v))
       (options S r)) (\<lambda>os. Inr (rebuild S os r))"

definition replace_option :: "'r suricata \<Rightarrow> string \<Rightarrow> string \<Rightarrow> 'r \<Rightarrow> 'r" where
  "replace_option S name1 name2 r =
     rebuild S (map (\<lambda>(n, v). (if n = name1 then name2 else n, v)) (options S r)) r"

section \<open>Lines\<close>

definition filter_whitespace :: "string list \<Rightarrow> string list" where
  "filter_whitespace lines =
     map (replace_str [CHR 0x0A] [])
       (filter (\<lambda>l. strip l \<noteq> [CHR 0x0A] \<and> length (strip l) \<noteq> 0) lines)"

text \<open>The rules of a file: stripped lines that are neither blank nor comments.\<close>

definition rule_lines :: "string list \<Rightarrow> string list" where
  "rule_lines lines =
     map strip (filter (\<lambda>l. \<not> startswith ''#'' (strip l)) (filter_whitespace lines))"

text \<open>A source of lines is a list, or the lines of a file.\<close>

datatype line_source = LList "string list" | LFile "string list"

definition provide_lines :: "line_source \<Rightarrow> bool \<Rightarrow> string list" where
  "provide_lines src clean_first =
     (case src of LList ls \<Rightarrow> ls | LFile ls \<Rightarrow> if clean_first then rule_lines ls else ls)"

section \<open>Arguments and quotes\<close>

text \<open>The result may be \<^verbatim>\<open>None\<close>.\<close>

definition bool_parse :: "string \<Rightarrow> bool option res" where
  "bool_parse s =
     (let lc = py_lower s
      in if lc = ''true'' then Inr (Some True)
         else if lc = ''false'' then Inr (Some False)
         else res_bind (py_int lc) (\<lambda>i.
           Inr (if 0 < i then Some True else if i = 0 then Some True else None)))"

definition unquote :: "string \<Rightarrow> string" where
  "unquote s =
     (if length s < 2 then s
      else if hd s = CHR 0x22 \<and> last s = CHR 0x22 then butlast (tl s)
      else s)"

definition unquote_val :: "oval \<Rightarrow> string res" where
  "unquote_val v = (case v of VStr s \<Rightarrow> Inr (unquote s) | _ \<Rightarrow> Inl TypeError)"

section \<open>Contents as regular expressions\<close>

fun pairs :: "string \<Rightarrow> string list" where
  "pairs [] = []"
| "pairs [c] = [[c]]"
| "pairs (c # d # s) = [c, d] # pairs s"

definition regex_special :: "char \<Rightarrow> bool" where
  "regex_special c \<longleftrightarrow> c \<in> set '',.^$*+?{}[]|()/'' \<or> c = CHR 0x5C"

definition escape_text :: "string \<Rightarrow> string" where
  "escape_text part = concat (map (\<lambda>c. if regex_special c then [CHR 0x5C, c] else [c]) part)"

definition escape_hex :: "string \<Rightarrow> string" where
  "escape_hex part = concat (map (\<lambda>p. CHR 0x5C # CHR ''x'' # p) (pairs (replace_str '' '' [] part)))"

fun regex_parts :: "bool \<Rightarrow> string list \<Rightarrow> string" where
  "regex_parts in_hex_block [] = []"
| "regex_parts in_hex_block (part # parts) =
     (if in_hex_block then escape_hex part else escape_text part) @ regex_parts (\<not> in_hex_block) parts"

definition suricata_content_to_regex :: "string \<Rightarrow> string" where
  "suricata_content_to_regex content = regex_parts False (split_char (CHR ''|'') content)"

definition extract_content_strings :: "'r suricata \<Rightarrow> string list \<Rightarrow> string list res" where
  "extract_content_strings S lines =
     res_bind (res_map (\<lambda>line. res_bind (parse_rule S line) (\<lambda>rule.
         res_map (\<lambda>(n, v). res_bind (sval v) (\<lambda>s.
             Inr (suricata_content_to_regex (strip_chars [CHR 0x22] s))))
           (filter (\<lambda>p. fst p = ''content'') (options S rule))))
       (filter (\<lambda>l. l \<noteq> [] \<and> \<not> startswith ''#'' l) (map strip lines)))
     (\<lambda>r. Inr (concat r))"

definition numbered_line :: "nat \<Rightarrow> string \<Rightarrow> string" where
  "numbered_line i p = nat_str i @ '', '' @ p"

definition extract_pcres :: "'r suricata \<Rightarrow> string list \<Rightarrow> bool \<Rightarrow> string list res" where
  "extract_pcres S lines rxpc_compatible =
     res_bind (res_map (\<lambda>l. res_bind (parse_rule S l) (\<lambda>r.
         res_map (\<lambda>(n, v). unquote_val v) (get_option S ''pcre'' r))) (filter_whitespace (rule_lines lines)))
     (\<lambda>r. Inr (if rxpc_compatible then map (\<lambda>(i, p). numbered_line i p) (enumerate 1 (concat r))
               else concat r))"

definition to_rxpc ::
  "'r suricata \<Rightarrow> (string list \<Rightarrow> string list) \<Rightarrow> string list \<Rightarrow> bool \<Rightarrow> bool \<Rightarrow> bool \<Rightarrow> string list res" where
  "to_rxpc S so lines uniqify only_content only_pcre =
     res_bind (if only_pcre then Inr [] else extract_content_strings S lines) (\<lambda>contents.
     res_bind (if only_content then Inr [] else extract_pcres S lines False) (\<lambda>pcres.
       let patterns = (if uniqify then so (pcres @ contents) else pcres @ contents)
       in Inr (map (\<lambda>(i, p). numbered_line (i + 1) p) (enumerate 0 patterns))))"

section \<open>The filter of the RXP compiler\<close>

definition rxcp_modifiers :: "string list" where
  "rxcp_modifiers = [''/i'', ''/m'', ''/s'', ''/x'']"

record rxpc_state =
  next_id :: nat
  in_rgxs :: "string list"
  id2sid :: "(nat \<times> oval) list"
  excluded_sids :: "oval list"
  initial_sids :: "oval list"

definition add_rgx :: "oval \<Rightarrow> string \<Rightarrow> rxpc_state \<Rightarrow> rxpc_state" where
  "add_rgx sid p st =
     st\<lparr>in_rgxs := in_rgxs st @ [numbered_line (next_id st) p @ [CHR 0x0A]],
        id2sid := id2sid st @ [(next_id st, sid)], next_id := next_id st + 1\<rparr>"

definition exclude :: "oval \<Rightarrow> rxpc_state \<Rightarrow> rxpc_state" where
  "exclude sid st = st\<lparr>excluded_sids := sid # excluded_sids st\<rparr>"

fun literal_loop :: "oval \<Rightarrow> opt list \<Rightarrow> rxpc_state \<Rightarrow> rxpc_state res" where
  "literal_loop sid [] st = Inr st"
| "literal_loop sid ((n, v) # os) st =
     res_bind (sval v) (\<lambda>s.
       if startswith ''!'' s then Inr (exclude sid st)
       else literal_loop sid os (add_rgx sid (suricata_content_to_regex (unquote s)) st))"

fun pcre_loop :: "oval \<Rightarrow> opt list \<Rightarrow> rxpc_state \<Rightarrow> rxpc_state res" where
  "pcre_loop sid [] st = Inr st"
| "pcre_loop sid ((n, v) # os) st =
     res_bind (unquote_val v) (\<lambda>s.
       if \<not> list_ex (\<lambda>m. endswith m (strip s)) rxcp_modifiers then Inr (exclude sid st)
       else pcre_loop sid os (add_rgx sid s st))"

definition rule_sid :: "'r suricata \<Rightarrow> 'r \<Rightarrow> oval res" where
  "rule_sid S r = (case get_option S ''sid'' r of [] \<Rightarrow> Inl IndexError | (n, v) # _ \<Rightarrow> Inr v)"

definition rxpc_rule :: "'r suricata \<Rightarrow> bool \<Rightarrow> bool \<Rightarrow> string \<Rightarrow> rxpc_state \<Rightarrow> rxpc_state res" where
  "rxpc_rule S include_pcres include_literals l st =
     res_bind (parse_rule S l) (\<lambda>r.
     res_bind (rule_sid S r) (\<lambda>sid.
     let st0 = st\<lparr>initial_sids := sid # initial_sids st\<rparr>
     in res_bind (if include_literals then literal_loop sid (get_option S ''content'' r) st0 else Inr st0) (\<lambda>st1.
        if include_pcres then pcre_loop sid (get_option S ''pcre'' r) st1 else Inr st1)))"

fun rxpc_rules :: "'r suricata \<Rightarrow> bool \<Rightarrow> bool \<Rightarrow> nat \<Rightarrow> string list \<Rightarrow> rxpc_state \<Rightarrow> rxpc_state res" where
  "rxpc_rules S ip il max_rules [] st = Inr st"
| "rxpc_rules S ip il max_rules (l # ls) st =
     (if max_rules \<le> next_id st then Inr st
      else res_bind (rxpc_rule S ip il l st) (rxpc_rules S ip il max_rules ls))"

definition rgx_rule_idx :: re where
  "rgx_rule_idx = RSeq (RGroup 1 (RAlt (rlit ''Rule_index'') (rlit ''rule_id'')))
     (RSeq (rlit '':'') (RSeq (RStar (RClass py_isspace)) (RGroup 2 (rplus (RClass py_isdigit)))))"

text \<open>The indices named by the log of the compiler.\<close>

definition uncompiled_of :: "string list \<Rightarrow> nat list res" where
  "uncompiled_of lines =
     res_bind (res_map (\<lambda>l. case re_search rgx_rule_idx l of
         None \<Rightarrow> Inr []
       | Some (_, _, _, g) \<Rightarrow> res_bind (py_int (group g 2)) (\<lambda>i. Inr [nat i])) lines)
     (\<lambda>r. Inr (concat r))"

definition keep_line :: "'r suricata \<Rightarrow> oval list \<Rightarrow> oval list \<Rightarrow> string \<Rightarrow> bool res" where
  "keep_line S excluded initial l =
     res_bind (parse_rule S l) (\<lambda>r. res_bind (rule_sid S r) (\<lambda>sid.
       Inr (sid \<notin> set excluded \<and> sid \<in> set initial)))"

text \<open>
  The whole filter: the pattern file handed to the compiler and the rules that are kept.
  \<open>uncompiled_log\<close> is what the compiler logs for a pattern file.
\<close>

definition filter_rxpc ::
  "'r suricata \<Rightarrow> (string list \<Rightarrow> string list) \<Rightarrow> string list \<Rightarrow> bool \<Rightarrow> bool \<Rightarrow> nat
     \<Rightarrow> (string list \<times> string list) res" where
  "filter_rxpc S uncompiled_log db_in include_pcres include_literals max_rules =
     (let db_in_lines = rule_lines db_in
      in res_bind (rxpc_rules S include_pcres include_literals max_rules db_in_lines
           \<lparr>next_id = 1, in_rgxs = [], id2sid = [], excluded_sids = [], initial_sids = []\<rparr>) (\<lambda>st.
         res_bind (uncompiled_of (uncompiled_log (in_rgxs st))) (\<lambda>bad.
         res_bind (res_map (\<lambda>i. case map_of (id2sid st) i of None \<Rightarrow> Inl KeyError | Some s \<Rightarrow> Inr s) bad) (\<lambda>bad_sids.
         res_bind (res_map (\<lambda>l. res_bind (keep_line S (bad_sids @ excluded_sids st) (initial_sids st) l)
             (\<lambda>b. Inr (if b then [l @ [CHR 0x0A]] else []))) db_in_lines) (\<lambda>out.
           Inr (in_rgxs st, concat out))))))"

definition rxcp_get_n_uncompiled :: "string \<Rightarrow> string list \<Rightarrow> int res" where
  "rxcp_get_n_uncompiled rof2_name lines =
     (if lines = [] then Inl IndexError
      else case re_search (RSeq (rlit ''Total number of uncompiled rules,'')
             (RGroup 1 (rplus (RClass py_isdigit)))) (last lines) of
          Some (_, _, _, g) \<Rightarrow> py_int (group g 1)
        | None \<Rightarrow> Inl (RuntimeError (''Cannot parse '' @ rof2_name @ ''_uncompiled_rules_summary.csv'')))"

definition write_to_file_or_print :: "string option \<Rightarrow> string \<Rightarrow> string option \<times> string option" where
  "write_to_file_or_print out message =
     (case out of
        Some (c # f) \<Rightarrow> (Some (message @ [CHR 0x0A]), None)
      | _ \<Rightarrow> (None, Some message))"

section \<open>Contents and their regular expressions\<close>

text \<open>
  A content of a rule as Suricata reads it: text and, between bars, bytes in hexadecimal, in upper or
  lower case and with blanks anywhere.  In the text a backslash escapes a quote, a semicolon, a colon
  or a backslash, and is itself no part of the content.  \<open>content_bytes\<close> is what the content
  stands for, \<open>written_bytes\<close> the same with the text as it is written, backslashes included.
\<close>

definition hex_val :: "char \<Rightarrow> nat" where
  "hex_val c = (let n = of_char c in if n < 58 then n - 48 else if n < 71 then n - 55 else n - 87)"

definition is_hex :: "char \<Rightarrow> bool" where
  "is_hex c \<longleftrightarrow> c \<in> set ''0123456789ABCDEFabcdef''"

fun hex_pairs :: "string \<Rightarrow> string option" where
  "hex_pairs [] = Some []"
| "hex_pairs [c] = None"
| "hex_pairs (c # d # s) =
     (if is_hex c \<and> is_hex d then map_option (\<lambda>t. char_of (16 * hex_val c + hex_val d) # t) (hex_pairs s) else None)"

definition hex_bytes :: "string \<Rightarrow> string option" where
  "hex_bytes s = hex_pairs (filter (\<lambda>c. c \<noteq> CHR '' '') s)"

fun text_bytes :: "string \<Rightarrow> string option" where
  "text_bytes [] = Some []"
| "text_bytes (c # s) =
     (if c = CHR 0x5C then
        (case s of
           [] \<Rightarrow> None
         | d # t \<Rightarrow>
             if d \<in> {CHR 0x22, CHR '';'', CHR '':'', CHR 0x5C} then map_option (\<lambda>r. d # r) (text_bytes t) else None)
      else map_option (\<lambda>r. c # r) (text_bytes s))"

text \<open>Text and hexadecimal alternate, and the content ends with text, which may be empty.\<close>

fun decode :: "(string \<Rightarrow> string option) \<Rightarrow> bool \<Rightarrow> string list \<Rightarrow> string option" where
  "decode txt in_hex [] = (if in_hex then Some [] else None)"
| "decode txt in_hex (p # ps) =
     (case (if in_hex then hex_bytes p else txt p) of
        None \<Rightarrow> None
      | Some b \<Rightarrow> map_option (\<lambda>r. b @ r) (decode txt (\<not> in_hex) ps))"

definition content_bytes :: "string \<Rightarrow> string option" where
  "content_bytes content = decode text_bytes False (split_char (CHR ''|'') content)"

definition written_bytes :: "string \<Rightarrow> string option" where
  "written_bytes content = decode Some False (split_char (CHR ''|'') content)"

text \<open>The number of escapes in the text.\<close>

fun text_escapes :: "string \<Rightarrow> nat" where
  "text_escapes [] = 0"
| "text_escapes (c # s) =
     (if c = CHR 0x5C then (case s of [] \<Rightarrow> 1 | d # t \<Rightarrow> Suc (text_escapes t)) else text_escapes s)"

fun escapes :: "bool \<Rightarrow> string list \<Rightarrow> nat" where
  "escapes in_hex [] = 0"
| "escapes in_hex (p # ps) = (if in_hex then 0 else text_escapes p) + escapes (\<not> in_hex) ps"

definition content_escapes :: "string \<Rightarrow> nat" where
  "content_escapes content = escapes False (split_char (CHR ''|'') content)"

text \<open>The characters that a regular expression of escapes and literal characters matches.  None of its
  characters may have another meaning: outside an escape that goes for the operators and for the
  slash that delimits the expression, after a backslash for letters, digits and the underscore, of
  which only the hexadecimal escape is read.\<close>

definition regex_operator :: "char \<Rightarrow> bool" where
  "regex_operator c \<longleftrightarrow> c \<in> set ''.^$*+?{}[]|()/'' \<or> c = CHR 0x5C"

definition word_char :: "char \<Rightarrow> bool" where
  "word_char c \<longleftrightarrow>
     c \<in> set ''abcdefghijklmnopqrstuvwxyzABCDEFGHIJKLMNOPQRSTUVWXYZ0123456789_''"

fun regex_chars :: "string \<Rightarrow> string option" where
  "regex_chars [] = Some []"
| "regex_chars (c # s) =
     (if c = CHR 0x5C then
        (case s of
           [] \<Rightarrow> None
         | d # t \<Rightarrow>
             if d = CHR ''x'' then
               (case t of
                  a # b # u \<Rightarrow>
                    if is_hex a \<and> is_hex b
                    then map_option (\<lambda>r. char_of (16 * hex_val a + hex_val b) # r) (regex_chars u) else None
                | _ \<Rightarrow> None)
             else if word_char d then None
             else map_option (\<lambda>r. d # r) (regex_chars t))
      else if regex_operator c then None
      else map_option (\<lambda>r. c # r) (regex_chars s))"

lemma regex_special_chars:
  "regex_special c \<Longrightarrow> c \<noteq> CHR ''x'' \<and> \<not> word_char c" "\<not> regex_special c \<Longrightarrow> \<not> regex_operator c"
  by (auto simp: regex_special_def regex_operator_def word_char_def)

lemma regex_chars_text: "regex_chars (escape_text s @ r) = map_option (\<lambda>t. s @ t) (regex_chars r)"
proof (induction s)
  case (Cons c s)
  have "c = CHR 0x5C \<Longrightarrow> regex_special c" by (simp add: regex_special_def)
  then show ?case
    using Cons regex_special_chars [of c] by (auto simp: escape_text_def option.map_comp comp_def)
qed (simp add: escape_text_def option.map_ident)

lemma replace_char_away: "replace_str [c] [] s = filter (\<lambda>x. x \<noteq> c) s"
proof -
  have aux: "join [] (split_aux [c] acc s) = rev acc @ filter (\<lambda>x. x \<noteq> c) s" for acc
  proof (induction s arbitrary: acc)
    case (Cons x s)
    have ne: "split_aux [c] b s \<noteq> []" for b
      by (induction s arbitrary: b) auto
    show ?case using Cons ne by (simp add: join_Cons)
  qed simp
  show ?thesis using aux [of "[]"] by (simp add: replace_str_def split_on_def)
qed

lemma regex_chars_hex: "hex_bytes p = Some b \<Longrightarrow> regex_chars (escape_hex p @ r) = map_option (\<lambda>t. b @ t) (regex_chars r)"
proof -
  have "hex_pairs s = Some b \<Longrightarrow>
      regex_chars (concat (map (\<lambda>p. CHR 0x5C # CHR ''x'' # p) (pairs s)) @ r) = map_option (\<lambda>t. b @ t) (regex_chars r)" for s
    by (induction s arbitrary: b rule: hex_pairs.induct; cases "regex_chars r") (auto split: if_split_asm)
  then show "hex_bytes p = Some b \<Longrightarrow> ?thesis"
    by (simp add: hex_bytes_def escape_hex_def replace_char_away)
qed

lemma regex_chars_parts: "decode Some in_hex ps = Some ws \<Longrightarrow> regex_chars (regex_parts in_hex ps) = Some ws"
  by (induction in_hex ps arbitrary: ws rule: regex_parts.induct)
    (auto simp: regex_chars_text regex_chars_hex split: if_split_asm option.splits)

lemma text_bytes_escape:
  "text_bytes (CHR 0x5C # s) = Some b \<Longrightarrow> \<exists>d t r. s = d # t \<and> text_bytes t = Some r \<and> b = d # r"
  by (cases s) (simp_all split: if_split_asm, blast)

lemma text_bytes_plain: "c \<noteq> CHR 0x5C \<Longrightarrow> text_bytes (c # s) = map_option (\<lambda>r. c # r) (text_bytes s)"
  by simp

lemma text_bytes_written:
  "text_bytes s = Some b \<Longrightarrow> length s = length b + text_escapes s \<and> (text_escapes s = 0 \<longrightarrow> b = s)"
proof (induction "length s" arbitrary: s b rule: less_induct)
  case less
  show ?case
  proof (cases s)
    case Nil
    then show ?thesis using less.prems by simp
  next
    case (Cons c u)
    show ?thesis
    proof (cases "c = CHR 0x5C")
      case True
      then obtain d t r where t: "u = d # t" "text_bytes t = Some r" "b = d # r"
        using text_bytes_escape less.prems Cons by blast
      have "length t = length r + text_escapes t" using less.hyps [OF _ t(2)] Cons t(1) by simp
      then show ?thesis using True Cons t(1,3) by simp
    next
      case False
      then obtain r where r: "text_bytes u = Some r" "b = c # r" using less.prems Cons text_bytes_plain by auto
      then show ?thesis using less.hyps [OF _ r(1)] False Cons by simp
    qed
  qed
qed

lemma decode_Cons:
  "decode txt in_hex (p # ps) = Some ws \<Longrightarrow>
    \<exists>b r. (if in_hex then hex_bytes p else txt p) = Some b \<and> decode txt (\<not> in_hex) ps = Some r \<and> ws = b @ r"
  by (cases "if in_hex then hex_bytes p else txt p") auto

lemma decode_written:
  "decode text_bytes in_hex ps = Some bs \<Longrightarrow>
    \<exists>ws. decode Some in_hex ps = Some ws \<and> length ws = length bs + escapes in_hex ps \<and>
      (escapes in_hex ps = 0 \<longrightarrow> ws = bs)"
proof (induction ps arbitrary: in_hex bs)
  case Nil
  then show ?case by (cases in_hex) simp_all
next
  case (Cons p ps)
  obtain b r where b: "(if in_hex then hex_bytes p else text_bytes p) = Some b" "decode text_bytes (\<not> in_hex) ps = Some r"
    "bs = b @ r" using decode_Cons [OF Cons.prems] by blast
  obtain ws where ws: "decode Some (\<not> in_hex) ps = Some ws" "length ws = length r + escapes (\<not> in_hex) ps"
    "escapes (\<not> in_hex) ps = 0 \<longrightarrow> ws = r" using Cons.IH [OF b(2)] by (elim exE conjE)
  show ?case
  proof (cases in_hex)
    case True
    then have "decode Some in_hex (p # ps) = Some (b @ ws)" using b(1) ws(1) by simp
    then show ?thesis using True b(3) ws(2,3) by simp
  next
    case False
    then have p: "text_bytes p = Some b" using b(1) by simp
    have "decode Some in_hex (p # ps) = Some (p @ ws)" using False ws(1) by simp
    then show ?thesis using False b(3) ws(2,3) text_bytes_written [OF p] by simp
  qed
qed

text \<open>C18: For every content that Suricata can read, the regular expression made from it consists of
  escapes and literal characters only, and matches exactly one sequence of bytes: the content as it is
  written, with its text taken literally and its hexadecimal blocks as the bytes they stand for.  The
  escapes of Suricata are not undone: the sequence is longer than the bytes of the content by one
  backslash for each escape in its text, and is the bytes of the content exactly when there is none.\<close>

theorem content_regex_faithful:
  assumes "content_bytes content = Some bs"
  shows "\<exists>ws. regex_chars (suricata_content_to_regex content) = Some ws \<and> written_bytes content = Some ws \<and>
    length ws = length bs + content_escapes content \<and> (ws = bs \<longleftrightarrow> content_escapes content = 0)"
proof -
  obtain ws where ws: "decode Some False (split_char (CHR ''|'') content) = Some ws"
    "length ws = length bs + content_escapes content" "content_escapes content = 0 \<longrightarrow> ws = bs"
    using decode_written assms unfolding content_bytes_def content_escapes_def by blast
  then have "ws = bs \<longleftrightarrow> content_escapes content = 0" by auto
  then show ?thesis
    using ws regex_chars_parts [OF ws(1)] by (simp add: suricata_content_to_regex_def written_bytes_def)
qed

text \<open>A content with two blocks of bytes, and one with an escaped colon as in working_set.rules.\<close>

theorem content_regex_faithful_witness:
  "regex_chars (suricata_content_to_regex ''TO|3a| a.b|0D 0A|'') = Some (''TO: a.b'' @ [CHR 0x0D, CHR 0x0A]) \<and>
   content_bytes (''FROM'' @ [CHR 0x5C] @ '': EgySpy'') = Some ''FROM: EgySpy'' \<and>
   regex_chars (suricata_content_to_regex (''FROM'' @ [CHR 0x5C] @ '': EgySpy'')) = Some (''FROM'' @ [CHR 0x5C] @ '': EgySpy'')"
proof -
  let ?c = "''TO|3a| a.b|0D 0A|''" and ?d = "''FROM'' @ [CHR 0x5C] @ '': EgySpy''"
  have c: "content_bytes ?c = Some (''TO: a.b'' @ [CHR 0x0D, CHR 0x0A])" "content_escapes ?c = 0" by code_simp+
  have d: "content_bytes ?d = Some ''FROM: EgySpy''" "written_bytes ?d = Some ?d" by code_simp+
  show ?thesis using content_regex_faithful [OF c(1)] content_regex_faithful [OF d(1)] c(2) d by simp
qed

text \<open>The parser of Boolean arguments answers \<^verbatim>\<open>False\<close> to the word \<^verbatim>\<open>false\<close> only.  Every
  numeral, zero included, is \<^verbatim>\<open>True\<close> or, when negative, \<^verbatim>\<open>None\<close>.\<close>

theorem bool_parse_false_only:
  "(bool_parse s = Inr (Some False) \<longleftrightarrow> py_lower s = ''false'') \<and>
   (\<forall>i. py_lower s \<notin> {''true'', ''false''} \<longrightarrow> py_int (py_lower s) = Inr i \<longrightarrow>
     bool_parse s = Inr (if i < 0 then None else Some True))"
  by (cases "py_int (py_lower s)") (auto simp: bool_parse_def Let_def)

theorem bool_parse_false_only_witness: "bool_parse ''0'' = Inr (Some True)"
proof -
  have "py_lower ''0'' = ''0''" "py_int ''0'' = Inr 0" by code_simp+
  then show ?thesis using bool_parse_false_only [of "''0''"] by simp
qed

section \<open>What the compiler filter keeps\<close>

fun oval_str :: "oval \<Rightarrow> string" where
  "oval_str (VStr s) = s"
| "oval_str _ = []"

definition opt_strs :: "opt list \<Rightarrow> string list" where
  "opt_strs os = map (\<lambda>(n, v). oval_str v) os"

definition str_opts :: "opt list \<Rightarrow> bool" where
  "str_opts os \<longleftrightarrow> (\<forall>(n, v) \<in> set os. \<exists>s. v = VStr s)"

definition negative :: "string \<Rightarrow> bool" where
  "negative s \<longleftrightarrow> startswith ''!'' s"

definition rxp_flagged :: "string \<Rightarrow> bool" where
  "rxp_flagged s \<longleftrightarrow> list_ex (\<lambda>m. endswith m (strip (unquote s))) rxcp_modifiers"

definition add_rgxs :: "oval \<Rightarrow> string list \<Rightarrow> rxpc_state \<Rightarrow> rxpc_state" where
  "add_rgxs sid ps st = fold (add_rgx sid) ps st"

lemma literal_loop_spec:
  "str_opts os \<Longrightarrow> literal_loop sid os st =
    Inr ((if list_ex negative (opt_strs os) then exclude sid else id)
      (add_rgxs sid (map (\<lambda>s. suricata_content_to_regex (unquote s))
        (takeWhile (\<lambda>s. \<not> negative s) (opt_strs os))) st))"
  by (induction sid os st rule: literal_loop.induct)
    (auto simp: str_opts_def opt_strs_def sval_def negative_def add_rgxs_def)

lemma pcre_loop_spec:
  "str_opts os \<Longrightarrow> pcre_loop sid os st =
    Inr ((if list_all rxp_flagged (opt_strs os) then id else exclude sid)
      (add_rgxs sid (map unquote (takeWhile rxp_flagged (opt_strs os))) st))"
  by (induction sid os st rule: pcre_loop.induct)
    (auto simp: str_opts_def opt_strs_def unquote_val_def rxp_flagged_def add_rgxs_def)

lemma add_rgxs_fields:
  "next_id (add_rgxs sid ps st) = next_id st + length ps"
  "in_rgxs (add_rgxs sid ps st) = in_rgxs st @ map (\<lambda>(j, p). numbered_line j p @ [CHR 0x0A]) (enumerate (next_id st) ps)"
  "id2sid (add_rgxs sid ps st) = id2sid st @ map (\<lambda>j. (j, sid)) [next_id st ..< next_id st + length ps]"
  "excluded_sids (add_rgxs sid ps st) = excluded_sids st" "initial_sids (add_rgxs sid ps st) = initial_sids st"
proof (induction ps arbitrary: st)
  case (Cons p ps)
  {
    case 3
    have "[next_id st ..< next_id st + length (p # ps)] = next_id st # [Suc (next_id st) ..< next_id st + length (p # ps)]"
      by (subst upt_rec) simp
    then show ?case using Cons.IH(3) [of "add_rgx sid p st"] by (simp add: add_rgxs_def add_rgx_def)
  }
qed (simp_all add: add_rgxs_def add_rgx_def)

lemma exclude_fields [simp]:
  "next_id (exclude sid st) = next_id st" "in_rgxs (exclude sid st) = in_rgxs st"
  "id2sid (exclude sid st) = id2sid st" "initial_sids (exclude sid st) = initial_sids st"
  "excluded_sids (exclude sid st) = sid # excluded_sids st"
  by (simp_all add: exclude_def)

text \<open>A rule whose values are strings and that has a \<^verbatim>\<open>sid\<close>; its patterns up to the first one the
  filter refuses; and whether there is such a one.\<close>

definition readable :: "'r suricata \<Rightarrow> string \<Rightarrow> bool" where
  "readable S l \<longleftrightarrow> (\<exists>r. parse_rule S l = Inr r \<and> get_option S ''sid'' r \<noteq> [] \<and>
     str_opts (get_option S ''content'' r) \<and> str_opts (get_option S ''pcre'' r))"

definition the_rule :: "'r suricata \<Rightarrow> string \<Rightarrow> 'r" where
  "the_rule S l = projr (parse_rule S l)"

definition sid_of :: "'r suricata \<Rightarrow> string \<Rightarrow> oval" where
  "sid_of S l = snd (hd (get_option S ''sid'' (the_rule S l)))"

definition line_pats :: "'r suricata \<Rightarrow> bool \<Rightarrow> bool \<Rightarrow> string \<Rightarrow> string list" where
  "line_pats S ip il l =
     (if il then map (\<lambda>s. suricata_content_to_regex (unquote s))
        (takeWhile (\<lambda>s. \<not> negative s) (opt_strs (get_option S ''content'' (the_rule S l)))) else []) @
     (if ip then map unquote (takeWhile rxp_flagged (opt_strs (get_option S ''pcre'' (the_rule S l)))) else [])"

definition line_bad :: "'r suricata \<Rightarrow> bool \<Rightarrow> bool \<Rightarrow> string \<Rightarrow> bool" where
  "line_bad S ip il l \<longleftrightarrow>
     il \<and> list_ex negative (opt_strs (get_option S ''content'' (the_rule S l))) \<or>
     ip \<and> \<not> list_all rxp_flagged (opt_strs (get_option S ''pcre'' (the_rule S l)))"

lemma readable_sid: "readable S l \<Longrightarrow> parse_rule S l = Inr (the_rule S l) \<and> rule_sid S (the_rule S l) = Inr (sid_of S l)"
  by (auto simp: readable_def the_rule_def rule_sid_def sid_of_def neq_Nil_conv)

lemma rxpc_rule_spec:
  assumes "readable S l"
  shows "\<exists>st'. rxpc_rule S ip il l st = Inr st' \<and>
    next_id st' = next_id st + length (line_pats S ip il l) \<and>
    in_rgxs st' = in_rgxs st @ map (\<lambda>(j, p). numbered_line j p @ [CHR 0x0A]) (enumerate (next_id st) (line_pats S ip il l)) \<and>
    id2sid st' = id2sid st @ map (\<lambda>j. (j, sid_of S l)) [next_id st ..< next_id st + length (line_pats S ip il l)] \<and>
    set (excluded_sids st') = set (excluded_sids st) \<union> (if line_bad S ip il l then {sid_of S l} else {}) \<and>
    initial_sids st' = sid_of S l # initial_sids st"
proof -
  let ?r = "the_rule S l" and ?sid = "sid_of S l"
  have ok: "str_opts (get_option S ''content'' ?r)" "str_opts (get_option S ''pcre'' ?r)"
    using assms by (auto simp: readable_def the_rule_def)
  let ?L = "map (\<lambda>s. suricata_content_to_regex (unquote s)) (takeWhile (\<lambda>s. \<not> negative s) (opt_strs (get_option S ''content'' ?r)))"
  let ?P = "map unquote (takeWhile rxp_flagged (opt_strs (get_option S ''pcre'' ?r)))"
  let ?lb = "list_ex negative (opt_strs (get_option S ''content'' ?r))"
  let ?pb = "\<not> list_all rxp_flagged (opt_strs (get_option S ''pcre'' ?r))"
  let ?st0 = "st\<lparr>initial_sids := ?sid # initial_sids st\<rparr>"
  let ?st1 = "if il then (if ?lb then exclude ?sid else id) (add_rgxs ?sid ?L ?st0) else ?st0"
  let ?st2 = "if ip then (if ?pb then exclude ?sid else id) (add_rgxs ?sid ?P ?st1) else ?st1"
  have "rxpc_rule S ip il l st = Inr ?st2"
    using readable_sid [OF assms] literal_loop_spec [OF ok(1)] pcre_loop_spec [OF ok(2)]
    by (simp add: rxpc_rule_def)
  moreover have "[a ..< a + (b + c)] = [a ..< a + b] @ [a + b ..< a + b + c]" for a b c :: nat
    by (metis add.assoc upt_add_eq_append le_add1)
  ultimately show ?thesis
    by (cases il; cases ip)
      (auto simp: add_rgxs_fields line_pats_def line_bad_def enumerate_append_eq add.assoc)
qed

text \<open>The rules the filter reads before it has seen enough patterns.\<close>

fun read_lines :: "'r suricata \<Rightarrow> bool \<Rightarrow> bool \<Rightarrow> nat \<Rightarrow> nat \<Rightarrow> string list \<Rightarrow> string list" where
  "read_lines S ip il max_rules i [] = []"
| "read_lines S ip il max_rules i (l # ls) =
     (if max_rules \<le> i then []
      else l # read_lines S ip il max_rules (i + length (line_pats S ip il l)) ls)"

definition all_pats :: "'r suricata \<Rightarrow> bool \<Rightarrow> bool \<Rightarrow> string list \<Rightarrow> string list" where
  "all_pats S ip il ls = concat (map (line_pats S ip il) ls)"

text \<open>The rule each pattern comes from, by its \<^verbatim>\<open>sid\<close>.\<close>

definition pat_sids :: "'r suricata \<Rightarrow> bool \<Rightarrow> bool \<Rightarrow> string list \<Rightarrow> oval list" where
  "pat_sids S ip il ls = concat (map (\<lambda>l. replicate (length (line_pats S ip il l)) (sid_of S l)) ls)"

definition rxpc_lines :: "nat \<Rightarrow> string list \<Rightarrow> string list" where
  "rxpc_lines i ps = map (\<lambda>(j, p). numbered_line j p @ [CHR 0x0A]) (enumerate i ps)"

lemma all_pats_Cons [simp]:
  "all_pats S ip il (l # ls) = line_pats S ip il l @ all_pats S ip il ls"
  "all_pats S ip il [] = []"
  by (simp_all add: all_pats_def)

lemma pat_sids_Cons [simp]:
  "pat_sids S ip il (l # ls) = replicate (length (line_pats S ip il l)) (sid_of S l) @ pat_sids S ip il ls"
  "pat_sids S ip il [] = []"
  by (simp_all add: pat_sids_def)

lemma length_pat_sids: "length (pat_sids S ip il ls) = length (all_pats S ip il ls)"
  by (induction ls) auto

lemma enumerate_replicate: "map (\<lambda>j. (j, x)) [i ..< i + n] = enumerate i (replicate n x)"
  by (rule nth_equalityI) (auto simp: nth_enumerate_eq)

lemma rxpc_rules_spec:
  assumes "\<And>l. l \<in> set ls \<Longrightarrow> readable S l"
  shows "\<exists>st'. rxpc_rules S ip il m ls st = Inr st' \<and>
    in_rgxs st' = in_rgxs st @ rxpc_lines (next_id st) (all_pats S ip il (read_lines S ip il m (next_id st) ls)) \<and>
    id2sid st' = id2sid st @ enumerate (next_id st) (pat_sids S ip il (read_lines S ip il m (next_id st) ls)) \<and>
    set (excluded_sids st') = set (excluded_sids st) \<union>
      sid_of S ` {l \<in> set (read_lines S ip il m (next_id st) ls). line_bad S ip il l} \<and>
    set (initial_sids st') = set (initial_sids st) \<union> sid_of S ` set (read_lines S ip il m (next_id st) ls)"
  using assms
proof (induction ls arbitrary: st)
  case (Cons l ls)
  show ?case
  proof (cases "m \<le> next_id st")
    case True
    then show ?thesis by (simp add: rxpc_lines_def)
  next
    case False
    have "readable S l" using Cons.prems by simp
    from rxpc_rule_spec [OF this, of ip il st] obtain st1 where st1: "rxpc_rule S ip il l st = Inr st1"
      "next_id st1 = next_id st + length (line_pats S ip il l)"
      "in_rgxs st1 = in_rgxs st @ map (\<lambda>(j, p). numbered_line j p @ [CHR 0x0A]) (enumerate (next_id st) (line_pats S ip il l))"
      "id2sid st1 = id2sid st @ map (\<lambda>j. (j, sid_of S l)) [next_id st ..< next_id st + length (line_pats S ip il l)]"
      "set (excluded_sids st1) = set (excluded_sids st) \<union> (if line_bad S ip il l then {sid_of S l} else {})"
      "initial_sids st1 = sid_of S l # initial_sids st" by blast
    have "\<And>l. l \<in> set ls \<Longrightarrow> readable S l" using Cons.prems by simp
    from Cons.IH [OF this, of st1] obtain st' where st': "rxpc_rules S ip il m ls st1 = Inr st'"
      "in_rgxs st' = in_rgxs st1 @ rxpc_lines (next_id st1) (all_pats S ip il (read_lines S ip il m (next_id st1) ls))"
      "id2sid st' = id2sid st1 @ enumerate (next_id st1) (pat_sids S ip il (read_lines S ip il m (next_id st1) ls))"
      "set (excluded_sids st') = set (excluded_sids st1) \<union>
        sid_of S ` {l \<in> set (read_lines S ip il m (next_id st1) ls). line_bad S ip il l}"
      "set (initial_sids st') = set (initial_sids st1) \<union> sid_of S ` set (read_lines S ip il m (next_id st1) ls)"
      by blast
    show ?thesis
    proof (intro exI conjI)
      show "rxpc_rules S ip il m (l # ls) st = Inr st'" using False st1(1) st'(1) by simp
      show "in_rgxs st' = in_rgxs st @ rxpc_lines (next_id st) (all_pats S ip il (read_lines S ip il m (next_id st) (l # ls)))"
        using False st1(2,3) st'(2) by (simp add: rxpc_lines_def enumerate_append_eq)
      show "id2sid st' = id2sid st @ enumerate (next_id st) (pat_sids S ip il (read_lines S ip il m (next_id st) (l # ls)))"
        using False st1(2,4) st'(3) by (simp add: enumerate_append_eq enumerate_replicate)
    qed (use False st1 st' in auto)
  qed
qed (simp add: rxpc_lines_def)

lemma map_of_enumerate: "map_of (enumerate i xs) j = (if i \<le> j \<and> j < i + length xs then Some (xs ! (j - i)) else None)"
  by (induction xs arbitrary: i) (auto simp: nth_Cons' Suc_diff_le)

lemma keep_line_spec:
  "readable S l \<Longrightarrow> keep_line S ex init l = Inr (sid_of S l \<notin> set ex \<and> sid_of S l \<in> set init)"
  using readable_sid [of S l] by (simp add: keep_line_def)

lemma concat_if_single: "concat (map (\<lambda>l. if P l then [f l] else []) ls) = map f (filter P ls)"
  by (induction ls) auto

lemma filter_rxpc_run:
  assumes "\<And>l. l \<in> set (rule_lines db) \<Longrightarrow> readable S l"
    and "T = read_lines S ip il m 1 (rule_lines db)" and "rgxs = rxpc_lines 1 (all_pats S ip il T)"
    and "uncompiled_of (uncompiled_log rgxs) = Inr bad"
  shows "filter_rxpc S uncompiled_log db ip il m =
    (if \<forall>j \<in> set bad. 1 \<le> j \<and> j \<le> length (all_pats S ip il T)
     then Inr (rgxs, map (\<lambda>l. l @ [CHR 0x0A]) (filter (\<lambda>l.
         (\<exists>t \<in> set T. sid_of S t = sid_of S l) \<and>
         (\<forall>t \<in> set T. sid_of S t = sid_of S l \<longrightarrow> \<not> line_bad S ip il t) \<and>
         (\<forall>j \<in> set bad. pat_sids S ip il T ! (j - 1) \<noteq> sid_of S l)) (rule_lines db)))
     else Inl KeyError)"
proof -
  let ?st = "\<lparr>next_id = 1, in_rgxs = [], id2sid = [], excluded_sids = [], initial_sids = []\<rparr>"
  obtain st where st: "rxpc_rules S ip il m (rule_lines db) ?st = Inr st" "in_rgxs st = rgxs"
    "id2sid st = enumerate 1 (pat_sids S ip il T)"
    "set (excluded_sids st) = sid_of S ` {l \<in> set T. line_bad S ip il l}"
    "set (initial_sids st) = sid_of S ` set T"
    using rxpc_rules_spec [of "rule_lines db" S ip il m ?st, OF assms(1)] assms(2,3) by auto
  let ?get = "\<lambda>i. case map_of (id2sid st) i of None \<Rightarrow> Inl KeyError | Some s \<Rightarrow> Inr s"
  let ?n = "length (all_pats S ip il T)"
  have get: "?get j = (if 1 \<le> j \<and> j \<le> ?n then Inr (pat_sids S ip il T ! (j - 1)) else Inl KeyError)" for j
    by (auto simp: st(3) map_of_enumerate length_pat_sids)
  show ?thesis
  proof (cases "\<forall>j \<in> set bad. 1 \<le> j \<and> j \<le> ?n")
    case True
    let ?bs = "map (\<lambda>j. pat_sids S ip il T ! (j - 1)) bad"
    have bad: "res_map ?get bad = Inr ?bs"
      by (rule res_map_total) (use True get in auto)
    let ?P = "\<lambda>l. sid_of S l \<notin> set (?bs @ excluded_sids st) \<and> sid_of S l \<in> set (initial_sids st)"
    have "res_map (\<lambda>l. res_bind (keep_line S (?bs @ excluded_sids st) (initial_sids st) l)
          (\<lambda>b. Inr (if b then [l @ [CHR 0x0A]] else []))) (rule_lines db) =
        Inr (map (\<lambda>l. if ?P l then [l @ [CHR 0x0A]] else []) (rule_lines db))"
      by (rule res_map_total) (simp add: keep_line_spec assms(1))
    then have "filter_rxpc S uncompiled_log db ip il m =
        Inr (rgxs, map (\<lambda>l. l @ [CHR 0x0A]) (filter ?P (rule_lines db)))"
      using st(1,2) assms(4) bad by (simp add: filter_rxpc_def concat_if_single)
    moreover have "?P l \<longleftrightarrow> (\<exists>t \<in> set T. sid_of S t = sid_of S l) \<and>
         (\<forall>t \<in> set T. sid_of S t = sid_of S l \<longrightarrow> \<not> line_bad S ip il t) \<and>
         (\<forall>j \<in> set bad. pat_sids S ip il T ! (j - 1) \<noteq> sid_of S l)" for l
      using st(4,5) by (auto simp: image_iff) metis+
    ultimately show ?thesis using True by simp
  next
    case False
    have "res_map ?get js = Inl KeyError" if "\<not> (\<forall>j \<in> set js. 1 \<le> j \<and> j \<le> ?n)" for js
      using that by (induction js) (auto simp: get res_bind_def)
    then have "res_map ?get bad = Inl KeyError" using False by blast
    then show ?thesis using st(1,2) assms(4) False by (simp add: filter_rxpc_def)
  qed
qed

text \<open>C19: the filter for the RXP compiler.  The pattern file holds the accepted patterns of the
  rules read, numbered from 1 without gaps.  A rule is kept exactly when a rule with its
  \<^verbatim>\<open>sid\<close> was read, no such rule has a refused pattern, and no pattern of such a rule is in the
  compiler's log.  An index in the log that numbers no pattern is a \<open>KeyError\<close>.\<close>

theorem filter_rxpc_spec:
  assumes "\<And>l. l \<in> set (rule_lines db) \<Longrightarrow> readable S l"
    and "T = read_lines S ip il m 1 (rule_lines db)" and "rgxs = rxpc_lines 1 (all_pats S ip il T)"
    and "uncompiled_of (uncompiled_log rgxs) = Inr bad"
  shows "filter_rxpc S uncompiled_log db ip il m =
    (if \<forall>j \<in> set bad. 1 \<le> j \<and> j \<le> length (all_pats S ip il T)
     then Inr (rgxs, map (\<lambda>l. l @ [CHR 0x0A]) (filter (\<lambda>l.
         (\<exists>t \<in> set T. sid_of S t = sid_of S l) \<and>
         (\<forall>t \<in> set T. sid_of S t = sid_of S l \<longrightarrow> \<not> line_bad S ip il t) \<and>
         (\<forall>j \<in> set bad. pat_sids S ip il T ! (j - 1) \<noteq> sid_of S l)) (rule_lines db)))
     else Inl KeyError)"
  by (rule filter_rxpc_run) (fact assms)+

text \<open>A package for the witnesses: a rule is a header and a list of options; rule \<^verbatim>\<open>2\<close> has a
  negative content.\<close>

definition demo_suricata :: "(string \<times> opt list) suricata" where
  "demo_suricata = \<lparr>
     parse_rule = \<lambda>l. Inr (''alert tcp'', [(''sid'', VStr l), (''content'', VStr (if l = ''2'' then ''!b'' else ''a''))]),
     options = snd, rebuild = \<lambda>os r. (fst r, os),
     get_option = \<lambda>n r. filter (\<lambda>p. fst p = n) (snd r),
     pop_option = \<lambda>n r. (filter (\<lambda>p. fst p = n) (snd r), (fst r, filter (\<lambda>p. fst p \<noteq> n) (snd r))),
     add_option = \<lambda>n v r. (fst r, snd r @ [(n, v)]),
     header = fst, set_header = \<lambda>h r. (h, snd r), build_rule = fst, rule_str = fst, new_rule = \<lambda>a h. (h, [])\<rparr>"

lemma demo_laws: "rule_laws demo_suricata"
  by (auto simp: rule_laws_def demo_suricata_def)

lemma demo_readable: "readable demo_suricata l"
  by (auto simp: readable_def demo_suricata_def str_opts_def)

theorem filter_rxpc_spec_witness:
  "filter_rxpc demo_suricata (\<lambda>f. [''Rule_index: 2''])
      [''1'' @ [CHR 0x0A], ''2'' @ [CHR 0x0A], ''#'', ''3'' @ [CHR 0x0A]] False True 100 =
    Inr ([''1, a'' @ [CHR 0x0A], ''2, a'' @ [CHR 0x0A]], [''1'' @ [CHR 0x0A]])"
proof -
  let ?db = "[''1'' @ [CHR 0x0A], ''2'' @ [CHR 0x0A], ''#'', ''3'' @ [CHR 0x0A]]"
  have lines: "rule_lines ?db = [''1'', ''2'', ''3'']" by code_simp
  have a: "suricata_content_to_regex (unquote ''a'') = ''a''" by code_simp
  have rule: "the_rule demo_suricata l =
      (''alert tcp'', [(''sid'', VStr l), (''content'', VStr (if l = ''2'' then ''!b'' else ''a''))])" for l
    by (simp add: the_rule_def demo_suricata_def)
  have opts: "get_option demo_suricata n r = filter (\<lambda>p. fst p = n) (snd r)" for n r
    by (simp add: demo_suricata_def)
  have pats: "line_pats demo_suricata False True l = (if l = ''2'' then [] else [''a''])" for l
    by (simp add: line_pats_def rule opts opt_strs_def negative_def a)
  have bad: "line_bad demo_suricata False True l \<longleftrightarrow> l = ''2''" for l
    by (simp add: line_bad_def rule opts opt_strs_def negative_def)
  have sid: "sid_of demo_suricata l = VStr l" for l by (simp add: sid_of_def rule opts)
  have T: "read_lines demo_suricata False True 100 1 (rule_lines ?db) = [''1'', ''2'', ''3'']"
    unfolding lines by (simp add: pats)
  have rgxs: "rxpc_lines 1 [''a'', ''a''] = [''1, a'' @ [CHR 0x0A], ''2, a'' @ [CHR 0x0A]]"
    by code_simp
  have log: "uncompiled_of [''Rule_index: 2''] = Inr [2]" by code_simp
  have "filter_rxpc demo_suricata (\<lambda>f. [''Rule_index: 2'']) ?db False True 100 =
    (if \<forall>j \<in> set [2]. 1 \<le> j \<and> j \<le> length (all_pats demo_suricata False True [''1'', ''2'', ''3''])
     then Inr (rxpc_lines 1 (all_pats demo_suricata False True [''1'', ''2'', ''3'']), map (\<lambda>l. l @ [CHR 0x0A]) (filter (\<lambda>l.
         (\<exists>t \<in> set [''1'', ''2'', ''3'']. sid_of demo_suricata t = sid_of demo_suricata l) \<and>
         (\<forall>t \<in> set [''1'', ''2'', ''3'']. sid_of demo_suricata t = sid_of demo_suricata l \<longrightarrow> \<not> line_bad demo_suricata False True t) \<and>
         (\<forall>j \<in> set [2]. pat_sids demo_suricata False True [''1'', ''2'', ''3''] ! (j - 1) \<noteq> sid_of demo_suricata l)) (rule_lines ?db)))
     else Inl KeyError)"
    by (rule filter_rxpc_spec [OF demo_readable T [symmetric] refl log])
  then show ?thesis unfolding lines by (simp add: pats bad sid rgxs [unfolded One_nat_def])
qed

end
