(* ===== verification/Rule_Sampler.thy ===== *)
theory Rule_Sampler
  imports Rule_Lib "HOL-Library.Sublist"
begin

text \<open>
  The first half of the rule sampler data/rule_sampler.py: cleaning rules for the DOCA library
  and filtering them.

  As in \<open>Rule_Lib\<close> the package \<^verbatim>\<open>suricataparser\<close> is an argument.  Iterating over the options of a
  rule sees the options it had when the iteration began.
\<close>

section \<open>Cleaning rules\<close>

definition count_lines :: "string list \<Rightarrow> nat" where
  "count_lines lines = length (rule_lines lines)"

definition preview_file :: "string list \<Rightarrow> nat \<Rightarrow> string list" where
  "preview_file lines num_lines = map strip (take num_lines lines)"

definition re_incomplete_port :: re where
  "re_incomplete_port =
     (let d = RClass py_isdigit
      in RSeq d (RSeq (ropt d) (RSeq (ropt d) (RSeq (ropt d) (RSeq (ropt d) (RSeq (rlit '':'') REnd))))))"

definition not_newline :: "char \<Rightarrow> bool" where
  "not_newline c \<longleftrightarrow> c \<noteq> CHR 0x0A"

definition dot_or_underscore :: "char \<Rightarrow> bool" where
  "dot_or_underscore c \<longleftrightarrow> c = CHR ''.'' \<or> c = CHR ''_''"

definition re_proto_opt :: "string \<Rightarrow> re" where
  "re_proto_opt proto =
     RSeq (rlit proto) (RSeq (RClass dot_or_underscore) (RGroup 1 (RStar (RClass not_newline))))"

definition re_http_fix :: re where
  "re_http_fix = re_proto_opt ''http''"

definition re_tls_opt :: re where
  "re_tls_opt = re_proto_opt ''tls''"

definition allowed_http_options :: "string list" where
  "allowed_http_options = [''uri'', ''cookie'', ''host'', ''server'', ''referer'', ''content_type'',
     ''location'', ''request_body'', ''response_body'', ''user_agent'']"

definition content_kw :: "string list" where
  "content_kw = [''content'', ''pcre'']"

definition prefix_content_modifier_before :: "string list" where
  "prefix_content_modifier_before = [''http.'', ''dns.'']"

definition unsupported_options :: "string list" where
  "unsupported_options = [''metadata'', ''reference'', ''classtype'', ''target'', ''isdataat'', ''bsize'']"

text \<open>
  The backward walk over the options already kept, held in reverse: \<open>b\<close> is the distance from the
  end, counted from 1.  Each prefix is tested against whatever stands at that distance then; a
  distance beyond the list raises.
\<close>

definition del_at :: "nat \<Rightarrow> 'a list \<Rightarrow> 'a list" where
  "del_at i xs = take i xs @ drop (Suc i) xs"

fun drop_prefixed :: "nat \<Rightarrow> string list \<Rightarrow> opt list \<Rightarrow> opt list res" where
  "drop_prefixed b [] kept = Inr kept"
| "drop_prefixed b (p # ps) kept =
     (if length kept < b then Inl IndexError
      else drop_prefixed b ps (if startswith p (fst (kept ! (b - 1))) then del_at (b - 1) kept else kept))"

lemma drop_prefixed_length: "drop_prefixed b ps kept = Inr kept' \<Longrightarrow> length kept' \<le> length kept"
proof (induction b ps kept rule: drop_prefixed.induct)
  case (2 b p ps kept)
  have "length (del_at (b - 1) kept) \<le> length kept" by (simp add: del_at_def)
  then show ?case using 2 by (auto split: if_splits intro: order_trans)
qed simp

function back_loop :: "nat \<Rightarrow> opt list \<Rightarrow> opt list res" where
  "back_loop b kept =
     (if length kept < b then Inl IndexError
      else if fst (kept ! (b - 1)) \<notin> set content_kw \<and> b + 1 \<le> length kept
      then (case drop_prefixed b prefix_content_modifier_before kept of
              Inl e \<Rightarrow> Inl e
            | Inr kept' \<Rightarrow> back_loop (b + 1) kept')
      else Inr kept)"
  by pat_completeness auto
termination
  by (relation "measure (\<lambda>(b, kept). length kept + 1 - b)") (auto dest!: drop_prefixed_length)

declare back_loop.simps [simp del]

text \<open>The options after a removed content, up to the next one that is kept or looked at.\<close>

fun skip_modifiers :: "opt list \<Rightarrow> opt list res" where
  "skip_modifiers [] = Inl IndexError"
| "skip_modifiers (x # os) =
     (if fst x \<notin> {''sid'', ''content'', ''pcre''} \<and> \<not> startswith ''http.'' (fst x)
      then skip_modifiers os else Inr (x # os))"

lemma skip_modifiers_length: "skip_modifiers os = Inr os' \<Longrightarrow> length os' \<le> length os"
  by (induction os) (auto split: if_splits)

definition removed :: "opt \<Rightarrow> bool res" where
  "removed x =
     (if fst x = ''content''
      then res_bind (sval (snd x)) (\<lambda>s. Inr (startswith ''!'' s))
      else Inr (fst x = ''pcre''))"

function clean_loop :: "opt list \<Rightarrow> opt list \<Rightarrow> opt list res" where
  "clean_loop [] kept = Inr (rev kept)"
| "clean_loop (x # os) kept =
     (case removed x of
        Inl e \<Rightarrow> Inl e
      | Inr False \<Rightarrow> clean_loop os (x # kept)
      | Inr True \<Rightarrow>
          (case back_loop 1 kept of
             Inl e \<Rightarrow> Inl e
           | Inr kept' \<Rightarrow>
               (case skip_modifiers os of Inl e \<Rightarrow> Inl e | Inr os' \<Rightarrow> clean_loop os' kept')))"
  by pat_completeness auto
termination
  by (relation "measure (\<lambda>(os, kept). length os)") (auto dest!: skip_modifiers_length)

definition flow_directions :: "string list" where
  "flow_directions = [''from_client'', ''to_client'', ''from_server'', ''to_server'']"

definition fix_flow :: "oval \<Rightarrow> oval res" where
  "fix_flow v = res_bind (sval v) (\<lambda>s.
     Inr (case filter (\<lambda>p. p \<in> set flow_directions) (map strip (split_char (CHR '','') s)) of
            [] \<Rightarrow> VNone | p # _ \<Rightarrow> VStr p))"

definition opt_rest :: "re \<Rightarrow> string \<Rightarrow> string option" where
  "opt_rest r name = (case re_search r name of None \<Rightarrow> None | Some (_, _, _, g) \<Rightarrow> Some (group g 1))"

definition drop_illegal_http :: "'r suricata \<Rightarrow> 'r \<Rightarrow> 'r" where
  "drop_illegal_http S r =
     fold (\<lambda>x r. case opt_rest re_http_fix (fst x) of
         Some rest \<Rightarrow> if rest \<notin> set allowed_http_options then filter_options S (\<lambda>y. fst y \<noteq> fst x) r else r
       | None \<Rightarrow> r) (options S r) r"

fun dangling :: "'r suricata \<Rightarrow> opt list \<Rightarrow> 'r \<Rightarrow> 'r" where
  "dangling S [] r = r"
| "dangling S (x # os) r =
     (if fst x = ''content'' then r
      else dangling S os (if fst x \<in> set content_modifiers then snd (pop_option S (fst x) r) else r))"

definition clean_dangling_modifiers :: "'r suricata \<Rightarrow> 'r \<Rightarrow> 'r" where
  "clean_dangling_modifiers S r = dangling S (options S r) r"

definition fix_header :: "'r suricata \<Rightarrow> 'r \<Rightarrow> 'r" where
  "fix_header S r =
     (case re_search re_incomplete_port (header S r) of
        None \<Rightarrow> r | Some _ \<Rightarrow> set_header S (header S r @ ''65535'') r)"

definition fix_protocol :: "'r suricata \<Rightarrow> 'r \<Rightarrow> 'r" where
  "fix_protocol S r =
     (let r1 = set_header S (replace_str ''tcp-pkt'' ''tcp'' (header S r)) r
      in set_header S (replace_str ''tcp-stream'' ''tcp'' (header S r1)) r1)"

definition clean_rule :: "'r suricata \<Rightarrow> string \<Rightarrow> string res" where
  "clean_rule S l =
     res_bind (parse_rule S l) (\<lambda>r0.
     let r1 = snd (pop_option S ''bsize'' r0);
         r2 = filter_options S (\<lambda>x. fst x \<notin> set unsupported_options) r1
     in res_bind (clean_loop (options S r2) []) (\<lambda>os.
        res_bind (transform_options S ''flow'' fix_flow (rebuild S os r2)) (\<lambda>r3.
        let r4 = replace_option S ''dns_query'' ''dns.query'' r3;
            r5 = replace_option S ''tls_sni'' ''tls.sni'' r4;
            r6 = drop_illegal_http S (fix_header S r5);
            r7 = clean_dangling_modifiers S (fix_protocol S r6)
        in Inr (build_rule S r7))))"

definition clean_and_fix :: "'r suricata \<Rightarrow> string list \<Rightarrow> string list res" where
  "clean_and_fix S lines = res_map (clean_rule S) (rule_lines lines)"

section \<open>Filtering rules\<close>

definition refused_options :: "(int \<times> string) list" where
  "refused_options = [(-2, ''endswith''), (-3, ''offset''), (-4, ''distance''), (-5, ''threshold''),
     (-6, ''depth''), (-7, ''flowbits''), (-8, ''within''), (-9, ''urilen''), (-10, ''ja3_hash''),
     (-11, ''byte_test''), (-12, ''byte_math''), (-13, ''byte_jump''), (-14, ''stream_size''),
     (-15, ''ja3.hash'')]"

definition refused_protocols :: "(int \<times> string) list" where
  "refused_protocols = [(-21, ''smtp''), (-22, ''ftp'')]"

text \<open>The positive contents are put back one by one; the count of the negative ones.\<close>

fun put_back :: "'r suricata \<Rightarrow> opt list \<Rightarrow> nat \<Rightarrow> 'r \<Rightarrow> (nat \<times> 'r) res" where
  "put_back S [] n r = Inr (n, r)"
| "put_back S (c # cs) n r =
     res_bind (sval (snd c)) (\<lambda>s.
       if startswith ''!'' s then put_back S cs (Suc n) r
       else put_back S cs n (add_option S ''content'' (VOpt (fst c) (snd c)) r))"

definition bad_tls :: "opt \<Rightarrow> bool" where
  "bad_tls x = (case opt_rest re_tls_opt (fst x) of None \<Rightarrow> False | Some rest \<Rightarrow> rest \<noteq> ''sni'')"

definition filter_rule :: "'r suricata \<Rightarrow> string \<Rightarrow> int res" where
  "filter_rule S line =
     res_bind (parse_rule S line) (\<lambda>r0.
     let (contents, r1) = pop_option S ''content'' r0
     in res_bind (put_back S contents 0 r1) (\<lambda>(neg_contents, r).
        if neg_contents = length contents then Inr (-1)
        else
          case filter (\<lambda>(err, n). get_option S n r \<noteq> []) refused_options of
            (err, n) # _ \<Rightarrow> Inr err
          | [] \<Rightarrow>
              if list_ex bad_tls (options S r) then Inr (-19)
              else if CHR ''['' \<in> set (header S r) then Inr (-20)
              else
                case filter (\<lambda>(err, prot). contains prot (header S r)) refused_protocols of
                  (err, prot) # _ \<Rightarrow> Inr err
                | [] \<Rightarrow> Inr 0))"

definition doca_filter :: "'r suricata \<Rightarrow> string list \<Rightarrow> string list res" where
  "doca_filter S lines =
     res_bind (res_map (\<lambda>l. res_bind (filter_rule S l) (\<lambda>err. Inr (if err = 0 then [l] else [])))
       (filter_whitespace lines)) (\<lambda>r. Inr (concat r))"

definition positive :: "opt \<Rightarrow> bool" where
  "positive c \<longleftrightarrow> \<not> startswith ''!'' (oval_str (snd c))"

lemma put_back_spec:
  assumes "rule_laws S" and "str_opts cs"
  shows "\<exists>r'. put_back S cs n r = Inr (n + length (filter (\<lambda>c. \<not> positive c) cs), r') \<and>
    set (options S r') = set (options S r) \<union> (\<lambda>c. (''content'', VOpt (fst c) (snd c))) ` {c \<in> set cs. positive c} \<and>
    header S r' = header S r"
  using assms(2)
proof (induction cs arbitrary: n r)
  case (Cons c cs)
  obtain m s where c: "c = (m, VStr s)" using Cons.prems by (cases c) (auto simp: str_opts_def)
  have cs: "str_opts cs" using Cons.prems by (simp add: str_opts_def)
  have add: "set (options S (add_option S n v r)) = insert (n, v) (set (options S r)) \<and>
      header S (add_option S n v r) = header S r" for n v r
    using assms(1) by (simp add: rule_laws_def)
  show ?case
  proof (cases "positive c")
    case True
    let ?r = "add_option S ''content'' (VOpt (fst c) (snd c)) r"
    obtain r' where "put_back S cs n ?r = Inr (n + length (filter (\<lambda>c. \<not> positive c) cs), r')"
      "set (options S r') = set (options S ?r) \<union> (\<lambda>c. (''content'', VOpt (fst c) (snd c))) ` {c \<in> set cs. positive c}"
      "header S r' = header S ?r" using Cons.IH [OF cs] by blast
    moreover have "{c' \<in> set (c # cs). positive c'} = insert c {c' \<in> set cs. positive c'}" using True by auto
    moreover have "\<not> startswith ''!'' s" using True by (simp add: c positive_def)
    ultimately show ?thesis using True add by (simp add: c sval_def)
  next
    case False
    obtain r' where "put_back S cs (Suc n) r = Inr (Suc n + length (filter (\<lambda>c. \<not> positive c) cs), r')"
      "set (options S r') = set (options S r) \<union> (\<lambda>c. (''content'', VOpt (fst c) (snd c))) ` {c \<in> set cs. positive c}"
      "header S r' = header S r" using Cons.IH [OF cs] by blast
    moreover have "{c' \<in> set (c # cs). positive c'} = {c' \<in> set cs. positive c'}" using False by auto
    moreover have "startswith ''!'' s" using False by (simp add: c positive_def)
    ultimately show ?thesis using False by (simp add: c sval_def)
  qed
qed simp

lemma filter_head: "filter P xs = y # ys \<Longrightarrow> y \<in> set xs"
  by (auto dest: filter_eq_ConsD)

lemma length_filter_eq: "length (filter P xs) = length xs \<longleftrightarrow> (\<forall>x \<in> set xs. P x)"
  using length_filter_less [of _ xs P] by (metis filter_True less_irrefl)

lemma content_not_tls: "opt_rest re_tls_opt ''content'' = None"
  by code_simp

lemma refused_not_content: "(err, n) \<in> set refused_options \<Longrightarrow> n \<noteq> ''content'' \<and> err < 0"
  by (auto simp: refused_options_def)

text \<open>The chain of refusals: the first that applies decides, and none of them is 0.\<close>

lemma first_refusal:
  assumes "\<forall>x \<in> set R. fst x < 0" "\<forall>x \<in> set P. fst x < (0 :: int)"
  shows "\<exists>err \<le> 0. (if A then Inr (-1)
      else case R of
          (err, n) # _ \<Rightarrow> Inr err
        | [] \<Rightarrow> if T then Inr (-19) else if H then Inr (-20) else case P of (err, prot) # _ \<Rightarrow> Inr err | [] \<Rightarrow> Inr 0) =
      (Inr err :: int res) \<and> (err = 0 \<longleftrightarrow> \<not> A \<and> R = [] \<and> \<not> T \<and> \<not> H \<and> P = [])"
  using assms by (cases R; cases P) (auto simp: case_prod_unfold less_imp_le)

text \<open>After the contents are taken out and the positive ones put back, the rule has the other options it
  had, so that the checks for refused and TLS options see those of the rule.\<close>

lemma contents_put_back:
  assumes "rule_laws S" "str_opts (filter (\<lambda>p. fst p = ''content'') (options S r))"
  obtains r1 r2 where "pop_option S ''content'' r = (filter (\<lambda>p. fst p = ''content'') (options S r), r1)"
    and "put_back S (filter (\<lambda>p. fst p = ''content'') (options S r)) 0 r1 =
      Inr (length (filter (\<lambda>c. \<not> positive c) (filter (\<lambda>p. fst p = ''content'') (options S r))), r2)"
    and "\<And>x. fst x \<noteq> ''content'' \<Longrightarrow> x \<in> set (options S r2) \<longleftrightarrow> x \<in> set (options S r)" "header S r2 = header S r"
proof -
  let ?C = "filter (\<lambda>p. fst p = ''content'') (options S r)" and ?r1 = "snd (pop_option S ''content'' r)"
  have law: "fst (pop_option S ''content'' r) = ?C \<and>
      options S ?r1 = filter (\<lambda>p. fst p \<noteq> ''content'') (options S r) \<and> header S ?r1 = header S r"
    using assms(1) unfolding rule_laws_def by blast
  obtain r2 where put: "put_back S ?C 0 ?r1 = Inr (length (filter (\<lambda>c. \<not> positive c) ?C), r2)"
    "set (options S r2) = set (options S ?r1) \<union> (\<lambda>c. (''content'', VOpt (fst c) (snd c))) ` {c \<in> set ?C. positive c}"
    "header S r2 = header S ?r1"
    using put_back_spec [OF assms, of 0 ?r1] by auto
  show thesis by (rule that [OF _ put(1)]) (use law put(2,3) in \<open>auto simp: prod_eq_iff\<close>)
qed

text \<open>C20: the filter of the DOCA library always gives a verdict, and the verdict is 0 exactly for
  the rules that have a positive content, none of the refused options, no TLS option but the
  server name, and a header without groups of addresses and without the two refused protocols.\<close>

theorem filter_rule_zero:
  assumes "rule_laws S" and "parse_rule S line = Inr r"
    and "str_opts (filter (\<lambda>p. fst p = ''content'') (options S r))"
  shows "\<exists>err \<le> 0. filter_rule S line = Inr err \<and>
    (err = 0 \<longleftrightarrow> (\<exists>c \<in> set (options S r). fst c = ''content'' \<and> positive c) \<and>
      (\<forall>x \<in> set (options S r). fst x \<notin> snd ` set refused_options \<and> \<not> bad_tls x) \<and>
      CHR ''['' \<notin> set (header S r) \<and> \<not> contains ''smtp'' (header S r) \<and> \<not> contains ''ftp'' (header S r))"
proof -
  let ?C = "filter (\<lambda>p. fst p = ''content'') (options S r)"
  obtain r1 r2 where again: "pop_option S ''content'' r = (?C, r1)"
    "put_back S ?C 0 r1 = Inr (length (filter (\<lambda>c. \<not> positive c) ?C), r2)"
    "\<And>x. fst x \<noteq> ''content'' \<Longrightarrow> x \<in> set (options S r2) \<longleftrightarrow> x \<in> set (options S r)" "header S r2 = header S r"
    by (rule contents_put_back [OF assms(1,3)]) blast
  let ?R = "filter (\<lambda>(err, n). get_option S n r2 \<noteq> []) refused_options"
  let ?P = "filter (\<lambda>(err, prot). contains prot (header S r2)) refused_protocols"
  have neg: "length (filter (\<lambda>c. \<not> positive c) ?C) = length ?C \<longleftrightarrow> \<not> (\<exists>c \<in> set (options S r). fst c = ''content'' \<and> positive c)"
    unfolding length_filter_eq by auto
  have found: "get_option S (snd q) r2 \<noteq> [] \<longleftrightarrow> (\<exists>x \<in> set (options S r). fst x = snd q)" if "q \<in> set refused_options" for q
    using again(3) refused_not_content [of "fst q" "snd q"] that assms(1) by (auto simp: rule_laws_def filter_empty_conv)
  have "?R = [] \<longleftrightarrow> (\<forall>q \<in> set refused_options. \<not> (\<exists>x \<in> set (options S r). fst x = snd q))"
    unfolding filter_empty_conv case_prod_beta by (rule ball_cong [OF refl]) (simp only: found simp_thms)
  then have refused: "?R = [] \<longleftrightarrow> (\<forall>x \<in> set (options S r). fst x \<notin> snd ` set refused_options)" by blast
  have "\<not> bad_tls x" if "fst x = ''content''" for x using that by (simp add: bad_tls_def content_not_tls)
  then have tls: "list_ex bad_tls (options S r2) \<longleftrightarrow> (\<exists>x \<in> set (options S r). bad_tls x)"
    using again(3) unfolding list_ex_iff by blast
  have prots: "?P = [] \<longleftrightarrow> \<not> contains ''smtp'' (header S r) \<and> \<not> contains ''ftp'' (header S r)"
    by (simp add: refused_protocols_def again(4))
  have start: "filter_rule S line = (if length (filter (\<lambda>c. \<not> positive c) ?C) = length ?C then Inr (-1)
      else case ?R of
          (err, n) # _ \<Rightarrow> Inr err
        | [] \<Rightarrow> if list_ex bad_tls (options S r2) then Inr (-19) else if CHR ''['' \<in> set (header S r2) then Inr (-20)
            else case ?P of (err, prot) # _ \<Rightarrow> Inr err | [] \<Rightarrow> Inr 0)"
    using assms(2) again(1,2) by (simp add: filter_rule_def)
  have "\<forall>x \<in> set ?R. fst x < 0" using refused_not_content by auto
  moreover have "\<forall>x \<in> set ?P. fst x < 0" by (auto simp: refused_protocols_def)
  ultimately have verdict: "\<exists>err \<le> 0. filter_rule S line = Inr err \<and> (err = 0 \<longleftrightarrow>
      length (filter (\<lambda>c. \<not> positive c) ?C) \<noteq> length ?C \<and> ?R = [] \<and> \<not> list_ex bad_tls (options S r2) \<and>
      \<not> CHR ''['' \<in> set (header S r2) \<and> ?P = [])"
    unfolding start by (rule first_refusal)
  show ?thesis using verdict unfolding neg refused tls prots unfolding again(4) by blast
qed

theorem filter_rule_zero_witness: "filter_rule demo_suricata ''1'' = Inr 0"
proof -
  let ?r = "(''alert tcp'', [(''sid'', VStr ''1''), (''content'', VStr ''a'')])"
  have p: "parse_rule demo_suricata ''1'' = Inr ?r" and o: "options demo_suricata ?r = snd ?r"
    and h: "header demo_suricata ?r = ''alert tcp''"
    by (simp_all add: demo_suricata_def)
  have sid: "\<not> bad_tls (''sid'', v)" "\<not> bad_tls (''content'', v)" for v
  proof -
    have "opt_rest re_tls_opt ''sid'' = None" by code_simp
    then show "\<not> bad_tls (''sid'', v)" "\<not> bad_tls (''content'', v)" by (simp_all add: bad_tls_def content_not_tls)
  qed
  have "\<exists>err \<le> 0. filter_rule demo_suricata ''1'' = Inr err \<and>
    (err = 0 \<longleftrightarrow> (\<exists>c \<in> set (options demo_suricata ?r). fst c = ''content'' \<and> positive c) \<and>
      (\<forall>x \<in> set (options demo_suricata ?r). fst x \<notin> snd ` set refused_options \<and> \<not> bad_tls x) \<and>
      CHR ''['' \<notin> set (header demo_suricata ?r) \<and> \<not> contains ''smtp'' (header demo_suricata ?r) \<and>
      \<not> contains ''ftp'' (header demo_suricata ?r))"
    by (rule filter_rule_zero [OF demo_laws p]) (simp add: o str_opts_def)
  then show ?thesis by (auto simp: o h sid positive_def refused_options_def)
qed

section \<open>What cleaning keeps\<close>

text \<open>The options that no step of the cleaning of contents may lose.\<close>

definition essential :: "opt \<Rightarrow> bool" where
  "essential x \<longleftrightarrow> fst x = ''sid'' \<or> fst x = ''content'' \<and> positive x"

text \<open>\<open>kept'\<close> is \<open>kept\<close> with some inessential options deleted.\<close>

definition thinned :: "opt list \<Rightarrow> opt list \<Rightarrow> bool" where
  "thinned kept' kept \<longleftrightarrow> subseq kept' kept \<and> filter essential kept' = filter essential kept"

lemma thinned_refl [simp]: "thinned xs xs"
  by (simp add: thinned_def)

lemma thinned_trans: "thinned xs ys \<Longrightarrow> thinned ys zs \<Longrightarrow> thinned xs zs"
  by (auto simp: thinned_def intro: subseq_order.trans)

lemma thinned_append: "thinned xs xs' \<Longrightarrow> thinned ys ys' \<Longrightarrow> thinned (xs @ ys) (xs' @ ys')"
  by (auto simp: thinned_def intro: list_emb_append_mono)

lemma subseq_rev: "subseq xs ys \<Longrightarrow> subseq (rev xs) (rev ys)"
  by (induction xs ys rule: list_emb.induct) (auto intro: list_emb_append_mono subseq_rev_drop_many)

lemma thinned_rev: "thinned xs ys \<Longrightarrow> thinned (rev xs) (rev ys)"
  by (auto simp: thinned_def subseq_rev rev_filter [symmetric])

lemma thinned_drop: "\<not> essential x \<Longrightarrow> thinned xs ys \<Longrightarrow> thinned xs (x # ys)"
  by (auto simp: thinned_def)

lemma thinned_del_at:
  assumes "i < length xs" "\<not> essential (xs ! i)" shows "thinned (del_at i xs) xs"
proof -
  have xs: "xs = take i xs @ xs ! i # drop (Suc i) xs" using assms(1) by (rule id_take_nth_drop)
  have "thinned (take i xs @ drop (Suc i) xs) (take i xs @ xs ! i # drop (Suc i) xs)"
    by (rule thinned_append [OF thinned_refl thinned_drop [OF assms(2) thinned_refl]])
  then show ?thesis using xs by (simp add: del_at_def)
qed

lemma thinned_drop_prefixed:
  assumes "drop_prefixed b ps kept = Inr kept'" "0 < b" "\<And>p x. p \<in> set ps \<Longrightarrow> startswith p (fst x) \<Longrightarrow> \<not> essential x"
  shows "thinned kept' kept"
  using assms
proof (induction b ps kept rule: drop_prefixed.induct)
  case (2 b p ps kept)
  let ?k = "if startswith p (fst (kept ! (b - 1))) then del_at (b - 1) kept else kept"
  have len: "b \<le> length kept" and rest: "drop_prefixed b ps ?k = Inr kept'"
    using "2.prems"(1) by (auto simp: not_less split: if_split_asm)
  have "thinned kept' ?k" by (rule "2.IH") (use len rest "2.prems" in auto)
  moreover have "thinned ?k kept"
  proof (cases "startswith p (fst (kept ! (b - 1)))")
    case True
    have "thinned (del_at (b - 1) kept) kept"
      by (rule thinned_del_at) (use True len "2.prems"(2) "2.prems"(3) [of p "kept ! (b - 1)"] in auto)
    then show ?thesis using True by simp
  qed simp
  ultimately show ?case by (rule thinned_trans)
qed simp

lemma modifier_not_essential: "p \<in> set prefix_content_modifier_before \<Longrightarrow> startswith p (fst x) \<Longrightarrow> \<not> essential x"
  by (auto simp: prefix_content_modifier_before_def essential_def)

lemma thinned_back_loop: "back_loop b kept = Inr kept' \<Longrightarrow> 0 < b \<Longrightarrow> thinned kept' kept"
proof (induction b kept rule: back_loop.induct)
  case (1 b kept)
  show ?case
  proof (cases "fst (kept ! (b - 1)) \<notin> set content_kw \<and> b + 1 \<le> length kept")
    case True
    then obtain k where k: "drop_prefixed b prefix_content_modifier_before kept = Inr k" "back_loop (b + 1) k = Inr kept'"
      using "1.prems"(1) by (subst (asm) back_loop.simps) (auto split: sum.splits)
    have "thinned kept' k" using "1.IH" [OF _ True k(1)] True k(2) by simp
    moreover have "thinned k kept"
      by (rule thinned_drop_prefixed [OF k(1) "1.prems"(2) modifier_not_essential])
    ultimately show ?thesis by (rule thinned_trans)
  next
    case False
    then show ?thesis using "1.prems"(1) by (subst (asm) back_loop.simps) (auto split: if_split_asm)
  qed
qed

lemma thinned_skip: "skip_modifiers os = Inr os' \<Longrightarrow> thinned os' os"
  by (induction os) (auto simp: essential_def split: if_split_asm intro!: thinned_drop)

lemma removed_not_essential: "removed x = Inr True \<Longrightarrow> \<not> essential x"
  by (cases x; cases "snd x") (auto simp: removed_def essential_def sval_def positive_def split: if_split_asm)

lemma clean_loop_thins:
  assumes "clean_loop os kept = Inr out" "\<forall>x \<in> set kept. removed x = Inr False"
  shows "thinned out (rev kept @ os) \<and> (\<forall>x \<in> set out. removed x = Inr False)"
  using assms
proof (induction os kept rule: clean_loop.induct)
  case (2 x os kept)
  obtain b where "removed x = Inr b" using "2.prems"(1) by (cases "removed x") simp_all
  then consider (keep) "removed x = Inr False" | (remove) "removed x = Inr True" by (cases b) auto
  then show ?case
  proof cases
    case keep
    then show ?thesis using "2.IH"(2) [OF keep] "2.prems" by simp
  next
    case remove
    then obtain k os' where k: "back_loop 1 kept = Inr k" "skip_modifiers os = Inr os'" "clean_loop os' k = Inr out"
      using "2.prems"(1) by (auto split: sum.splits)
    have tk: "thinned k kept" by (rule thinned_back_loop [OF k(1)]) simp
    then have "set k \<subseteq> set kept" by (auto simp: thinned_def elim: list_emb_set)
    then have "\<forall>x \<in> set k. removed x = Inr False" using "2.prems"(2) by blast
    then have IH: "thinned out (rev k @ os') \<and> (\<forall>x \<in> set out. removed x = Inr False)"
      using "2.IH"(1) [OF remove _ k(1,2,3)] by simp
    have "thinned (rev k @ os') (rev kept @ x # os)"
      by (rule thinned_append [OF thinned_rev [OF tk] thinned_drop [OF removed_not_essential [OF remove] thinned_skip [OF k(2)]]])
    then show ?thesis using IH thinned_trans by blast
  qed
qed auto

text \<open>C21: the loop that removes negative contents and PCREs with their modifiers.  It only deletes
  options; no negative content and no PCRE is left; every positive content and the \<^verbatim>\<open>sid\<close> stay, in
  their order; and a rule that needs no cleaning is left as it is.\<close>

theorem clean_loop_result:
  "(clean_loop os [] = Inr out \<longrightarrow> subseq out os \<and>
      (\<forall>x \<in> set out. fst x \<noteq> ''pcre'' \<and> (fst x = ''content'' \<longrightarrow> positive x)) \<and>
      filter essential out = filter essential os) \<and>
   ((\<forall>x \<in> set os. removed x = Inr False) \<longrightarrow> clean_loop os [] = Inr os)"
proof -
  have same: "clean_loop os kept = Inr (rev kept @ os)" if "\<forall>x \<in> set os. removed x = Inr False" for os kept
    using that by (induction os arbitrary: kept) auto
  have clean: "fst x \<noteq> ''pcre'' \<and> (fst x = ''content'' \<longrightarrow> positive x)" if "removed x = Inr False" for x
    using that by (cases x; cases "snd x") (auto simp: removed_def sval_def positive_def split: if_split_asm)
  show ?thesis using clean_loop_thins [of os "[]" out] same [of os "[]"] clean by (auto simp: thinned_def)
qed

theorem clean_loop_result_witness:
  "\<exists>out. clean_loop [(''msg'', VNone), (''content'', VStr ''a''), (''http.uri'', VNone), (''content'', VStr ''!b''),
       (''nocase'', VNone), (''sid'', VStr ''7'')] [] = Inr out \<and>
     filter essential out = [(''content'', VStr ''a''), (''sid'', VStr ''7'')]"
proof -
  let ?os = "[(''msg'', VNone), (''content'', VStr ''a''), (''http.uri'', VNone), (''content'', VStr ''!b''),
       (''nocase'', VNone), (''sid'', VStr ''7'')]"
  let ?out = "[(''msg'', VNone), (''content'', VStr ''a''), (''sid'', VStr ''7'')]"
  have "clean_loop ?os [] = Inr ?out" by code_simp
  moreover have "filter essential ?os = [(''content'', VStr ''a''), (''sid'', VStr ''7'')]"
    by (simp add: essential_def positive_def)
  ultimately show ?thesis using clean_loop_result [of ?os ?out] by simp
qed

text \<open>The backward walk moves on after a deletion although the list has become shorter: it steps
  over the positive content that stops it, and takes the buffer of that content, or it falls off
  the front of the list.\<close>

lemma back_walk_overshoots:
  "clean_loop [(''msg'', VNone), (''flow'', VNone), (''http.method'', VNone), (''content'', VStr ''a''), (''http.uri'', VNone),
      (''content'', VStr ''!b''), (''sid'', VStr ''7'')] [] =
    Inr [(''msg'', VNone), (''flow'', VNone), (''content'', VStr ''a''), (''sid'', VStr ''7'')]"
  "clean_loop [(''content'', VStr ''a''), (''http.uri'', VNone), (''content'', VStr ''!b''), (''sid'', VStr ''7'')] [] =
    Inl IndexError"
  by code_simp+

end
