(* ===== verification/Rule_Patterns.thy ===== *)
theory Rule_Patterns
  imports Rule_Sampler
begin

text \<open>
  The second half of data/rule_sampler.py: the patterns handed to Hyperscan and the filter by its
  checker, the working set for the RXP compiler, statistics, prefixes, rules made from patterns,
  and compressed patterns.

  The checker \<^verbatim>\<open>hscheck\<close>, the log and the summary of the RXP compiler, the random sample and the
  trie library are arguments.
\<close>

section \<open>Sampling and analysis\<close>

text \<open>The test of \<^verbatim>\<open>seed\<close> is one of the imported function, which is always true.\<close>

definition sampleX ::
  "(int option \<Rightarrow> string list \<Rightarrow> nat \<Rightarrow> string list) \<Rightarrow> line_source \<Rightarrow> int \<Rightarrow> int option \<Rightarrow> string list res" where
  "sampleX smp inputs X fixed_seed =
     (let ls = provide_lines inputs True
      in if X < 0 \<or> int (length ls) < X then Inl ValueError
         else Inr (smp fixed_seed ls (nat X)))"

text \<open>What \<^verbatim>\<open>analyze\<close> prints.  Every illegal option is popped by its name, so that a second one of
  the same name finds none.\<close>

fun analyze_opts :: "'r suricata \<Rightarrow> opt list \<Rightarrow> 'r \<Rightarrow> string list res" where
  "analyze_opts S [] r = Inr []"
| "analyze_opts S (x # os) r =
     (case opt_rest re_http_fix (fst x) of
        Some rest \<Rightarrow>
          if rest \<notin> set allowed_http_options then
            (case pop_option S (fst x) r of
               ([], r') \<Rightarrow> Inl IndexError
             | ((n, v) # _, r') \<Rightarrow>
                 res_bind (analyze_opts S os r') (\<lambda>out. Inr
                   ((''Option '' @ fst x @ '' not allowed !'') #
                    (''rule.pop_option(opt.name)[0].name='' @ py_repr n) # out)))
          else analyze_opts S os r
      | None \<Rightarrow> analyze_opts S os r)"

definition analyze :: "'r suricata \<Rightarrow> string list \<Rightarrow> string list res" where
  "analyze S file_lines =
     (case filter_whitespace file_lines of
        [] \<Rightarrow> Inr [''Nothing to do in empty file.'']
      | l # ls \<Rightarrow>
          res_bind (parse_rule S l) (\<lambda>r.
          res_bind (analyze_opts S (options S r) r) (\<lambda>out. Inr
            ((if ls \<noteq> [] then [''Analyze will only analyze the first rule of the file !''] else []) @
             [''Rule header = '' @ header S r] @
             (if re_search re_incomplete_port (header S r) \<noteq> None
              then [''Problematic header:'' @ header S r, ''Fixed header:'' @ header S r @ ''65535''] else []) @
             out))))"

text \<open>The counts of \<^verbatim>\<open>analyze_docaflow\<close>, in the order of its dictionary.\<close>

record flow_stats =
  n_startswith :: nat
  n_offset_depth :: nat
  n_bytetest :: nat
  n_total :: nat

fun any_negative :: "opt list \<Rightarrow> bool res" where
  "any_negative [] = Inr False"
| "any_negative (c # cs) =
     res_bind (sval (snd c)) (\<lambda>s. if startswith ''!'' s then Inr True else any_negative cs)"

definition docaflow_rule :: "'r suricata \<Rightarrow> string \<Rightarrow> flow_stats \<Rightarrow> flow_stats res" where
  "docaflow_rule S l st =
     res_bind (parse_rule S l) (\<lambda>r.
     let contents = get_option S ''content'' r
     in res_bind (any_negative contents) (\<lambda>neg.
        let st1 = st\<lparr>n_total := n_total st + length contents\<rparr>
        in Inr (if neg then st1
          else st1\<lparr>n_startswith := n_startswith st1 + length (get_option S ''startswith'' r),
                   n_offset_depth := n_offset_depth st1 +
                     (length (get_option S ''offset'' r) + length (get_option S ''depth'' r)),
                   n_bytetest := n_bytetest st1 + length (get_option S ''byte_test'' r)\<rparr>)))"

definition analyze_docaflow :: "'r suricata \<Rightarrow> string list \<Rightarrow> string res" where
  "analyze_docaflow S db_in =
     res_bind (res_fold (docaflow_rule S) (rule_lines db_in)
        \<lparr>n_startswith = 0, n_offset_depth = 0, n_bytetest = 0, n_total = 0\<rparr>) (\<lambda>st.
       let entry = (\<lambda>(k, n). py_repr k @ '': '' @ nat_str n)
       in Inr (''Stats of rules for flow acceleration potential {'' @
            join '', '' (map entry [(''startswith'', n_startswith st), (''offset+depth'', n_offset_depth st),
              (''bytetest'', n_bytetest st), (''total'', n_total st)]) @ ''}''))"

section \<open>Patterns for Hyperscan\<close>

definition unescaped :: "char \<Rightarrow> re" where
  "unescaped c = RSeq (RNotAfter (CHR 0x5C)) (RClass (\<lambda>x. x = c))"

text \<open>One substitution for each of the four characters, in this order.\<close>

definition escape_chars :: "string \<Rightarrow> string" where
  "escape_chars group_content = fold (\<lambda>c. re_sub (unescaped c) (\<lambda>w. [CHR 0x5C, c])) ''^{}$'' group_content"

definition re_slashed :: re where
  "re_slashed = RSeq RBegin (RSeq (rlit ''/'') (RSeq (RGroup 1 (RStar (RClass not_newline))) (rlit ''/'')))"

definition re_class :: re where
  "re_class = RSeq (rlit ''['') (RSeq (RStar (RClass (\<lambda>c. c \<noteq> CHR '']''))) (rlit '']''))"

definition fix_pattern :: "string \<Rightarrow> string" where
  "fix_pattern matched_pattern = re_sub re_class escape_chars matched_pattern"

text \<open>The patterns of one rule: its PCREs first, then its contents.\<close>

definition rule_patterns :: "'r suricata \<Rightarrow> string \<Rightarrow> (oval \<times> string list) res" where
  "rule_patterns S l =
     res_bind (parse_rule S l) (\<lambda>r.
     res_bind (rule_sid S r) (\<lambda>sid.
     res_bind (res_map (\<lambda>(n, v). unquote_val v) (get_option S ''pcre'' r)) (\<lambda>pcres.
     res_bind (res_map (\<lambda>(n, v). res_bind (unquote_val v) (\<lambda>s.
         Inr (''/'' @ suricata_content_to_regex s @ ''/''))) (get_option S ''content'' r)) (\<lambda>literals.
       Inr (sid, pcres @ literals)))))"

definition hs_line :: "bool \<Rightarrow> nat \<times> string \<Rightarrow> string res" where
  "hs_line to_hs_tools = (\<lambda>(i, line).
     case re_search re_slashed line of
       None \<Rightarrow> Inr (fix_pattern line)
     | Some (_, _, _, g) \<Rightarrow>
         let matched_pattern = group g 1
         in if to_hs_tools then
              if matched_pattern = [] then Inl ValueError
              else (case split_on matched_pattern line of
                      e0 # e1 # _ \<Rightarrow> Inr (nat_str (i + 1) @ '':'' @ e0 @ fix_pattern matched_pattern @ e1)
                    | _ \<Rightarrow> Inl IndexError)
            else Inr (fix_pattern matched_pattern))"

definition to_hyperscan ::
  "'r suricata \<Rightarrow> string list \<Rightarrow> bool \<Rightarrow> bool \<Rightarrow> bool \<Rightarrow> (string list \<times> (nat \<times> oval) list option) res" where
  "to_hyperscan S file_lines from_patterns to_hs_tools return_sid_map =
     res_bind (if from_patterns then Inr (filter_whitespace file_lines, None)
               else res_bind (res_map (rule_patterns S) (rule_lines file_lines)) (\<lambda>rs.
                 Inr (concat (map snd rs),
                   Some (enumerate 0 (concat (map (\<lambda>(sid, ps). replicate (length ps) sid) rs))))))
     (\<lambda>(ls, id_map).
       res_bind (res_map (hs_line to_hs_tools) (enumerate 0 ls)) (\<lambda>hs.
         if return_sid_map then
           (case id_map of None \<Rightarrow> Inl UnboundLocalError | Some m \<Rightarrow> Inr (hs, Some m))
         else Inr (hs, None)))"

text \<open>One line of the report of the checker: the rule it refuses, if any.\<close>

definition hscheck_line :: "(nat \<times> oval) list \<Rightarrow> string \<Rightarrow> oval list res" where
  "hscheck_line id_map l =
     (let els = split_char (CHR '':'') l
      in if length els \<le> 3 \<or> els ! 0 \<in> {''OK'', ''SUMMARY''} then Inr []
         else res_bind (py_int (strip (els ! 1))) (\<lambda>rule_id.
           if rule_id < 0 then Inl KeyError
           else case map_of id_map (nat rule_id) of None \<Rightarrow> Inl KeyError | Some sid \<Rightarrow> Inr [sid]))"

text \<open>\<open>hscheck\<close> maps the lines of the file of patterns to the exit code and the output.\<close>

definition hs_excluded ::
  "(string list \<Rightarrow> int \<times> string) \<Rightarrow> string list \<Rightarrow> (nat \<times> oval) list \<Rightarrow> oval list res" where
  "hs_excluded hscheck hst_lines ids =
     (let (returncode, out) = hscheck hst_lines
      in if returncode \<noteq> 0 then Inl (SystemExit (-1))
         else res_bind (res_map (hscheck_line ids) (split_char (CHR 0x0A) out)) (\<lambda>bad. Inr (concat bad)))"

definition drop_excluded :: "'r suricata \<Rightarrow> oval list \<Rightarrow> string list \<Rightarrow> string list res" where
  "drop_excluded S excluded db_in =
     res_bind (res_map (\<lambda>l. res_bind (parse_rule S l) (\<lambda>r. res_bind (rule_sid S r) (\<lambda>sid.
         Inr (if sid \<notin> set excluded then [l @ [CHR 0x0A]] else [])))) (rule_lines db_in)) (\<lambda>out_lines.
       Inr (concat out_lines))"

text \<open>The filter reads its input twice, before and after it writes the file of patterns; here both
  readings are the same.\<close>

definition filter_hyperscan ::
  "'r suricata \<Rightarrow> (string list \<Rightarrow> int \<times> string) \<Rightarrow> string list \<Rightarrow> string list res" where
  "filter_hyperscan S hscheck db_in =
     res_bind (to_hyperscan S db_in False True True) (\<lambda>(lines, ids).
     res_bind (hs_excluded hscheck (map (\<lambda>l. l @ [CHR 0x0A]) lines) (the ids)) (\<lambda>excluded.
       drop_excluded S excluded db_in))"

section \<open>The working set for the RXP compiler\<close>

text \<open>
  Every run of the filter writes the output file, which the next run reads, and leaves the summary
  of the compiler.  \<open>ulog\<close> and \<open>summary\<close> are what the compiler writes for a file of patterns.
  A run that never ends is the value \<open>None\<close>.
\<close>

partial_function (option) rxpc_loop ::
  "'r suricata \<Rightarrow> (string list \<Rightarrow> string list) \<Rightarrow> (string list \<Rightarrow> string list) \<Rightarrow> string \<Rightarrow> bool \<Rightarrow> nat
     \<Rightarrow> string list \<Rightarrow> string list \<Rightarrow> nat \<Rightarrow> (string list \<times> nat) res option" where
  "rxpc_loop S ulog summary out_name iterative max_rules rgxs db_out n_it =
     (case (if iterative then rxcp_get_n_uncompiled out_name (summary rgxs) else Inr 0) of
        Inl e \<Rightarrow> Some (Inl e)
      | Inr n_uncompiled \<Rightarrow>
          if n_uncompiled \<le> 0 then Some (Inr (db_out, n_it))
          else
            (case filter_rxpc S ulog db_out True True max_rules of
               Inl e \<Rightarrow> Some (Inl e)
             | Inr (rgxs', db_out') \<Rightarrow>
                 rxpc_loop S ulog summary out_name iterative max_rules rgxs' db_out' (n_it + 1)))"

definition full_rxpc_filter ::
  "'r suricata \<Rightarrow> (string list \<Rightarrow> string list) \<Rightarrow> (string list \<Rightarrow> string list) \<Rightarrow> string \<Rightarrow> string list
     \<Rightarrow> bool \<Rightarrow> nat \<Rightarrow> (string list \<times> nat) res option" where
  "full_rxpc_filter S ulog summary out_name db_in iterative max_rules =
     (case filter_rxpc S ulog db_in True True max_rules of
        Inl e \<Rightarrow> Some (Inl e)
      | Inr (rgxs, db_out) \<Rightarrow> rxpc_loop S ulog summary out_name iterative max_rules rgxs db_out 1)"

section \<open>Prefixes and rules from patterns\<close>

fun combinations :: "nat \<Rightarrow> 'a list \<Rightarrow> 'a list list" where
  "combinations 0 xs = [[]]"
| "combinations (Suc k) [] = []"
| "combinations (Suc k) (x # xs) = map (\<lambda>c. x # c) (combinations k xs) @ combinations (Suc k) xs"

definition alphabet :: string where
  "alphabet = map char_of [97 ..< 123 :: nat] @ map char_of [65 ..< 91 :: nat]"

definition gen_prefixes :: "int \<Rightarrow> int \<Rightarrow> string list res" where
  "gen_prefixes prefix_size max_prefixes =
     (if prefix_size < 0 then Inl ValueError
      else Inr (map snd (filter (\<lambda>(i, c). int i < max_prefixes)
        (enumerate 0 (combinations (nat prefix_size) alphabet)))))"

definition rules_from_patterns :: "'r suricata \<Rightarrow> string list \<Rightarrow> string list" where
  "rules_from_patterns S file_lines =
     map (\<lambda>(i, p). rule_str S
        (add_option S ''sid'' (VInt (int i))
          (add_option S ''content'' (VStr p) (new_rule S ''alert'' ''tcp any any -> any any''))))
       (enumerate 0 (rule_lines file_lines))"

section \<open>Compressed patterns\<close>

text \<open>\<^verbatim>\<open>range(0, n, factor)\<close> raises when the step is zero and is empty when it is negative.  The
  groups go to the trie library, each as one list.\<close>

function chunks :: "nat \<Rightarrow> 'a list \<Rightarrow> 'a list list" where
  "chunks k xs = (if k = 0 \<or> xs = [] then [] else take k xs # chunks k (drop k xs))"
  by pat_completeness auto
termination
  by (relation "measure (\<lambda>(k, xs). length xs)") auto

declare chunks.simps [simp del]

definition compress_patterns ::
  "'r suricata \<Rightarrow> (string list \<Rightarrow> string list) \<Rightarrow> (string list \<Rightarrow> string) \<Rightarrow> line_source \<Rightarrow> int \<Rightarrow> string list res" where
  "compress_patterns S so tre inputs factor =
     res_bind (res_map (parse_rule S) (provide_lines inputs True)) (\<lambda>rules.
     res_bind (res_map (\<lambda>(n, v). unquote_val v) (concat (map (get_option S ''content'') rules))) (\<lambda>patterns.
     if factor = 0 then Inl ValueError
     else Inr (map tre (chunks (nat factor) (so patterns)))))"

definition rgx_list_to_rxpc :: "line_source \<Rightarrow> string list" where
  "rgx_list_to_rxpc inputs =
     map (\<lambda>(i, rgx). nat_str (i + 1) @ '', /'' @ rgx @ ''/'') (enumerate 0 (provide_lines inputs True))"

section \<open>What escaping does\<close>

text \<open>One pass that puts a backslash before the characters \<open>cs\<close>, unless one stands there;
  \<open>pb\<close> says whether the last character read is a backslash.\<close>

fun esc :: "string \<Rightarrow> bool \<Rightarrow> string \<Rightarrow> string" where
  "esc cs pb [] = []"
| "esc cs pb (c # s) = (if c \<in> set cs \<and> \<not> pb then [CHR 0x5C, c] else [c]) @ esc cs (c = CHR 0x5C) s"

lemma match_unescaped:
  "match_at (unescaped c) b a =
    (case a of [] \<Rightarrow> None
     | x # a' \<Rightarrow> if x = c \<and> \<not> (b \<noteq> [] \<and> hd b = CHR 0x5C) then Some (x # b, a', []) else None)"
  by (cases a) (auto simp: match_at_def unescaped_def)

lemma sub_unescaped:
  "sub_from (unescaped c) (\<lambda>w. [CHR 0x5C, c]) b a = esc [c] (b \<noteq> [] \<and> hd b = CHR 0x5C) a"
proof (induction a arbitrary: b)
  case Nil
  show ?case by (subst sub_from.simps) (simp add: match_unescaped)
next
  case (Cons x a)
  show ?case by (subst sub_from.simps) (auto simp: match_unescaped Cons.IH)
qed

lemma esc_esc:
  "d \<notin> set cs \<Longrightarrow> d \<noteq> CHR 0x5C \<Longrightarrow> CHR 0x5C \<notin> set cs \<Longrightarrow> esc [d] pb (esc cs pb s) = esc (d # cs) pb s"
  by (induction cs pb s rule: esc.induct) auto

lemma esc_idem: "CHR 0x5C \<notin> set cs \<Longrightarrow> esc cs pb (esc cs pb s) = esc cs pb s"
  by (induction cs pb s rule: esc.induct) auto

lemma escape_chars_pass: "escape_chars = esc ''$}{^'' False"
proof (rule ext)
  fix s
  have one: "re_sub (unescaped c) (\<lambda>w. [CHR 0x5C, c]) t = esc [c] False t" for c t
    by (simp add: re_sub_def sub_unescaped)
  show "escape_chars s = esc ''$}{^'' False s" by (simp add: escape_chars_def one esc_esc)
qed

text \<open>A class starts at a bracket and ends at the first closing one after it.\<close>

function fix_classes :: "string \<Rightarrow> string" where
  "fix_classes [] = []"
| "fix_classes (c # s) =
     (if c = CHR ''['' \<and> CHR '']'' \<in> set s
      then esc ''$}{^'' False (CHR ''['' # takeWhile (\<lambda>x. x \<noteq> CHR '']'') s @ [CHR '']'']) @
           fix_classes (tl (dropWhile (\<lambda>x. x \<noteq> CHR '']'') s))
      else c # fix_classes s)"
  by pat_completeness auto
termination
  by (relation "measure length") (auto simp: less_Suc_eq_le intro: order_trans [OF diff_le_self length_dropWhile_le])

lemma class_split:
  "CHR '']'' \<in> set s \<Longrightarrow> \<exists>t. dropWhile (\<lambda>x. x \<noteq> CHR '']'') s = CHR '']'' # t"
  by (induction s) auto

lemma class_none: "CHR '']'' \<notin> set s \<Longrightarrow> dropWhile (\<lambda>x. x \<noteq> CHR '']'') s = []"
  by (induction s) auto

lemma match_class:
  "match_at re_class b a =
    (case a of [] \<Rightarrow> None
     | c # s \<Rightarrow> if c = CHR ''['' \<and> CHR '']'' \<in> set s
         then Some (CHR '']'' # rev (takeWhile (\<lambda>x. x \<noteq> CHR '']'') s) @ c # b,
                    tl (dropWhile (\<lambda>x. x \<noteq> CHR '']'') s), [])
         else None)"
proof (cases a)
  case (Cons c s)
  let ?P = "\<lambda>x. x \<noteq> CHR '']''"
  have star: "rmatch (RSeq (RStar (RClass ?P)) (rlit '']'')) (b', a', g) =
      rmatch (rlit '']'') (rev (takeWhile ?P a') @ b', dropWhile ?P a', g)" for b' a' g
    using star_class_refused [of ?P "rmatch (rlit '']'')" g] by (simp add: rlit_match)
  have "rmatch re_class (b, c # s, []) = (if c = CHR ''['' then rmatch (rlit '']'')
      (rev (takeWhile ?P s) @ c # b, dropWhile ?P s, []) else [])"
    unfolding re_class_def rmatch_lit_seq star by simp
  then have step: "match_at re_class b (c # s) = (case (if c = CHR ''['' then rmatch (rlit '']'')
      (rev (takeWhile ?P s) @ c # b, dropWhile ?P s, []) else []) of [] \<Rightarrow> None | m # _ \<Rightarrow> Some m)"
    by (simp only: match_at_def)
  show ?thesis
  proof (cases "CHR '']'' \<in> set s")
    case True
    then obtain t where t: "dropWhile ?P s = CHR '']'' # t" using class_split by blast
    show ?thesis unfolding Cons list.case step t using True by (simp add: rlit_match)
  next
    case False
    show ?thesis unfolding Cons list.case step class_none [OF False] using False by (simp add: rlit_match)
  qed
qed (simp add: match_at_def re_class_def rlit_match)

lemma class_text:
  assumes "CHR '']'' \<in> set s"
  shows "take (length s - length (tl (dropWhile (\<lambda>x. x \<noteq> CHR '']'') s))) s = takeWhile (\<lambda>x. x \<noteq> CHR '']'') s @ [CHR '']'']"
proof -
  let ?P = "\<lambda>x. x \<noteq> CHR '']''"
  obtain t where t: "dropWhile ?P s = CHR '']'' # t" using class_split [OF assms] by blast
  have "s = (takeWhile ?P s @ [CHR '']'']) @ t" using takeWhile_dropWhile_id [of ?P s] t by simp
  then show ?thesis unfolding t by (metis append_eq_conv_conj diff_add_inverse2 length_append list.sel(3))
qed

lemma sub_class: "sub_from re_class escape_chars b s = fix_classes s"
proof (induction s arbitrary: b rule: fix_classes.induct)
  case 1
  show ?case by (subst sub_from.simps) (simp add: match_class)
next
  case (2 c s)
  let ?t = "tl (dropWhile (\<lambda>x. x \<noteq> CHR '']'') s)"
  have len: "length ?t \<le> length s" by (simp add: order_trans [OF diff_le_self length_dropWhile_le])
  then have take: "take (length (c # s) - length ?t) (c # s) = c # take (length s - length ?t) s"
    by (simp add: Suc_diff_le)
  show ?case
  proof (cases "c = CHR ''['' \<and> CHR '']'' \<in> set s")
    case True
    then obtain t where t: "dropWhile (\<lambda>x. x \<noteq> CHR '']'') s = CHR '']'' # t" using class_split by blast
    have "take (length (c # s) - length t) (c # s) = c # takeWhile (\<lambda>x. x \<noteq> CHR '']'') s @ [CHR '']'']"
      "length t < length (c # s)"
      using take len class_text [of s] True unfolding t by simp_all
    then show ?thesis using "2.IH"(1) True unfolding t
      by (subst sub_from.simps) (simp add: match_class t escape_chars_pass del: esc.simps)
  next
    case False
    then have "match_at re_class b (c # s) = None" and "fix_classes (c # s) = c # fix_classes s"
      by (auto simp: match_class)
    then show ?thesis using "2.IH"(2) [OF False] by (subst sub_from.simps) simp
  qed
qed

lemma esc_close: "esc ''$}{^'' pb (t @ '']'') = esc ''$}{^'' pb t @ '']''"
  by (induction "''$}{^''" pb t rule: esc.induct) simp_all

text \<open>The classes of a pattern for Hyperscan.  The substitutions, one inside the other, put a
  backslash before every caret, brace and dollar of a class that has none, once and for all, and
  change nothing outside of classes.  The caret that negates a class is one of them: a class of
  everything but \<open>t\<close> becomes the class of a caret and \<open>t\<close>.\<close>

theorem fix_pattern_classes:
  "fix_pattern s = fix_classes s \<and> escape_chars (escape_chars s) = escape_chars s \<and>
   (CHR '']'' \<notin> set t \<longrightarrow> fix_pattern (''[^'' @ t @ '']'' @ r) =
     [CHR ''['', CHR 0x5C, CHR ''^''] @ esc ''$}{^'' False t @ '']'' @ fix_pattern r)"
proof (intro conjI impI)
  show eq: "fix_pattern s = fix_classes s" for s
    by (simp add: fix_pattern_def re_sub_def sub_class)
  show "escape_chars (escape_chars s) = escape_chars s"
    by (simp add: escape_chars_pass esc_idem)
  assume t: "CHR '']'' \<notin> set t"
  have "takeWhile (\<lambda>x. x \<noteq> CHR '']'') (t @ CHR '']'' # r) = t"
    "dropWhile (\<lambda>x. x \<noteq> CHR '']'') (t @ CHR '']'' # r) = CHR '']'' # r"
    using t by (simp_all add: takeWhile_append dropWhile_append)
  then show "fix_pattern (''[^'' @ t @ '']'' @ r) =
     [CHR ''['', CHR 0x5C, CHR ''^''] @ esc ''$}{^'' False t @ '']'' @ fix_pattern r"
    by (simp add: eq esc_close)
qed

theorem fix_pattern_classes_witness:
  "fix_pattern ''[^a]$'' = [CHR ''['', CHR 0x5C, CHR ''^''] @ ''a]$''"
proof -
  have "fix_pattern ''$'' = ''$''" by code_simp
  then show ?thesis using fix_pattern_classes [of s "''a''" "''$''" for s] by simp
qed

section \<open>The filter by the checker of Hyperscan\<close>

text \<open>The patterns a rule gives, PCREs first; all patterns of a file; and the \<^verbatim>\<open>sid\<close> of each.\<close>

definition hs_pats :: "'r suricata \<Rightarrow> string \<Rightarrow> string list" where
  "hs_pats S l =
     map unquote (opt_strs (get_option S ''pcre'' (the_rule S l))) @
     map (\<lambda>s. ''/'' @ suricata_content_to_regex (unquote s) @ ''/'')
       (opt_strs (get_option S ''content'' (the_rule S l)))"

definition file_pats :: "'r suricata \<Rightarrow> string list \<Rightarrow> string list" where
  "file_pats S ls = concat (map (hs_pats S) ls)"

definition file_sids :: "'r suricata \<Rightarrow> string list \<Rightarrow> oval list" where
  "file_sids S ls = concat (map (\<lambda>l. replicate (length (hs_pats S l)) (sid_of S l)) ls)"

lemma res_map_strs:
  "str_opts os \<Longrightarrow> res_map (\<lambda>(n, v). unquote_val v) os = Inr (map unquote (opt_strs os))"
  "str_opts os \<Longrightarrow> res_map (\<lambda>(n, v). res_bind (unquote_val v) (\<lambda>s. Inr (f s))) os = Inr (map (\<lambda>s. f (unquote s)) (opt_strs os))"
  by (induction os) (auto simp: str_opts_def opt_strs_def unquote_val_def)

lemma rule_patterns_spec:
  assumes "readable S l" shows "rule_patterns S l = Inr (sid_of S l, hs_pats S l)"
proof -
  have ok: "str_opts (get_option S ''content'' (the_rule S l))" "str_opts (get_option S ''pcre'' (the_rule S l))"
    using assms by (auto simp: readable_def the_rule_def)
  show ?thesis
    using readable_sid [OF assms] by (simp add: rule_patterns_def res_map_strs ok hs_pats_def)
qed

lemma to_hyperscan_rules:
  assumes "\<And>l. l \<in> set (rule_lines file_lines) \<Longrightarrow> readable S l"
  shows "to_hyperscan S file_lines False tools True =
    res_bind (res_map (hs_line tools) (enumerate 0 (file_pats S (rule_lines file_lines))))
      (\<lambda>hs. Inr (hs, Some (enumerate 0 (file_sids S (rule_lines file_lines)))))"
proof -
  have "res_map (rule_patterns S) (rule_lines file_lines) =
      Inr (map (\<lambda>l. (sid_of S l, hs_pats S l)) (rule_lines file_lines))"
    by (rule res_map_total) (simp add: rule_patterns_spec assms)
  then show ?thesis by (simp add: to_hyperscan_def file_pats_def file_sids_def comp_def)
qed

text \<open>The numbers of the patterns a report refuses.\<close>

definition refused_ids :: "string \<Rightarrow> int list res" where
  "refused_ids out =
     res_bind (res_map (\<lambda>l. let els = split_char (CHR '':'') l
         in if length els \<le> 3 \<or> els ! 0 \<in> {''OK'', ''SUMMARY''} then Inr []
            else res_bind (py_int (strip (els ! 1))) (\<lambda>i. Inr [i])) (split_char (CHR 0x0A) out))
     (\<lambda>r. Inr (concat r))"

lemma hscheck_report:
  assumes "refused_ids out = Inr bad"
  shows "res_bind (res_map (hscheck_line (enumerate 0 sids)) (split_char (CHR 0x0A) out)) (\<lambda>r. Inr (concat r)) =
    (if \<forall>i \<in> set bad. 0 \<le> i \<and> i < int (length sids) then Inr (map (\<lambda>i. sids ! nat i) bad) else Inl KeyError)"
proof -
  let ?ids = "\<lambda>l. let els = split_char (CHR '':'') l
         in if length els \<le> 3 \<or> els ! 0 \<in> {''OK'', ''SUMMARY''} then Inr []
            else res_bind (py_int (strip (els ! 1))) (\<lambda>i. Inr [i])"
  have one: "hscheck_line (enumerate 0 sids) l =
      (if \<forall>i \<in> set is. 0 \<le> i \<and> i < int (length sids) then Inr (map (\<lambda>i. sids ! nat i) is) else Inl KeyError)"
    if "?ids l = Inr is" for l "is"
    using that by (cases "py_int (strip (split_char (CHR '':'') l ! 1))")
      (auto simp: hscheck_line_def Let_def map_of_enumerate nat_less_iff split: if_split_asm)
  have "res_bind (res_map (hscheck_line (enumerate 0 sids)) ls) (\<lambda>r. Inr (concat r)) =
    (if \<forall>i \<in> set bad. 0 \<le> i \<and> i < int (length sids) then Inr (map (\<lambda>i. sids ! nat i) bad) else Inl KeyError)"
    if "res_bind (res_map ?ids ls) (\<lambda>r. Inr (concat r)) = Inr bad" for ls bad
    using that
  proof (induction ls arbitrary: bad)
    case (Cons l ls)
    from Cons.prems obtain "is" bad' where ids: "?ids l = Inr is" "res_bind (res_map ?ids ls) (\<lambda>r. Inr (concat r)) = Inr bad'"
      "bad = is @ bad'" by (auto simp del: Let_def)
    show ?case using one [OF ids(1)] Cons.IH [OF ids(2)]
      by (cases "res_map (hscheck_line (enumerate 0 sids)) ls") (auto simp: ids(3) split: if_split_asm)
  qed simp
  then show ?thesis using assms by (simp add: refused_ids_def)
qed


text \<open>C22: the filter by the checker of Hyperscan.  The pattern file numbers the patterns from 1, and
  the checker names the ones it refuses by these numbers; the filter looks a number up in a table
  that counts from 0.  It drops the rules whose \<^verbatim>\<open>sid\<close> is that of the pattern after a refused one,
  and fails when the last pattern is refused.\<close>

theorem filter_hyperscan_shifted:
  assumes "\<And>l. l \<in> set (rule_lines db) \<Longrightarrow> readable S l"
    and "pats = file_pats S (rule_lines db)" and "sids = file_sids S (rule_lines db)"
    and "res_map (hs_line True) (enumerate 0 pats) = Inr lines"
    and "hscheck (map (\<lambda>l. l @ [CHR 0x0A]) lines) = (0, out)" and "refused_ids out = Inr bad"
  shows "(\<forall>i < length pats. re_search re_slashed (pats ! i) \<noteq> None \<longrightarrow>
      startswith (nat_str (i + 1) @ '':'') (lines ! i)) \<and>
    filter_hyperscan S hscheck db =
      (if \<forall>i \<in> set bad. 0 \<le> i \<and> i < int (length pats)
       then Inr (map (\<lambda>l. l @ [CHR 0x0A])
         (filter (\<lambda>l. \<forall>i \<in> set bad. sids ! nat i \<noteq> sid_of S l) (rule_lines db)))
       else Inl KeyError)"
proof
  have len: "length sids = length pats"
    by (simp add: assms(2,3) file_pats_def file_sids_def length_concat comp_def)
  show "\<forall>i < length pats. re_search re_slashed (pats ! i) \<noteq> None \<longrightarrow> startswith (nat_str (i + 1) @ '':'') (lines ! i)"
  proof (intro allI impI)
    fix i assume i: "i < length pats" "re_search re_slashed (pats ! i) \<noteq> None"
    have "hs_line True (i, pats ! i) = Inr (lines ! i)"
      using res_map_nth [OF assms(4), of i] i(1) by (simp add: nth_enumerate_eq)
    then show "startswith (nat_str (i + 1) @ '':'') (lines ! i)"
      using i(2) by (auto simp: hs_line_def startswith_iff Let_def split: if_split_asm list.splits
        dest!: sym [of _ "lines ! i"])
  qed
  have keep: "drop_excluded S bad db = Inr (map (\<lambda>l. l @ [CHR 0x0A]) (filter (\<lambda>l. sid_of S l \<notin> set bad) (rule_lines db)))" for bad
  proof -
    have "res_map (\<lambda>l. res_bind (parse_rule S l) (\<lambda>r. res_bind (rule_sid S r) (\<lambda>sid.
              Inr (if sid \<notin> set bad then [l @ [CHR 0x0A]] else [])))) (rule_lines db) =
        Inr (map (\<lambda>l. if sid_of S l \<notin> set bad then [l @ [CHR 0x0A]] else []) (rule_lines db))"
      by (rule res_map_total) (use assms(1) readable_sid in fastforce)
    then show ?thesis by (simp add: drop_excluded_def concat_if_single)
  qed
  have hs: "to_hyperscan S db False True True = Inr (lines, Some (enumerate 0 sids))"
    using assms(4) unfolding assms(2,3) by (subst to_hyperscan_rules) (auto dest: assms(1))
  have "filter_hyperscan S hscheck db =
      res_bind (res_bind (res_map (hscheck_line (enumerate 0 sids)) (split_char (CHR 0x0A) out)) (\<lambda>r. Inr (concat r)))
        (\<lambda>bad. drop_excluded S bad db)"
    using assms(5) unfolding filter_hyperscan_def hs hs_excluded_def by simp
  moreover have "sid_of S l \<notin> set (map (\<lambda>i. sids ! nat i) bad) \<longleftrightarrow> (\<forall>i \<in> set bad. sids ! nat i \<noteq> sid_of S l)" for l
    by (metis (no_types, lifting) image_iff set_map)
  ultimately show "filter_hyperscan S hscheck db = (if \<forall>i \<in> set bad. 0 \<le> i \<and> i < int (length pats)
       then Inr (map (\<lambda>l. l @ [CHR 0x0A])
         (filter (\<lambda>l. \<forall>i \<in> set bad. sids ! nat i \<noteq> sid_of S l) (rule_lines db)))
       else Inl KeyError)"
    unfolding hscheck_report [OF assms(6)] len by (simp only: keep res_bind_simps split: if_split) simp
qed


theorem filter_hyperscan_shifted_witness:
  "filter_hyperscan demo_suricata (\<lambda>f. (0, ''BAD:1:pattern:0'')) [''1'' @ [CHR 0x0A], ''3'' @ [CHR 0x0A]] =
     Inr [''1'' @ [CHR 0x0A]]"
proof -
  let ?db = "[''1'' @ [CHR 0x0A], ''3'' @ [CHR 0x0A]]"
  have lines: "rule_lines ?db = [''1'', ''3'']" by code_simp
  have a: "suricata_content_to_regex (unquote ''a'') = ''a''" by code_simp
  have rule: "the_rule demo_suricata l =
      (''alert tcp'', [(''sid'', VStr l), (''content'', VStr (if l = ''2'' then ''!b'' else ''a''))])" for l
    by (simp add: the_rule_def demo_suricata_def)
  have opts: "get_option demo_suricata n r = filter (\<lambda>p. fst p = n) (snd r)" for n r
    by (simp add: demo_suricata_def)
  have sid: "sid_of demo_suricata l = VStr l" for l by (simp add: sid_of_def rule opts)
  have pats: "hs_pats demo_suricata l = [''/a/'']" if "l \<noteq> ''2''" for l
    using that by (simp add: hs_pats_def rule opts opt_strs_def a)
  have fp: "file_pats demo_suricata (rule_lines ?db) = [''/a/'', ''/a/'']"
    and fs: "file_sids demo_suricata (rule_lines ?db) = [VStr ''1'', VStr ''3'']"
    unfolding lines by (simp_all add: file_pats_def file_sids_def pats sid)
  have hs: "res_map (hs_line True) (enumerate 0 [''/a/'', ''/a/'']) = Inr [''1:/a/'', ''2:/a/'']"
    by code_simp
  have ids: "refused_ids ''BAD:1:pattern:0'' = Inr [1]" by code_simp
  have "filter_hyperscan demo_suricata (\<lambda>f. (0, ''BAD:1:pattern:0'')) ?db =
      (if \<forall>i \<in> set [1]. 0 \<le> i \<and> i < int (length [''/a/'', ''/a/''])
       then Inr (map (\<lambda>l. l @ [CHR 0x0A])
         (filter (\<lambda>l. \<forall>i \<in> set [1]. [VStr ''1'', VStr ''3''] ! nat i \<noteq> sid_of demo_suricata l) (rule_lines ?db)))
       else Inl KeyError)"
    by (rule conjunct2 [OF filter_hyperscan_shifted [OF demo_readable fp [symmetric] fs [symmetric] hs refl ids]])
  then show ?thesis unfolding lines by (simp add: sid)
qed

section \<open>The working set is found\<close>

lemma set_read_lines: "set (read_lines S ip il m i ls) \<subseteq> set ls"
  by (induction S ip il m i ls rule: read_lines.induct) auto

lemma set_pat_sids: "set (pat_sids S ip il T) \<subseteq> sid_of S ` set T"
  by (induction T) (auto simp: set_replicate_conv_if split: if_split_asm)

text \<open>The lines of rules come back from the file they are written to.\<close>

lemma strip_line_break: "strip (l @ [CHR 0x0A]) = strip l"
proof -
  have nl: "py_isspace (CHR 0x0A)" by (simp add: py_isspace_def)
  show ?thesis
  proof (cases "\<forall>c \<in> set l. py_isspace c")
    case True
    then have "strip l = []" "strip (l @ [CHR 0x0A]) = []" using nl by (auto simp: strip_eq_Nil_iff)
    then show ?thesis by simp
  next
    case False
    then have "lstrip (l @ [CHR 0x0A]) = lstrip l @ [CHR 0x0A]"
      by (auto simp: lstrip_def dropWhile_append)
    then show ?thesis using nl by (simp add: strip_def rstrip_def)
  qed
qed

definition rule_line :: "string \<Rightarrow> bool" where
  "rule_line l \<longleftrightarrow> strip l = l \<and> l \<noteq> [] \<and> CHR 0x0A \<notin> set l \<and> \<not> startswith ''#'' l"

lemma rule_lines_lines: "l \<in> set (rule_lines db) \<Longrightarrow> rule_line l"
proof -
  assume "l \<in> set (rule_lines db)"
  then obtain u where u: "length (strip u) \<noteq> 0" "l = strip (replace_str [CHR 0x0A] [] u)" "\<not> startswith ''#'' l"
    by (auto simp: rule_lines_def filter_whitespace_def)
  have "\<exists>c \<in> set u. \<not> py_isspace c" using u(1) strip_eq_Nil_iff by fastforce
  moreover have "py_isspace (CHR 0x0A)" by (simp add: py_isspace_def)
  ultimately have "\<exists>c \<in> set (replace_str [CHR 0x0A] [] u). \<not> py_isspace c"
    by (auto simp: replace_char_away)
  then have "l \<noteq> []" unfolding u(2) strip_eq_Nil_iff by blast
  moreover have "CHR 0x0A \<notin> set l"
    unfolding u(2) using set_strip [of "replace_str [CHR 0x0A] [] u"] by (auto simp: replace_char_away)
  ultimately show ?thesis using u(2,3) by (simp add: rule_line_def)
qed

lemma rule_lines_written:
  assumes "\<forall>l \<in> set ls. rule_line l" shows "rule_lines (map (\<lambda>l. l @ [CHR 0x0A]) ls) = ls"
proof -
  have "filter_whitespace (map (\<lambda>l. l @ [CHR 0x0A]) ls) = ls"
    using assms unfolding filter_whitespace_def
    by (induction ls) (auto simp: rule_line_def strip_line_break replace_char_away filter_id_conv)
  then show ?thesis using assms unfolding rule_lines_def
    by (simp add: rule_line_def map_idI filter_id_conv [THEN iffD2])
qed

lemma rxpc_run_shrinks:
  assumes readable: "\<And>l. l \<in> set (rule_lines db) \<Longrightarrow> readable S l"
    and run: "filter_rxpc S ulog db ip il m = Inr (rgxs, out)"
  shows "subseq (rule_lines out) (rule_lines db) \<and> out = map (\<lambda>l. l @ [CHR 0x0A]) (rule_lines out) \<and>
    (uncompiled_of (ulog rgxs) \<noteq> Inr [] \<longrightarrow> length (rule_lines out) < length (rule_lines db))"
proof -
  let ?T = "read_lines S ip il m 1 (rule_lines db)"
  let ?rgxs = "rxpc_lines 1 (all_pats S ip il ?T)"
  have "\<exists>bad. uncompiled_of (ulog ?rgxs) = Inr bad"
  proof (cases "uncompiled_of (ulog ?rgxs)")
    case (Inl e)
    then show ?thesis
      using run rxpc_rules_spec [of "rule_lines db" S ip il m
          "\<lparr>next_id = 1, in_rgxs = [], id2sid = [], excluded_sids = [], initial_sids = []\<rparr>", OF readable]
      by (auto simp: filter_rxpc_def)
  qed simp
  then obtain bad where bad: "uncompiled_of (ulog ?rgxs) = Inr bad" by blast
  let ?P = "\<lambda>l. (\<exists>t \<in> set ?T. sid_of S t = sid_of S l) \<and>
         (\<forall>t \<in> set ?T. sid_of S t = sid_of S l \<longrightarrow> \<not> line_bad S ip il t) \<and>
         (\<forall>j \<in> set bad. pat_sids S ip il ?T ! (j - 1) \<noteq> sid_of S l)"
  have range: "\<forall>j \<in> set bad. 1 \<le> j \<and> j \<le> length (all_pats S ip il ?T)"
    and eq: "rgxs = ?rgxs" "out = map (\<lambda>l. l @ [CHR 0x0A]) (filter ?P (rule_lines db))"
    using filter_rxpc_run [of db S ?T ip il m ?rgxs ulog bad, OF readable refl refl bad] run
    by (auto split: if_split_asm)
  have lines: "rule_lines out = filter ?P (rule_lines db)"
    unfolding eq(2) by (rule rule_lines_written) (auto dest: rule_lines_lines)
  have "length (filter ?P (rule_lines db)) < length (rule_lines db)" if ne: "bad \<noteq> []"
  proof -
    obtain j where j: "j \<in> set bad" using ne by (cases bad) auto
    have "j - 1 < length (pat_sids S ip il ?T)" using range j by (auto simp: length_pat_sids)
    then have "pat_sids S ip il ?T ! (j - 1) \<in> sid_of S ` set ?T" using set_pat_sids nth_mem by blast
    then obtain t where "t \<in> set ?T" "pat_sids S ip il ?T ! (j - 1) = sid_of S t" by auto
    then have "t \<in> set (rule_lines db)" "\<not> ?P t" using set_read_lines j by blast+
    then show ?thesis by (rule length_filter_less)
  qed
  then show ?thesis using bad eq lines by auto
qed

text \<open>The runs of the loop: what is written is the output of some run, over the lines the run before
  wrote, and that run left no rule uncompiled when the loop is iterative.\<close>

definition settled ::
  "'r suricata \<Rightarrow> (string list \<Rightarrow> string list) \<Rightarrow> (string list \<Rightarrow> string list) \<Rightarrow> string \<Rightarrow> bool \<Rightarrow> nat
     \<Rightarrow> string list \<Rightarrow> string list \<Rightarrow> bool" where
  "settled S ulog summary out_name iterative max_rules db out \<longleftrightarrow>
     (\<exists>db' rgxs. subseq (rule_lines db') (rule_lines db) \<and>
        filter_rxpc S ulog db' True True max_rules = Inr (rgxs, out) \<and>
        (iterative \<longrightarrow> (\<exists>k \<le> 0. rxcp_get_n_uncompiled out_name (summary rgxs) = Inr k)))"

lemma rxpc_loop_returns:
  assumes law: "\<And>rgxs k. rxcp_get_n_uncompiled out_name (summary rgxs) = Inr k \<Longrightarrow> 0 < k \<Longrightarrow> uncompiled_of (ulog rgxs) \<noteq> Inr []"
    and "\<And>l. l \<in> set (rule_lines db) \<Longrightarrow> readable S l"
    and "filter_rxpc S ulog db True True m = Inr (rgxs, out)"
  shows "\<exists>r. rxpc_loop S ulog summary out_name iterative m rgxs out n_it = Some r \<and>
    (\<forall>out' n. r = Inr (out', n) \<longrightarrow> n \<le> n_it + length (rule_lines db) \<and>
       settled S ulog summary out_name iterative m db out')"
  using assms(2,3)
proof (induction "length (rule_lines db)" arbitrary: db rgxs out n_it rule: less_induct)
  case less
  note shrink = rxpc_run_shrinks [OF less.prems(1) less.prems(2)]
  let ?left = "if iterative then rxcp_get_n_uncompiled out_name (summary rgxs) else Inr 0"
  show ?case
  proof (cases ?left)
    case (Inl e)
    then show ?thesis by (subst rxpc_loop.simps) simp
  next
    case left: (Inr k)
    show ?thesis
    proof (cases "k \<le> 0")
      case True
      then have "settled S ulog summary out_name iterative m db out"
        using less.prems(2) left unfolding settled_def by (auto split: if_split_asm)
      then show ?thesis using left True by (subst rxpc_loop.simps) simp
    next
      case False
      then have iter: "iterative" "rxcp_get_n_uncompiled out_name (summary rgxs) = Inr k"
        using left by (auto split: if_split_asm)
      then have "uncompiled_of (ulog rgxs) \<noteq> Inr []" using law False by simp
      then have shorter: "length (rule_lines out) < length (rule_lines db)"
        and sub: "subseq (rule_lines out) (rule_lines db)" using shrink by blast+
      show ?thesis
      proof (cases "filter_rxpc S ulog out True True m")
        case (Inl e)
        then show ?thesis using iter False by (subst rxpc_loop.simps) simp
      next
        case (Inr p)
        obtain rgxs' out' where p: "p = (rgxs', out')" by (cases p)
        have "set (rule_lines out) \<subseteq> set (rule_lines db)" using sub by (auto elim: list_emb_set)
        then have "\<And>l. l \<in> set (rule_lines out) \<Longrightarrow> readable S l" using less.prems(1) by blast
        then obtain r where r: "rxpc_loop S ulog summary out_name iterative m rgxs' out' (n_it + 1) = Some r"
          "\<And>o' n. r = Inr (o', n) \<Longrightarrow> n \<le> n_it + 1 + length (rule_lines out) \<and>
             settled S ulog summary out_name iterative m out o'"
          using less.hyps [OF shorter _ Inr [unfolded p], of "n_it + 1"] by blast
        have "rxpc_loop S ulog summary out_name iterative m rgxs out n_it = Some r"
          using iter False Inr p r(1) by (subst rxpc_loop.simps) simp
        moreover have "n \<le> n_it + length (rule_lines db) \<and> settled S ulog summary out_name iterative m db o'"
          if "r = Inr (o', n)" for o' n
          using r(2) [OF that] shorter sub unfolding settled_def by (auto intro: subseq_order.trans)
        ultimately show ?thesis by blast
      qed
    qed
  qed
qed

lemma working_set_found:
  assumes "\<And>rgxs k. rxcp_get_n_uncompiled out_name (summary rgxs) = Inr k \<Longrightarrow> 0 < k \<Longrightarrow>
      uncompiled_of (ulog rgxs) \<noteq> Inr []"
    and "\<And>l. l \<in> set (rule_lines db) \<Longrightarrow> readable S l"
  shows "\<exists>r. full_rxpc_filter S ulog summary out_name db iterative m = Some r \<and>
    (\<forall>out n. r = Inr (out, n) \<longrightarrow> n \<le> 1 + length (rule_lines db) \<and>
       settled S ulog summary out_name iterative m db out)"
proof (cases "filter_rxpc S ulog db True True m")
  case (Inl e)
  then show ?thesis by (simp add: full_rxpc_filter_def)
next
  case (Inr p)
  then show ?thesis
    using rxpc_loop_returns [of out_name summary ulog db S m "fst p" "snd p" iterative 1, OF assms]
    by (cases p) (simp add: full_rxpc_filter_def)
qed

text \<open>The working set is found.  When a positive count of uncompiled rules in the summary of the
  compiler comes with an index in its log, the iterative filter ends, after at most one run more
  than there are rules; what it writes is the output of its last run, in which the compiler left
  nothing uncompiled.\<close>

theorem full_rxpc_filter_terminates:
  assumes "\<And>rgxs k. rxcp_get_n_uncompiled out_name (summary rgxs) = Inr k \<Longrightarrow> 0 < k \<Longrightarrow>
      uncompiled_of (ulog rgxs) \<noteq> Inr []"
    and "\<And>l. l \<in> set (rule_lines db) \<Longrightarrow> readable S l"
  shows "\<exists>r. full_rxpc_filter S ulog summary out_name db iterative m = Some r \<and>
    (\<forall>out n. r = Inr (out, n) \<longrightarrow> n \<le> 1 + length (rule_lines db) \<and>
       settled S ulog summary out_name iterative m db out)"
  using assms by (rule working_set_found)

theorem full_rxpc_filter_terminates_witness:
  "\<exists>r. full_rxpc_filter demo_suricata (\<lambda>f. if length f = 2 then [''Rule_index: 2''] else [])
      (\<lambda>f. if length f = 2 then [''Total number of uncompiled rules,1''] else [''Total number of uncompiled rules,0''])
      ''w'' [''1'' @ [CHR 0x0A], ''3'' @ [CHR 0x0A]] True 100 = Some r \<and>
    (\<forall>out n. r = Inr (out, n) \<longrightarrow> n \<le> 3)"
proof -
  let ?ulog = "\<lambda>f. if length f = 2 then [''Rule_index: 2''] else []"
  let ?sum = "\<lambda>f :: string list. if length f = 2 then [''Total number of uncompiled rules,1''] else [''Total number of uncompiled rules,0'']"
  let ?db = "[''1'' @ [CHR 0x0A], ''3'' @ [CHR 0x0A]]"
  have "rxcp_get_n_uncompiled ''w'' [''Total number of uncompiled rules,0''] = Inr 0" by code_simp
  moreover have "uncompiled_of [''Rule_index: 2''] = Inr [2]" by code_simp
  ultimately have law: "uncompiled_of (?ulog rgxs) \<noteq> Inr []"
    if "rxcp_get_n_uncompiled ''w'' (?sum rgxs) = Inr k" "0 < k" for rgxs :: "string list" and k
    using that by (auto split: if_split_asm)
  have "\<exists>r. full_rxpc_filter demo_suricata ?ulog ?sum ''w'' ?db True 100 = Some r \<and>
    (\<forall>out n. r = Inr (out, n) \<longrightarrow> n \<le> 1 + length (rule_lines ?db) \<and>
       settled demo_suricata ?ulog ?sum ''w'' True 100 ?db out)"
    by (rule full_rxpc_filter_terminates [OF law demo_readable])
  then obtain r where r: "full_rxpc_filter demo_suricata ?ulog ?sum ''w'' ?db True 100 = Some r"
    "\<And>out n. r = Inr (out, n) \<Longrightarrow> n \<le> 1 + length (rule_lines ?db)" by blast
  have len: "length (rule_lines ?db) = 2" by code_simp
  have "n \<le> 3" if "r = Inr (out, n)" for out n using r(2) [OF that] unfolding len by simp
  then show ?thesis using r(1) by blast
qed

section \<open>Prefixes\<close>

lemma length_combinations: "length (combinations k xs) = length xs choose k"
  by (induction k xs rule: combinations.induct) (simp_all add: add.commute)

lemma set_combinations: "c \<in> set (combinations k xs) \<longleftrightarrow> subseq c xs \<and> length c = k"
proof (induction k xs arbitrary: c rule: combinations.induct)
  case (3 k x xs)
  show ?case
  proof (cases c)
    case (Cons y d)
    then show ?thesis using "3.IH" by (auto simp: subseq_Cons' intro: subseq_Cons')
  qed (simp add: "3.IH" image_iff)
qed auto

lemma distinct_combinations: "distinct xs \<Longrightarrow> distinct (combinations k xs)"
proof (induction k xs rule: combinations.induct)
  case (3 k x xs)
  have "x # c \<notin> set (combinations (Suc k) xs)" for c
    using "3.prems" unfolding set_combinations by (auto dest: list_emb_set)
  then show ?case using 3 by (auto simp: distinct_map inj_on_def)
qed simp_all

lemma enumerate_prefix: "map snd (filter (\<lambda>(i, c). int i < m) (enumerate j xs)) = take (nat m - j) xs"
proof (induction xs arbitrary: j)
  case (Cons x xs)
  show ?case
  proof (cases "int j < m")
    case True
    then have "nat m - j = Suc (nat m - Suc j)" by linarith
    then show ?thesis using True Cons.IH [of "Suc j"] by simp
  next
    case False
    then show ?thesis using Cons.IH [of "Suc j"] by simp
  qed
qed simp

lemma alphabet_distinct: "distinct alphabet" "length alphabet = 52"
  by code_simp+

text \<open>The prefixes.  There are as many as asked for, but no more than there are choices of that
  many letters among 52; they are different from each other, and each one lists its letters in the
  order of the alphabet without repetition: no other combination of letters is ever made.\<close>

theorem gen_prefixes_bounds:
  assumes "0 \<le> prefix_size"
  shows "\<exists>ps. gen_prefixes prefix_size max_prefixes = Inr ps \<and>
    length ps = min (52 choose nat prefix_size) (nat max_prefixes) \<and> distinct ps \<and>
    (\<forall>p \<in> set ps. subseq p alphabet \<and> length p = nat prefix_size) \<and>
    (52 choose nat prefix_size \<le> nat max_prefixes \<longrightarrow>
      set ps = {p. subseq p alphabet \<and> length p = nat prefix_size})"
proof (intro exI conjI)
  let ?c = "combinations (nat prefix_size) alphabet"
  show "gen_prefixes prefix_size max_prefixes = Inr (take (nat max_prefixes) ?c)"
    using assms enumerate_prefix [of max_prefixes 0 ?c] by (simp add: gen_prefixes_def)
  show "length (take (nat max_prefixes) ?c) = min (52 choose nat prefix_size) (nat max_prefixes)"
    by (simp add: length_combinations alphabet_distinct)
  show "distinct (take (nat max_prefixes) ?c)"
    by (simp add: distinct_combinations alphabet_distinct)
  show "\<forall>p \<in> set (take (nat max_prefixes) ?c). subseq p alphabet \<and> length p = nat prefix_size"
    by (auto simp: set_combinations dest: in_set_takeD)
  show "52 choose nat prefix_size \<le> nat max_prefixes \<longrightarrow>
      set (take (nat max_prefixes) ?c) = {p. subseq p alphabet \<and> length p = nat prefix_size}"
    by (auto simp: length_combinations alphabet_distinct set_combinations)
qed

theorem gen_prefixes_bounds_witness:
  "\<exists>ps. gen_prefixes 2 32000 = Inr ps \<and> length ps = 1326"
proof -
  have "(52::nat) choose 2 = 1326" by (simp add: choose_two)
  then show ?thesis using gen_prefixes_bounds [of 2 32000] by auto
qed

section \<open>Groups of patterns\<close>

lemma chunks_partition:
  "0 < k \<Longrightarrow> concat (chunks k xs) = xs \<and> (\<forall>g \<in> set (chunks k xs). g \<noteq> [] \<and> length g \<le> k) \<and>
    length (chunks k xs) = (length xs + k - 1) div k"
proof (induction k xs rule: chunks.induct)
  case (1 k xs)
  show ?case
  proof (cases "xs = []")
    case True
    then show ?thesis using 1(2) by (simp add: chunks.simps)
  next
    case False
    have IH: "concat (chunks k (drop k xs)) = drop k xs"
      "\<forall>g \<in> set (chunks k (drop k xs)). g \<noteq> [] \<and> length g \<le> k"
      "length (chunks k (drop k xs)) = (length xs - k + k - 1) div k"
      using 1 False by auto
    have "Suc ((length xs - k + k - 1) div k) = (length xs + k - 1) div k"
    proof (cases "length xs \<le> k")
      case True
      then have "(length xs + k - 1) div k = 1" using 1(2) False
        by (intro div_nat_eqI) (cases xs; simp)+
      then show ?thesis using True 1(2) by simp
    next
      case False
      then show ?thesis using 1(2) by (simp add: le_div_geq Suc_diff_le)
    qed
    then show ?thesis using 1(2) False IH by (subst chunks.simps) (auto simp: chunks.simps [of k xs])
  qed
qed

text \<open>Compressed patterns.  The trie library gets the contents of all rules, each different one
  in exactly one group, in groups of at most \<open>factor\<close>, as few as can be; a factor of zero is an
  error, and a negative one gives no pattern at all.\<close>

theorem compress_patterns_groups:
  assumes "\<And>l. l \<in> set (provide_lines inputs True) \<Longrightarrow> readable S l" and "set_order so"
  shows "\<exists>groups. compress_patterns S so tre inputs factor = (if factor = 0 then Inl ValueError else Inr (map tre groups)) \<and>
    (factor < 0 \<longrightarrow> groups = []) \<and>
    (0 < factor \<longrightarrow> distinct (concat groups) \<and>
      set (concat groups) = (\<Union>l \<in> set (provide_lines inputs True).
        unquote ` set (opt_strs (get_option S ''content'' (the_rule S l)))) \<and>
      (\<forall>g \<in> set groups. g \<noteq> [] \<and> length g \<le> nat factor) \<and>
      length groups = (length (concat groups) + nat factor - 1) div nat factor)"
proof -
  let ?ls = "provide_lines inputs True"
  let ?os = "concat (map (get_option S ''content'') (map (the_rule S) ?ls))"
  let ?pats = "map unquote (opt_strs ?os)"
  have rules: "res_map (parse_rule S) ?ls = Inr (map (the_rule S) ?ls)"
    by (rule res_map_total) (use assms(1) readable_sid in fastforce)
  have "str_opts (get_option S ''content'' (the_rule S l))" if "l \<in> set ?ls" for l
    using assms(1) [OF that] by (auto simp: readable_def the_rule_def)
  then have "str_opts ?os" by (auto simp: str_opts_def)
  then have pats: "res_map (\<lambda>(n, v). unquote_val v) ?os = Inr ?pats" by (rule res_map_strs)
  have eq: "compress_patterns S so tre inputs factor =
      (if factor = 0 then Inl ValueError else Inr (map tre (chunks (nat factor) (so ?pats))))"
    using rules pats by (simp add: compress_patterns_def)
  have contents: "set ?pats = (\<Union>l \<in> set ?ls. unquote ` set (opt_strs (get_option S ''content'' (the_rule S l))))"
    by (force simp: opt_strs_def)
  show ?thesis
  proof (cases "0 < factor")
    case True
    then have k: "0 < nat factor" by simp
    show ?thesis
      using chunks_partition [OF k, of "so ?pats"] set_orderD [OF assms(2), of ?pats] eq True contents
      by (intro exI [of _ "chunks (nat factor) (so ?pats)"]) simp
  next
    case False
    then have "chunks (nat factor) (so ?pats) = []" by (simp add: chunks.simps)
    then show ?thesis using eq False by (intro exI [of _ "[]"]) simp
  qed
qed

theorem compress_patterns_groups_witness:
  "\<exists>g. compress_patterns demo_suricata remdups concat (LList [''1'', ''3'']) 10 = Inr (map concat g) \<and> concat g = [''a'']"
proof -
  have a: "unquote ''a'' = ''a''" by code_simp
  have "unquote ` set (opt_strs (get_option demo_suricata ''content'' (the_rule demo_suricata l))) = {''a''}" if "l \<noteq> ''2''" for l
    using that a by (simp add: the_rule_def demo_suricata_def opt_strs_def)
  then have c: "(\<Union>l \<in> set (provide_lines (LList [''1'', ''3'']) True).
        unquote ` set (opt_strs (get_option demo_suricata ''content'' (the_rule demo_suricata l)))) = {''a''}"
    by (simp add: provide_lines_def)
  obtain g where g: "compress_patterns demo_suricata remdups concat (LList [''1'', ''3'']) 10 = Inr (map concat g)"
    "distinct (concat g)" "set (concat g) = {''a''}"
    using compress_patterns_groups [of "LList [''1'', ''3'']" demo_suricata remdups concat 10, OF demo_readable set_order_remdups]
    unfolding c by auto
  then have "length (concat g) = 1" using distinct_card [OF g(2)] by simp
  then have "concat g = [''a'']" using g(3) by (cases "concat g") auto
  then show ?thesis using g(1) by blast
qed

end
