(* ===== verification/Rule_Subsets.thy ===== *)
theory Rule_Subsets
  imports Complex_Main Rule_Patterns
begin

text \<open>
  Subsets of rules by ratios: the function \<^verbatim>\<open>rules_to_subsets\<close> of data/rule_sampler.py.  Floats
  are real numbers and their rounding is an argument.
\<close>

section \<open>Subsets of rules\<close>

text \<open>A slice of a list, its bounds counted from the end when negative.\<close>

definition slice_bound :: "nat \<Rightarrow> int \<Rightarrow> nat" where
  "slice_bound n i = nat (min (int n) (max 0 (if i < 0 then i + int n else i)))"

definition py_slice :: "'a list \<Rightarrow> int \<Rightarrow> int \<Rightarrow> 'a list" where
  "py_slice xs a b =
     (let a' = slice_bound (length xs) a; b' = slice_bound (length xs) b
      in take (b' - a') (drop a' xs))"

definition py_trunc :: "real \<Rightarrow> int" where
  "py_trunc x = (if 0 \<le> x then \<lfloor>x\<rfloor> else \<lceil>x\<rceil>)"

fun write_subsets :: "string list \<Rightarrow> int \<Rightarrow> (nat \<times> int) list \<Rightarrow> string list" where
  "write_subsets rules start_idx [] = []"
| "write_subsets rules start_idx ((i, count) # counts) =
     (''subset_id='' @ nat_str i @ [CHR 0x0A]) #
     py_slice rules start_idx (start_idx + count) @ write_subsets rules (start_idx + count) counts"

text \<open>
  \<open>to_float\<close> parses a number, which is finite, and \<open>fl\<close> rounds a real number to a float, for a
  product and for the exact sum of \<^verbatim>\<open>fsum\<close>.  The result is what is written, piece by piece.
\<close>

definition rules_to_subsets ::
  "(string \<Rightarrow> real res) \<Rightarrow> (real \<Rightarrow> real) \<Rightarrow> string list \<Rightarrow> string \<Rightarrow> string list res" where
  "rules_to_subsets to_float fl rules ratio_str =
     res_bind (res_map to_float (split_char (CHR '':'') ratio_str)) (\<lambda>ratios.
     if fl (sum_list ratios) \<noteq> 1 then Inl ValueError
     else if length rules \<le> length ratios then Inl ValueError
     else
       let total_rules = int (length rules);
           counts = map (\<lambda>ratio. py_trunc (fl (ratio * of_int total_rules))) ratios;
           rule_counts = counts[length counts - 1 := last counts + (total_rules - sum_list counts)]
       in Inr (write_subsets rules 0 (enumerate 1 rule_counts)))"

section \<open>The subsets are a partition\<close>

text \<open>What is used of the rounding to floats: it keeps numbers up to the bound nonnegative and moves
  them by a relative error of \<open>2 ^ - 53\<close> and an absolute one far below any ratio.\<close>

definition rounds :: "(real \<Rightarrow> real) \<Rightarrow> bool" where
  "rounds fl \<longleftrightarrow> (\<forall>x. 0 \<le> x \<longrightarrow> x \<le> 2 ^ 50 \<longrightarrow> 0 \<le> fl x \<and> \<bar>fl x - x\<bar> \<le> x / 2 ^ 53 + 1 / 2 ^ 60)"

fun cut :: "nat list \<Rightarrow> 'a list \<Rightarrow> 'a list list" where
  "cut [] xs = []"
| "cut (c # cs) xs = take c xs # cut cs (drop c xs)"

lemma cut_partition:
  "sum_list cs = length xs \<Longrightarrow> concat (cut cs xs) = xs \<and> map length (cut cs xs) = cs"
  by (induction cs xs rule: cut.induct) auto

lemma py_slice_plain: "a + c \<le> length xs \<Longrightarrow> py_slice xs (int a) (int a + int c) = take c (drop a xs)"
  by (simp add: py_slice_def slice_bound_def Let_def nat_int_add)

definition subset_lines :: "nat \<times> string list \<Rightarrow> string list" where
  "subset_lines = (\<lambda>(i, p). (''subset_id='' @ nat_str i @ [CHR 0x0A]) # p)"

lemma write_subsets_cut:
  "a + sum_list cs = length rules \<Longrightarrow> write_subsets rules (int a) (enumerate i (map int cs)) =
    concat (map subset_lines (enumerate i (cut cs (drop a rules))))"
proof (induction cs arbitrary: a i)
  case (Cons c cs)
  have "write_subsets rules (int (a + c)) (enumerate (Suc i) (map int cs)) =
      concat (map subset_lines (enumerate (Suc i) (cut cs (drop (a + c) rules))))"
    by (rule Cons.IH) (use Cons.prems in simp)
  then show ?case using Cons.prems by (simp add: py_slice_plain subset_lines_def add.commute)
qed simp

lemma sum_rounded:
  assumes "rounds fl" and "\<forall>r \<in> set rs. 0 \<le> r \<and> r * n \<le> 2 ^ 50" and "0 \<le> n"
  shows "sum_list (map (\<lambda>r. fl (r * n)) rs) \<le> sum_list rs * n * (1 + 1 / 2 ^ 53) + length rs / 2 ^ 60"
  using assms(2)
proof (induction rs)
  case (Cons r rs)
  have "0 \<le> r * n" using Cons.prems assms(3) by simp
  then have "\<bar>fl (r * n) - r * n\<bar> \<le> r * n / 2 ^ 53 + 1 / 2 ^ 60"
    using assms(1) Cons.prems unfolding rounds_def by auto
  then have "fl (r * n) \<le> r * n * (1 + 1 / 2 ^ 53) + 1 / 2 ^ 60" by (simp add: abs_le_iff algebra_simps)
  then show ?case using Cons by (simp add: algebra_simps add_divide_distrib)
qed simp

lemma sum_floors: "real_of_int (sum_list (map (\<lambda>r. \<lfloor>f r\<rfloor>) rs)) \<le> sum_list (map f rs)"
  by (induction rs) (auto intro: add_mono)

text \<open>The counts of all subsets but the last never exceed the number of rules.\<close>

lemma counts_fit:
  assumes rounds: "rounds fl" and unit: "\<forall>r \<in> set ratios. 0 \<le> r \<and> r \<le> 1" and one: "fl (sum_list ratios) = 1"
    and len: "length ratios < n" "n \<le> 2 ^ 50" and sub: "rs = butlast ratios"
  shows "sum_list (map (\<lambda>r. \<lfloor>fl (r * real n)\<rfloor>) rs) \<le> int n"
proof -
  let ?S = "sum_list ratios"
  have S0: "0 \<le> ?S" using unit by (intro sum_list_nonneg) auto
  have "?S \<le> real (length ratios)" using unit by (induction ratios) auto
  also have "\<dots> \<le> 2 ^ 50" using len by (simp flip: of_nat_le_iff)
  finally have "?S \<le> 2 ^ 50" .
  then have "\<bar>1 - ?S\<bar> \<le> ?S / 2 ^ 53 + 1 / 2 ^ 60" using rounds S0 one unfolding rounds_def by metis
  then have S: "?S \<le> 1 + 1 / 2 ^ 51" by (simp add: abs_le_iff)
  have sumle: "0 \<le> sum_list rs" "sum_list rs \<le> ?S"
  proof -
    show "0 \<le> sum_list rs" using unit sub by (intro sum_list_nonneg) (auto dest: in_set_butlastD)
    show "sum_list rs \<le> ?S"
    proof (cases "ratios = []")
      case False
      then have "?S = sum_list rs + last ratios" unfolding sub
        by (subst append_butlast_last_id [OF False, symmetric]) (simp only: sum_list.append, simp)
      then show ?thesis using unit False by simp
    qed (simp add: sub)
  qed
  have n: "real n \<le> 2 ^ 50" using len(2) by (simp flip: of_nat_le_iff)
  have small: "\<forall>r \<in> set rs. 0 \<le> r \<and> r * real n \<le> 2 ^ 50"
  proof
    fix r assume "r \<in> set rs"
    then have r: "0 \<le> r" "r \<le> 1" using unit sub by (auto dest: in_set_butlastD)
    then have "r * real n \<le> 1 * real n" by (intro mult_right_mono) auto
    then show "0 \<le> r \<and> r * real n \<le> 2 ^ 50" using r n by simp
  qed
  have m: "real (length rs) \<le> 2 ^ 50" using len sub by (simp flip: of_nat_le_iff)
  have "real_of_int (sum_list (map (\<lambda>r. \<lfloor>fl (r * real n)\<rfloor>) rs)) \<le> sum_list (map (\<lambda>r. fl (r * real n)) rs)"
    by (rule sum_floors)
  also have "\<dots> \<le> sum_list rs * real n * (1 + 1 / 2 ^ 53) + length rs / 2 ^ 60"
    by (rule sum_rounded [OF rounds small]) simp
  also have "\<dots> \<le> (1 + 1 / 2 ^ 51) * real n * (1 + 1 / 2 ^ 53) + 2 ^ 50 / 2 ^ 60"
    using sumle S m by (intro add_mono mult_right_mono divide_right_mono) auto
  also have "\<dots> < real n + 1" using n by (simp add: algebra_simps)
  finally show ?thesis by linarith
qed

lemma adjust_last:
  fixes f :: "'a \<Rightarrow> int"
  shows "(map f (rs @ [a]))[length (map f (rs @ [a])) - 1 :=
      last (map f (rs @ [a])) + (t - sum_list (map f (rs @ [a])))] = map f rs @ [t - sum_list (map f rs)]"
  by (simp add: list_update_append)

lemma share_nonneg:
  assumes "rounds fl" "0 \<le> r" "r \<le> 1" "n \<le> 2 ^ 50"
  shows "0 \<le> fl (r * real n)"
proof -
  have "0 \<le> r * real n" using assms(2) by simp
  moreover have "r * real n \<le> 1 * real n" by (rule mult_right_mono [OF assms(3)]) simp
  moreover have "real n \<le> 2 ^ 50" using assms(4) by (simp flip: of_nat_le_iff)
  ultimately show ?thesis using assms(1) unfolding rounds_def by force
qed

text \<open>C23: the subsets.  For ratios between 0 and 1 whose sum is 1 as floats, and more rules than
  ratios, the file holds one subset per ratio: the rules, each in exactly one subset and in their
  order, the share of a ratio rounded down, and all that is left over in the last subset.  Rounding
  never makes the shares overrun.\<close>

theorem rules_to_subsets_partition:
  assumes "rounds fl" and "res_map to_float (split_char (CHR '':'') ratio_str) = Inr ratios"
    and "\<forall>r \<in> set ratios. 0 \<le> r \<and> r \<le> 1" and "fl (sum_list ratios) = 1"
    and "length ratios < length rules" and "length rules \<le> 2 ^ 50"
  shows "\<exists>parts. rules_to_subsets to_float fl rules ratio_str = Inr (concat (map subset_lines (enumerate 1 parts))) \<and>
    concat parts = rules \<and> length parts = length ratios \<and>
    (\<forall>i < length ratios - 1. int (length (parts ! i)) = \<lfloor>fl (ratios ! i * real (length rules))\<rfloor>)"
proof -
  let ?n = "length rules"
  let ?c = "\<lambda>r. \<lfloor>fl (r * real ?n)\<rfloor>"
  have "ratios \<noteq> []" using assms(2) by (auto dest: length_res_map)
  then have split: "ratios = butlast ratios @ [last ratios]" by simp
  have nonneg: "0 \<le> fl (r * real ?n)" if "r \<in> set ratios" for r
    by (rule share_nonneg [OF assms(1) _ _ assms(6)]) (use assms(3) that in auto)
  define cs where "cs = map (\<lambda>r. nat (?c r)) (butlast ratios)"
  have cs: "map int cs = map ?c (butlast ratios)"
    using nonneg by (auto simp: cs_def dest: in_set_butlastD)
  have fits: "sum_list (map ?c (butlast ratios)) \<le> int ?n"
    by (rule counts_fit [OF assms(1,3,4,5,6) refl])
  define k where "k = nat (int ?n - sum_list (map ?c (butlast ratios)))"
  have k: "int k = int ?n - sum_list (map ?c (butlast ratios))" using fits by (simp add: k_def)
  have counts: "map (\<lambda>r. py_trunc (fl (r * of_int (int ?n)))) ratios = map ?c ratios"
    using nonneg by (simp add: py_trunc_def)
  have adjusted: "(map ?c ratios)[length (map ?c ratios) - 1 := last (map ?c ratios) + (int ?n - sum_list (map ?c ratios))] =
      map int (cs @ [k])"
    using adjust_last [of ?c "butlast ratios" "last ratios" "int ?n"] cs k unfolding split [symmetric] by simp
  have total: "sum_list (cs @ [k]) = ?n"
  proof -
    have "int (sum_list cs) = sum_list (map int cs)" by (induction cs) simp_all
    then show ?thesis using cs k by simp
  qed
  let ?parts = "cut (cs @ [k]) rules"
  have "rules_to_subsets to_float fl rules ratio_str = Inr (write_subsets rules (int 0) (enumerate 1 (map int (cs @ [k]))))"
    unfolding rules_to_subsets_def assms(2) res_bind_simps Let_def counts adjusted using assms(4,5) by simp
  also have "\<dots> = Inr (concat (map subset_lines (enumerate 1 ?parts)))"
    using write_subsets_cut [of 0 "cs @ [k]" rules 1] total by simp
  finally have out: "rules_to_subsets to_float fl rules ratio_str = Inr (concat (map subset_lines (enumerate 1 ?parts)))" .
  have parts: "concat ?parts = rules" "map length ?parts = cs @ [k]" using cut_partition [OF total] by auto
  have len: "length ?parts = length ratios"
    using arg_cong [OF parts(2), of length] \<open>ratios \<noteq> []\<close> by (simp add: cs_def)
  have "int (length (?parts ! i)) = ?c (ratios ! i)" if i: "i < length ratios - 1" for i
  proof -
    have "length (?parts ! i) = (cs @ [k]) ! i"
      using parts(2) len i by (metis Suc_lessD less_diff_conv nth_map Suc_eq_plus1)
    also have "\<dots> = cs ! i" using i by (simp add: nth_append cs_def)
    finally have "int (length (?parts ! i)) = map int cs ! i" using i by (simp add: cs_def)
    then show ?thesis unfolding cs using i by (simp add: nth_butlast)
  qed
  then show ?thesis using out parts(1) len by blast
qed

theorem rules_to_subsets_partition_witness:
  "\<exists>parts. rules_to_subsets (\<lambda>s. Inr (if s = ''0.4'' then 2 / 5 else 3 / 5)) (\<lambda>x. x) [''a'', ''b'', ''c''] ''0.4:0.6'' =
      Inr (concat (map subset_lines (enumerate 1 parts))) \<and>
    concat parts = [''a'', ''b'', ''c''] \<and> length (parts ! 0) = 1"
proof -
  let ?f = "\<lambda>s. Inr (if s = ''0.4'' then 2 / 5 else 3 / 5) :: real res"
  have "split_char (CHR '':'') ''0.4:0.6'' = [''0.4'', ''0.6'']" by code_simp
  then have f: "res_map ?f (split_char (CHR '':'') ''0.4:0.6'') = Inr [2 / 5, 3 / 5]" by simp
  have r: "rounds (\<lambda>x. x)" by (simp add: rounds_def)
  obtain parts where p: "rules_to_subsets ?f (\<lambda>x. x) [''a'', ''b'', ''c''] ''0.4:0.6'' = Inr (concat (map subset_lines (enumerate 1 parts)))"
    "concat parts = [''a'', ''b'', ''c'']" "int (length (parts ! 0)) = \<lfloor>(2 / 5) * (3 :: real)\<rfloor>"
    using rules_to_subsets_partition [OF r f, of "[''a'', ''b'', ''c'']"] by auto
  have "\<lfloor>(2 / 5) * (3 :: real)\<rfloor> = 1" by (simp add: floor_eq_iff)
  then show ?thesis using p by auto
qed

end
