(* ===== verification/Rule_Groups.thy ===== *)
theory Rule_Groups
  imports Complex_Main Py_Prelude "HOL-Library.Sublist" "HOL-Library.Multiset"
begin

text \<open>
  The statistics over the signature groups of a rule set, et-analysis/met7.py: the nodes of a JSON
  document that hold a rule group, the metrics of their overlap, the composition by protocol, the
  statistics of their patterns, the levels of the hierarchy and the printed report.

  A JSON document is a value of \<open>json\<close>; the members of an object are in the order of the file, with
  distinct names.  Floats are real numbers, and their formatting is an argument.  Lines that are
  printed are part of the result.
\<close>

section \<open>Documents\<close>

datatype json =
    JNull
  | JBool bool
  | JInt int
  | JFloat real
  | JStr string
  | JList "json list"
  | JObj "(string \<times> json) list"

text \<open>\<^verbatim>\<open>d.get(k, default)\<close>, which only a dictionary has; \<^verbatim>\<open>k in x\<close>; iteration.\<close>

definition jget :: "json \<Rightarrow> string \<Rightarrow> json \<Rightarrow> json res" where
  "jget j k dflt =
     (case j of
        JObj kvs \<Rightarrow> Inr (case map_of kvs k of None \<Rightarrow> dflt | Some v \<Rightarrow> v)
      | _ \<Rightarrow> Inl AttributeError)"

definition jin :: "string \<Rightarrow> json \<Rightarrow> bool res" where
  "jin k j =
     (case j of
        JObj kvs \<Rightarrow> Inr (k \<in> fst ` set kvs)
      | JStr s \<Rightarrow> Inr (contains k s)
      | JList xs \<Rightarrow> Inr (JStr k \<in> set xs)
      | _ \<Rightarrow> Inl TypeError)"

definition jiter :: "json \<Rightarrow> json list res" where
  "jiter j =
     (case j of
        JObj kvs \<Rightarrow> Inr (map (\<lambda>(k, v). JStr k) kvs)
      | JStr s \<Rightarrow> Inr (map (\<lambda>c. JStr [c]) s)
      | JList xs \<Rightarrow> Inr xs
      | _ \<Rightarrow> Inl TypeError)"

text \<open>Numbers: a Boolean counts as 0 or 1.\<close>

definition num_val :: "json \<Rightarrow> real res" where
  "num_val j =
     (case j of
        JBool b \<Rightarrow> Inr (if b then 1 else 0)
      | JInt i \<Rightarrow> Inr (of_int i)
      | JFloat x \<Rightarrow> Inr x
      | _ \<Rightarrow> Inl TypeError)"

definition num_add :: "json \<Rightarrow> json \<Rightarrow> json res" where
  "num_add a b =
     (let int_val = (\<lambda>j. case j of JBool b \<Rightarrow> Some (if b then 1 else 0) | JInt i \<Rightarrow> Some i | _ \<Rightarrow> None)
      in case (int_val a, int_val b) of
           (Some i, Some j) \<Rightarrow> Inr (JInt (i + j))
         | _ \<Rightarrow> res_bind (num_val a) (\<lambda>x. res_bind (num_val b) (\<lambda>y. Inr (JFloat (x + y)))))"

text \<open>A key of a dictionary or member of a set: equal numbers are one key, and lists and
  dictionaries cannot be one.\<close>

definition jkey :: "json \<Rightarrow> json res" where
  "jkey j =
     (case j of
        JBool b \<Rightarrow> Inr (JInt (if b then 1 else 0))
      | JFloat x \<Rightarrow> Inr (if x = of_int \<lfloor>x\<rfloor> then JInt \<lfloor>x\<rfloor> else JFloat x)
      | JList xs \<Rightarrow> Inl TypeError
      | JObj kvs \<Rightarrow> Inl TypeError
      | _ \<Rightarrow> Inr j)"

section \<open>Nodes\<close>

text \<open>A node with a rule group: its path, the identifiers of its signatures and its statistics.\<close>

type_synonym node = "string list \<times> json list \<times> json"

definition rule_sigs :: "json \<Rightarrow> json list res" where
  "rule_sigs grp =
     res_bind (jget grp ''rules'' (JList [])) (\<lambda>rules.
     res_bind (jiter rules) (\<lambda>rs.
     res_bind (res_map (\<lambda>rule. res_bind (jin ''sig_id'' rule) (\<lambda>b.
         if b then res_bind (jget rule ''sig_id'' JNull) (\<lambda>s. Inr [s]) else Inr [])) rs) (\<lambda>sigs.
       Inr (concat sigs))))"

definition own_node :: "(string \<times> json) list \<Rightarrow> string list \<Rightarrow> node list res" where
  "own_node kvs path =
     (case map_of kvs ''rulegroup'' of
        None \<Rightarrow> Inr []
      | Some grp \<Rightarrow>
          res_bind (rule_sigs grp) (\<lambda>sigs.
          res_bind (jget (JObj kvs) ''stats'' JNull) (\<lambda>stats.
          res_bind (if stats = JNull then jget grp ''stats'' (JObj []) else Inr stats) (\<lambda>stats'.
            Inr [(path, sigs, stats')]))))"

function recursive_extract_groups :: "json \<Rightarrow> string list \<Rightarrow> node list res"
  and extract_members :: "(string \<times> json) list \<Rightarrow> string list \<Rightarrow> node list res"
  and extract_items :: "nat \<Rightarrow> json list \<Rightarrow> string list \<Rightarrow> node list res" where
  "recursive_extract_groups j path =
     (case j of
        JObj kvs \<Rightarrow> res_bind (own_node kvs path) (\<lambda>own.
          res_bind (extract_members kvs path) (\<lambda>gs. Inr (own @ gs)))
      | JList xs \<Rightarrow> extract_items 0 xs path
      | _ \<Rightarrow> Inr [])"
| "extract_members [] path = Inr []"
| "extract_members ((k, v) # kvs) path =
     res_bind (recursive_extract_groups v (path @ [k])) (\<lambda>g.
     res_bind (extract_members kvs path) (\<lambda>gs. Inr (g @ gs)))"
| "extract_items i [] path = Inr []"
| "extract_items i (x # xs) path =
     res_bind (recursive_extract_groups x (path @ [nat_str i])) (\<lambda>g.
     res_bind (extract_items (i + 1) xs path) (\<lambda>gs. Inr (g @ gs)))"
  by pat_completeness auto
termination
  by (relation "measure (\<lambda>x. case x of
        Inl (j, p) \<Rightarrow> size j
      | Inr (Inl (kvs, p)) \<Rightarrow> size_list (size_prod (\<lambda>_. 0) size) kvs
      | Inr (Inr (i, xs, p)) \<Rightarrow> size_list size xs)") auto

declare recursive_extract_groups.simps [simp del]

fun navigate :: "json \<Rightarrow> string list \<Rightarrow> json option" where
  "navigate j [] = Some j"
| "navigate j (k # ks) =
     (case j of
        JObj kvs \<Rightarrow> (case map_of kvs k of None \<Rightarrow> None | Some v \<Rightarrow> navigate v ks)
      | _ \<Rightarrow> None)"

text \<open>An empty filter path counts as none.\<close>

definition extract_groups :: "json \<Rightarrow> string option \<Rightarrow> node list res" where
  "extract_groups data filter_path =
     (case filter_path of
        Some (c # s) \<Rightarrow>
          (let ks = split_char (CHR ''.'') (c # s)
           in case navigate data ks of None \<Rightarrow> Inr [] | Some d \<Rightarrow> recursive_extract_groups d ks)
      | _ \<Rightarrow> recursive_extract_groups data [])"

section \<open>Metrics of the memberships\<close>

type_synonym memberships = "(json \<times> nat list) list"

definition add_member :: "nat \<Rightarrow> json \<Rightarrow> memberships \<Rightarrow> memberships res" where
  "add_member i sig m =
     res_bind (jkey sig) (\<lambda>k. Inr (AList.update k (List.insert i (case map_of m k of None \<Rightarrow> [] | Some gs \<Rightarrow> gs)) m))"

definition rule_memberships :: "node list \<Rightarrow> memberships res" where
  "rule_memberships groups =
     res_fold (\<lambda>(i, (path, sigs, stats)). res_fold (add_member i) sigs) (enumerate 0 groups) []"

definition group_sigs :: "node \<Rightarrow> json list res" where
  "group_sigs = (\<lambda>(path, sigs, stats). res_bind (res_map jkey sigs) (\<lambda>ks. Inr (remdups ks)))"

definition overlap :: "'a list \<Rightarrow> 'a list \<Rightarrow> nat" where
  "overlap xs ys = length (filter (\<lambda>x. x \<in> set ys) xs)"

fun overlaps :: "'a list list \<Rightarrow> nat" where
  "overlaps [] = 0"
| "overlaps (g # gs) = sum_list (map (overlap g) gs) + overlaps gs"

fun count_up :: "'a \<Rightarrow> ('a \<times> nat) list \<Rightarrow> ('a \<times> nat) list" where
  "count_up x [] = [(x, 1)]"
| "count_up x ((y, n) # c) = (if x = y then (y, n + 1) # c else (y, n) # count_up x c)"

definition counter :: "'a list \<Rightarrow> ('a \<times> nat) list" where
  "counter xs = fold count_up xs []"

record sgh_metrics =
  avg_sgh_per_rule :: real
  unique_rule_coverage :: real
  avg_overlap_per_pair :: real
  entropy :: real
  multiplicity_histogram :: "(nat \<times> nat) list"

definition sgh_compute_metrics :: "node list \<Rightarrow> sgh_metrics res" where
  "sgh_compute_metrics groups =
     res_bind (rule_memberships groups) (\<lambda>m.
     res_bind (res_map group_sigs groups) (\<lambda>sigs.
     let multiplicities = map (length \<circ> snd) m;
         total_unique_rules = length m;
         n = length groups;
         hist = counter multiplicities
     in Inr \<lparr>avg_sgh_per_rule =
          (if total_unique_rules = 0 then 0 else real (sum_list multiplicities) / real total_unique_rules),
        unique_rule_coverage =
          (if total_unique_rules = 0 then 0
           else real (length (filter (\<lambda>k. k = 1) multiplicities)) / real total_unique_rules),
        avg_overlap_per_pair =
          (if 1 < n then real (overlaps sigs) / real (n * (n - 1) div 2) else 0),
        entropy =
          (if total_unique_rules = 0 then 0
           else - sum_list (map (\<lambda>(k, c). (real c / real total_unique_rules) *
             log 2 (real c / real total_unique_rules)) hist)),
        multiplicity_histogram = hist\<rparr>))"

section \<open>Composition and patterns\<close>

definition is_obj :: "json \<Rightarrow> bool" where
  "is_obj j = (case j of JObj _ \<Rightarrow> True | _ \<Rightarrow> False)"

definition is_num :: "json \<Rightarrow> bool" where
  "is_num j = (case j of JBool _ \<Rightarrow> True | JInt _ \<Rightarrow> True | JFloat _ \<Rightarrow> True | _ \<Rightarrow> False)"

text \<open>\<^verbatim>\<open>d[k] += v\<close> in a dictionary whose values start at zero.\<close>

definition sum_up :: "'k \<Rightarrow> json \<Rightarrow> ('k \<times> json) list \<Rightarrow> ('k \<times> json) list res" where
  "sum_up k v d =
     res_bind (num_add (case map_of d k of None \<Rightarrow> JInt 0 | Some w \<Rightarrow> w) v) (\<lambda>w. Inr (AList.update k w d))"

definition composition_entry :: "string \<times> json \<Rightarrow> json dict \<Rightarrow> json dict res" where
  "composition_entry = (\<lambda>(key, value) agg.
     if key \<in> {''total'', ''types''} then Inr agg
     else
       res_bind (if is_obj value then jget value ''total'' JNull else Inr value) (\<lambda>v.
       if is_obj value \<and> v = JNull then Inr agg
       else if key = ''payload'' then sum_up ''IP'' v agg
       else if key \<in> {''http'', ''http_any''} then sum_up ''http'' v agg
       else sum_up key v agg))"

definition aggregate_protocol_composition :: "node list \<Rightarrow> json dict res" where
  "aggregate_protocol_composition groups =
     res_fold (\<lambda>(path, sigs, stats). case stats of
         JObj kvs \<Rightarrow> res_fold composition_entry kvs
       | _ \<Rightarrow> Inr) groups []"

text \<open>The table of lengths: a length is found as a key, and kept as it was written first.\<close>

type_synonym length_table = "(json \<times> json \<times> json) list"

definition add_size :: "json \<Rightarrow> length_table \<Rightarrow> length_table res" where
  "add_size e ld =
     res_bind (jget e ''size'' JNull) (\<lambda>size_val.
     res_bind (jget e ''count'' (JInt 0)) (\<lambda>count_val.
       if size_val = JNull then Inr ld
       else
         res_bind (jkey size_val) (\<lambda>k.
         let (written, cnt) = (case map_of ld k of None \<Rightarrow> (size_val, JInt 0) | Some p \<Rightarrow> p)
         in res_bind (num_add cnt count_val) (\<lambda>c. Inr (AList.update k (written, c) ld)))))"

text \<open>One node: whether it reports patterns, how many, and the table of lengths so far.\<close>

definition mpm_node :: "string \<Rightarrow> json \<Rightarrow> length_table \<Rightarrow> (bool \<times> json \<times> length_table) res" where
  "mpm_node mpm_group stats ld =
     (if \<not> is_obj stats then Inr (False, JInt 0, ld)
      else
        res_bind (jget stats ''types'' (JObj [])) (\<lambda>types.
        res_bind (jget types ''mpm'' (JInt 0)) (\<lambda>mpm_type.
        res_bind (num_val mpm_type) (\<lambda>t.
        res_bind (jget stats ''mpm'' (JObj [])) (\<lambda>mpm_obj.
          if \<not> is_obj mpm_obj then Inr (0 < t, JInt 0, ld)
          else
            res_bind (jget mpm_obj mpm_group JNull) (\<lambda>grp.
              if is_obj grp then
                res_bind (jget grp ''total'' (JInt 0)) (\<lambda>patterns.
                res_bind (jget grp ''sizes'' (JList [])) (\<lambda>sizes.
                res_bind (case sizes of JList es \<Rightarrow> res_fold add_size es ld | _ \<Rightarrow> Inr ld) (\<lambda>ld'.
                  Inr (0 < t, patterns, ld'))))
              else Inr (0 < t, if is_num grp then grp else JInt 0, ld)))))))"

record length_stats =
  avg_length :: real
  median_length :: json
  min_length :: json
  max_length :: json

record mpm_stats =
  total_sgh :: nat
  mpm_present :: nat
  avg_patterns :: real
  median_patterns :: real
  min_patterns :: json
  max_patterns :: json
  pattern_counts :: "json list"
  lengths :: length_stats

text \<open>The first smallest and the first largest of some numbers.\<close>

fun first_best :: "(real \<Rightarrow> real \<Rightarrow> bool) \<Rightarrow> (real \<times> json) list \<Rightarrow> real \<times> json" where
  "first_best better [] = (0, JInt 0)"
| "first_best better (x # xs) = fold (\<lambda>y best. if better (fst y) (fst best) then y else best) xs x"

definition median :: "real list \<Rightarrow> real" where
  "median counts =
     (let s = sort counts; n = length s
      in if odd n then s ! (n div 2) else (s ! (n div 2 - 1) + s ! (n div 2)) / 2)"

fun weighted_median :: "real \<Rightarrow> real \<Rightarrow> (json \<times> real) list \<Rightarrow> json" where
  "weighted_median half cumulative [] = JNull"
| "weighted_median half cumulative ((size_val, cnt) # rest) =
     (if half \<le> cumulative + cnt then size_val
      else weighted_median half (cumulative + cnt) rest)"

definition length_statistics :: "length_table \<Rightarrow> length_stats res" where
  "length_statistics ld =
     (if ld = [] then Inr \<lparr>avg_length = 0, median_length = JInt 0, min_length = JInt 0, max_length = JInt 0\<rparr>
      else
        res_bind (res_map (\<lambda>(k, w, v). res_bind (num_val w) (\<lambda>x. res_bind (num_val v) (\<lambda>c. Inr (x, w, c)))) ld) (\<lambda>t.
        let total_length_count = sum_list (map (\<lambda>(x, k, c). c) t);
            total_length_sum = sum_list (map (\<lambda>(x, k, c). x * c) t);
            by_size = map (\<lambda>(x, k, c). (x, k)) t
        in Inr \<lparr>avg_length = (if 0 < total_length_count then total_length_sum / total_length_count else 0),
             median_length = weighted_median (total_length_count / 2) 0
               (map (\<lambda>(x, k, c). (k, c)) (sort_key fst t)),
             min_length = snd (first_best (<) by_size),
             max_length = snd (first_best (>) by_size)\<rparr>))"

text \<open>The loop over the nodes, then the statistics of the counts.\<close>

definition mpm_nodes :: "string \<Rightarrow> node list \<Rightarrow> (nat \<times> json list \<times> length_table) res" where
  "mpm_nodes mpm_group groups =
     res_fold (\<lambda>(path, sigs, stats) (present, counts, ld).
         res_bind (mpm_node mpm_group stats ld) (\<lambda>(has, patterns, ld').
           Inr (if has then present + 1 else present, counts @ [patterns], ld'))) groups (0, [], [])"

definition analyze_mpm :: "node list \<Rightarrow> string \<Rightarrow> mpm_stats res" where
  "analyze_mpm groups mpm_group =
     res_bind (mpm_nodes mpm_group groups) (\<lambda>(present, counts, ld).
     res_bind (res_map num_val counts) (\<lambda>ns.
     res_bind (length_statistics ld) (\<lambda>ls.
       Inr \<lparr>total_sgh = length groups, mpm_present = present,
         avg_patterns = (if counts = [] then 0 else sum_list ns / real (length ns)),
         median_patterns = (if counts = [] then 0 else median ns),
         min_patterns = snd (first_best (<) (zip ns counts)),
         max_patterns = snd (first_best (>) (zip ns counts)),
         pattern_counts = counts, lengths = ls\<rparr>)))"

section \<open>Levels and the report\<close>

type_synonym levels = "node list dict"

definition add_level :: "json \<Rightarrow> string \<Rightarrow> levels \<Rightarrow> levels res" where
  "add_level data name lv = res_bind (extract_groups data (Some name)) (\<lambda>g. Inr (dict_set name g lv))"

definition level_nodes :: "json \<Rightarrow> string option \<Rightarrow> levels res" where
  "level_nodes data filter_path =
     (case filter_path of
        Some (c # s) \<Rightarrow> add_level data (c # s) []
      | _ \<Rightarrow>
          res_bind (extract_groups data None) (\<lambda>g.
            case data of
              JObj kvs \<Rightarrow>
                res_fold (\<lambda>(key, v) lv. res_bind (add_level data key lv) (\<lambda>lv'.
                    case v of
                      JObj subs \<Rightarrow> res_fold (\<lambda>(sub, w). add_level data (key @ ''.'' @ sub)) subs lv'
                    | _ \<Rightarrow> Inr lv')) kvs [(''global'', g)]
            | _ \<Rightarrow> Inl AttributeError))"

definition analyze_levels :: "json \<Rightarrow> string option \<Rightarrow> (levels \<times> sgh_metrics dict) res" where
  "analyze_levels data filter_path =
     res_bind (level_nodes data filter_path) (\<lambda>lv.
     res_bind (res_map (\<lambda>(level, groups). res_bind (sgh_compute_metrics groups) (\<lambda>m. Inr (level, m)))
         (filter (\<lambda>(level, groups). groups \<noteq> []) lv)) (\<lambda>results.
       Inr (lv, results)))"

text \<open>What the extraction prints for a path that is not there.\<close>

definition not_found :: "json \<Rightarrow> string \<Rightarrow> string list" where
  "not_found data filter_path =
     (if filter_path = [] \<or> navigate data (split_char (CHR ''.'') filter_path) \<noteq> None then []
      else [''Filter path '' @ CHR 0x27 # filter_path @ CHR 0x27 # '' not found in the data.''])"

definition level_messages :: "json \<Rightarrow> string option \<Rightarrow> string list" where
  "level_messages data filter_path =
     (case filter_path of
        Some (c # s) \<Rightarrow> not_found data (c # s)
      | _ \<Rightarrow>
          (case data of
             JObj kvs \<Rightarrow> concat (map (\<lambda>(key, v). not_found data key @
               (case v of JObj subs \<Rightarrow> concat (map (\<lambda>(sub, w). not_found data (key @ ''.'' @ sub)) subs) | _ \<Rightarrow> [])) kvs)
           | _ \<Rightarrow> []))"

text \<open>\<open>fmt d\<close> formats a number with \<open>d\<close> decimals, \<open>flo\<close> writes a float in full.\<close>

definition num_str :: "(real \<Rightarrow> string) \<Rightarrow> json \<Rightarrow> string" where
  "num_str flo j =
     (case j of
        JInt i \<Rightarrow> int_str i
      | JFloat x \<Rightarrow> flo x
      | JBool b \<Rightarrow> if b then ''True'' else ''False''
      | _ \<Rightarrow> ''None'')"

definition print_metrics :: "(nat \<Rightarrow> real \<Rightarrow> string) \<Rightarrow> string \<Rightarrow> sgh_metrics \<Rightarrow> string list" where
  "print_metrics fmt level_name m =
     ['''', ''Statistics for level: '' @ level_name,
      ''  Average SGH memberships per rule (how many SGH the rule belongs to): '' @ fmt 3 (avg_sgh_per_rule m),
      ''  Unique rule coverage (fraction in only one group): '' @ fmt 3 (unique_rule_coverage m),
      ''  Average overlap per group pair: '' @ fmt 3 (avg_overlap_per_pair m),
      ''  Entropy of rule multiplicity distribution: '' @ fmt 3 (entropy m),
      ''  Histogram of rule multiplicity (rule count : occurrences):''] @
     map (\<lambda>(cnt, occ). ''    '' @ nat_str cnt @ '': '' @ nat_str occ) (sort_key fst (multiplicity_histogram m))"

definition print_protocol_composition :: "(real \<Rightarrow> string) \<Rightarrow> json dict \<Rightarrow> string list" where
  "print_protocol_composition flo agg =
     ''  Aggregated Protocol Composition:'' #
     (if agg = [] then [''    No protocol composition data available.'']
      else map (\<lambda>(prot, val). ''    '' @ prot @ '': '' @ num_str flo val) agg)"

definition print_mpm_analysis ::
  "(nat \<Rightarrow> real \<Rightarrow> string) \<Rightarrow> (real \<Rightarrow> string) \<Rightarrow> mpm_stats \<Rightarrow> string \<Rightarrow> string list res" where
  "print_mpm_analysis fmt flo st mpm_group =
     (let ls = lengths st
      in res_bind (num_val (median_length ls)) (\<lambda>median_len. Inr
        [''  MPM Analysis:'',
         ''    Total SGHs: '' @ nat_str (total_sgh st),
         ''    SGHs with MPM present: '' @ nat_str (mpm_present st),
         ''    MPM patterns for group '' @ CHR 0x27 # mpm_group @ [CHR 0x27, CHR '':''],
         ''      Average: '' @ fmt 2 (avg_patterns st),
         ''      Median : '' @ fmt 2 (median_patterns st),
         ''      Min    : '' @ num_str flo (min_patterns st),
         ''      Max    : '' @ num_str flo (max_patterns st),
         ''    Pattern Lengths for group '' @ CHR 0x27 # mpm_group @ [CHR 0x27, CHR '':''],
         ''      Average: '' @ fmt 2 (avg_length ls),
         ''      Median : '' @ fmt 2 median_len,
         ''      Min    : '' @ num_str flo (min_length ls),
         ''      Max    : '' @ num_str flo (max_length ls)]))"

definition level_report ::
  "(nat \<Rightarrow> real \<Rightarrow> string) \<Rightarrow> (real \<Rightarrow> string) \<Rightarrow> bool \<Rightarrow> string \<Rightarrow> string \<Rightarrow> node list \<Rightarrow> sgh_metrics
     \<Rightarrow> string list res" where
  "level_report fmt flo disable_mpm mpm_group level groups m =
     res_bind (aggregate_protocol_composition groups) (\<lambda>agg.
     res_bind (if disable_mpm then Inr []
        else res_bind (analyze_mpm groups mpm_group) (\<lambda>st. print_mpm_analysis fmt flo st mpm_group)) (\<lambda>mpm.
       Inr (print_metrics fmt level m @ print_protocol_composition flo agg @ mpm)))"

definition report ::
  "(nat \<Rightarrow> real \<Rightarrow> string) \<Rightarrow> (real \<Rightarrow> string) \<Rightarrow> json \<Rightarrow> string option \<Rightarrow> bool \<Rightarrow> string \<Rightarrow> string list res" where
  "report fmt flo data path disable_mpm mpm_group =
     res_bind (analyze_levels data path) (\<lambda>(lv, results).
     res_bind (res_map (\<lambda>(level, groups).
         if groups = [] then Inr []
         else (case map_of results level of
                 None \<Rightarrow> Inl KeyError
               | Some m \<Rightarrow> level_report fmt flo disable_mpm mpm_group level groups m))
        (sort_key fst lv)) (\<lambda>out.
       Inr (level_messages data path @ concat out)))"

section \<open>Filtering by a path\<close>

text \<open>The objects along a path have distinct member names.\<close>

fun clear_path :: "json \<Rightarrow> string list \<Rightarrow> bool" where
  "clear_path j [] = True"
| "clear_path j (k # ks) =
     (case j of
        JObj kvs \<Rightarrow> distinct (map fst kvs) \<and> (case map_of kvs k of None \<Rightarrow> True | Some v \<Rightarrow> clear_path v ks)
      | _ \<Rightarrow> True)"

lemma own_node_path: "own_node kvs path = Inr ns \<Longrightarrow> n \<in> set ns \<Longrightarrow> fst n = path"
  by (auto simp: own_node_def split: option.splits)

lemma extract_paths:
  "recursive_extract_groups j path = Inr gs \<Longrightarrow> \<forall>n \<in> set gs. prefix path (fst n)"
  "extract_members kvs path = Inr gs \<Longrightarrow> \<forall>n \<in> set gs. \<exists>k \<in> fst ` set kvs. prefix (path @ [k]) (fst n)"
  "extract_items i xs path = Inr gs \<Longrightarrow> \<forall>n \<in> set gs. prefix path (fst n)"
proof (induction j path and kvs path and i xs path arbitrary: gs and gs and gs
    rule: recursive_extract_groups_extract_members_extract_items.induct)
  case (1 j path)
  show ?case
  proof (cases j)
    case (JObj kvs)
    then obtain own ms where own: "own_node kvs path = Inr own" "extract_members kvs path = Inr ms" "gs = own @ ms"
      using "1.prems" by (auto simp: recursive_extract_groups.simps)
    have "\<forall>n \<in> set ms. prefix path (fst n)"
      using "1.IH"(2) [OF JObj own(1,2)] append_prefixD by blast
    then show ?thesis using own_node_path [OF own(1)] own(3) by auto
  next
    case (JList xs)
    then have "extract_items 0 xs path = Inr gs" using "1.prems" by (simp add: recursive_extract_groups.simps)
    then show ?thesis by (rule "1.IH"(1) [OF JList])
  qed (use "1.prems" in \<open>auto simp: recursive_extract_groups.simps\<close>)
next
  case (3 k v kvs path)
  then show ?case by fastforce
next
  case (5 i x xs path)
  then show ?case by (fastforce dest: append_prefixD)
qed auto

lemma members_filter:
  assumes "extract_members kvs path = Inr gs" "distinct (map fst kvs)" "map_of kvs k = Some v"
  shows "\<exists>g. recursive_extract_groups v (path @ [k]) = Inr g \<and>
    filter (\<lambda>n. prefix (path @ k # ks) (fst n)) gs = filter (\<lambda>n. prefix (path @ k # ks) (fst n)) g"
  using assms
proof (induction kvs arbitrary: gs)
  case (Cons kv kvs)
  obtain k' v' where kv: "kv = (k', v')" by (cases kv)
  from Cons.prems(1) obtain g gs' where g: "recursive_extract_groups v' (path @ [k']) = Inr g"
    "extract_members kvs path = Inr gs'" "gs = g @ gs'" by (auto simp: kv)
  have other: "\<not> prefix (path @ k # ks) p" if "prefix (path @ [a]) p" "a \<noteq> k" for a p
    using that by (auto simp: prefix_def)
  show ?case
  proof (cases "k' = k")
    case True
    then have "k \<notin> fst ` set kvs" using Cons.prems(2) by (auto simp: kv)
    have "\<not> prefix (path @ k # ks) (fst n)" if n: "n \<in> set gs'" for n
    proof -
      obtain k'' where "k'' \<in> fst ` set kvs" "prefix (path @ [k'']) (fst n)"
        using extract_paths(2) [OF g(2)] n by blast
      then show ?thesis using other \<open>k \<notin> fst ` set kvs\<close> by blast
    qed
    then have "filter (\<lambda>n. prefix (path @ k # ks) (fst n)) gs' = []" by (auto simp: filter_empty_conv)
    then show ?thesis using g True Cons.prems(3) by (simp add: kv)
  next
    case False
    then have "filter (\<lambda>n. prefix (path @ k # ks) (fst n)) g = []"
      using extract_paths(1) [OF g(1)] other by (auto simp: filter_empty_conv)
    then show ?thesis using Cons.IH [OF g(2)] Cons.prems(2,3) False g(3) by (simp add: kv)
  qed
qed simp

lemma extract_at:
  assumes "recursive_extract_groups j path = Inr gs" "clear_path j ks" "navigate j ks = Some d"
  shows "recursive_extract_groups d (path @ ks) = Inr (filter (\<lambda>n. prefix (path @ ks) (fst n)) gs)"
  using assms
proof (induction ks arbitrary: j path gs)
  case Nil
  then show ?case using extract_paths(1) [OF Nil.prems(1)] by (simp add: filter_id_conv)
next
  case (Cons k ks)
  then obtain kvs v where v: "j = JObj kvs" "map_of kvs k = Some v" "distinct (map fst kvs)"
    "clear_path v ks" "navigate v ks = Some d" by (auto split: json.splits option.splits)
  from Cons.prems(1) obtain own ms where own: "own_node kvs path = Inr own" "extract_members kvs path = Inr ms"
    "gs = own @ ms" by (subst (asm) recursive_extract_groups.simps) (auto simp: v(1))
  have "filter (\<lambda>n. prefix (path @ k # ks) (fst n)) own = []"
    using own_node_path [OF own(1)] by (auto simp: filter_empty_conv prefix_def)
  moreover obtain g where g: "recursive_extract_groups v (path @ [k]) = Inr g"
    "filter (\<lambda>n. prefix (path @ k # ks) (fst n)) ms = filter (\<lambda>n. prefix (path @ k # ks) (fst n)) g"
    using members_filter [OF own(2) v(3,2)] by blast
  ultimately show ?case using Cons.IH [OF g(1) v(4,5)] own(3) by simp
qed

text \<open>Filtering by a path.  The nodes found under a filter path are those that the search of the
  whole document finds with a path that starts with it, in the same order; there is none when the
  path does not lead through objects.\<close>

theorem extract_groups_filter:
  assumes "extract_groups data None = Inr gs" and "fp \<noteq> []" and "clear_path data (split_char (CHR ''.'') fp)"
  shows "extract_groups data (Some fp) =
    Inr (if navigate data (split_char (CHR ''.'') fp) = None then []
         else filter (\<lambda>n. prefix (split_char (CHR ''.'') fp) (fst n)) gs)"
  using assms extract_at [of data "[]" gs "split_char (CHR ''.'') fp"]
  by (cases fp) (auto simp: extract_groups_def simp del: split_char.simps split: option.splits)

theorem extract_groups_filter_witness:
  "extract_groups (JObj [(''tcp'', JObj [(''toserver'', JObj [(''rulegroup'', JObj [(''rules'', JList [JObj [(''sig_id'', JInt 7)]])])])])])
     (Some ''tcp.toserver'') = Inr [([''tcp'', ''toserver''], [JInt 7], JObj [])]"
proof -
  let ?d = "JObj [(''tcp'', JObj [(''toserver'', JObj [(''rulegroup'', JObj [(''rules'', JList [JObj [(''sig_id'', JInt 7)]])])])])]"
  have "split_char (CHR ''.'') ''tcp.toserver'' = [''tcp'', ''toserver'']" by code_simp
  moreover have "extract_groups ?d None = Inr [([''tcp'', ''toserver''], [JInt 7], JObj [])]"
    by (simp add: extract_groups_def recursive_extract_groups.simps own_node_def rule_sigs_def jget_def jin_def jiter_def)
  ultimately show ?thesis using extract_groups_filter [of ?d _ "''tcp.toserver''"] by simp
qed

section \<open>What the metrics count\<close>

text \<open>In how many of some groups a signature is.\<close>

definition mult :: "'a \<Rightarrow> 'a list list \<Rightarrow> nat" where
  "mult x gs = length (filter (\<lambda>g. x \<in> set g) gs)"

lemma mult_simps [simp]:
  "mult x [] = 0" "mult x (g # gs) = (if x \<in> set g then 1 else 0) + mult x gs"
  by (simp_all add: mult_def)

lemma sum_overlap:
  assumes "distinct g"
  shows "sum_list (map (overlap g) gs) = (\<Sum>x \<in> set g. mult x gs)"
proof (induction gs)
  case (Cons h gs)
  have "overlap g h = (\<Sum>x \<in> set g. if x \<in> set h then 1 else 0)"
    using assms by (simp add: overlap_def distinct_length_filter sum.If_cases Int_def conj_commute)
  then show ?case using Cons by (simp add: sum.distrib)
qed simp

lemma choose_two_add: "((if b then 1 else 0) + n) choose 2 = (n choose 2) + (if b then n else (0::nat))"
  by (cases b) (simp_all add: numeral_2_eq_2)

text \<open>Counting the common members of all pairs of groups, or the pairs of groups of every member, is
  the same.\<close>

lemma overlaps_eq:
  assumes "\<forall>g \<in> set gs. distinct g" "finite U" "\<forall>g \<in> set gs. set g \<subseteq> U"
  shows "overlaps gs = (\<Sum>x \<in> U. mult x gs choose 2)"
  using assms(1,3)
proof (induction gs)
  case (Cons g gs)
  have "(\<Sum>x \<in> U. mult x (g # gs) choose 2) = (\<Sum>x \<in> U. mult x gs choose 2) + (\<Sum>x \<in> U. if x \<in> set g then mult x gs else 0)"
    by (simp only: mult_simps choose_two_add sum.distrib)
  also have "(\<Sum>x \<in> U. if x \<in> set g then mult x gs else 0) = (\<Sum>x \<in> set g. mult x gs)"
    using Cons.prems assms(2) by (simp add: sum.If_cases Int_absorb1 Int_commute)
  finally show ?case using Cons by (simp add: sum_overlap)
qed (simp add: numeral_2_eq_2)

lemma sum_mult:
  assumes "\<forall>g \<in> set gs. distinct g" "finite U" "\<forall>g \<in> set gs. set g \<subseteq> U"
  shows "(\<Sum>x \<in> U. mult x gs) = sum_list (map length gs)"
  using assms(1,3)
proof (induction gs)
  case (Cons g gs)
  have "(\<Sum>x \<in> U. if x \<in> set g then 1 else 0) = length g"
    using Cons.prems assms(2) by (simp add: sum.If_cases Int_absorb1 distinct_card)
  then show ?case using Cons by (simp add: sum.distrib)
qed simp

text \<open>The table of memberships: the groups of every signature.\<close>

definition members_of :: "memberships \<Rightarrow> json \<Rightarrow> nat list" where
  "members_of m k = (case map_of m k of None \<Rightarrow> [] | Some is \<Rightarrow> is)"

definition table_ok :: "memberships \<Rightarrow> bool" where
  "table_ok m \<longleftrightarrow> distinct (map fst m) \<and> (\<forall>(k, is) \<in> set m. distinct is \<and> is \<noteq> [])"

lemma set_update: "set (AList.update k v m) \<subseteq> insert (k, v) (set m)"
  by (induction m) auto

lemma add_member_ok:
  assumes "table_ok m" "jkey sig = Inr k"
  shows "\<exists>m'. add_member i sig m = Inr m' \<and> table_ok m' \<and>
    (\<forall>k'. set (members_of m' k') = set (members_of m k') \<union> (if k' = k then {i} else {}))"
proof -
  let ?m' = "AList.update k (List.insert i (members_of m k)) m"
  have "distinct is" if "map_of m k = Some is" for "is"
    using assms(1) map_of_SomeD [OF that] by (auto simp: table_ok_def)
  then have "distinct (members_of m k)" by (auto simp: members_of_def split: option.splits)
  then have "table_ok ?m'"
    using assms(1) set_update [of k "List.insert i (members_of m k)" m]
    by (fastforce simp: table_ok_def distinct_update List.insert_def)
  moreover have "set (members_of ?m' k') = set (members_of m k') \<union> (if k' = k then {i} else {})" for k'
    by (auto simp: members_of_def update_conv' split: option.splits)
  ultimately show ?thesis using assms(2) by (auto simp: add_member_def members_of_def)
qed

lemma add_members_ok:
  assumes "table_ok m" "res_map jkey sigs = Inr ks"
  shows "\<exists>m'. res_fold (add_member i) sigs m = Inr m' \<and> table_ok m' \<and>
    (\<forall>k. set (members_of m' k) = set (members_of m k) \<union> (if k \<in> set ks then {i} else {}))"
  using assms
proof (induction sigs arbitrary: m ks)
  case (Cons sig sigs)
  then obtain k ks' where k: "jkey sig = Inr k" "res_map jkey sigs = Inr ks'" "ks = k # ks'" by auto
  obtain m1 where m1: "add_member i sig m = Inr m1" "table_ok m1"
    "\<forall>k'. set (members_of m1 k') = set (members_of m k') \<union> (if k' = k then {i} else {})"
    using add_member_ok [OF Cons.prems(1) k(1)] by blast
  obtain m2 where m2: "res_fold (add_member i) sigs m1 = Inr m2" "table_ok m2"
    "\<forall>k. set (members_of m2 k) = set (members_of m1 k) \<union> (if k \<in> set ks' then {i} else {})"
    using Cons.IH [OF m1(2) k(2)] by blast
  have "set (members_of m2 k') = set (members_of m k') \<union> (if k' \<in> set ks then {i} else {})" for k'
    using m1(3) m2(3) by (auto simp: k(3))
  then show ?case using m1(1) m2(1,2) by auto
qed simp

lemma memberships_ok:
  assumes "table_ok m" "res_map group_sigs groups = Inr kss"
  shows "\<exists>m'. res_fold (\<lambda>(i, (path, sigs, stats)). res_fold (add_member i) sigs) (enumerate j groups) m = Inr m' \<and>
    table_ok m' \<and>
    (\<forall>k. set (members_of m' k) = set (members_of m k) \<union> {i. j \<le> i \<and> i < j + length kss \<and> k \<in> set (kss ! (i - j))})"
  using assms
proof (induction groups arbitrary: j m kss)
  case (Cons g groups)
  obtain path sigs stats where g: "g = (path, sigs, stats)" by (cases g)
  from Cons.prems(2) obtain ks kss' where k: "res_map jkey sigs = Inr ks" "res_map group_sigs groups = Inr kss'"
    "kss = remdups ks # kss'" by (auto simp: g group_sigs_def)
  obtain m1 where m1: "res_fold (add_member j) sigs m = Inr m1" "table_ok m1"
    "\<forall>k. set (members_of m1 k) = set (members_of m k) \<union> (if k \<in> set ks then {j} else {})"
    using add_members_ok [OF Cons.prems(1) k(1)] by blast
  obtain m2 where m2: "res_fold (\<lambda>(i, (path, sigs, stats)). res_fold (add_member i) sigs) (enumerate (Suc j) groups) m1 = Inr m2"
    "table_ok m2"
    "\<forall>k. set (members_of m2 k) = set (members_of m1 k) \<union> {i. Suc j \<le> i \<and> i < Suc j + length kss' \<and> k \<in> set (kss' ! (i - Suc j))}"
    using Cons.IH [OF m1(2) k(2)] by blast
  have "set (members_of m2 x) = set (members_of m x) \<union> {i. j \<le> i \<and> i < j + length kss \<and> x \<in> set (kss ! (i - j))}" for x
  proof -
    have "{i. j \<le> i \<and> i < j + length kss \<and> x \<in> set (kss ! (i - j))} =
        (if x \<in> set ks then {j} else {}) \<union> {i. Suc j \<le> i \<and> i < Suc j + length kss' \<and> x \<in> set (kss' ! (i - Suc j))}"
      by (auto simp: k(3) nth_Cons' le_Suc_eq Suc_le_eq nat_less_le)
    then show ?thesis using m1(3) m2(3) by auto
  qed
  then show ?case using m1(1) m2(1,2) by (auto simp: g)
qed (auto simp: set_eq_iff)

lemma count_up_facts:
  "sum_list (map snd (count_up x c)) = sum_list (map snd c) + 1"
  "distinct (map fst c) \<Longrightarrow> distinct (map fst (count_up x c))"
  "map_of (count_up x c) y = (if y = x then Some (Suc (case map_of c x of None \<Rightarrow> 0 | Some n \<Rightarrow> n)) else map_of c y)"
proof -
  show "sum_list (map snd (count_up x c)) = sum_list (map snd c) + 1"
    by (induction x c rule: count_up.induct) auto
  have keys: "fst ` set (count_up x c) = insert x (fst ` set c)" for x :: 'a and c
    by (induction x c rule: count_up.induct) auto
  show "distinct (map fst c) \<Longrightarrow> distinct (map fst (count_up x c))"
    by (induction x c rule: count_up.induct) (simp_all add: keys)
  show "map_of (count_up x c) y = (if y = x then Some (Suc (case map_of c x of None \<Rightarrow> 0 | Some n \<Rightarrow> n)) else map_of c y)"
    by (induction x c rule: count_up.induct) auto
qed

text \<open>The counter of a list: how often each of its elements occurs.\<close>

lemma counter_facts:
  "sum_list (map snd (counter xs)) = length xs" "distinct (map fst (counter xs))"
  "(x, n) \<in> set (counter xs) \<longleftrightarrow> n = count_list xs x \<and> 0 < n"
proof -
  have sums: "sum_list (map snd (fold count_up xs c)) = length xs + sum_list (map snd c)" for c
    by (induction xs arbitrary: c) (simp_all add: count_up_facts)
  then show "sum_list (map snd (counter xs)) = length xs" by (simp add: counter_def)
  have "distinct (map fst c) \<Longrightarrow> distinct (map fst (fold count_up xs c))" for c
    by (induction xs arbitrary: c) (simp_all add: count_up_facts)
  then show d: "distinct (map fst (counter xs))" by (simp add: counter_def)
  have "map_of (fold count_up xs c) x =
      (if count_list xs x = 0 then map_of c x else Some (count_list xs x + (case map_of c x of None \<Rightarrow> 0 | Some n \<Rightarrow> n)))" for c
    by (induction xs arbitrary: c) (auto simp: count_up_facts split: option.splits)
  from this [of "[]"] have "map_of (counter xs) x = (if count_list xs x = 0 then None else Some (count_list xs x))"
    by (simp add: counter_def)
  then show "(x, n) \<in> set (counter xs) \<longleftrightarrow> n = count_list xs x \<and> 0 < n"
    using map_of_eq_Some_iff [OF d, of x n] by (auto split: if_split_asm)
qed

lemma group_sigs_distinct: "res_map group_sigs groups = Inr kss \<Longrightarrow> g \<in> set kss \<Longrightarrow> distinct g"
  by (induction groups arbitrary: kss) (auto simp: group_sigs_def)

text \<open>The table of a list of groups: one row per signature, as many groups in it as hold it.\<close>

lemma table_of_groups:
  assumes "res_map group_sigs groups = Inr kss"
  shows "\<exists>m. rule_memberships groups = Inr m \<and> distinct (map fst m) \<and>
    fst ` set m = \<Union> (set ` set kss) \<and> (\<forall>(k, is) \<in> set m. length is = mult k kss)"
proof -
  obtain m where m: "rule_memberships groups = Inr m" "table_ok m"
    "\<And>k. set (members_of m k) = {i. i < length kss \<and> k \<in> set (kss ! i)}"
    using memberships_ok [of "[]" groups kss 0, OF _ assms]
    by (auto simp: rule_memberships_def table_ok_def members_of_def)
  have d: "distinct (map fst m)" using m(2) by (simp add: table_ok_def)
  have row: "length is = mult k kss \<and> is \<noteq> []" if "(k, is) \<in> set m" for k "is"
  proof -
    have "members_of m k = is" using d that by (simp add: members_of_def)
    moreover have "distinct is" "is \<noteq> []" using m(2) that by (auto simp: table_ok_def)
    ultimately show ?thesis
      using m(3) [of k] distinct_card [of "is"] by (simp add: mult_def length_filter_conv_card)
  qed
  have "k \<in> fst ` set m \<longleftrightarrow> k \<in> \<Union> (set ` set kss)" for k
  proof -
    have "k \<in> fst ` set m \<longleftrightarrow> members_of m k \<noteq> []"
    proof
      assume "k \<in> fst ` set m"
      then obtain "is" where "(k, is) \<in> set m" by auto
      then show "members_of m k \<noteq> []" using row d by (simp add: members_of_def)
    qed (auto simp: members_of_def split: option.splits dest: map_of_SomeD intro: rev_image_eqI)
    also have "\<dots> \<longleftrightarrow> set (members_of m k) \<noteq> {}" by simp
    also have "\<dots> \<longleftrightarrow> k \<in> \<Union> (set ` set kss)" unfolding m(3) by (fastforce simp: in_set_conv_nth [of _ kss])
    finally show ?thesis .
  qed
  then have "fst ` set m = \<Union> (set ` set kss)" by (rule set_eqI)
  then show ?thesis using m(1) d row by blast
qed

lemma entropy_nonneg:
  assumes "\<forall>(k, c) \<in> set hist. 0 < c \<and> c \<le> (n :: nat)"
  shows "0 \<le> - sum_list (map (\<lambda>(k, c). (real c / real n) * log 2 (real c / real n)) hist)"
proof -
  have "(real c / real n) * log 2 (real c / real n) \<le> 0" if "(k, c) \<in> set hist" for k c
  proof -
    have "0 < real c / real n" "real c / real n \<le> 1" using assms that by auto
    then show ?thesis by (intro mult_nonneg_nonpos) auto
  qed
  then have "sum_list (map (\<lambda>(k, c). (real c / real n) * log 2 (real c / real n)) hist) \<le> 0"
    by (intro sum_list_nonpos) auto
  then show ?thesis by simp
qed

text \<open>How the multiplicities of the signatures enter the metrics: counted, per signature, and per pair of
  groups.\<close>

lemma multiplicity_counts:
  assumes "distinct rs" "U = set rs"
  shows "count_list (map (\<lambda>r. mult r kss) rs) k = card {r \<in> U. mult r kss = k}"
    and "length (filter (\<lambda>m. m = k) (map (\<lambda>r. mult r kss) rs)) = card {r \<in> U. mult r kss = k}"
proof -
  have "length (filter (\<lambda>r. mult r kss = k) rs) = card {r \<in> U. mult r kss = k}"
    unfolding distinct_length_filter [OF assms(1)] assms(2) by (rule arg_cong [of _ _ card]) auto
  then show "count_list (map (\<lambda>r. mult r kss) rs) k = card {r \<in> U. mult r kss = k}"
    "length (filter (\<lambda>m. m = k) (map (\<lambda>r. mult r kss) rs)) = card {r \<in> U. mult r kss = k}"
    by (simp_all add: count_list_eq_length_filter filter_map comp_def eq_commute)
qed

lemma per_pair: "(if 1 < n then real s / real (n * (n - 1) div 2) else 0) * real (n choose 2) = (if 1 < n then real s else 0)"
proof (cases "1 < n")
  case True
  then have "real (n choose 2) \<noteq> 0" by (simp add: binomial_eq_0_iff)
  then show ?thesis using True by (simp add: choose_two)
qed simp

lemma no_pairs: "length kss \<le> 1 \<Longrightarrow> overlaps kss = 0"
  by (cases kss) auto

text \<open>C25: the metrics of the memberships.  With \<open>U\<close> the signatures of all groups: the average number
  of groups per signature and the fraction of signatures in a single group are what their names
  say; the average overlap of a pair of groups, summed over all pairs, counts every signature once
  for each pair of groups that share it; the histogram counts every signature under the number of
  its groups; and the entropy is never negative.\<close>

theorem metrics_count:
  assumes "res_map group_sigs groups = Inr kss" and "U = \<Union> (set ` set kss)"
  shows "\<exists>m. sgh_compute_metrics groups = Inr m \<and>
    avg_sgh_per_rule m * card U = sum_list (map length kss) \<and>
    unique_rule_coverage m * card U = card {r \<in> U. mult r kss = 1} \<and>
    avg_overlap_per_pair m * (length kss choose 2) = (\<Sum>r \<in> U. mult r kss choose 2) \<and>
    (\<forall>k c. (k, c) \<in> set (multiplicity_histogram m) \<longleftrightarrow> c = card {r \<in> U. mult r kss = k} \<and> 0 < c) \<and>
    sum_list (map snd (multiplicity_histogram m)) = card U \<and> 0 \<le> entropy m"
proof -
  obtain tab where tab: "rule_memberships groups = Inr tab" "distinct (map fst tab)" "fst ` set tab = U"
    "\<forall>(k, is) \<in> set tab. length is = mult k kss"
    using table_of_groups [OF assms(1)] unfolding assms(2) by (elim exE conjE)
  let ?ms = "map (length \<circ> snd) tab" and ?rs = "map fst tab" and ?h = "counter (map (length \<circ> snd) tab)"
  have ms: "?ms = map (\<lambda>r. mult r kss) ?rs" using tab(4) by auto
  have U: "U = set ?rs" "length tab = card U" "finite U"
    using tab(2,3) distinct_card [of ?rs] by auto
  have d: "\<forall>g \<in> set kss. distinct g" "\<forall>g \<in> set kss. set g \<subseteq> U"
    using group_sigs_distinct [OF assms(1)] assms(2) by auto
  have len: "length groups = length kss" using length_res_map [OF assms(1)] by simp
  note count = multiplicity_counts [OF tab(2) U(1), where kss = kss, folded ms]
  have total: "sum_list ?ms = sum_list (map length kss)"
    unfolding ms sum_list_distinct_conv_sum_set [OF tab(2)] U(1) [symmetric] by (rule sum_mult [OF d(1) U(3) d(2)])
  have hist: "(k, c) \<in> set ?h \<longleftrightarrow> c = card {r \<in> U. mult r kss = k} \<and> 0 < c" for k c
    unfolding counter_facts(3) count(1) by simp
  have le: "card {r \<in> U. mult r kss = k} \<le> card U" for k by (rule card_mono [OF U(3)]) auto
  have "\<forall>(k, c) \<in> set ?h. 0 < c \<and> c \<le> card U"
  proof clarify
    fix k c
    assume "(k, c) \<in> set ?h"
    then have "c = card {r \<in> U. mult r kss = k} \<and> 0 < c" by (rule hist [THEN iffD1])
    then show "0 < c \<and> c \<le> card U" using le [of k] by simp
  qed
  then have ent: "0 \<le> - sum_list (map (\<lambda>(k, c). (real c / real (card U)) * log 2 (real c / real (card U))) ?h)"
    by (rule entropy_nonneg)
  have ov: "overlaps kss = (\<Sum>r \<in> U. mult r kss choose 2)" by (rule overlaps_eq [OF d(1) U(3) d(2)])
  have pr: "(if 1 < length groups then real (overlaps kss) / real (length groups * (length groups - 1) div 2) else 0) *
      real (length kss choose 2) = real (\<Sum>r \<in> U. mult r kss choose 2)"
    unfolding len per_pair ov [symmetric] using no_pairs [of kss] by (simp add: not_less)
  have none: "card U = 0 \<Longrightarrow> U = {}" using U(3) by simp
  have avg: "(if card U = 0 then 0 else real (sum_list ?ms) / real (card U)) * real (card U) = real (sum_list (map length kss))"
    using total U(2) by (cases tab) auto
  have cover: "(if card U = 0 then 0 else real (length (filter (\<lambda>k. k = 1) ?ms)) / real (card U)) * real (card U) =
      real (card {r \<in> U. mult r kss = 1})"
    unfolding count(2) using none by auto
  have all: "sum_list (map snd ?h) = card U" using counter_facts(1) [of ?ms] U(2) by simp
  show ?thesis
    unfolding sgh_compute_metrics_def tab(1) assms(1) res_bind_simps Let_def U(2)
    by (intro exI conjI, rule refl)
      (simp_all only: sgh_metrics.simps avg cover all pr, use hist ent in simp_all)
qed

theorem metrics_count_witness:
  "\<exists>m. sgh_compute_metrics [([''tcp''], [JInt 1, JInt 2], JObj []), ([''udp''], [JInt 2], JObj [])] = Inr m \<and>
    avg_sgh_per_rule m = 3 / 2 \<and> avg_overlap_per_pair m = 1"
proof -
  let ?g = "[([''tcp''], [JInt 1, JInt 2], JObj []), ([''udp''], [JInt 2], JObj [])] :: node list"
  have k: "res_map group_sigs ?g = Inr [[JInt 1, JInt 2], [JInt 2]]"
    by (simp add: group_sigs_def jkey_def)
  obtain m where m: "sgh_compute_metrics ?g = Inr m" "avg_sgh_per_rule m * card {JInt 1, JInt 2} = 3"
    "avg_overlap_per_pair m * (2 choose 2) = (\<Sum>r \<in> {JInt 1, JInt 2}. mult r [[JInt 1, JInt 2], [JInt 2]] choose 2)"
    using metrics_count [OF k refl] by (auto simp: insert_commute numeral_2_eq_2)
  have "card {JInt 1, JInt 2} = 2" by simp
  moreover have "(\<Sum>r \<in> {JInt 1, JInt 2}. mult r [[JInt 1, JInt 2], [JInt 2]] choose 2) = 1" by (simp add: numeral_2_eq_2)
  ultimately show ?thesis using m by (auto simp: field_simps)
qed

section \<open>What the statistics of the patterns bound\<close>

lemma first_best_least:
  fixes f :: "real \<Rightarrow> real"
  assumes "xs \<noteq> []" and better: "\<And>a b. better a b \<longleftrightarrow> f a < f b"
  shows "first_best better xs \<in> set xs \<and> (\<forall>y \<in> set xs. f (fst (first_best better xs)) \<le> f (fst y))"
proof -
  have "fold (\<lambda>y best. if better (fst y) (fst best) then y else best) ys x \<in> insert x (set ys) \<and>
      (\<forall>y \<in> insert x (set ys). f (fst (fold (\<lambda>y best. if better (fst y) (fst best) then y else best) ys x)) \<le> f (fst y))"
    for ys and x :: "real \<times> json"
  proof (induction ys arbitrary: x)
    case (Cons a ys)
    show ?case using Cons.IH [of "if better (fst a) (fst x) then a else x"] better [of "fst a" "fst x"]
      by (auto split: if_splits)
  qed simp
  then show ?thesis using assms by (cases xs) auto
qed

lemma filter_prefix_length:
  "(\<And>i. i < k \<Longrightarrow> P (s ! i)) \<Longrightarrow> k \<le> length s \<Longrightarrow> k \<le> length (filter P s)"
proof -
  assume P: "\<And>i. i < k \<Longrightarrow> P (s ! i)" and k: "k \<le> length s"
  then have "{..<k} \<subseteq> {i. i < length s \<and> P (s ! i)}" by auto
  then have "card {..<k} \<le> card {i. i < length s \<and> P (s ! i)}" by (rule card_mono [rotated]) simp
  then show ?thesis by (simp add: length_filter_conv_card)
qed

lemma filter_suffix_length:
  "(\<And>i. k \<le> i \<Longrightarrow> i < length s \<Longrightarrow> P (s ! i)) \<Longrightarrow> length s - k \<le> length (filter P s)"
proof -
  assume P: "\<And>i. k \<le> i \<Longrightarrow> i < length s \<Longrightarrow> P (s ! i)"
  then have "{k..<length s} \<subseteq> {i. i < length s \<and> P (s ! i)}" by auto
  then have "card {k..<length s} \<le> card {i. i < length s \<and> P (s ! i)}" by (rule card_mono [rotated]) simp
  then show ?thesis by (simp add: length_filter_conv_card)
qed

text \<open>The median: at least half of the numbers are not above it, and half not below.\<close>

lemma median_splits:
  assumes "ns \<noteq> []"
  shows "length ns \<le> 2 * length (filter (\<lambda>x. x \<le> median ns) ns) \<and>
    length ns \<le> 2 * length (filter (\<lambda>x. median ns \<le> x) ns) \<and>
    (\<exists>lo \<in> set ns. \<exists>hi \<in> set ns. lo \<le> median ns \<and> median ns \<le> hi)"
proof -
  let ?s = "sort ns" and ?n = "length ns"
  have mono: "?s ! i \<le> ?s ! j" if "i \<le> j" "j < ?n" for i j
    using that sorted_nth_mono [of ?s i j] by simp
  have n: "0 < ?n" using assms by simp
  have same: "length (filter P ?s) = length (filter P ns)" for P
    by (simp add: filter_sort)
  have mem: "?s ! i \<in> set ns" if "i < ?n" for i using that nth_mem [of i ?s] by simp
  let ?a = "?s ! (?n div 2 - (if odd ?n then 0 else 1))" and ?b = "?s ! (?n div 2)"
  have ab: "?a \<le> median ns" "median ns \<le> ?b"
    using mono [of "?n div 2 - 1" "?n div 2"] n by (auto simp: median_def Let_def)
  have mems: "?a \<in> set ns" "?b \<in> set ns"
  proof -
    have "?n div 2 - 1 < ?n" "?n div 2 < ?n" using n by linarith+
    then show "?a \<in> set ns" "?b \<in> set ns" using mem by auto
  qed
  have "?n div 2 + (if odd ?n then 1 else 0) \<le> length (filter (\<lambda>x. x \<le> median ns) ?s)"
    by (rule filter_prefix_length) (use ab(1) n in \<open>auto intro!: order_trans [OF mono ab(1)] elim: oddE\<close>)
  then have below: "2 * (?n div 2 + (if odd ?n then 1 else 0)) \<le> 2 * length (filter (\<lambda>x. x \<le> median ns) ns)"
    unfolding same by (rule mult_le_mono2)
  have "length ?s - ?n div 2 \<le> length (filter (\<lambda>x. median ns \<le> x) ?s)"
    by (rule filter_suffix_length) (use ab(2) in \<open>auto intro!: order_trans [OF ab(2) mono]\<close>)
  then have above: "2 * (length ?s - ?n div 2) \<le> 2 * length (filter (\<lambda>x. median ns \<le> x) ns)"
    unfolding same by (rule mult_le_mono2)
  have "?n \<le> 2 * (?n div 2 + (if odd ?n then 1 else 0))" by (cases "odd ?n") (auto elim!: oddE evenE)
  note order_trans [OF this below]
  moreover have "?n \<le> 2 * (length ?s - ?n div 2)" by simp
  note order_trans [OF this above]
  ultimately show ?thesis using ab mems by blast
qed

lemma weighted_median_member:
  "xs \<noteq> [] \<Longrightarrow> half \<le> cum + sum_list (map snd xs) \<Longrightarrow> weighted_median half cum xs \<in> fst ` set xs"
proof (induction half cum xs rule: weighted_median.induct)
  case (2 half cum x c xs)
  then show ?case by (cases "xs = []") (auto simp: add.assoc)
qed simp

lemma mpm_nodes_counts:
  assumes "mpm_nodes mpm_group groups = Inr (present, counts, ld)"
  shows "length counts = length groups \<and> present \<le> length groups"
proof -
  have "length counts = length gs + length cs \<and> present \<le> p + length gs"
    if "res_fold (\<lambda>(path, sigs, stats) (present, counts, ld).
         res_bind (mpm_node mpm_group stats ld) (\<lambda>(has, patterns, ld').
           Inr (if has then present + 1 else present, counts @ [patterns], ld'))) gs (p, cs, l) = Inr (present, counts, ld)"
    for gs p cs l
    using that
  proof (induction gs arbitrary: p cs l)
    case (Cons g gs)
    obtain path sigs stats where g: "g = (path, sigs, stats)" by (cases g)
    from Cons.prems obtain has patterns l' where
      "res_fold (\<lambda>(path, sigs, stats) (present, counts, ld).
         res_bind (mpm_node mpm_group stats ld) (\<lambda>(has, patterns, ld').
           Inr (if has then present + 1 else present, counts @ [patterns], ld'))) gs
         (if has then p + 1 else p, cs @ [patterns], l') = Inr (present, counts, ld)"
      by (auto simp: g)
    from Cons.IH [OF this] show ?case by (auto split: if_split_asm)
  qed simp
  then show ?thesis using assms unfolding mpm_nodes_def by fastforce
qed

lemma length_bounds:
  assumes "length_statistics ld = Inr ls" "ld \<noteq> []"
    and "\<forall>(k, w, v) \<in> set ld. \<exists>c \<ge> 0. num_val v = Inr c"
  shows "\<exists>lo mid hi. num_val (min_length ls) = Inr lo \<and> num_val (median_length ls) = Inr mid \<and>
    num_val (max_length ls) = Inr hi \<and> lo \<le> mid \<and> mid \<le> hi"
proof -
  let ?f = "\<lambda>(k, w, v). res_bind (num_val w) (\<lambda>x. res_bind (num_val v) (\<lambda>c. Inr (x, w, c)))"
  obtain t where t: "res_map ?f ld = Inr t"
    using assms(1,2) by (cases "res_map ?f ld") (auto simp: length_statistics_def)
  have entry: "num_val w = Inr x \<and> 0 \<le> c" if mem: "(x, w, c) \<in> set t" for x w c
  proof -
    obtain i where i: "i < length t" "t ! i = (x, w, c)" using mem by (auto simp: in_set_conv_nth)
    then have "i < length ld" using length_res_map [OF t] by simp
    then have "?f (ld ! i) = Inr (x, w, c)" "ld ! i \<in> set ld" using res_map_nth [OF t, of i] i by simp_all
    then show ?thesis using assms(3) by (cases "ld ! i") fastforce
  qed
  have ne: "t \<noteq> []" using t assms(2) by (auto dest: length_res_map)
  let ?xs = "map (\<lambda>(x, k, c). (x, k)) t" and ?s = "sort_key fst t"
  let ?total = "sum_list (map (\<lambda>(x, k, c). c) t)"
  have ls: "min_length ls = snd (first_best (<) ?xs)" "max_length ls = snd (first_best (>) ?xs)"
    "median_length ls = weighted_median (?total / 2) 0 (map (\<lambda>(x, k, c). (k, c)) ?s)"
    using assms(1,2) t by (auto simp: length_statistics_def Let_def)
  have least: "first_best (<) ?xs \<in> set ?xs" "\<And>y. y \<in> set ?xs \<Longrightarrow> fst (first_best (<) ?xs) \<le> fst y"
    using first_best_least [of ?xs "(<)" "\<lambda>x. x"] ne by auto
  have most: "first_best (>) ?xs \<in> set ?xs" "\<And>y. y \<in> set ?xs \<Longrightarrow> fst y \<le> fst (first_best (>) ?xs)"
    using first_best_least [of ?xs "(>)" uminus] ne by auto
  have val: "num_val w = Inr x" if "(x, w) \<in> set ?xs" for x w using that entry by auto
  have "0 \<le> ?total" using entry by (intro sum_list_nonneg) auto
  moreover have "sum_list (map snd (map (\<lambda>(x, k, c). (k, c)) ?s)) = ?total"
  proof -
    have "mset (map (\<lambda>(x, k, c). c) ?s) = mset (map (\<lambda>(x, k, c). c) t)" by simp
    then have "sum_list (map (\<lambda>(x, k, c). c) ?s) = ?total" by (metis sum_mset_sum_list)
    moreover have "map snd (map (\<lambda>(x, k, c). (k, c)) u) = map (\<lambda>(x, k, c). c) u" for u :: "(real \<times> json \<times> real) list"
      by (induction u) auto
    ultimately show ?thesis by (simp only:)
  qed
  moreover have "?s \<noteq> []" using ne by (metis length_0_conv length_sort)
  ultimately have "median_length ls \<in> fst ` set (map (\<lambda>(x, k, c). (k, c)) ?s)"
    unfolding ls(3) by (intro weighted_median_member) auto
  then obtain x where "(x, median_length ls) \<in> set ?xs" by force
  then show ?thesis
    using val least most ls(1,2) by (metis fst_conv prod.collapse)
qed

text \<open>The statistics of the patterns.  Every node has one count, and no more nodes report patterns
  than there are; the average and the median of the counts lie between the least and the largest
  one, and at least half of the counts are on either side of the median; and of the lengths of the
  patterns, when none is counted negatively, the median lies between the smallest and the largest.\<close>

theorem mpm_bounds:
  assumes "analyze_mpm groups mpm_group = Inr st" and "groups \<noteq> []"
  shows "length (pattern_counts st) = total_sgh st \<and> mpm_present st \<le> total_sgh st \<and>
    (\<exists>ns lo hi. res_map num_val (pattern_counts st) = Inr ns \<and>
      num_val (min_patterns st) = Inr lo \<and> num_val (max_patterns st) = Inr hi \<and>
      (\<forall>x \<in> set ns. lo \<le> x \<and> x \<le> hi) \<and>
      lo \<le> avg_patterns st \<and> avg_patterns st \<le> hi \<and> lo \<le> median_patterns st \<and> median_patterns st \<le> hi \<and>
      length ns \<le> 2 * length (filter (\<lambda>x. x \<le> median_patterns st) ns) \<and>
      length ns \<le> 2 * length (filter (\<lambda>x. median_patterns st \<le> x) ns)) \<and>
    (\<forall>p cs ld. mpm_nodes mpm_group groups = Inr (p, cs, ld) \<longrightarrow> ld \<noteq> [] \<longrightarrow>
      (\<forall>(k, w, v) \<in> set ld. \<exists>c \<ge> 0. num_val v = Inr c) \<longrightarrow>
      (\<exists>lo mid hi. num_val (min_length (lengths st)) = Inr lo \<and> num_val (median_length (lengths st)) = Inr mid \<and>
        num_val (max_length (lengths st)) = Inr hi \<and> lo \<le> mid \<and> mid \<le> hi))"
proof -
  obtain present counts ld where nodes: "mpm_nodes mpm_group groups = Inr (present, counts, ld)"
    using assms(1) by (cases "mpm_nodes mpm_group groups") (auto simp: analyze_mpm_def)
  from assms(1) obtain ns where ns: "res_map num_val counts = Inr ns"
    by (cases "res_map num_val counts") (auto simp: analyze_mpm_def nodes)
  note counted = mpm_nodes_counts [OF nodes]
  have ne: "counts \<noteq> []" "ns \<noteq> []" using counted assms(2) length_res_map [OF ns] by auto
  have st: "total_sgh st = length groups" "mpm_present st = present" "pattern_counts st = counts"
    "avg_patterns st = sum_list ns / real (length ns)" "median_patterns st = median ns"
    "min_patterns st = snd (first_best (<) (zip ns counts))" "max_patterns st = snd (first_best (>) (zip ns counts))"
    using assms(1) ns ne by (auto simp: analyze_mpm_def nodes)
  let ?z = "zip ns counts"
  have len: "length ns = length counts" using length_res_map [OF ns] .
  have z: "?z \<noteq> []" using ne len by (cases ns; cases counts) auto
  have val: "num_val w = Inr x" if "(x, w) \<in> set ?z" for x w
    using that res_map_nth [OF ns] len by (fastforce simp: in_set_zip)
  have least: "first_best (<) ?z \<in> set ?z" "\<And>y. y \<in> set ?z \<Longrightarrow> fst (first_best (<) ?z) \<le> fst y"
    using first_best_least [of ?z "(<)" "\<lambda>x. x"] z by auto
  have most: "first_best (>) ?z \<in> set ?z" "\<And>y. y \<in> set ?z \<Longrightarrow> fst y \<le> fst (first_best (>) ?z)"
    using first_best_least [of ?z "(>)" uminus] z by auto
  define lo hi where "lo = fst (first_best (<) ?z)" and "hi = fst (first_best (>) ?z)"
  have lohi: "num_val (min_patterns st) = Inr lo" "num_val (max_patterns st) = Inr hi"
    unfolding st lo_def hi_def using least(1) most(1) val by (metis prod.collapse)+
  have range: "lo \<le> x \<and> x \<le> hi" if "x \<in> set ns" for x
  proof -
    have "x \<in> fst ` set ?z" using that len by (simp flip: set_map)
    then show ?thesis unfolding lo_def hi_def using least(2) most(2) by auto
  qed
  have "real (length ns) * lo \<le> sum_list ns \<and> sum_list ns \<le> real (length ns) * hi"
    using range by (induction ns) (fastforce simp: algebra_simps)+
  then have avg: "lo \<le> avg_patterns st \<and> avg_patterns st \<le> hi"
    using ne(2) unfolding st by (simp add: field_simps)
  have med: "lo \<le> median ns \<and> median ns \<le> hi" using median_splits [OF ne(2)] range by force
  have "length_statistics ld = Inr (lengths st)" using assms(1) ns by (auto simp: analyze_mpm_def nodes)
  note length_bounds [OF this]
  then show ?thesis
    using counted ns lohi range avg med median_splits [OF ne(2)] nodes unfolding st by simp
qed

theorem mpm_bounds_witness:
  "\<exists>st. analyze_mpm [([''tcp''], [], JObj [(''types'', JObj [(''mpm'', JInt 1)]), (''mpm'', JObj [(''payload'', JInt 3)])])]
      ''payload'' = Inr st \<and> length (pattern_counts st) = 1 \<and> mpm_present st \<le> 1"
proof -
  let ?g = "[([''tcp''], [], JObj [(''types'', JObj [(''mpm'', JInt 1)]), (''mpm'', JObj [(''payload'', JInt 3)])])] :: node list"
  obtain st where st: "analyze_mpm ?g ''payload'' = Inr st"
    by (simp add: analyze_mpm_def mpm_nodes_def mpm_node_def jget_def num_val_def is_obj_def is_num_def length_statistics_def)
  then have "total_sgh st = 1"
    by (auto simp: analyze_mpm_def mpm_nodes_def mpm_node_def jget_def num_val_def is_obj_def is_num_def length_statistics_def)
  then show ?thesis using mpm_bounds [OF st] st by simp
qed

end
