(* ===== verification/Group_Table.thy ===== *)
theory Group_Table
  imports Rule_Groups Py_Re
begin

text \<open>
  The table made from the report on rule groups, et-analysis/latextable2.py: the blocks of the
  report, the histogram and the statistics of patterns read back from a block, the names of levels,
  and the lines of the LaTeX table.

  A decimal number read from the report is the real number it denotes; formatting is an argument.
\<close>

section \<open>Numbers and names\<close>

text \<open>\<^verbatim>\<open>float(s)\<close> for the texts of digits and dots that the patterns let through.\<close>

definition num_char :: "char \<Rightarrow> bool" where
  "num_char c \<longleftrightarrow> py_isdigit c \<or> c = CHR ''.''"

definition digits_val :: "string \<Rightarrow> int" where
  "digits_val s = fold (\<lambda>c n. n * 10 + digit_val c) s 0"

definition dec_float :: "string \<Rightarrow> real res" where
  "dec_float s =
     (case split_char (CHR ''.'') s of
        [i] \<Rightarrow> if i = [] then Inl ValueError else Inr (of_int (digits_val i))
      | [i, f] \<Rightarrow> if i = [] \<and> f = [] then Inl ValueError
          else Inr (of_int (digits_val i) + of_int (digits_val f) / 10 ^ length f)
      | _ \<Rightarrow> Inl ValueError)"

text \<open>\<^verbatim>\<open>upper\<close> and \<^verbatim>\<open>capitalize\<close> on the characters whose upper case is Latin-1 as well.\<close>

definition py_upper_char :: "char \<Rightarrow> char" where
  "py_upper_char c =
     (let n = (of_char c :: nat)
      in if 97 \<le> n \<and> n \<le> 122 \<or> 224 \<le> n \<and> n \<le> 254 \<and> n \<noteq> 247 then char_of (n - 32) else c)"

definition py_upper :: "string \<Rightarrow> string" where
  "py_upper s = concat (map (\<lambda>c. if c = CHR 0xDF then ''SS'' else [py_upper_char c]) s)"

definition py_capitalize :: "string \<Rightarrow> string" where
  "py_capitalize s =
     (case s of [] \<Rightarrow> [] | c # t \<Rightarrow> (if c = CHR 0xDF then ''Ss'' else [py_upper_char c]) @ py_lower t)"

definition map_level :: "string \<Rightarrow> string \<times> string" where
  "map_level level_name =
     (if py_lower level_name = ''global'' then (''All'', ''Both'')
      else
        let parts = split_char (CHR ''.'') level_name;
            proto = py_upper (parts ! 0)
        in (proto,
            if length parts = 1 then ''Both''
            else if py_lower (parts ! 1) = ''toclient'' then ''To-Client''
            else if py_lower (parts ! 1) = ''toserver'' then ''To-Server''
            else py_capitalize (parts ! 1)))"

section \<open>Reading a block\<close>

definition re_colon_number :: re where
  "re_colon_number = RSeq (rlit '':'') (RSeq (RStar (RClass py_isspace)) (RGroup 1 (rplus (RClass num_char))))"

fun histogram_loop :: "bool \<Rightarrow> real \<Rightarrow> string list \<Rightarrow> real res" where
  "histogram_loop histo_started acc [] = Inr acc"
| "histogram_loop histo_started acc (line # ls) =
     (if contains ''Histogram of rule multiplicity'' line then histogram_loop True acc ls
      else if histo_started then
        if strip line = [] \<or> \<not> startswith ''    '' line then Inr acc
        else (case re_search re_colon_number line of
                None \<Rightarrow> histogram_loop histo_started acc ls
              | Some (_, _, _, g) \<Rightarrow>
                  res_bind (dec_float (group g 1)) (\<lambda>x. histogram_loop histo_started (acc + x) ls))
      else histogram_loop histo_started acc ls)"

definition parse_histogram :: "string list \<Rightarrow> int res" where
  "parse_histogram block_lines =
     res_bind (histogram_loop False 0 block_lines) (\<lambda>acc. Inr (if 0 \<le> acc then \<lfloor>acc\<rfloor> else \<lceil>acc\<rceil>))"

definition re_statistic :: re where
  "re_statistic =
     RSeq (RGroup 1 (RAlt (rlit ''Average'') (RAlt (rlit ''Median'') (RAlt (rlit ''Min'') (rlit ''Max'')))))
       (RSeq (RStar (RClass py_isspace)) (RSeq (rlit '':'')
         (RSeq (RStar (RClass py_isspace)) (RGroup 2 (rplus (RClass num_char))))))"

datatype part = Outside | InMpm | InLength

record mpm_state =
  sgh :: "int option"
  mpm_vals :: "real dict"
  length_vals :: "real dict"
  where_in :: part

definition read_sgh :: "string \<Rightarrow> mpm_state \<Rightarrow> mpm_state res" where
  "read_sgh line_strip st =
     (if startswith ''Total SGHs:'' line_strip then
        (case split_on ''Total SGHs:'' line_strip of
           _ # n # _ \<Rightarrow> (case py_int (strip n) of Inl e \<Rightarrow> Inr (st\<lparr>sgh := None\<rparr>) | Inr i \<Rightarrow> Inr (st\<lparr>sgh := Some i\<rparr>))
         | _ \<Rightarrow> Inl IndexError)
      else Inr st)"

definition read_statistic :: "string \<Rightarrow> mpm_state \<Rightarrow> mpm_state res" where
  "read_statistic line_strip st =
     (if where_in st = Outside then Inr st
      else
        (case re_match re_statistic line_strip of
           None \<Rightarrow> Inr st
         | Some g \<Rightarrow>
             res_bind (dec_float (group g 2)) (\<lambda>value.
             let key = py_lower (group g 1)
             in Inr (if where_in st = InMpm then st\<lparr>mpm_vals := dict_set key value (mpm_vals st)\<rparr>
                     else st\<lparr>length_vals := dict_set key value (length_vals st)\<rparr>))))"

definition mpm_line :: "string \<Rightarrow> mpm_state \<Rightarrow> mpm_state res" where
  "mpm_line line st =
     res_bind (read_sgh (strip line) st) (\<lambda>st1.
       if contains ''MPM patterns for group'' line then Inr (st1\<lparr>where_in := InMpm\<rparr>)
       else if contains ''Pattern Lengths for group'' line then Inr (st1\<lparr>where_in := InLength\<rparr>)
       else read_statistic (strip line) st1)"

text \<open>The values in the order of the table; a missing one is \<^verbatim>\<open>None\<close>.\<close>

record stat_row =
  stat_min :: "real option"
  stat_max :: "real option"
  stat_median :: "real option"
  stat_avg :: "real option"

definition reorder :: "real dict \<Rightarrow> stat_row" where
  "reorder d = \<lparr>stat_min = map_of d ''min'', stat_max = map_of d ''max'', stat_median = map_of d ''median'',
     stat_avg = (if ''average'' \<in> fst ` set d then map_of d ''average'' else map_of d ''avg'')\<rparr>"

definition parse_mpm_analysis :: "string list \<Rightarrow> (int option \<times> stat_row \<times> stat_row) res" where
  "parse_mpm_analysis block_lines =
     res_bind (res_fold mpm_line block_lines \<lparr>sgh = None, mpm_vals = [], length_vals = [], where_in = Outside\<rparr>) (\<lambda>st.
       Inr (sgh st, reorder (mpm_vals st), reorder (length_vals st)))"

section \<open>Blocks and rows\<close>

definition not_space :: "char \<Rightarrow> bool" where
  "not_space c \<longleftrightarrow> \<not> py_isspace c"

definition re_level :: re where
  "re_level = RSeq (rlit ''Statistics for level:'')
     (RSeq (RStar (RClass py_isspace)) (RGroup 1 (rplus (RClass not_space))))"

type_synonym blocks = "string list dict"

definition close_block :: "(string \<times> string list) option \<Rightarrow> blocks \<Rightarrow> blocks" where
  "close_block current d = (case current of None \<Rightarrow> d | Some (level, block) \<Rightarrow> dict_set level block d)"

text \<open>The line breaks at the end of a line.\<close>

definition strip_breaks :: "string \<Rightarrow> string" where
  "strip_breaks line = rev (dropWhile (\<lambda>c. c = CHR 0x0A) (rev line))"

fun read_blocks :: "(string \<times> string list) option \<Rightarrow> blocks \<Rightarrow> string list \<Rightarrow> blocks" where
  "read_blocks current d [] = close_block current d"
| "read_blocks current d (line # ls) =
     (case re_match re_level line of
        Some g \<Rightarrow> read_blocks (Some (strip (group g 1), [])) (close_block current d) ls
      | None \<Rightarrow>
          read_blocks (map_option (\<lambda>(level, block). (level, block @ [strip_breaks line])) current) d ls)"

record table_row =
  protocol :: string
  direction :: string
  sgh_count :: "int option"
  unique_rules :: int
  mpm :: stat_row
  pattern_lengths :: stat_row

definition summarize :: "string \<Rightarrow> string list \<Rightarrow> table_row res" where
  "summarize level block_lines =
     (let (proto, dir) = map_level level
      in res_bind (parse_histogram block_lines) (\<lambda>unique_rule_count.
         res_bind (parse_mpm_analysis block_lines) (\<lambda>(n, m, l).
           Inr \<lparr>protocol = proto, direction = dir, sgh_count = n, unique_rules = unique_rule_count,
             mpm = m, pattern_lengths = l\<rparr>)))"

definition desired_order :: "string list" where
  "desired_order =
     [''global'', ''tcp'', ''tcp.toserver'', ''tcp.toclient'', ''udp'', ''udp.toserver'', ''udp.toclient'',
      ''icmpv4'', ''icmpv4.toserver'', ''icmpv4.toclient'', ''icmpv6'', ''icmpv6.toserver'', ''icmpv6.toclient'']"

definition table_rows :: "string list \<Rightarrow> table_row list res" where
  "table_rows lines =
     res_bind (res_map (\<lambda>(level, block). res_bind (summarize level block) (\<lambda>r. Inr (level, r)))
       (read_blocks None [] lines)) (\<lambda>summary.
       Inr (concat (map (\<lambda>level. case map_of summary level of None \<Rightarrow> [] | Some r \<Rightarrow> [r]) desired_order)))"

section \<open>The table\<close>

text \<open>Thousands are separated by commas.  A missing value cannot be formatted.\<close>

fun group_thousands :: "string \<Rightarrow> string" where
  "group_thousands s =
     (if length s \<le> 3 then s
      else group_thousands (take (length s - 3) s) @ '','' @ drop (length s - 3) s)"

declare group_thousands.simps [simp del]

definition thousands :: "int \<Rightarrow> string" where
  "thousands i = (if i < 0 then CHR ''-'' # group_thousands (nat_str (nat (- i))) else group_thousands (nat_str (nat i)))"

definition fmt_opt :: "(nat \<Rightarrow> real \<Rightarrow> string) \<Rightarrow> nat \<Rightarrow> real option \<Rightarrow> string res" where
  "fmt_opt fmt decimals v = (case v of None \<Rightarrow> Inl TypeError | Some x \<Rightarrow> Inr (fmt decimals x))"

definition bs :: string where
  "bs = [CHR 0x5C]"

definition row_line :: "(nat \<Rightarrow> real \<Rightarrow> string) \<Rightarrow> nat \<Rightarrow> table_row \<Rightarrow> string res" where
  "row_line fmt decimals r =
     res_bind (fmt_opt fmt decimals (stat_min (mpm r))) (\<lambda>mpm_min.
     res_bind (fmt_opt fmt decimals (stat_max (mpm r))) (\<lambda>mpm_max.
     res_bind (fmt_opt fmt decimals (stat_median (mpm r))) (\<lambda>mpm_median.
     res_bind (fmt_opt fmt decimals (stat_avg (mpm r))) (\<lambda>mpm_avg.
       Inr (join '' & '' [protocol r, direction r, (case sgh_count r of None \<Rightarrow> [] | Some n \<Rightarrow> int_str n),
          thousands (unique_rules r), mpm_min, mpm_max, mpm_median, mpm_avg] @ '' '' @ bs @ bs @ '' '')))))"

definition table_head :: "string list" where
  "table_head =
     [bs @ ''begin{table*}[ht]'', bs @ ''centering'', bs @ ''begin{tabular}{|l|l|r|r|r|r|r|r|}'', bs @ ''hline'',
      join '' & '' (map (\<lambda>h. bs @ ''textbf{'' @ h @ ''}'') [''Protocol'', ''Direction'', ''SGH Count'', ''Unique Rule Count'']) @
        '' & '' @ bs @ ''multicolumn{4}{c|}{'' @ bs @ ''textbf{Per SGH MPM Packet-payload Pattern Count}} '' @ bs @ bs,
      bs @ ''hline'', '' &  &  &  & Min & Max & Median & Avg '' @ bs @ bs, bs @ ''hline'']"

definition table_foot :: "string list" where
  "table_foot =
     [bs @ ''end{tabular}'',
      bs @ ''caption{Distribution of Signature Group Heads (SGHs) and rules by protocol and directionality along with per SGH MPM packet-payload patterns.}'',
      bs @ ''label{tab:sgh_rule_distribution}'', bs @ ''end{table*}'']"

definition print_latex_table :: "(nat \<Rightarrow> real \<Rightarrow> string) \<Rightarrow> table_row list \<Rightarrow> nat \<Rightarrow> string list res" where
  "print_latex_table fmt rows decimals =
     res_bind (res_map (row_line fmt decimals) rows) (\<lambda>lines.
       Inr (table_head @ concat (map (\<lambda>l. [l, bs @ ''hline'']) lines) @ table_foot))"

definition latex_table :: "(nat \<Rightarrow> real \<Rightarrow> string) \<Rightarrow> nat \<Rightarrow> string list \<Rightarrow> string list res" where
  "latex_table fmt decimals lines = res_bind (table_rows lines) (\<lambda>rows. print_latex_table fmt rows decimals)"

end
