(* ===== verification/Report_Read.thy ===== *)
theory Report_Read
  imports Group_Table
begin

text \<open>
  What et-analysis/latextable2.py reads from the report that et-analysis/met7.py prints: decimal
  numerals, the lines of the histogram and of the statistics, blocks, and the whole report.
\<close>

section \<open>Decimal numerals\<close>

lemma digit_char: "k < 10 \<Longrightarrow> py_isdigit (char_of (48 + k)) \<and> digit_val (char_of (48 + k)) = int k"
proof -
  have "\<forall>k \<in> set [0..<10]. py_isdigit (char_of (48 + k)) \<and> digit_val (char_of (48 + k)) = int k"
    by code_simp
  then show "k < 10 \<Longrightarrow> py_isdigit (char_of (48 + k)) \<and> digit_val (char_of (48 + k)) = int k" by simp
qed

lemma nat_str_facts:
  "nat_str n \<noteq> [] \<and> list_all py_isdigit (nat_str n) \<and> digits_val (nat_str n) = int n"
proof (induction n rule: nat_str.induct)
  case (1 n)
  show ?case
  proof (cases "n < 10")
    case True
    then show ?thesis using digit_char [of n] by (simp add: nat_str.simps [of n] digits_val_def)
  next
    case False
    have n: "int n = int (n div 10) * 10 + int (n mod 10)" by presburger
    show ?thesis using 1 False digit_char [of "n mod 10"] n
      by (subst (1 2 3) nat_str.simps) (simp add: digits_val_def)
  qed
qed

lemma int_body_digits: "list_all py_isdigit s \<Longrightarrow> int_body acc s = Some (fold (\<lambda>c n. n * 10 + digit_val c) s acc)"
  by (induction acc s rule: int_body.induct) auto

lemma digit_not_space: "py_isdigit c \<Longrightarrow> \<not> py_isspace c \<and> c \<noteq> CHR ''.'' \<and> c \<noteq> CHR ''-'' \<and> c \<noteq> CHR ''+''"
  by (auto simp: py_isdigit_def py_isspace_def)

text \<open>A text without surrounding space.\<close>

lemma strip_ends:
  "s \<noteq> [] \<Longrightarrow> \<not> py_isspace (hd s) \<Longrightarrow> \<not> py_isspace (last s) \<Longrightarrow> strip s = s"
proof -
  assume s: "s \<noteq> []" "\<not> py_isspace (hd s)" "\<not> py_isspace (last s)"
  then have "lstrip s = s" by (cases s) (auto simp: lstrip_def)
  then show "strip s = s" using s dropWhile_rev_last [of s py_isspace] by (simp add: strip_def rstrip_def)
qed

lemma strip_indent: "list_all py_isspace b \<Longrightarrow> strip (b @ s) = strip s"
  by (simp add: strip_def lstrip_def dropWhile_append list_all_iff)

lemma py_int_nat_str: "py_int (nat_str n) = Inr (int n)"
proof -
  have f: "nat_str n \<noteq> []" "list_all py_isdigit (nat_str n)" "digits_val (nat_str n) = int n"
    using nat_str_facts [of n] by auto
  have "py_isdigit (hd (nat_str n))" "py_isdigit (last (nat_str n))"
    using f(1,2) by (auto simp: list_all_iff)
  then have "strip (nat_str n) = nat_str n" using f(1) digit_not_space by (intro strip_ends) auto
  then show ?thesis using f digit_not_space int_body_digits [of "nat_str n" 0]
    by (cases "nat_str n") (auto simp: py_int_def unsigned_int_def digits_val_def)
qed

text \<open>The texts of numbers that can be read back.\<close>

definition number_text :: "string \<Rightarrow> bool" where
  "number_text w \<longleftrightarrow> w \<noteq> [] \<and> list_all num_char w \<and> (\<exists>x. dec_float w = Inr x)"

definition number_of :: "string \<Rightarrow> real" where
  "number_of w = projr (dec_float w)"

lemma number_text_read: "number_text w \<Longrightarrow> dec_float w = Inr (number_of w)"
  by (auto simp: number_text_def number_of_def)

lemma nat_str_number: "number_text (nat_str n) \<and> number_of (nat_str n) = real n"
proof -
  have f: "nat_str n \<noteq> []" "list_all py_isdigit (nat_str n)" "digits_val (nat_str n) = int n"
    using nat_str_facts [of n] by auto
  then have "CHR ''.'' \<notin> set (nat_str n)" using digit_not_space by (auto simp: list_all_iff)
  then have "dec_float (nat_str n) = Inr (real n)"
    using f(1,3) by (simp add: dec_float_def split_char_no_sep)
  then show ?thesis using f(1,2) by (auto simp: number_text_def number_of_def num_char_def list_all_iff)
qed

lemma num_char_facts: "num_char c \<Longrightarrow> \<not> py_isspace c \<and> c \<noteq> CHR '':''"
  using digit_not_space by (auto simp: num_char_def py_isdigit_def py_isspace_def)

section \<open>Lines of the report\<close>

lemma contains_before:
  assumes "contains p (u @ w)" "p \<noteq> []" "last p \<notin> set w"
  shows "contains p u"
proof -
  obtain a b where ab: "u @ w = a @ p @ b" using assms(1) contains_iff by auto
  obtain q where q: "p = q @ [last p]" using assms(2) by (metis append_butlast_last_id)
  have "length (a @ p) \<le> length u"
  proof (rule ccontr)
    assume "\<not> length (a @ p) \<le> length u"
    then have i: "length u < length (a @ p)" by simp
    have "((a @ p) @ b) ! (length (a @ p) - 1) = last (a @ p)"
      by (subst nth_append) (use assms(2) in \<open>simp add: last_conv_nth del: append_assoc length_append last_append\<close>)
    then have "(u @ w) ! (length (a @ p) - 1) = last p" using ab assms(2) by simp
    moreover have "\<not> length (a @ p) - 1 < length u" using i by simp
    ultimately have "w ! (length (a @ p) - 1 - length u) = last p" by (simp add: nth_append)
    moreover have "length (a @ p) - 1 - length u < length w"
      using arg_cong [OF ab, of length] i by simp
    ultimately show False using assms(3) nth_mem by metis
  qed
  then have "u = a @ p @ take (length u - length (a @ p)) b"
    using arg_cong [OF ab, of "take (length u)"] by simp
  then show ?thesis unfolding contains_iff by blast
qed

text \<open>White space and a number, up to the end of the line.\<close>

lemma space_number:
  assumes "number_text w"
  shows "\<exists>ms. rmatch (RSeq (RStar (RClass py_isspace)) (RGroup i (rplus (RClass num_char)))) (b, CHR '' '' # w, g) =
    (rev w @ CHR '' '' # b, [], (i, w) # g) # ms"
proof -
  let ?K = "rmatch (RGroup i (rplus (RClass num_char)))"
  have refuse: "?K (b, c # a, g) = []" if "py_isspace c" for b c a
    using that num_char_facts by (auto simp: rplus_def)
  have w: "takeWhile num_char w = w" "dropWhile num_char w = []" "w \<noteq> []"
    using assms by (auto simp: number_text_def list_all_iff)
  have "\<exists>ms. ?K (b, w, g) = (rev w @ b, [], (i, w) # g) # ms" for b
    using group_plus_first [of "\<lambda>m. [m]" i num_char w g "\<lambda>b a. (b, a, (i, w) # g)" "\<lambda>b a. []" b] w
    by (simp add: comp_def concat_map_singleton)
  moreover have "takeWhile py_isspace (CHR '' '' # w) = '' ''" "dropWhile py_isspace (CHR '' '' # w) = w"
    using assms num_char_facts by (cases w; auto simp: py_isspace_def number_text_def)+
  ultimately show ?thesis
    using star_class_refused [of py_isspace ?K g b "CHR '' '' # w"] refuse by simp
qed

lemma colon_search:
  assumes "CHR '':'' \<notin> set pre" "number_text w"
  shows "\<exists>a b c. re_search re_colon_number (pre @ '': '' @ w) = Some (a, b, c, [(1, w)])"
proof -
  have skip: "search_from re_colon_number b (pre @ s) = search_from re_colon_number (rev pre @ b) s" for b s
    using assms(1)
  proof (induction pre arbitrary: b)
    case (Cons c pre)
    then have "match_at re_colon_number b (c # pre @ s) = None"
      by (auto simp: match_at_def re_colon_number_def rlit_match)
    then show ?case using Cons by (simp add: search_from_step)
  qed simp
  have "\<exists>ms. rmatch re_colon_number (b, '': '' @ w, []) = (rev w @ rev '': '' @ b, [], [(1, w)]) # ms" for b
    using space_number [OF assms(2), of 1 "CHR '':'' # b" "[]"] unfolding re_colon_number_def rmatch_lit_seq by simp
  then have "\<exists>b'. match_at re_colon_number b ('': '' @ w) = Some (b', [], [(1, w)])" for b
    by (auto simp: match_at_def) (metis list.simps(5))
  then obtain b' where "match_at re_colon_number (rev pre) ('': '' @ w) = Some (b', [], [(1, w)])" by blast
  then show ?thesis unfolding re_search_def skip by (subst search_from.simps) simp
qed

lemma statistic_match:
  assumes "k \<in> {''Average'', ''Median'', ''Min'', ''Max''}" "list_all py_isspace sp" "number_text w"
  shows "re_match re_statistic (k @ sp @ '': '' @ w) = Some [(2, w), (1, k)]"
proof -
  let ?alt = "RGroup 1 (RAlt (rlit ''Average'') (RAlt (rlit ''Median'') (RAlt (rlit ''Min'') (rlit ''Max''))))"
  let ?N = "RSeq (RStar (RClass py_isspace)) (RGroup 2 (rplus (RClass num_char)))"
  have alt: "rmatch ?alt ([], k @ r, []) = [(rev k, r, [(1, k)])]" for r
    using assms(1) by (auto simp: rlit_match)
  have colon: "\<not> py_isspace (CHR '':'')" by (simp add: py_isspace_def)
  have refuse: "rmatch (RSeq (rlit '':'') ?N) (b, c # a, g) = []" if "py_isspace c" for b c a g
    unfolding rmatch_lit_seq using that colon by auto
  have sp: "takeWhile py_isspace (sp @ '': '' @ w) = sp" "dropWhile py_isspace (sp @ '': '' @ w) = '': '' @ w"
    using assms(2) colon by (simp_all add: list_all_iff takeWhile_append2 dropWhile_append2)
  obtain ms where ms: "rmatch ?N (CHR '':'' # rev sp @ rev k, CHR '' '' # w, [(1, k)]) =
      (rev w @ CHR '' '' # CHR '':'' # rev sp @ rev k, [], [(2, w), (1, k)]) # ms"
    using space_number [OF assms(3)] by blast
  have "rmatch (RSeq (RStar (RClass py_isspace)) (RSeq (rlit '':'') ?N)) (rev k, sp @ '': '' @ w, [(1, k)]) =
      rmatch (RSeq (rlit '':'') ?N) (rev sp @ rev k, '': '' @ w, [(1, k)])"
    using star_class_refused [of py_isspace "rmatch (RSeq (rlit '':'') ?N)" "[(1, k)]" "rev k" "sp @ '': '' @ w"] refuse
    unfolding sp by (simp only: rmatch.simps(3))
  also have "\<dots> = (rev w @ CHR '' '' # CHR '':'' # rev sp @ rev k, [], [(2, w), (1, k)]) # ms"
    unfolding rmatch_lit_seq using ms by simp
  finally have "rmatch re_statistic ([], k @ sp @ '': '' @ w, []) =
      (rev w @ CHR '' '' # CHR '':'' # rev sp @ rev k, [], [(2, w), (1, k)]) # ms"
    unfolding re_statistic_def by (simp only: rmatch.simps(3) [of ?alt] alt) simp
  then show ?thesis by (simp add: re_match_def match_at_def)
qed

section \<open>What is read back from a block\<close>

lemma contains_set: "contains p s \<Longrightarrow> set p \<subseteq> set s"
  by (auto simp: contains_iff)

lemma lacks_char: "c \<in> set p \<Longrightarrow> c \<notin> set s \<Longrightarrow> \<not> contains p s"
  using contains_set by blast

lemma strip_head: "\<not> py_isspace c \<Longrightarrow> \<exists>t. strip (c # s) = c # t"
proof -
  assume c: "\<not> py_isspace c"
  then have "lstrip (c # s) = c # s" by (simp add: lstrip_def)
  moreover have "rstrip (c # s) = c # rstrip s"
    using c by (simp add: rstrip_def dropWhile_append dropWhile_eq_Nil_conv)
  ultimately show ?thesis by (simp add: strip_def)
qed

lemma number_text_chars: "number_text w \<Longrightarrow> c \<in> set w \<Longrightarrow> num_char c"
  by (simp add: number_text_def list_all_iff)

lemma not_contains_number:
  assumes "number_text w" "p \<noteq> []" "\<not> num_char (last p)" "\<not> contains p u"
  shows "\<not> contains p (u @ w)"
  using contains_before [of p u w] number_text_chars [OF assms(1)] assms(2-4) by blast

definition quiet :: "string \<Rightarrow> bool" where
  "quiet l \<longleftrightarrow> \<not> startswith ''Total SGHs:'' (strip l) \<and> \<not> contains ''MPM patterns for group'' l \<and>
     \<not> contains ''Pattern Lengths for group'' l"

lemma quiet_line: "quiet l \<Longrightarrow> where_in st = Outside \<Longrightarrow> mpm_line l st = Inr st"
  by (simp add: mpm_line_def read_sgh_def quiet_def read_statistic_def)

lemma quiet_lines: "list_all quiet ls \<Longrightarrow> where_in st = Outside \<Longrightarrow> res_fold mpm_line (ls @ ms) st = res_fold mpm_line ms st"
  by (induction ls) (auto simp: quiet_line)

lemma not_total: "c \<noteq> CHR ''T'' \<Longrightarrow> \<not> py_isspace c \<Longrightarrow> list_all py_isspace b \<Longrightarrow> \<not> startswith ''Total SGHs:'' (strip (b @ c # s))"
  using strip_head [of c s] by (auto simp: strip_indent)

lemma quiet_number:
  assumes "number_text w" "list_all py_isspace b" "c \<noteq> CHR ''T''" "\<not> py_isspace c"
    "\<not> contains ''MPM patterns for group'' (b @ c # u)" "\<not> contains ''Pattern Lengths for group'' (b @ c # u)"
  shows "quiet (b @ c # u @ w)"
  using not_total [OF assms(3,4,2), of "u @ w"]
    not_contains_number [OF assms(1) _ _ assms(5)] not_contains_number [OF assms(1) _ _ assms(6)]
  by (simp add: quiet_def num_char_def py_isdigit_def)

definition hist_line :: "nat \<times> nat \<Rightarrow> string" where
  "hist_line = (\<lambda>(cnt, occ). ''    '' @ nat_str cnt @ '': '' @ nat_str occ)"

lemma nat_str_chars: "c \<in> set (nat_str k) \<Longrightarrow> num_char c \<and> c \<noteq> CHR '':''"
  using number_text_chars nat_str_number num_char_facts by blast

lemma hist_line_chars: "c \<in> set (hist_line p) \<Longrightarrow> num_char c \<or> c = CHR '' '' \<or> c = CHR '':''"
  using nat_str_chars by (auto simp: hist_line_def split: prod.splits)

lemma quiet_hist_line: "quiet (hist_line p)"
proof -
  obtain a b where p: "p = (a, b)" by (cases p)
  obtain c s where s: "nat_str a = c # s" using nat_str_facts [of a] by (cases "nat_str a") auto
  have c: "num_char c" using nat_str_number [of a] number_text_chars s by fastforce
  have "\<not> startswith ''Total SGHs:'' (strip (hist_line p))"
    unfolding hist_line_def p prod.case s append_Cons [of c s]
    by (rule not_total) (use c num_char_facts in \<open>auto simp: num_char_def py_isdigit_def py_isspace_def\<close>)
  moreover have "CHR ''r'' \<notin> set (hist_line p)" using hist_line_chars [of "CHR ''r''" p]
    by (auto simp: num_char_def py_isdigit_def)
  ultimately show ?thesis
    using lacks_char [of "CHR ''r''" "''MPM patterns for group''"] lacks_char [of "CHR ''r''" "''Pattern Lengths for group''"]
    by (simp add: quiet_def)
qed

lemma histogram_lines:
  "histogram_loop True t (map hist_line hist @ rest) = histogram_loop True (t + real (sum_list (map snd hist))) rest"
proof (induction hist arbitrary: t)
  case (Cons p hist)
  obtain a b where p: "p = (a, b)" by (cases p)
  have "CHR ''H'' \<notin> set (hist_line p)" using hist_line_chars [of "CHR ''H''" p]
    by (auto simp: num_char_def py_isdigit_def)
  then have no: "\<not> contains ''Histogram of rule multiplicity'' (hist_line p)"
    using lacks_char [of "CHR ''H''" "''Histogram of rule multiplicity''"] by simp
  have start: "startswith ''    '' (hist_line p)" by (simp add: hist_line_def p)
  have "CHR '':'' \<in> set (hist_line p)" by (simp add: hist_line_def p)
  moreover have "\<not> py_isspace (CHR '':'')" by code_simp
  ultimately have "strip (hist_line p) \<noteq> []" unfolding strip_eq_Nil_iff by blast
  moreover have colon: "CHR '':'' \<notin> set (''    '' @ nat_str a)"
    unfolding set_append Un_iff by (use nat_str_chars in \<open>fastforce\<close>)
  obtain x y z where "re_search re_colon_number ((''    '' @ nat_str a) @ '': '' @ nat_str b) = Some (x, y, z, [(1, nat_str b)])"
    using colon_search [OF colon] nat_str_number by blast
  then have "re_search re_colon_number (hist_line p) = Some (x, y, z, [(1, nat_str b)])"
    by (simp add: hist_line_def p)
  moreover have "dec_float (nat_str b) = Inr (real b)"
    using nat_str_number [of b] number_text_read by simp
  ultimately have "histogram_loop True t (hist_line p # map hist_line hist @ rest) =
      histogram_loop True (t + real b) (map hist_line hist @ rest)"
    using no start by (simp add: group_def)
  then show ?case using Cons by (simp add: p add.assoc)
qed simp

text \<open>One block: what is printed for a level after its title.\<close>

definition metric_lines :: "(nat \<Rightarrow> real \<Rightarrow> string) \<Rightarrow> sgh_metrics \<Rightarrow> string list" where
  "metric_lines fmt m =
     [''  Average SGH memberships per rule (how many SGH the rule belongs to): '' @ fmt 3 (avg_sgh_per_rule m),
      ''  Unique rule coverage (fraction in only one group): '' @ fmt 3 (unique_rule_coverage m),
      ''  Average overlap per group pair: '' @ fmt 3 (avg_overlap_per_pair m),
      ''  Entropy of rule multiplicity distribution: '' @ fmt 3 (entropy m)]"

definition metrics_readable :: "(nat \<Rightarrow> real \<Rightarrow> string) \<Rightarrow> sgh_metrics \<Rightarrow> bool" where
  "metrics_readable fmt m \<longleftrightarrow> list_all number_text
     [fmt 3 (avg_sgh_per_rule m), fmt 3 (unique_rule_coverage m), fmt 3 (avg_overlap_per_pair m), fmt 3 (entropy m)]"

lemma print_metrics_lines:
  "print_metrics fmt level m = [] # (''Statistics for level: '' @ level) # metric_lines fmt m @
     ''  Histogram of rule multiplicity (rule count : occurrences):'' # map hist_line (sort_key fst (multiplicity_histogram m))"
  by (simp add: print_metrics_def metric_lines_def hist_line_def)

lemma histogram_read:
  assumes "metrics_readable fmt m"
  shows "parse_histogram (metric_lines fmt m @
      ''  Histogram of rule multiplicity (rule count : occurrences):'' # map hist_line hist @
      ''  Aggregated Protocol Composition:'' # rest) = Inr (int (sum_list (map snd hist)))"
proof -
  let ?H = "''Histogram of rule multiplicity''"
  have y: "\<not> num_char (last ?H)" by code_simp
  have "list_all (\<lambda>l. \<not> contains ?H l) (metric_lines fmt m)"
  proof -
    have q1: "\<not> contains ?H (''  Average SGH memberships per rule (how many SGH the rule belongs to): '' @ w)" if "number_text w" for w
      by (rule not_contains_number [OF that _ y]) (simp, code_simp)
    have q2: "\<not> contains ?H (''  Unique rule coverage (fraction in only one group): '' @ w)" if "number_text w" for w
      by (rule not_contains_number [OF that _ y]) (simp, code_simp)
    have q3: "\<not> contains ?H (''  Average overlap per group pair: '' @ w)" if "number_text w" for w
      by (rule not_contains_number [OF that _ y]) (simp, code_simp)
    have q4: "\<not> contains ?H (''  Entropy of rule multiplicity distribution: '' @ w)" if "number_text w" for w
      by (rule not_contains_number [OF that _ y]) (simp, code_simp)
    have "number_text (fmt 3 (avg_sgh_per_rule m))" "number_text (fmt 3 (unique_rule_coverage m))"
      "number_text (fmt 3 (avg_overlap_per_pair m))" "number_text (fmt 3 (entropy m))"
      using assms by (simp_all add: metrics_readable_def)
    then show ?thesis
      unfolding metric_lines_def list.pred_inject by (intro conjI list.pred_inject(1) q1 q2 q3 q4)
  qed
  then have skip: "histogram_loop False t (metric_lines fmt m @ ls) = histogram_loop False t ls" for t ls
    by (induction "metric_lines fmt m" rule: list.induct) (auto simp: metric_lines_def)
  have "contains ?H ''  Histogram of rule multiplicity (rule count : occurrences):''"
    "\<not> contains ?H ''  Aggregated Protocol Composition:''" "\<not> startswith ''    '' ''  Aggregated Protocol Composition:''"
    by code_simp+
  then show ?thesis by (simp add: parse_histogram_def skip histogram_lines)
qed

section \<open>The statistics of the patterns\<close>

definition add_value :: "string \<Rightarrow> real \<Rightarrow> mpm_state \<Rightarrow> mpm_state" where
  "add_value key x st =
     (if where_in st = InMpm then st\<lparr>mpm_vals := dict_set key x (mpm_vals st)\<rparr>
      else st\<lparr>length_vals := dict_set key x (length_vals st)\<rparr>)"

lemma statistic_line:
  assumes "k \<in> {''Average'', ''Median'', ''Min'', ''Max''}" "list_all py_isspace sp" "number_text w" "where_in st \<noteq> Outside"
    and u: "\<not> contains ''MPM patterns for group'' (''      '' @ k @ sp @ '': '')"
      "\<not> contains ''Pattern Lengths for group'' (''      '' @ k @ sp @ '': '')"
  shows "mpm_line (''      '' @ k @ sp @ '': '' @ w) st = Inr (add_value (py_lower k) (number_of w) st)"
proof -
  let ?l = "k @ sp @ '': '' @ w"
  have w: "w \<noteq> []" "\<not> py_isspace (last w)"
    using assms(3) num_char_facts by (auto simp: number_text_def list_all_iff)
  have "\<not> py_isspace (hd ?l)" using assms(1) by (auto simp: py_isspace_def)
  moreover have "?l \<noteq> []" "last ?l = last w" using w(1) by auto
  ultimately have "strip ?l = ?l" using w(2) by (intro strip_ends) simp_all
  moreover have "list_all py_isspace ''      ''" by code_simp
  ultimately have strip: "strip (''      '' @ ?l) = ?l" by (simp only: strip_indent)
  have "\<not> startswith ''Total SGHs:'' ?l" using assms(1) by auto
  moreover have "\<not> contains ''MPM patterns for group'' (''      '' @ ?l)"
    using not_contains_number [OF assms(3) _ _ u(1)] by (simp add: num_char_def py_isdigit_def)
  moreover have "\<not> contains ''Pattern Lengths for group'' (''      '' @ ?l)"
    using not_contains_number [OF assms(3) _ _ u(2)] by (simp add: num_char_def py_isdigit_def)
  ultimately show ?thesis
    using assms(4) statistic_match [OF assms(1-3)] number_text_read [OF assms(3)]
    by (simp add: mpm_line_def strip read_sgh_def read_statistic_def group_def add_value_def Let_def del: append.simps)
qed

definition four_lines :: "string \<Rightarrow> string \<Rightarrow> string \<Rightarrow> string \<Rightarrow> string list" where
  "four_lines a b c d = [''      Average: '' @ a, ''      Median : '' @ b, ''      Min    : '' @ c, ''      Max    : '' @ d]"

lemma four_lines_read:
  assumes "list_all number_text [a, b, c, d]" "where_in st \<noteq> Outside"
  shows "res_fold mpm_line (four_lines a b c d @ ls) st =
    res_fold mpm_line ls (add_value ''max'' (number_of d) (add_value ''min'' (number_of c)
      (add_value ''median'' (number_of b) (add_value ''average'' (number_of a) st))))"
proof -
  have n: "number_text a" "number_text b" "number_text c" "number_text d" using assms(1) by simp_all
  have st: "where_in (add_value k x s) \<noteq> Outside" if "where_in s \<noteq> Outside" for k x s
    using that by (simp add: add_value_def)
  have "mpm_line (''      '' @ ''Average'' @ [] @ '': '' @ a) s = Inr (add_value ''average'' (number_of a) s)"
    if "where_in s \<noteq> Outside" for s
    by (subst statistic_line [OF _ _ n(1) that]) (simp_all add: py_isspace_def, code_simp+)
  moreover have "mpm_line (''      '' @ ''Median'' @ '' '' @ '': '' @ b) s = Inr (add_value ''median'' (number_of b) s)"
    if "where_in s \<noteq> Outside" for s
    by (subst statistic_line [OF _ _ n(2) that]) (simp_all add: py_isspace_def, code_simp+)
  moreover have "mpm_line (''      '' @ ''Min'' @ ''    '' @ '': '' @ c) s = Inr (add_value ''min'' (number_of c) s)"
    if "where_in s \<noteq> Outside" for s
    by (subst statistic_line [OF _ _ n(3) that]) (simp_all add: py_isspace_def, code_simp+)
  moreover have "mpm_line (''      '' @ ''Max'' @ ''    '' @ '': '' @ d) s = Inr (add_value ''max'' (number_of d) s)"
    if "where_in s \<noteq> Outside" for s
    by (subst statistic_line [OF _ _ n(4) that]) (simp_all add: py_isspace_def, code_simp+)
  ultimately show ?thesis using assms(2) st by (simp add: four_lines_def)
qed

lemma total_line:
  assumes "where_in st = Outside"
  shows "mpm_line (''    Total SGHs: '' @ nat_str n) st = Inr (st\<lparr>sgh := Some (int n)\<rparr>)"
proof -
  let ?T = "''Total SGHs:''" and ?w = "nat_str n"
  have n: "number_text ?w" using nat_str_number by blast
  then have w: "?w \<noteq> []" "\<not> py_isspace (last ?w)" "\<not> py_isspace (hd ?w)"
    using num_char_facts by (auto simp: number_text_def list_all_iff)
  have blank: "list_all py_isspace ''    ''" "list_all py_isspace '' ''" by code_simp+
  have "strip (?T @ '' '' @ ?w) = ?T @ '' '' @ ?w" by (rule strip_ends) (use w in \<open>simp_all add: py_isspace_def\<close>)
  then have strip: "strip (''    Total SGHs: '' @ ?w) = ?T @ '' '' @ ?w"
    using strip_indent [OF blank(1), of "?T @ '' '' @ ?w"] by simp
  have colon: "CHR '':'' \<notin> set ('' '' @ ?w)" using nat_str_chars by fastforce
  have "split_on ?T (?T @ '' '' @ ?w) = [] # split_on ?T ('' '' @ ?w)"
    using split_on_hit [of ?T "[]" "'' '' @ ?w"] by simp
  also have "split_on ?T ('' '' @ ?w) = ['' '' @ ?w]"
    by (rule split_on_none, rule lacks_char [OF _ colon]) simp
  finally have split: "split_on ?T (?T @ '' '' @ ?w) = [[], '' '' @ ?w]" .
  have "strip ('' '' @ ?w) = ?w" unfolding strip_indent [OF blank(2)] using w strip_ends [of ?w] by blast
  then have "read_sgh (?T @ '' '' @ ?w) st = Inr (st\<lparr>sgh := Some (int n)\<rparr>)"
    by (simp add: read_sgh_def split py_int_nat_str del: append.simps)
  moreover have "\<not> contains ''MPM patterns for group'' (''    Total SGHs: '' @ ?w)"
    by (rule not_contains_number [OF n]) (simp, code_simp, code_simp)
  moreover have "\<not> contains ''Pattern Lengths for group'' (''    Total SGHs: '' @ ?w)"
    by (rule not_contains_number [OF n]) (simp, code_simp, code_simp)
  ultimately show ?thesis using assms by (simp add: mpm_line_def strip read_statistic_def del: append.simps)
qed

text \<open>What the second half of a block holds, in the order of its lines.\<close>

definition mpm_block :: "nat \<Rightarrow> nat \<Rightarrow> string \<Rightarrow> string list \<Rightarrow> string list \<Rightarrow> string list" where
  "mpm_block n present g ts us =
     ''  MPM Analysis:'' # (''    Total SGHs: '' @ nat_str n) # (''    SGHs with MPM present: '' @ nat_str present) #
     (''    MPM patterns for group '' @ CHR 0x27 # g @ [CHR 0x27, CHR '':'']) #
     four_lines (ts ! 0) (ts ! 1) (ts ! 2) (ts ! 3) @
     (''    Pattern Lengths for group '' @ CHR 0x27 # g @ [CHR 0x27, CHR '':'']) #
     four_lines (us ! 0) (us ! 1) (us ! 2) (us ! 3)"

definition read_row :: "string list \<Rightarrow> stat_row" where
  "read_row ts = \<lparr>stat_min = Some (number_of (ts ! 2)), stat_max = Some (number_of (ts ! 3)),
     stat_median = Some (number_of (ts ! 1)), stat_avg = Some (number_of (ts ! 0))\<rparr>"

lemma head_line:
  assumes "\<not> startswith ''Total SGHs:'' (strip l)" "\<not> contains ''MPM patterns for group'' l \<or> k = InMpm"
    "contains (if k = InMpm then ''MPM patterns for group'' else ''Pattern Lengths for group'') l" "k \<noteq> Outside"
  shows "mpm_line l st = Inr (st\<lparr>where_in := k\<rparr>)"
  using assms by (cases k) (auto simp: mpm_line_def read_sgh_def)

lemma blank_line: "mpm_line [] st = Inr st"
proof -
  have "re_match re_statistic [] = None" by code_simp
  then show ?thesis by (simp add: mpm_line_def read_sgh_def read_statistic_def)
qed

lemma mpm_block_read:
  assumes "length ts = 4" "length us = 4" "list_all number_text (ts @ us)" "CHR ''M'' \<notin> set g"
    and "where_in st = Outside" "mpm_vals st = []" "length_vals st = []" "list_all (\<lambda>l. l = []) ls"
  shows "\<exists>st'. res_fold mpm_line (mpm_block n present g ts us @ ls) st = Inr st' \<and> sgh st' = Some (int n) \<and>
    reorder (mpm_vals st') = read_row ts \<and> reorder (length_vals st') = read_row us"
proof -
  let ?A = "''MPM patterns for group''" and ?B = "''Pattern Lengths for group''"
  have blank: "list_all py_isspace ''  ''" "list_all py_isspace ''    ''" by code_simp+
  have four: "list_all number_text [xs ! 0, xs ! 1, xs ! 2, xs ! 3]" if "length xs = 4" "list_all number_text xs" for xs
    using that by (auto simp: numeral_eq_Suc length_Suc_conv)
  have ts: "list_all number_text [ts ! 0, ts ! 1, ts ! 2, ts ! 3]" "list_all number_text [us ! 0, us ! 1, us ! 2, us ! 3]"
    using four assms(1-3) by simp_all
  have "quiet ''  MPM Analysis:''" by code_simp
  note l1 = quiet_line [OF this]
  have "quiet (''    '' @ CHR ''S'' # ''GHs with MPM present: '' @ nat_str present)"
    by (rule quiet_number) (use nat_str_number blank in simp, rule blank, code_simp+)
  then have "quiet (''    SGHs with MPM present: '' @ nat_str present)" by simp
  note l3 = quiet_line [OF this]
  have "\<not> startswith ''Total SGHs:'' (strip (''    '' @ CHR ''M'' # s))" for s
    by (rule not_total [OF _ _ blank(2)]) (simp, code_simp)
  moreover have "contains ?A (''    MPM patterns for group '' @ s)" for s
    unfolding contains_iff by (rule exI [of _ "''    ''"]) simp
  ultimately have l4: "mpm_line (''    MPM patterns for group '' @ s) st = Inr (st\<lparr>where_in := InMpm\<rparr>)" for s st
    by (intro head_line) simp_all
  have "\<not> startswith ''Total SGHs:'' (strip (''    '' @ CHR ''P'' # s))" for s
    by (rule not_total [OF _ _ blank(2)]) (simp, code_simp)
  moreover have "contains ?B (''    Pattern Lengths for group '' @ s)" for s
    unfolding contains_iff by (rule exI [of _ "''    ''"]) simp
  moreover have "\<not> contains ?A (''    Pattern Lengths for group '' @ CHR 0x27 # g @ [CHR 0x27, CHR '':''])"
    by (rule lacks_char [of "CHR ''M''"]) (use assms(4) in simp_all)
  ultimately have l5: "mpm_line (''    Pattern Lengths for group '' @ CHR 0x27 # g @ [CHR 0x27, CHR '':'']) st =
      Inr (st\<lparr>where_in := InLength\<rparr>)" for st
    by (intro head_line) simp_all
  have ls: "res_fold mpm_line ls st = Inr st" for st
    using assms(8) by (induction ls) (simp_all add: blank_line)
  define four where "four xs st = add_value ''max'' (number_of (xs ! 3)) (add_value ''min'' (number_of (xs ! 2))
    (add_value ''median'' (number_of (xs ! 1)) (add_value ''average'' (number_of (xs ! 0)) st)))" for xs st
  have f: "res_fold mpm_line (four_lines (xs ! 0) (xs ! 1) (xs ! 2) (xs ! 3) @ ls) st = res_fold mpm_line ls (four xs st)"
    if "list_all number_text [xs ! 0, xs ! 1, xs ! 2, xs ! 3]" "where_in st \<noteq> Outside" for xs ls st
    unfolding four_def by (rule four_lines_read [OF that])
  have "res_fold mpm_line (mpm_block n present g ts us) st =
      Inr (four us ((four ts (st\<lparr>sgh := Some (int n), where_in := InMpm\<rparr>))\<lparr>where_in := InLength\<rparr>))"
    using assms(5) l1 l3 total_line f [OF ts(1)] f [OF ts(2), of _ "[]"]
    by (simp add: mpm_block_def l4 l5 del: append.simps nth_Cons_numeral One_nat_def)
  then show ?thesis
    using assms(6,7) by (simp add: res_fold_append ls four_def add_value_def reorder_def read_row_def in_fst_iff)
qed

section \<open>A report read back\<close>

definition mpm_texts :: "(nat \<Rightarrow> real \<Rightarrow> string) \<Rightarrow> (real \<Rightarrow> string) \<Rightarrow> mpm_stats \<Rightarrow> string list" where
  "mpm_texts fmt flo st =
     [fmt 2 (avg_patterns st), fmt 2 (median_patterns st), num_str flo (min_patterns st), num_str flo (max_patterns st)]"

definition length_texts :: "(nat \<Rightarrow> real \<Rightarrow> string) \<Rightarrow> (real \<Rightarrow> string) \<Rightarrow> length_stats \<Rightarrow> string list" where
  "length_texts fmt flo ls =
     [fmt 2 (avg_length ls), fmt 2 (projr (num_val (median_length ls))), num_str flo (min_length ls), num_str flo (max_length ls)]"

text \<open>What is printed for the nodes of a level can be read back: the numbers are texts of digits and
  dots, and no protocol name imitates a heading of the report.\<close>

definition readable_level :: "(nat \<Rightarrow> real \<Rightarrow> string) \<Rightarrow> (real \<Rightarrow> string) \<Rightarrow> string \<Rightarrow> node list \<Rightarrow> bool" where
  "readable_level fmt flo g groups \<longleftrightarrow>
     (\<forall>m agg st. sgh_compute_metrics groups = Inr m \<longrightarrow> aggregate_protocol_composition groups = Inr agg \<longrightarrow>
        analyze_mpm groups g = Inr st \<longrightarrow>
        metrics_readable fmt m \<and> list_all quiet (print_protocol_composition flo agg) \<and>
        list_all number_text (mpm_texts fmt flo st @ length_texts fmt flo (lengths st)))"

lemma print_mpm_block:
  "print_mpm_analysis fmt flo st g = Inr ls \<Longrightarrow>
    ls = mpm_block (total_sgh st) (mpm_present st) g (mpm_texts fmt flo st) (length_texts fmt flo (lengths st))"
  by (auto simp: print_mpm_analysis_def mpm_block_def four_lines_def mpm_texts_def length_texts_def Let_def numeral_2_eq_2 numeral_3_eq_3)

lemma quiet_metrics: "metrics_readable fmt m \<Longrightarrow> list_all quiet (metric_lines fmt m)"
proof -
  assume "metrics_readable fmt m"
  then have n: "number_text (fmt 3 (avg_sgh_per_rule m))" "number_text (fmt 3 (unique_rule_coverage m))"
      "number_text (fmt 3 (avg_overlap_per_pair m))" "number_text (fmt 3 (entropy m))"
    by (simp_all add: metrics_readable_def)
  have b: "list_all py_isspace ''  ''" by code_simp
  have q: "quiet (''  '' @ CHR ''A'' # ''verage SGH memberships per rule (how many SGH the rule belongs to): '' @ w)"
    "quiet (''  '' @ CHR ''U'' # ''nique rule coverage (fraction in only one group): '' @ w)"
    "quiet (''  '' @ CHR ''A'' # ''verage overlap per group pair: '' @ w)"
    "quiet (''  '' @ CHR ''E'' # ''ntropy of rule multiplicity distribution: '' @ w)" if "number_text w" for w
    by (rule quiet_number [OF that b]; code_simp)+
  show ?thesis
    unfolding metric_lines_def list.pred_inject
    using q(1) [OF n(1)] q(2) [OF n(2)] q(3) [OF n(3)] q(4) [OF n(4)] by simp
qed

lemma block_read:
  assumes "metrics_readable fmt m" "list_all quiet (print_protocol_composition flo agg)"
    and "length ts = 4" "length us = 4" "list_all number_text (ts @ us)" "CHR ''M'' \<notin> set g" "list_all (\<lambda>l. l = []) ls"
  shows "summarize level ((metric_lines fmt m @
       ''  Histogram of rule multiplicity (rule count : occurrences):'' # map hist_line hist @
       print_protocol_composition flo agg @ mpm_block n present g ts us) @ ls) =
    Inr \<lparr>protocol = fst (map_level level), direction = snd (map_level level), sgh_count = Some (int n),
      unique_rules = int (sum_list (map snd hist)), mpm = read_row ts, pattern_lengths = read_row us\<rparr>"
proof -
  let ?H = "''  Histogram of rule multiplicity (rule count : occurrences):''"
  obtain comp_rest where comp: "print_protocol_composition flo agg = ''  Aggregated Protocol Composition:'' # comp_rest"
    by (simp add: print_protocol_composition_def)
  have hist: "parse_histogram ((metric_lines fmt m @ ?H # map hist_line hist @
      print_protocol_composition flo agg @ mpm_block n present g ts us) @ ls) = Inr (int (sum_list (map snd hist)))"
    using histogram_read [OF assms(1)] by (simp add: comp)
  have "quiet ?H" by code_simp
  then have q: "list_all quiet (metric_lines fmt m @ ?H # map hist_line hist @ print_protocol_composition flo agg)"
    using quiet_metrics [OF assms(1)] assms(2) quiet_hist_line by (auto simp: list_all_iff)
  let ?st = "\<lparr>sgh = None, mpm_vals = [], length_vals = [], where_in = Outside\<rparr>"
  obtain st where st: "res_fold mpm_line (mpm_block n present g ts us @ ls) ?st = Inr st" "sgh st = Some (int n)"
    "reorder (mpm_vals st) = read_row ts" "reorder (length_vals st) = read_row us"
    using mpm_block_read [OF assms(3-6) _ _ _ assms(7), of ?st] by auto
  have "parse_mpm_analysis ((metric_lines fmt m @ ?H # map hist_line hist @
      print_protocol_composition flo agg @ mpm_block n present g ts us) @ ls) =
      Inr (Some (int n), read_row ts, read_row us)"
    using quiet_lines [OF q, of ?st "mpm_block n present g ts us @ ls"] st by (simp add: parse_mpm_analysis_def)
  then show ?thesis using hist by (simp add: summarize_def case_prod_unfold Let_def)
qed

text \<open>The lines of a file, each with its line break.\<close>

definition file_lines :: "string list \<Rightarrow> string list" where
  "file_lines ls = map (\<lambda>l. l @ [CHR 0x0A]) ls"

definition inner_line :: "string \<Rightarrow> bool" where
  "inner_line l \<longleftrightarrow> (l = [] \<or> hd l = CHR '' '') \<and> CHR 0x0A \<notin> set l"

lemma inner_line_read:
  "inner_line l \<Longrightarrow> re_match re_level (l @ [CHR 0x0A]) = None \<and> strip_breaks (l @ [CHR 0x0A]) = l"
proof -
  assume l: "inner_line l"
  then have "rmatch re_level ([], l @ [CHR 0x0A], []) = []"
    unfolding re_level_def rmatch_lit_seq by (cases l) (auto simp: inner_line_def)
  moreover have "last l \<noteq> CHR 0x0A" if "l \<noteq> []" using l that last_in_set by (fastforce simp: inner_line_def)
  then have "dropWhile (\<lambda>c. c = CHR 0x0A) (rev l) = rev l" by (cases l rule: rev_cases) auto
  ultimately show ?thesis by (simp add: re_match_def match_at_def strip_breaks_def)
qed

lemma read_inner:
  "list_all inner_line ls \<Longrightarrow>
    read_blocks (Some (level, b)) d (file_lines ls @ rest) = read_blocks (Some (level, b @ ls)) d rest"
  by (induction ls arbitrary: b) (auto simp: file_lines_def inner_line_read)

definition level_name :: "string \<Rightarrow> bool" where
  "level_name l \<longleftrightarrow> l \<noteq> [] \<and> list_all not_space l"

lemma read_title:
  assumes "level_name level"
  shows "read_blocks c d (((''Statistics for level: '' @ level) @ [CHR 0x0A]) # rest) =
    read_blocks (Some (level, [])) (close_block c d) rest"
proof -
  let ?K = "rmatch (RGroup 1 (rplus (RClass not_space)))" and ?b = "rev ''Statistics for level:''"
  have refuse: "?K (b, x # a, g) = []" if "py_isspace x" for b x a g
    using that by (simp add: rplus_def not_space_def)
  have "\<not> not_space (CHR 0x0A)" by code_simp
  then have w: "takeWhile not_space (level @ [CHR 0x0A]) = level" "level \<noteq> []"
    using assms by (simp_all add: level_name_def list_all_iff)
  have k: "\<exists>x y ms. ?K (b, level @ [CHR 0x0A], []) = (x, y, [(1, level)]) # ms" for b
    using group_plus_first [of "\<lambda>m. [m]" 1 not_space "level @ [CHR 0x0A]" "[]" "\<lambda>b a. (b, a, [(1, level)])" "\<lambda>b a. []" b] w
    by (auto simp: comp_def concat_map_singleton)
  have "\<not> py_isspace (hd level)" using assms by (cases level) (auto simp: level_name_def not_space_def)
  then have "takeWhile py_isspace (CHR '' '' # level @ [CHR 0x0A]) = '' ''"
    "dropWhile py_isspace (CHR '' '' # level @ [CHR 0x0A]) = level @ [CHR 0x0A]"
    using w(2) by (cases level; auto simp: py_isspace_def)+
  then have "\<exists>x y ms. rmatch (RSeq (RStar (RClass py_isspace)) (RGroup 1 (rplus (RClass not_space))))
      (?b, CHR '' '' # level @ [CHR 0x0A], []) = (x, y, [(1, level)]) # ms"
    using star_class_refused [of py_isspace ?K "[]" ?b "CHR '' '' # level @ [CHR 0x0A]", OF refuse] k by simp
  then have "re_match re_level ((''Statistics for level: '' @ level) @ [CHR 0x0A]) = Some [(1, level)]"
    unfolding re_match_def match_at_def re_level_def rmatch_lit_seq by auto
  moreover have "strip level = level"
    using assms by (intro strip_ends) (auto simp: level_name_def list_all_iff not_space_def)
  ultimately show ?thesis by (simp add: group_def del: append.simps)
qed

text \<open>The blocks of a report, one per level.\<close>

definition printed :: "(string \<times> string list) list \<Rightarrow> string list" where
  "printed ps = concat (map (\<lambda>(level, b). [] # (''Statistics for level: '' @ level) # b) ps)"

definition blocks_ok :: "(string \<times> string list) list \<Rightarrow> bool" where
  "blocks_ok ps \<longleftrightarrow> distinct (map fst ps) \<and> (\<forall>(level, b) \<in> set ps. level_name level \<and> list_all inner_line b)"

lemma printed_Cons:
  "file_lines (printed ((level, b) # ps)) = [CHR 0x0A] # ((''Statistics for level: '' @ level) @ [CHR 0x0A]) # file_lines b @ file_lines (printed ps)"
  by (simp add: printed_def file_lines_def)

lemma inner_blank: "inner_line []"
  by (simp add: inner_line_def)

lemma read_blank: "read_blocks c d ([CHR 0x0A] # rest) = read_blocks (map_option (\<lambda>(l, b). (l, b @ [[]])) c) d rest"
  using inner_line_read [OF inner_blank] by simp

text \<open>A blank line before the next title is read as the last line of a block.\<close>

fun with_blank :: "(string \<times> string list) list \<Rightarrow> (string \<times> string list) list" where
  "with_blank [] = []"
| "with_blank [(level, b)] = [(level, b)]"
| "with_blank ((level, b) # p # ps) = (level, b @ [[]]) # with_blank (p # ps)"

lemma blocks_read_from:
  assumes "blocks_ok ((level, b) # ps)" "set (keys d) \<inter> set (map fst ((level, b) # ps)) = {}"
  shows "read_blocks (Some (level, b)) d (file_lines (printed ps)) = d @ with_blank ((level, b) # ps)"
  using assms
proof (induction ps arbitrary: level b d)
  case Nil
  then show ?case by (simp add: printed_def file_lines_def close_block_def dict_set_fresh)
next
  case (Cons p ps)
  obtain l' b' where p: "p = (l', b')" by (cases p)
  have ok: "level_name l'" "list_all inner_line b'" "blocks_ok ((l', b') # ps)"
    using Cons.prems(1) by (auto simp: blocks_ok_def p)
  have fresh: "dict_set level (b @ [[]]) d = d @ [(level, b @ [[]])]"
    by (rule dict_set_fresh) (use Cons.prems(2) in auto)
  have "read_blocks (Some (level, b)) d (file_lines (printed (p # ps))) =
      read_blocks (Some (l', b')) (d @ [(level, b @ [[]])]) (file_lines (printed ps))"
    unfolding p printed_Cons read_blank option.map prod.case read_title [OF ok(1)] close_block_def option.case fresh
      read_inner [OF ok(2)] by simp
  also have "\<dots> = (d @ [(level, b @ [[]])]) @ with_blank ((l', b') # ps)"
    by (rule Cons.IH [OF ok(3)]) (use Cons.prems in \<open>auto simp: blocks_ok_def p\<close>)
  finally show ?case by (simp add: p)
qed

lemma blocks_read: "blocks_ok ps \<Longrightarrow> read_blocks None [] (file_lines (printed ps)) = with_blank ps"
proof (cases ps)
  case (Cons p ps')
  assume ok: "blocks_ok ps"
  obtain l b where p: "p = (l, b)" by (cases p)
  have "level_name l" "list_all inner_line b" using ok by (auto simp: Cons p blocks_ok_def)
  then have "read_blocks None [] (file_lines (printed ps)) = read_blocks (Some (l, b)) [] (file_lines (printed ps'))"
    unfolding Cons p printed_Cons read_blank option.map read_title [OF \<open>level_name l\<close>] close_block_def option.case
      read_inner [OF \<open>list_all inner_line b\<close>] by simp
  then show ?thesis using blocks_read_from [of l b ps' "[]"] ok by (simp add: Cons p)
qed (simp add: printed_def file_lines_def close_block_def)

text \<open>The rows computed from the document itself, with the numbers as they are printed.\<close>

definition level_row ::
  "(nat \<Rightarrow> real \<Rightarrow> string) \<Rightarrow> (real \<Rightarrow> string) \<Rightarrow> string \<Rightarrow> string \<Rightarrow> node list \<Rightarrow> table_row res" where
  "level_row fmt flo g level groups =
     res_bind (rule_memberships groups) (\<lambda>tab.
     res_bind (analyze_mpm groups g) (\<lambda>st.
       Inr \<lparr>protocol = fst (map_level level), direction = snd (map_level level),
         sgh_count = Some (int (length groups)), unique_rules = int (length tab),
         mpm = read_row (mpm_texts fmt flo st), pattern_lengths = read_row (length_texts fmt flo (lengths st))\<rparr>))"

definition table_levels :: "levels \<Rightarrow> (string \<times> node list) list" where
  "table_levels lv = concat (map (\<lambda>level. case map_of lv level of None \<Rightarrow> [] | Some groups \<Rightarrow>
     if groups = [] then [] else [(level, groups)]) desired_order)"

definition level_block ::
  "(nat \<Rightarrow> real \<Rightarrow> string) \<Rightarrow> (real \<Rightarrow> string) \<Rightarrow> string \<Rightarrow> node list \<Rightarrow> string list \<Rightarrow> bool" where
  "level_block fmt flo g groups b \<longleftrightarrow>
     (\<exists>m agg st. sgh_compute_metrics groups = Inr m \<and> aggregate_protocol_composition groups = Inr agg \<and>
        analyze_mpm groups g = Inr st \<and>
        b = metric_lines fmt m @ ''  Histogram of rule multiplicity (rule count : occurrences):'' #
          map hist_line (sort_key fst (multiplicity_histogram m)) @ print_protocol_composition flo agg @
          mpm_block (total_sgh st) (mpm_present st) g (mpm_texts fmt flo st) (length_texts fmt flo (lengths st)))"

lemma histogram_total:
  assumes "sgh_compute_metrics groups = Inr m"
  shows "\<exists>tab. rule_memberships groups = Inr tab \<and>
    sum_list (map snd (sort_key fst (multiplicity_histogram m))) = length tab"
proof -
  obtain tab where tab: "rule_memberships groups = Inr tab"
    using assms by (cases "rule_memberships groups") (auto simp: sgh_compute_metrics_def)
  then have "multiplicity_histogram m = counter (map (length \<circ> snd) tab)"
    using assms by (auto simp: sgh_compute_metrics_def Let_def)
  then have "sum_list (map snd (multiplicity_histogram m)) = length tab"
    by (simp only: counter_facts(1) length_map)
  moreover have "mset (map snd (sort_key fst h)) = mset (map snd h)" for h :: "(nat \<times> nat) list" by simp
  ultimately show ?thesis using tab by (metis sum_mset_sum_list)
qed

lemma level_block_read:
  assumes "level_block fmt flo g groups b" "readable_level fmt flo g groups" "CHR ''M'' \<notin> set g" "list_all (\<lambda>l. l = []) e"
  shows "summarize level (b @ e) = level_row fmt flo g level groups \<and> (\<exists>r. level_row fmt flo g level groups = Inr r)"
proof -
  obtain m agg st where b: "sgh_compute_metrics groups = Inr m" "aggregate_protocol_composition groups = Inr agg"
    "analyze_mpm groups g = Inr st" "b = metric_lines fmt m @ ''  Histogram of rule multiplicity (rule count : occurrences):'' #
          map hist_line (sort_key fst (multiplicity_histogram m)) @ print_protocol_composition flo agg @
          mpm_block (total_sgh st) (mpm_present st) g (mpm_texts fmt flo st) (length_texts fmt flo (lengths st))"
    using assms(1) unfolding level_block_def by blast
  have ok: "metrics_readable fmt m" "list_all quiet (print_protocol_composition flo agg)"
    "list_all number_text (mpm_texts fmt flo st @ length_texts fmt flo (lengths st))"
    using assms(2) b(1-3) unfolding readable_level_def by blast+
  have len: "length (mpm_texts fmt flo st) = 4" "length (length_texts fmt flo (lengths st)) = 4"
    by (simp_all add: mpm_texts_def length_texts_def)
  obtain tab where tab: "rule_memberships groups = Inr tab"
    "sum_list (map snd (sort_key fst (multiplicity_histogram m))) = length tab" using histogram_total [OF b(1)] by blast
  have "total_sgh st = length groups" using b(3) by (auto simp: analyze_mpm_def)
  then show ?thesis
    unfolding b(4) block_read [OF ok(1,2) len ok(3) assms(3,4)] tab(2) by (simp add: level_row_def tab(1) b(3))
qed

lemma block_inner:
  assumes "level_block fmt flo g groups b" "\<forall>l \<in> set b. CHR 0x0A \<notin> set l"
  shows "list_all inner_line b"
proof -
  let ?I = "list_all (\<lambda>l. startswith '' '' l)"
  have "?I (metric_lines fmt m)" "?I (map hist_line h)" "?I (print_protocol_composition flo agg)"
    "?I (mpm_block n k g ts us)" for m h agg n k ts us
    by (simp_all add: metric_lines_def hist_line_def print_protocol_composition_def mpm_block_def four_lines_def
        list_all_iff case_prod_unfold)
  then have "?I b" using assms(1) unfolding level_block_def by (elim exE conjE) (simp only: list_all_append list.pred_inject, simp)
  then show ?thesis using assms(2) by (auto simp: list_all_iff inner_line_def startswith_iff)
qed

lemma levels_distinct: "level_nodes data path = Inr lv \<Longrightarrow> distinct (map fst lv)"
proof -
  assume lv: "level_nodes data path = Inr lv"
  have step: "distinct (map fst l')" if "add_level data name l = Inr l'" "distinct (map fst l)" for name l l'
    using that by (auto simp: add_level_def)
  have members: "distinct (map fst l')"
    if l: "distinct (map fst l)" and f: "res_fold (\<lambda>(key, v) lv. res_bind (add_level data key lv) (\<lambda>lv'.
        case v of JObj subs \<Rightarrow> res_fold (\<lambda>(sub, w). add_level data (key @ ''.'' @ sub)) subs lv' | _ \<Rightarrow> Inr lv')) kvs l = Inr l'"
    for kvs l l'
  proof (rule res_fold_inv [where P = "\<lambda>l. distinct (map fst l)", OF f l])
    fix kv :: "string \<times> json" and s t :: levels
    assume s: "distinct (map fst s)"
    obtain key v where kv: "kv = (key, v)" by (cases kv)
    assume "(case kv of (key, v) \<Rightarrow> \<lambda>lv. res_bind (add_level data key lv) (\<lambda>lv'.
        case v of JObj subs \<Rightarrow> res_fold (\<lambda>(sub, w). add_level data (key @ ''.'' @ sub)) subs lv' | _ \<Rightarrow> Inr lv')) s = Inr t"
    then obtain s' where s': "add_level data key s = Inr s'"
      "(case v of JObj subs \<Rightarrow> res_fold (\<lambda>(sub, w). add_level data (key @ ''.'' @ sub)) subs s' | _ \<Rightarrow> Inr s') = Inr t"
      by (auto simp: kv)
    have d: "distinct (map fst s')" by (rule step [OF s'(1) s])
    show "distinct (map fst t)"
    proof (cases v)
      case (JObj subs)
      then have "res_fold (\<lambda>(sub, w). add_level data (key @ ''.'' @ sub)) subs s' = Inr t" using s'(2) by simp
      then show ?thesis by (rule res_fold_inv [where P = "\<lambda>l. distinct (map fst l)"]) (use d step in auto)
    qed (use s'(2) d in auto)
  qed
  show ?thesis
  proof (cases "path = None \<or> path = Some []")
    case True
    then have path: "(case path of Some (c # s) \<Rightarrow> X c s | _ \<Rightarrow> Y) = Y" for X and Y :: "levels res" by auto
    obtain g kvs where "data = JObj kvs" "res_fold (\<lambda>(key, v) lv. res_bind (add_level data key lv) (\<lambda>lv'.
        case v of JObj subs \<Rightarrow> res_fold (\<lambda>(sub, w). add_level data (key @ ''.'' @ sub)) subs lv' | _ \<Rightarrow> Inr lv')) kvs
        [(''global'', g)] = Inr lv"
      using lv unfolding level_nodes_def path by (cases "extract_groups data None"; cases data) simp_all
    then show ?thesis using members [of "[(''global'', g)]" kvs lv] by simp
  next
    case False
    then show ?thesis using lv step [of _ "[]"] by (auto simp: level_nodes_def split: option.splits list.splits)
  qed
qed

lemma results_of:
  "res_map (\<lambda>(level, groups). res_bind (f groups) (\<lambda>m. Inr (level, m))) xs = Inr rs \<Longrightarrow> distinct (map fst xs) \<Longrightarrow>
    (level, groups) \<in> set xs \<Longrightarrow> map_of rs level = Some m \<Longrightarrow> f groups = Inr m"
  by (induction xs arbitrary: rs) (force split: if_splits)+

lemma level_report_block:
  assumes "level_report fmt flo False g level groups m = Inr ls" "sgh_compute_metrics groups = Inr m"
  shows "\<exists>b. ls = [] # (''Statistics for level: '' @ level) # b \<and> level_block fmt flo g groups b"
proof -
  obtain agg st pr where r: "aggregate_protocol_composition groups = Inr agg" "analyze_mpm groups g = Inr st"
    "print_mpm_analysis fmt flo st g = Inr pr" "ls = print_metrics fmt level m @ print_protocol_composition flo agg @ pr"
    using assms(1) by (auto simp: level_report_def)
  show ?thesis
    unfolding level_block_def r(4) print_metrics_lines print_mpm_block [OF r(3)]
    using assms(2) r(1,2) by auto
qed

definition shown :: "levels \<Rightarrow> (string \<times> node list) list" where
  "shown lv = filter (\<lambda>(level, groups). groups \<noteq> []) (sort_key fst lv)"

definition block_for :: "(nat \<Rightarrow> real \<Rightarrow> string) \<Rightarrow> (real \<Rightarrow> string) \<Rightarrow> string \<Rightarrow> string \<times> node list \<Rightarrow> string \<times> string list \<Rightarrow> bool" where
  "block_for fmt flo g x y \<longleftrightarrow> fst y = fst x \<and> level_block fmt flo g (snd x) (snd y)"

lemma report_blocks:
  assumes "report fmt flo data path False g = Inr out"
  shows "\<exists>lv bs. level_nodes data path = Inr lv \<and> out = level_messages data path @ printed bs \<and> list_all2 (block_for fmt flo g) (shown lv) bs"
proof -
  obtain lv results where lv: "level_nodes data path = Inr lv"
    "res_map (\<lambda>(level, groups). res_bind (sgh_compute_metrics groups) (\<lambda>m. Inr (level, m)))
         (filter (\<lambda>(level, groups). groups \<noteq> []) lv) = Inr results"
    using assms unfolding report_def analyze_levels_def by auto
  let ?F = "\<lambda>(level, groups). if groups = [] then Inr []
         else (case map_of results level of None \<Rightarrow> Inl KeyError | Some m \<Rightarrow> level_report fmt flo False g level groups m)"
  obtain outs where outs: "res_map ?F (sort_key fst lv) = Inr outs" "out = level_messages data path @ concat outs"
    using assms lv unfolding report_def analyze_levels_def by auto
  have "distinct (map fst (filter (\<lambda>(level, groups). groups \<noteq> []) lv))"
    using levels_distinct [OF lv(1)] by (simp add: distinct_map_filter)
  then have m: "sgh_compute_metrics groups = Inr m"
    if "(level, groups) \<in> set lv" "groups \<noteq> []" "map_of results level = Some m" for level groups m
    using results_of [OF lv(2), of level groups m] that by auto
  have blocks: "\<exists>bs. concat outs = printed bs \<and> list_all2 (block_for fmt flo g) (filter (\<lambda>(level, groups). groups \<noteq> []) xs) bs"
    if "res_map ?F xs = Inr outs" "set xs \<subseteq> set lv" for xs outs
    using that
  proof (induction xs arbitrary: outs)
    case (Cons x xs)
    obtain level groups where x: "x = (level, groups)" by (cases x)
    obtain ls outs' where o: "?F x = Inr ls" "res_map ?F xs = Inr outs'" "outs = ls # outs'" using Cons.prems(1) by auto
    obtain bs where bs: "concat outs' = printed bs"
      "list_all2 (block_for fmt flo g) (filter (\<lambda>(level, groups). groups \<noteq> []) xs) bs"
      using Cons.IH [OF o(2)] Cons.prems(2) by auto
    show ?case
    proof (cases "groups = []")
      case True
      then show ?thesis using o bs by (auto simp: x)
    next
      case False
      then obtain m where rep: "map_of results level = Some m" "level_report fmt flo False g level groups m = Inr ls"
        using o(1) by (auto simp: x split: option.splits)
      then have "sgh_compute_metrics groups = Inr m" using m [OF _ False rep(1)] Cons.prems(2) by (auto simp: x)
      then obtain b where b: "ls = [] # (''Statistics for level: '' @ level) # b" "level_block fmt flo g groups b"
        using level_report_block [OF rep(2)] by blast
      show ?thesis
      proof (intro exI [of _ "(level, b) # bs"] conjI)
        have "block_for fmt flo g (level, groups) (level, b)" using b(2) by (simp add: block_for_def)
        then show "list_all2 (block_for fmt flo g) (filter (\<lambda>(level, groups). groups \<noteq> []) (x # xs)) ((level, b) # bs)"
          using False bs(2) by (simp add: x)
        show "concat outs = printed ((level, b) # bs)"
          using b(1) bs(1) by (simp add: o(3) printed_def)
      qed
    qed
  qed (auto simp: printed_def)
  then show ?thesis using outs(2) lv(1) blocks [OF outs(1)] unfolding shown_def by auto
qed

lemma message_line: "l \<in> set (level_messages data path) \<Longrightarrow> \<exists>s. l = CHR ''F'' # s"
  by (auto simp: level_messages_def not_found_def split: option.splits list.splits json.splits if_splits)

lemma messages_skipped:
  "read_blocks None [] (file_lines (level_messages data path @ ls)) = read_blocks None [] (file_lines ls)"
proof -
  have "read_blocks None [] (file_lines (ms @ ls)) = read_blocks None [] (file_lines ls)"
    if "\<forall>l \<in> set ms. \<exists>s. l = CHR ''F'' # s" for ms
    using that
  proof (induction ms)
    case (Cons m ms)
    then obtain s where m: "m = CHR ''F'' # s" by auto
    have "re_match re_level (m @ [CHR 0x0A]) = None"
      unfolding re_match_def match_at_def re_level_def rmatch_lit_seq by (simp add: m)
    then show ?case using Cons by (simp add: file_lines_def)
  qed simp
  then show ?thesis using message_line by blast
qed

lemma with_blank_blocks:
  "list_all2 (\<lambda>x y. fst y = fst x \<and> (\<exists>e. snd y = snd x @ e \<and> list_all (\<lambda>l. l = []) e)) ps (with_blank ps)"
  by (induction ps rule: with_blank.induct) auto

lemma map_of_shown:
  assumes "distinct (map fst lv)"
  shows "map_of (shown lv) level = (case map_of lv level of None \<Rightarrow> None | Some groups \<Rightarrow> if groups = [] then None else Some groups)"
proof -
  have d: "distinct (map fst (sort_key fst lv))"
    using assms by (simp add: distinct_map)
  then have d': "distinct (map fst (shown lv))" unfolding shown_def by (rule distinct_map_filter)
  have "map_of (shown lv) level = Some groups \<longleftrightarrow> map_of lv level = Some groups \<and> groups \<noteq> []" for groups
    using map_of_eq_Some_iff [OF d'] map_of_eq_Some_iff [OF assms] by (auto simp: shown_def)
  moreover have "(\<And>x. a = Some x \<longleftrightarrow> b = Some x) \<Longrightarrow> a = b" for a b :: "node list option"
    by (cases a; cases b) auto
  ultimately show ?thesis by (simp split: option.splits)
qed

lemma map_of_rows:
  assumes "list_all2 (\<lambda>x y. fst y = fst x \<and> f (fst x) (snd x) = Inr (snd y)) xs ys"
  shows "res_map (\<lambda>(l, x). f l x) (concat (map (\<lambda>l. case map_of xs l of None \<Rightarrow> [] | Some x \<Rightarrow> [(l, x)]) ls)) =
    Inr (concat (map (\<lambda>l. case map_of ys l of None \<Rightarrow> [] | Some y \<Rightarrow> [y]) ls))"
proof -
  have "(map_of xs l = None \<and> map_of ys l = None) \<or>
      (\<exists>x y. map_of xs l = Some x \<and> map_of ys l = Some y \<and> f l x = Inr y)" for l
    using assms by (induction rule: list_all2_induct) auto
  note one = this
  show ?thesis
  proof (induction ls)
    case (Cons l ls)
    then show ?case using one [of l] by auto
  qed simp
qed

lemma list_all2_left: "list_all2 P xs ys \<Longrightarrow> y \<in> set ys \<Longrightarrow> \<exists>x \<in> set xs. P x y"
  by (induction rule: list_all2_induct) auto

lemma rows_of:
  assumes "list_all2 (\<lambda>x y. fst y = fst x \<and> f (fst x) (snd y) = h (fst x) (snd x) \<and> (\<exists>r. h (fst x) (snd x) = Inr r)) xs ys"
  shows "\<exists>zs. res_map (\<lambda>(l, b). res_bind (f l b) (\<lambda>r. Inr (l, r))) ys = Inr zs \<and>
    list_all2 (\<lambda>x z. fst z = fst x \<and> h (fst x) (snd x) = Inr (snd z)) xs zs"
  using assms
proof (induction rule: list_all2_induct)
  case (Cons x xs y ys)
  then obtain zs r where "res_map (\<lambda>(l, b). res_bind (f l b) (\<lambda>r. Inr (l, r))) ys = Inr zs"
    "list_all2 (\<lambda>x z. fst z = fst x \<and> h (fst x) (snd x) = Inr (snd z)) xs zs" "h (fst x) (snd x) = Inr r" by auto
  then show ?case using Cons(1) by (intro exI [of _ "(fst x, r) # zs"]) (auto simp: case_prod_unfold)
qed simp

text \<open>C24: the table is made from the report.  The report of all levels, printed with the analysis of the
  patterns and read back, gives the rows computed from the document: protocol and direction of
  the level, the number of its nodes, the number of different signatures and the statistics as
  they were printed; levels outside the table and levels without nodes have no row.\<close>

theorem report_read_back:
  assumes "report fmt flo data path False g = Inr out" and "level_nodes data path = Inr lv"
    and "\<forall>(level, groups) \<in> set lv. groups \<noteq> [] \<longrightarrow> level_name level \<and> readable_level fmt flo g groups"
    and "CHR ''M'' \<notin> set g" and "\<forall>l \<in> set out. CHR 0x0A \<notin> set l"
  shows "\<exists>rows. table_rows (file_lines out) = Inr rows \<and>
    res_map (\<lambda>(level, groups). level_row fmt flo g level groups) (table_levels lv) = Inr rows"
proof -
  obtain bs where bs: "out = level_messages data path @ printed bs" "list_all2 (block_for fmt flo g) (shown lv) bs"
    using report_blocks [OF assms(1)] assms(2) by auto
  have d: "distinct (map fst lv)" by (rule levels_distinct [OF assms(2)])
  have d': "distinct (map fst (shown lv))"
    unfolding shown_def by (rule distinct_map_filter) (use d in \<open>simp add: distinct_map\<close>)
  have ok: "level_name level" "readable_level fmt flo g groups" if "(level, groups) \<in> set (shown lv)" for level groups
    using assms(3) that by (auto simp: shown_def)
  have keys: "map fst bs = map fst (shown lv)"
    using bs(2) by (induction rule: list_all2_induct) (auto simp: block_for_def)
  have "blocks_ok bs"
    unfolding blocks_ok_def keys
  proof (intro conjI d' ballI, clarify)
    fix level b assume b: "(level, b) \<in> set bs"
    then obtain groups where gr: "(level, groups) \<in> set (shown lv)" "level_block fmt flo g groups b"
      using list_all2_left [OF bs(2)] by (force simp: block_for_def)
    have "\<forall>l \<in> set b. CHR 0x0A \<notin> set l"
      using assms(5) b unfolding bs(1) printed_def by fastforce
    then show "level_name level \<and> list_all inner_line b" using block_inner [OF gr(2)] ok [OF gr(1)] by simp
  qed
  then have read: "read_blocks None [] (file_lines out) = with_blank bs"
    unfolding bs(1) messages_skipped by (rule blocks_read)
  have rd: "list_all2 (\<lambda>x y. block_for fmt flo g x y \<and> readable_level fmt flo g (snd x)) (shown lv) bs"
    by (rule list.rel_mono_strong [OF bs(2)]) (use ok in auto)
  have "list_all2 (\<lambda>x y. fst y = fst x \<and> summarize (fst x) (snd y) = level_row fmt flo g (fst x) (snd x) \<and>
      (\<exists>r. level_row fmt flo g (fst x) (snd x) = Inr r)) (shown lv) (with_blank bs)"
  proof (rule list_all2_trans [OF _ rd with_blank_blocks])
    fix x y z
    assume xy: "block_for fmt flo g x y \<and> readable_level fmt flo g (snd x)"
      and "fst z = fst y \<and> (\<exists>e. snd z = snd y @ e \<and> list_all (\<lambda>l. l = []) e)"
    then obtain e where z: "fst z = fst y" "snd z = snd y @ e" "list_all (\<lambda>l. l = []) e" by blast
    show "fst z = fst x \<and> summarize (fst x) (snd z) = level_row fmt flo g (fst x) (snd x) \<and>
      (\<exists>r. level_row fmt flo g (fst x) (snd x) = Inr r)"
      using xy level_block_read [of fmt flo g "snd x" "snd y" e "fst x"] assms(4) z by (simp add: block_for_def)
  qed
  from rows_of [OF this] obtain summary where
    s: "res_map (\<lambda>(l, b). res_bind (summarize l b) (\<lambda>r. Inr (l, r))) (with_blank bs) = Inr summary"
    "list_all2 (\<lambda>x z. fst z = fst x \<and> level_row fmt flo g (fst x) (snd x) = Inr (snd z)) (shown lv) summary"
    by blast
  have "table_levels lv = concat (map (\<lambda>l. case map_of (shown lv) l of None \<Rightarrow> [] | Some x \<Rightarrow> [(l, x)]) desired_order)"
    unfolding table_levels_def map_of_shown [OF d] by (intro arg_cong [of _ _ concat] map_cong refl) (simp split: option.split)
  then show ?thesis
    using map_of_rows [OF s(2), of desired_order] s(1) unfolding table_rows_def read by simp
qed

definition demo_fmt :: "nat \<Rightarrow> real \<Rightarrow> string" where
  "demo_fmt d x = nat_str (nat \<lfloor>x\<rfloor>)"

definition demo_stats :: json where
  "demo_stats = JObj [(''types'', JObj [(''mpm'', JInt 1)]), (''mpm'', JObj [(''payload'', JInt 3)])]"

definition demo_nodes :: "node list" where
  "demo_nodes = [([''tcp''], [JInt 7], demo_stats)]"

definition demo_document :: json where
  "demo_document = JObj [(''tcp'', JObj [(''rulegroup'',
     JObj [(''rules'', JList [JObj [(''sig_id'', JInt 7)]]), (''stats'', demo_stats)])])]"

lemma demo_levels: "level_nodes demo_document (Some ''tcp'') = Inr [(''tcp'', demo_nodes)]"
  by (simp add: level_nodes_def add_level_def extract_groups_def demo_document_def demo_nodes_def demo_stats_def
      recursive_extract_groups.simps own_node_def rule_sigs_def jget_def jin_def jiter_def)

lemma demo_metrics: "sgh_compute_metrics demo_nodes = Inr \<lparr>avg_sgh_per_rule = 1, unique_rule_coverage = 1,
    avg_overlap_per_pair = 0, entropy = 0, multiplicity_histogram = [(1, 1)]\<rparr>"
  by (simp add: sgh_compute_metrics_def demo_nodes_def rule_memberships_def add_member_def group_sigs_def jkey_def
      counter_def Let_def)

lemma demo_composition: "aggregate_protocol_composition demo_nodes = Inr []"
  by (simp add: aggregate_protocol_composition_def demo_nodes_def demo_stats_def composition_entry_def is_obj_def jget_def)

lemma demo_mpm: "analyze_mpm demo_nodes ''payload'' = Inr \<lparr>total_sgh = 1, mpm_present = 1, avg_patterns = 3,
    median_patterns = 3, min_patterns = JInt 3, max_patterns = JInt 3, pattern_counts = [JInt 3],
    lengths = \<lparr>avg_length = 0, median_length = JInt 0, min_length = JInt 0, max_length = JInt 0\<rparr>\<rparr>"
  by (simp add: analyze_mpm_def mpm_nodes_def mpm_node_def demo_nodes_def demo_stats_def jget_def num_val_def is_obj_def
      is_num_def length_statistics_def median_def)

lemma demo_level_readable: "readable_level demo_fmt flo ''payload'' demo_nodes"
proof -
  have n: "number_text (nat_str k)" for k using nat_str_number by blast
  have "list_all quiet (print_protocol_composition flo [])"
    unfolding print_protocol_composition_def by code_simp
  then show ?thesis
    by (simp add: readable_level_def demo_metrics demo_composition demo_mpm metrics_readable_def demo_fmt_def
        mpm_texts_def length_texts_def num_str_def int_str_def n)
qed

lemma demo_messages: "level_messages demo_document (Some ''tcp'') = []"
proof -
  have "split_char (CHR ''.'') ''tcp'' = [''tcp'']" by code_simp
  then show ?thesis by (simp add: level_messages_def not_found_def demo_document_def)
qed

lemma demo_report: "\<exists>out. report demo_fmt flo demo_document (Some ''tcp'') False ''payload'' = Inr out \<and> (\<forall>l \<in> set out. CHR 0x0A \<notin> set l)"
proof -
  have n: "CHR 0x0A \<notin> set (nat_str k)" for k using nat_str_chars [of "CHR 0x0A" k] by (auto simp: num_char_def py_isdigit_def)
  show ?thesis
    by (simp add: report_def analyze_levels_def demo_levels demo_messages demo_metrics level_report_def demo_composition demo_mpm
        print_mpm_analysis_def print_metrics_def print_protocol_composition_def demo_fmt_def num_str_def int_str_def num_val_def n)
      (simp add: demo_nodes_def)?
qed

theorem report_read_back_witness:
  "\<exists>out rows. report demo_fmt (demo_fmt 1) demo_document (Some ''tcp'') False ''payload'' = Inr out \<and>
    table_rows (file_lines out) = Inr rows \<and> map unique_rules rows = [1] \<and> map sgh_count rows = [Some 1] \<and>
    map (stat_max \<circ> mpm) rows = [Some 3]"
proof -
  obtain out where out: "report demo_fmt (demo_fmt 1) demo_document (Some ''tcp'') False ''payload'' = Inr out"
    "\<forall>l \<in> set out. CHR 0x0A \<notin> set l" using demo_report by blast
  have name: "level_name ''tcp''" by code_simp
  have t: "table_levels [(''tcp'', demo_nodes)] = [(''tcp'', demo_nodes)]"
    by (simp add: table_levels_def desired_order_def) (simp add: demo_nodes_def)
  have m: "rule_memberships demo_nodes = Inr [(JInt 7, [0])]"
    by (simp add: rule_memberships_def demo_nodes_def add_member_def jkey_def)
  obtain rows where rows: "table_rows (file_lines out) = Inr rows"
    "res_map (\<lambda>(level, groups). level_row demo_fmt (demo_fmt 1) ''payload'' level groups) [(''tcp'', demo_nodes)] = Inr rows"
    using report_read_back [OF out(1) demo_levels _ _ out(2)] name demo_level_readable by (auto simp: t)
  have "number_of (nat_str 3) = 3" "length demo_nodes = 1" using nat_str_number [of 3] by (simp_all add: demo_nodes_def)
  then have "map unique_rules rows = [1] \<and> map sgh_count rows = [Some 1] \<and> map (stat_max \<circ> mpm) rows = [Some 3]"
    using rows(2) by (auto simp: level_row_def m demo_mpm read_row_def mpm_texts_def num_str_def int_str_def)
  then show ?thesis using out(1) rows(1) by - (rule exI [of _ out], rule exI [of _ rows], simp)
qed

end
