(* ===== verification/Csv_Edit.thy ===== *)
theory Csv_Edit
  imports Data_Manager
begin

text \<open>
  The editor of result tables, autotest/csvedit.py: conditions and assignments of the form
  \<^verbatim>\<open>key=value\<close>, the rows of a comma-separated file as \<^verbatim>\<open>csv.DictReader\<close> gives them, the update of the
  rows that match, and the text that \<^verbatim>\<open>csv.DictWriter\<close> writes.

  The file is opened without translation of line breaks, so that the parser of the library runs on
  its text as it is; the empty record it sees between \<^verbatim>\<open>CR\<close> and \<^verbatim>\<open>LF\<close> is skipped with the other
  empty records.
\<close>

section \<open>Rows\<close>

text \<open>\<^verbatim>\<open>item.split("=", 1)\<close>; an item without the sign is a usage error, exit code 2.\<close>

definition parse_key_value :: "string \<Rightarrow> (string \<times> string) res" where
  "parse_key_value item =
     (if CHR ''='' \<notin> set item then Inl (SystemExit 2)
      else Inr (strip (takeWhile (\<lambda>c. c \<noteq> CHR ''='') item), strip (tl (dropWhile (\<lambda>c. c \<noteq> CHR ''='') item))))"

text \<open>A row: the cells under the column names, \<^verbatim>\<open>None\<close> where a record is short, and the rest of a
  record that is longer than the header, which \<^verbatim>\<open>DictReader\<close> files under the key \<^verbatim>\<open>None\<close>.\<close>

record csv_row =
  cells :: "string option dict"
  surplus :: "string list option"

definition reader_row :: "string list \<Rightarrow> string list \<Rightarrow> csv_row" where
  "reader_row names r =
     \<lparr>cells = dict_update [] (zip names (map Some r @ replicate (length names - length r) None)),
      surplus = (if length names < length r then Some (drop (length names) r) else None)\<rparr>"

text \<open>An empty file has no column names.\<close>

definition load_csv :: "string \<Rightarrow> csv_row list \<times> string list option" where
  "load_csv file =
     (case csv_rows_aux StartRecord [] [] file of
        [] \<Rightarrow> ([], None)
      | names # rs \<Rightarrow> (map (reader_row names) (filter (\<lambda>r. r \<noteq> []) rs), Some names))"

text \<open>Strings without a value cannot be stripped.\<close>

fun row_matches :: "csv_row \<Rightarrow> string dict \<Rightarrow> bool res" where
  "row_matches row [] = Inr True"
| "row_matches row ((key, value) # conditions) =
     (case map_of (cells row) key of
        None \<Rightarrow> Inr False
      | Some None \<Rightarrow> Inl AttributeError
      | Some (Some s) \<Rightarrow> if strip s \<noteq> value then Inr False else row_matches row conditions)"

text \<open>The update of one row, with the fields it does not have: a warning each.\<close>

definition set_field :: "string \<times> string \<Rightarrow> csv_row \<times> string list \<Rightarrow> csv_row \<times> string list" where
  "set_field = (\<lambda>(key, value) (row, warnings).
     if key \<notin> set (keys (cells row)) then (row, warnings @ [key])
     else (row\<lparr>cells := dict_set key (Some value) (cells row)\<rparr>, warnings))"

definition set_fields :: "string dict \<Rightarrow> csv_row \<Rightarrow> csv_row \<times> string list" where
  "set_fields updates row = fold set_field updates (row, [])"

fun update_rows :: "csv_row list \<Rightarrow> string dict \<Rightarrow> string dict \<Rightarrow> (csv_row list \<times> nat \<times> string list) res" where
  "update_rows [] conditions updates = Inr ([], 0, [])"
| "update_rows (row # rows) conditions updates =
     res_bind (row_matches row conditions) (\<lambda>m.
     let new = (if m then set_fields updates row else (row, []))
     in res_bind (update_rows rows conditions updates) (\<lambda>(rows', n, warnings).
          Inr (fst new # rows', (if m then n + 1 else n), snd new @ warnings)))"

fun matching :: "string dict \<Rightarrow> csv_row list \<Rightarrow> csv_row list res" where
  "matching conditions [] = Inr []"
| "matching conditions (row # rows) =
     res_bind (row_matches row conditions) (\<lambda>m.
     res_bind (matching conditions rows) (\<lambda>ms. Inr (if m then row # ms else ms)))"

section \<open>Writing\<close>

text \<open>\<^verbatim>\<open>csv.writer\<close> quotes a field only where it has to, and a record of one empty field.\<close>

definition special :: "char \<Rightarrow> bool" where
  "special c \<longleftrightarrow> c = CHR '','' \<or> c = CHR 0x22 \<or> c = CHR 0x0D \<or> c = CHR 0x0A"

definition doubled :: "string \<Rightarrow> string" where
  "doubled f = concat (map (\<lambda>c. if c = CHR 0x22 then [c, c] else [c]) f)"

definition csv_field :: "string \<Rightarrow> string" where
  "csv_field f = (if list_ex special f then CHR 0x22 # doubled f @ [CHR 0x22] else f)"

definition csv_record :: "string list \<Rightarrow> string" where
  "csv_record fs =
     (if fs = [[]] then [CHR 0x22, CHR 0x22] else join '','' (map csv_field fs)) @ [CHR 0x0D, CHR 0x0A]"

text \<open>A row with a surplus has a key that is no column name: the writer refuses it.\<close>

definition writer_row :: "string list \<Rightarrow> csv_row \<Rightarrow> string res" where
  "writer_row names row =
     (if surplus row \<noteq> None \<or> \<not> set (keys (cells row)) \<subseteq> set names then Inl ValueError
      else Inr (csv_record (map (\<lambda>n. case map_of (cells row) n of Some (Some s) \<Rightarrow> s | _ \<Rightarrow> []) names)))"

text \<open>The text written before the writer refuses a row stays written.\<close>

fun write_rows :: "string list \<Rightarrow> csv_row list \<Rightarrow> string \<times> unit res" where
  "write_rows names [] = ([], Inr ())"
| "write_rows names (row # rows) =
     (case writer_row names row of
        Inl e \<Rightarrow> ([], Inl e)
      | Inr l \<Rightarrow> (let (t, r) = write_rows names rows in (l @ t, r)))"

definition print_csv :: "csv_row list \<Rightarrow> string list \<Rightarrow> string \<times> unit res" where
  "print_csv rows names = (let (t, r) = write_rows names rows in (csv_record names @ t, r))"

definition save_csv :: "string list \<Rightarrow> csv_row list \<Rightarrow> string \<times> unit res" where
  "save_csv names rows = (let (t, r) = write_rows names rows in (csv_record names @ t, r))"

section \<open>The program\<close>

definition dict_repr :: "string dict \<Rightarrow> string" where
  "dict_repr d = CHR ''{'' # join '', '' (map (\<lambda>(k, v). py_repr k @ '': '' @ py_repr v) d) @ ''}''"

text \<open>
  What a run leaves: the text printed, the files written (the name and the text), and how it ends.
  \<open>files\<close> gives the text of a file that can be read; \<open>writable\<close> tells where a file can be opened for
  writing.  A failure to read or to write exits with code 1.
\<close>

record run_result =
  stdout :: string
  written :: "(string \<times> string) option"
  ending :: "unit res"

definition edit_rows ::
  "(string \<Rightarrow> bool) \<Rightarrow> string \<Rightarrow> string dict \<Rightarrow> string dict \<Rightarrow> csv_row list \<Rightarrow> string list \<Rightarrow> run_result" where
  "edit_rows writable output_file conditions updates rows names =
     (case update_rows rows conditions updates of
        Inl e \<Rightarrow> \<lparr>stdout = [], written = None, ending = Inl e\<rparr>
      | Inr (rows', n, warnings) \<Rightarrow>
          (let head = ''Updated '' @ nat_str n @ '' matching row'' @ (if n \<noteq> 1 then ''s'' else []) @ ''.'' @ [CHR 0x0A] @
                 ''Changed rows:'' @ [CHR 0x0A]
           in case matching conditions rows' of
                Inl e \<Rightarrow> \<lparr>stdout = head, written = None, ending = Inl e\<rparr>
              | Inr changed \<Rightarrow>
                  (case print_csv changed names of
                     (t, Inl e) \<Rightarrow> \<lparr>stdout = head @ t, written = None, ending = Inl e\<rparr>
                   | (t, Inr _) \<Rightarrow>
                       if \<not> writable output_file then \<lparr>stdout = head @ t, written = None, ending = Inl (SystemExit 1)\<rparr>
                       else
                         (case save_csv names rows' of
                            (file, Inl e) \<Rightarrow>
                              \<lparr>stdout = head @ t, written = Some (output_file, file), ending = Inl (SystemExit 1)\<rparr>
                          | (file, Inr _) \<Rightarrow>
                              \<lparr>stdout = head @ t @ ''CSV file saved to '' @ CHR 0x27 # output_file @ CHR 0x27 # ''.'' @ [CHR 0x0A],
                               written = Some (output_file, file), ending = Inr ()\<rparr>))))"

definition csv_edit ::
  "(string \<Rightarrow> string option) \<Rightarrow> (string \<Rightarrow> bool) \<Rightarrow> string \<Rightarrow> string option \<Rightarrow> string list \<Rightarrow> string list \<Rightarrow> run_result" where
  "csv_edit files writable input_file output query sets =
     (let fails = (\<lambda>e. \<lparr>stdout = [], written = None, ending = Inl e\<rparr>);
          output_file = (case output of Some (c # s) \<Rightarrow> c # s | _ \<Rightarrow> input_file)
      in case (res_map parse_key_value query, res_map parse_key_value sets) of
           (Inr q, Inr a) \<Rightarrow>
             (if query = [] then fails (SystemExit 2)
              else
                let conditions = dict_update [] q; updates = dict_update [] a
                in case files input_file of
                     None \<Rightarrow> fails (SystemExit 1)
                   | Some text_in \<Rightarrow>
                       (let (rows, fieldnames) = load_csv text_in; names = (case fieldnames of None \<Rightarrow> [] | Some ns \<Rightarrow> ns)
                        in case matching conditions rows of
                             Inl e \<Rightarrow> fails e
                           | Inr found \<Rightarrow>
                               if found = [] then
                                 \<lparr>stdout = ''No rows found matching the conditions: '' @ dict_repr conditions @ [CHR 0x0A],
                                  written = None, ending = Inl (SystemExit 0)\<rparr>
                               else if updates = [] then
                                 (let (t, r) = print_csv found names
                                  in \<lparr>stdout = ''Matching rows:'' @ [CHR 0x0A] @ t, written = None, ending = r\<rparr>)
                               else edit_rows writable output_file conditions updates rows names))
         | _ \<Rightarrow> fails (SystemExit 2))"

section \<open>Updates keep the shape of the table\<close>

lemma set_field_facts:
  "keys (cells (fst (set_field (k, v) rw))) = keys (cells (fst rw))"
  "surplus (fst (set_field (k, v) rw)) = surplus (fst rw)"
  "map_of (cells (fst (set_field (k, v) rw))) =
    (if k \<in> set (keys (cells (fst rw))) then (map_of (cells (fst rw)))(k \<mapsto> Some v) else map_of (cells (fst rw)))"
  "snd (set_field (k, v) rw) = snd rw @ (if k \<in> set (keys (cells (fst rw))) then [] else [k])"
  by (cases rw; simp add: set_field_def keys_dict_set)+

lemma fold_set_field:
  "keys (cells (fst (fold set_field us rw))) = keys (cells (fst rw))"
  "surplus (fst (fold set_field us rw)) = surplus (fst rw)"
  "snd (fold set_field us rw) = snd rw @ filter (\<lambda>k. k \<notin> set (keys (cells (fst rw)))) (keys us)"
proof (induction us arbitrary: rw)
  case (Cons u us)
  { case 1 show ?case using Cons(1) by (cases u) (simp add: set_field_facts) }
  { case 2 show ?case using Cons(2) by (cases u) (simp add: set_field_facts) }
  { case 3 show ?case using Cons(3) by (cases u) (simp add: set_field_facts del: set_map) }
qed simp_all

lemma fold_set_field_value:
  "distinct (keys us) \<Longrightarrow> map_of (cells (fst (fold set_field us rw))) k =
    (if k \<in> set (keys (cells (fst rw))) \<and> k \<in> set (keys us) then Some (map_of us k) else map_of (cells (fst rw)) k)"
proof (induction us arbitrary: rw)
  case (Cons u us)
  obtain key v where u: "u = (key, v)" by (cases u)
  show ?case
    using Cons.prems unfolding u fold.simps comp_apply
    by (subst Cons.IH) (simp, simp add: set_field_facts, auto)
qed simp

definition updated_row :: "string dict \<Rightarrow> string dict \<Rightarrow> csv_row \<Rightarrow> csv_row" where
  "updated_row conditions updates row =
     (if row_matches row conditions = Inr True then fst (set_fields updates row) else row)"

lemma update_rows_map:
  "update_rows rows conditions updates = Inr (rows', n, w) \<Longrightarrow>
    rows' = map (updated_row conditions updates) rows \<and>
    n = length (filter (\<lambda>r. row_matches r conditions = Inr True) rows)"
proof (induction rows arbitrary: rows' n w)
  case (Cons row rows)
  then obtain m where m: "row_matches row conditions = Inr m" by auto
  obtain rs k w' where r: "update_rows rows conditions updates = Inr (rs, k, w')"
    using Cons.prems m by (cases "update_rows rows conditions updates") (auto simp: Let_def)
  show ?case using Cons.prems Cons.IH [OF r] m by (auto simp: r Let_def updated_row_def)
qed simp

lemma updated_row_shape:
  "keys (cells (updated_row c u r)) = keys (cells r)" "surplus (updated_row c u r) = surplus r"
  by (simp_all add: updated_row_def set_fields_def fold_set_field)

text \<open>An update keeps the table in shape.  The rows stay in order and every row keeps its column
  names, in order, and the cells beyond the header; at most all rows are counted as updated.\<close>

theorem update_rows_shape:
  assumes "update_rows rows conditions updates = Inr (rows', n, warnings)"
  shows "map (\<lambda>r. (keys (cells r), surplus r)) rows' = map (\<lambda>r. (keys (cells r), surplus r)) rows \<and> n \<le> length rows"
  using update_rows_map [OF assms] by (simp add: updated_row_shape)

definition demo_csv :: string where
  "demo_csv = ''a,b'' @ [CHR 0x0A] @ ''1,x'' @ [CHR 0x0A] @ ''2,y'' @ [CHR 0x0A]"

definition demo_long :: string where
  "demo_long = ''a,b'' @ [CHR 0x0A] @ ''1,x'' @ [CHR 0x0A] @ ''2,y,,'' @ [CHR 0x0A]"

definition demo_row :: "string \<Rightarrow> string \<Rightarrow> csv_row" where
  "demo_row x y = \<lparr>cells = [(''a'', Some x), (''b'', Some y)], surplus = None\<rparr>"

theorem update_rows_shape_witness:
  "\<exists>rows' n w. update_rows [demo_row ''1'' ''x'', demo_row ''2'' ''y''] [(''a'', ''1'')] [(''b'', ''z''), (''c'', ''w'')] = Inr (rows', n, w) \<and>
    map (\<lambda>r. (keys (cells r), surplus r)) rows' = [([''a'', ''b''], None), ([''a'', ''b''], None)] \<and> n \<le> 2"
proof -
  have u: "update_rows [demo_row ''1'' ''x'', demo_row ''2'' ''y''] [(''a'', ''1'')] [(''b'', ''z''), (''c'', ''w'')] =
      Inr ([demo_row ''1'' ''z'', demo_row ''2'' ''y''], 1, [''c''])" by code_simp
  note shape = update_rows_shape [OF u]
  show ?thesis by (rule exI, rule exI, rule exI, rule conjI, rule u, use shape in \<open>simp add: demo_row_def\<close>)
qed

section \<open>Updates are overwriting of maps\<close>

text \<open>A row as a map from names to cells, what a match means for it, and its update.\<close>

definition holds :: "(string \<rightharpoonup> string option) \<Rightarrow> string dict \<Rightarrow> bool" where
  "holds m conditions \<longleftrightarrow> (\<forall>(k, v) \<in> set conditions. \<exists>s. m k = Some (Some s) \<and> strip s = v)"

fun table_view :: "csv_row list \<Rightarrow> (string \<rightharpoonup> string option) list" where
  "table_view [] = []"
| "table_view (r # rows) = map_of (cells r) # table_view rows"

definition overwrite :: "string dict \<Rightarrow> (string \<rightharpoonup> string option) \<Rightarrow> (string \<rightharpoonup> string option)" where
  "overwrite updates m = m ++ ((\<lambda>k. map_option Some (map_of updates k)) |` dom m)"

lemma row_matches_holds: "row_matches row conditions = Inr b \<Longrightarrow> b = holds (map_of (cells row)) conditions"
  by (induction conditions) (auto simp: holds_def split: option.splits if_splits)

lemma row_matches_total:
  "None \<notin> snd ` set (cells row) \<Longrightarrow> row_matches row conditions = Inr (holds (map_of (cells row)) conditions)"
proof (induction conditions)
  case (Cons kv conditions)
  have "map_of (cells row) k \<noteq> Some None" for k using Cons.prems by (metis image_eqI map_of_SomeD snd_conv)
  then show ?case using Cons by (cases kv) (auto simp: holds_def split: option.splits)
qed (simp add: holds_def)

lemma set_fields_overwrite:
  "distinct (keys updates) \<Longrightarrow> map_of (cells (fst (set_fields updates row))) = overwrite updates (map_of (cells row))"
  by (rule ext)
    (auto simp: set_fields_def fold_set_field_value overwrite_def map_add_def restrict_map_def in_fst_iff dom_def
      split: option.splits)

text \<open>C27: updates as overwriting.  On complete rows the update always succeeds, counts the rows that meet
  all conditions, and is, seen through the map from column names to cells, the overwriting of the
  map of exactly these rows by the assignments to columns they have.\<close>

theorem update_rows_overwrites:
  assumes "\<forall>r \<in> set rows. None \<notin> snd ` set (cells r)" and "distinct (keys updates)"
  shows "\<exists>rows' warnings. update_rows rows conditions updates =
      Inr (rows', length (filter (\<lambda>r. holds (map_of (cells r)) conditions) rows), warnings) \<and>
    table_view rows' = map (\<lambda>m. if holds m conditions then overwrite updates m else m) (table_view rows)"
  using assms(1)
proof (induction rows)
  case (Cons r rows)
  have "\<forall>r \<in> set rows. None \<notin> snd ` set (cells r)" using Cons.prems by simp
  from Cons.IH [OF this] obtain rs w where rest: "update_rows rows conditions updates =
      Inr (rs, length (filter (\<lambda>r. holds (map_of (cells r)) conditions) rows), w)"
    "table_view rs = map (\<lambda>m. if holds m conditions then overwrite updates m else m) (table_view rows)"
    by (elim exE conjE)
  have "row_matches r conditions = Inr (holds (map_of (cells r)) conditions)"
    by (rule row_matches_total) (use Cons.prems in simp)
  then show ?case
    using rest set_fields_overwrite [OF assms(2), of r] by (cases "holds (map_of (cells r)) conditions") (simp_all add: Let_def)
qed simp

theorem update_rows_overwrites_witness:
  "\<exists>rows' w. update_rows [demo_row ''1'' ''x'', demo_row ''2'' ''y''] [(''a'', ''1'')] [(''b'', ''z'')] = Inr (rows', 1, w) \<and>
    table_view rows' = [map_of (cells (demo_row ''1'' ''z'')), map_of (cells (demo_row ''2'' ''y''))]"
proof -
  have one: "length (filter (\<lambda>r. holds (map_of (cells r)) [(''a'', ''1'')]) [demo_row ''1'' ''x'', demo_row ''2'' ''y'']) = 1"
    "holds (map_of (cells (demo_row ''1'' ''x''))) [(''a'', ''1'')]" "\<not> holds (map_of (cells (demo_row ''2'' ''y''))) [(''a'', ''1'')]"
    by (simp_all add: demo_row_def holds_def) (code_simp+)?
  have o: "overwrite [(''b'', ''z'')] (map_of (cells (demo_row ''1'' ''x''))) = map_of (cells (demo_row ''1'' ''z''))"
    by (rule ext) (simp add: overwrite_def demo_row_def map_add_def restrict_map_def dom_def)
  have "None \<notin> snd ` set (cells (demo_row x y))" for x y by (simp add: demo_row_def)
  then show ?thesis
    using update_rows_overwrites [of "[demo_row ''1'' ''x'', demo_row ''2'' ''y'']" "[(''b'', ''z'')]" "[(''a'', ''1'')]"]
    unfolding one(1) table_view.simps list.map o using one(2,3) by simp
qed

section \<open>What is written can be read\<close>

lemma quoted_read:
  "csv_rows_aux InQuoted rec fld (doubled f @ CHR 0x22 # t) = csv_rows_aux QuoteInQuoted rec (rev f @ fld) t"
  by (induction f arbitrary: fld) (auto simp: doubled_def)

lemma unquoted_read:
  "\<not> list_ex special f \<Longrightarrow> csv_rows_aux InField rec fld (f @ t) = csv_rows_aux InField rec (rev f @ fld) t"
  by (induction f arbitrary: fld) (auto simp: special_def is_nl_def)

lemma field_read:
  "csv_rows_aux StartField rec [] (csv_field f @ CHR '','' # t) = csv_rows_aux StartField (f # rec) [] t"
  "csv_rows_aux StartField rec [] (csv_field f @ CHR 0x0D # t) = rev (f # rec) # csv_rows_aux StartRecord [] [] t"
  using quoted_read [of rec "[]" f] unquoted_read [of "tl f" rec "[hd f]"]
  by (cases "list_ex special f"; cases f; auto simp: csv_field_def special_def is_nl_def)+

lemma first_field_read:
  "f \<noteq> [] \<or> c = CHR '','' \<Longrightarrow> c \<in> {CHR '','', CHR 0x0D} \<Longrightarrow>
    csv_rows_aux StartRecord [] [] (csv_field f @ c # t) = csv_rows_aux StartField [] [] (csv_field f @ c # t)"
  by (cases f) (auto simp: csv_field_def special_def is_nl_def)

lemma fields_read:
  "fs \<noteq> [] \<Longrightarrow> csv_rows_aux StartField rec [] (join '','' (map csv_field fs) @ CHR 0x0D # t) =
    (rev rec @ fs) # csv_rows_aux StartRecord [] [] t"
proof (induction fs arbitrary: rec)
  case (Cons f fs)
  show ?case
  proof (cases fs)
    case (Cons g gs)
    then show ?thesis using Cons.IH [of "f # rec"] by (simp add: field_read)
  qed (simp add: field_read)
qed simp

lemma record_read:
  assumes "fs \<noteq> []"
  shows "csv_rows_aux StartRecord [] [] (csv_record fs @ t) = fs # [] # csv_rows_aux StartRecord [] [] t"
proof (cases "fs = [[]]")
  case True
  then show ?thesis by (simp add: csv_record_def is_nl_def)
next
  case False
  obtain f gs where fs: "fs = f # gs" using assms by (cases fs) auto
  have start: "csv_rows_aux StartRecord [] [] (join '','' (map csv_field fs) @ CHR 0x0D # CHR 0x0A # t) =
      csv_rows_aux StartField [] [] (join '','' (map csv_field fs) @ CHR 0x0D # CHR 0x0A # t)"
  proof (cases gs)
    case Nil
    then show ?thesis using False fs first_field_read [of f "CHR 0x0D"] by simp
  next
    case (Cons g hs)
    then show ?thesis using first_field_read [of f "CHR '',''"] by (simp add: fs)
  qed
  show ?thesis using fields_read [OF assms, of "[]" "CHR 0x0A # t"] False by (simp add: csv_record_def start is_nl_def)
qed

lemma records_read:
  "\<forall>fs \<in> set ls. fs \<noteq> [] \<Longrightarrow>
    filter (\<lambda>r. r \<noteq> []) (csv_rows_aux StartRecord [] [] (concat (map csv_record ls))) = ls"
  by (induction ls) (auto simp: record_read)

text \<open>A row as long as the header.\<close>

definition complete_row :: "string list \<Rightarrow> csv_row \<Rightarrow> bool" where
  "complete_row names r \<longleftrightarrow> keys (cells r) = names \<and> None \<notin> snd ` set (cells r) \<and> surplus r = None"

definition row_texts :: "csv_row \<Rightarrow> string list" where
  "row_texts r = map (\<lambda>(k, v). the v) (cells r)"

lemma complete_cells: "None \<notin> snd ` set kvs \<Longrightarrow> map (\<lambda>(k, v). (k, Some (the v))) kvs = kvs"
  by (induction kvs) auto

lemma row_reread:
  assumes "distinct names" "complete_row names r"
  shows "reader_row names (row_texts r) = r"
proof -
  have len: "length (row_texts r) = length names" using assms(2) by (auto simp: complete_row_def row_texts_def)
  have "zip names (map Some (row_texts r)) = map (\<lambda>(k, v). (k, Some (the v))) (cells r)"
    using assms(2) by (auto simp: complete_row_def row_texts_def zip_map1 zip_map2 zip_same_conv_map)
  also have "\<dots> = cells r" using assms(2) complete_cells by (auto simp: complete_row_def)
  finally have "zip names (map Some (row_texts r)) = cells r" .
  moreover have "dict_update [] (cells r) = cells r"
    by (rule dict_of_distinct) (use assms in \<open>simp add: complete_row_def\<close>)
  ultimately show ?thesis using len assms(2) by (simp add: reader_row_def complete_row_def)
qed

lemma complete_written:
  assumes "distinct names" "complete_row names r"
  shows "writer_row names r = Inr (csv_record (row_texts r))"
proof -
  have "map (\<lambda>n. case map_of (cells r) n of Some (Some s) \<Rightarrow> s | _ \<Rightarrow> []) names = row_texts r"
  proof -
    have "map (\<lambda>n. case map_of kvs n of Some (Some s) \<Rightarrow> s | _ \<Rightarrow> []) (keys kvs) = map (\<lambda>(k, v). the v) kvs"
      if "distinct (keys kvs)" "None \<notin> snd ` set kvs" for kvs :: "string option dict"
    proof -
      have "(case map_of kvs (fst kv) of Some (Some s) \<Rightarrow> s | _ \<Rightarrow> []) = the (snd kv)" if kv: "kv \<in> set kvs" for kv
      proof -
        obtain k v where k: "kv = (k, v)" by (cases kv)
        have "map_of kvs k = Some v" "v \<noteq> None"
          using kv k \<open>distinct (keys kvs)\<close> \<open>None \<notin> snd ` set kvs\<close> by (auto intro: map_of_is_SomeI) force
        then show ?thesis by (auto simp: k)
      qed
      then show ?thesis by (simp add: case_prod_unfold)
    qed
    from this [of "cells r"] show ?thesis using assms by (auto simp: complete_row_def row_texts_def)
  qed
  then show ?thesis using assms(2) by (simp add: writer_row_def complete_row_def)
qed

lemma write_complete:
  assumes "distinct names" "\<forall>r \<in> set xs. complete_row names r"
  shows "write_rows names xs = (concat (map csv_record (map row_texts xs)), Inr ())"
    "surplus bad \<noteq> None \<Longrightarrow> write_rows names (xs @ bad # ys) = (concat (map csv_record (map row_texts xs)), Inl ValueError)"
  using assms(2)
  by (induction xs) (simp_all add: complete_written [OF assms(1)], simp_all add: writer_row_def)

lemma written_reread:
  assumes "distinct names" "names \<noteq> []" "\<forall>r \<in> set xs. complete_row names r"
  shows "load_csv (csv_record names @ concat (map csv_record (map row_texts xs))) = (xs, Some names)"
proof -
  have ne: "\<forall>fs \<in> set (map row_texts xs). fs \<noteq> []"
    using assms(2,3) by (auto simp: complete_row_def row_texts_def)
  have "map (reader_row names) (map row_texts xs) = xs"
    using assms(3) row_reread [OF assms(1)] by (simp add: map_idI)
  then show ?thesis
    using records_read [OF ne] by (simp add: load_csv_def record_read [OF assms(2)])
qed

definition no_none :: "csv_row \<Rightarrow> bool" where
  "no_none r \<longleftrightarrow> None \<notin> snd ` set (cells r)"

lemma updated_no_none:
  assumes "no_none r" "distinct (keys (cells r))" "distinct (keys u)"
  shows "no_none (updated_row c u r)"
  unfolding no_none_def
proof
  assume "None \<in> snd ` set (cells (updated_row c u r))"
  then obtain k where "(k, None) \<in> set (cells (updated_row c u r))" by auto
  then have "map_of (cells (updated_row c u r)) k = Some None"
    using assms(2) updated_row_shape(1) [of c u r] by (metis map_of_is_SomeI)
  moreover have "map_of (cells r) k \<noteq> Some None"
    using assms(1) map_of_SomeD [of "cells r" k None] by (force simp: no_none_def)
  ultimately show False
    by (auto simp: updated_row_def set_fields_def fold_set_field_value [OF assms(3)] in_fst_iff split: if_splits)
qed

lemma updated_complete:
  "complete_row names r \<Longrightarrow> distinct names \<Longrightarrow> distinct (keys u) \<Longrightarrow> complete_row names (updated_row c u r)"
  using updated_no_none [of r u c] by (auto simp: complete_row_def no_none_def updated_row_shape)

section \<open>A run of the program\<close>

lemma matches: "no_none r \<Longrightarrow> row_matches r c = Inr (holds (map_of (cells r)) c)"
  unfolding no_none_def by (rule row_matches_total)

lemma matching_filter:
  "\<forall>r \<in> set rows. no_none r \<Longrightarrow> matching c rows = Inr (filter (\<lambda>r. holds (map_of (cells r)) c) rows)"
  by (induction rows) (auto simp: matches)

lemma update_rows_total:
  "\<forall>r \<in> set rows. no_none r \<Longrightarrow> \<exists>n w. update_rows rows c u = Inr (map (updated_row c u) rows, n, w)"
  by (induction rows) (auto simp: matches updated_row_def Let_def)

text \<open>The arguments and the file that a run works on.\<close>

definition run_on ::
  "(string \<Rightarrow> string option) \<Rightarrow> string \<Rightarrow> string list \<Rightarrow> string list \<Rightarrow> string dict \<Rightarrow> string dict \<Rightarrow> csv_row list \<Rightarrow> string list \<Rightarrow> bool" where
  "run_on files input_file query sets c u rows names \<longleftrightarrow>
     query \<noteq> [] \<and> u \<noteq> [] \<and> names \<noteq> [] \<and> distinct names \<and>
     (\<exists>q. res_map parse_key_value query = Inr q \<and> c = dict_update [] q) \<and>
     (\<exists>a. res_map parse_key_value sets = Inr a \<and> u = dict_update [] a) \<and>
     (\<exists>t. files input_file = Some t \<and> load_csv t = (rows, Some names)) \<and>
     (\<forall>r \<in> set rows. no_none r) \<and> (\<exists>r \<in> set rows. holds (map_of (cells r)) c)"

lemma run_steps:
  assumes "run_on files input_file query sets c u rows names"
  shows "csv_edit files writable input_file output query sets =
    edit_rows writable (case output of Some (x # s) \<Rightarrow> x # s | _ \<Rightarrow> input_file) c u rows names" "distinct (keys u)"
proof -
  obtain q a t where r: "res_map parse_key_value query = Inr q" "c = dict_update [] q"
    "res_map parse_key_value sets = Inr a" "u = dict_update [] a" "files input_file = Some t" "load_csv t = (rows, Some names)"
    "\<forall>r \<in> set rows. no_none r" "\<exists>r \<in> set rows. holds (map_of (cells r)) c" "query \<noteq> []" "u \<noteq> []"
    using assms unfolding run_on_def by blast
  have "q \<noteq> []" using r(1,9) length_res_map by fastforce
  then show "csv_edit files writable input_file output query sets =
    edit_rows writable (case output of Some (x # s) \<Rightarrow> x # s | _ \<Rightarrow> input_file) c u rows names"
  proof -
    have found: "filter (\<lambda>r. holds (map_of (cells r)) c) rows \<noteq> []" using r(8) by (auto simp: filter_empty_conv)
    show ?thesis
      unfolding csv_edit_def r(1,3,5) Let_def sum.case prod.case option.case r(2) [symmetric] r(4) [symmetric] r(6)
        matching_filter [OF r(7)]
      using found \<open>q \<noteq> []\<close> r(9,10) by simp
  qed
  show "distinct (keys u)" unfolding r(4) by (rule distinct_dict_update) simp
qed

lemma view_updated:
  assumes "\<forall>r \<in> set rows. no_none r" "distinct (keys u)"
  shows "table_view (map (updated_row c u) rows) = map (\<lambda>m. if holds m c then overwrite u m else m) (table_view rows)"
  using assms(1) by (induction rows) (auto simp: updated_row_def matches set_fields_overwrite [OF assms(2)])

text \<open>C26: an edit in a file.  When every row is as long as the header and some row meets the conditions,
  the run succeeds, and reading the written file back gives the same columns and, row by row, the
  cells overwritten where the conditions hold: quoting, line breaks and empty fields survive.\<close>

theorem csv_edit_saves:
  assumes "run_on files input_file query sets c u rows names" and "\<forall>r \<in> set rows. surplus r = None \<and> keys (cells r) = names"
    and "output_file = (case output of Some (x # s) \<Rightarrow> x # s | _ \<Rightarrow> input_file)" and "writable output_file"
  shows "\<exists>printed file rows'. csv_edit files writable input_file output query sets =
      \<lparr>stdout = printed, written = Some (output_file, file), ending = Inr ()\<rparr> \<and>
    load_csv file = (rows', Some names) \<and>
    table_view rows' = map (\<lambda>m. if holds m c then overwrite u m else m) (table_view rows)"
proof -
  have n: "names \<noteq> []" "distinct names" "\<forall>r \<in> set rows. no_none r" using assms(1) by (auto simp: run_on_def)
  note u = run_steps(2) [OF assms(1)]
  let ?rows = "map (updated_row c u) rows"
  have "complete_row names r" if "r \<in> set rows" for r
    using that assms(2) n(3) by (simp add: complete_row_def no_none_def)
  then have ok: "\<forall>r \<in> set ?rows. complete_row names r" using updated_complete [OF _ n(2) u] by simp
  then have "\<forall>r \<in> set ?rows. no_none r" by (simp add: complete_row_def no_none_def)
  then have m: "matching c ?rows = Inr (filter (\<lambda>r. holds (map_of (cells r)) c) ?rows)" by (rule matching_filter)
  obtain k w where up: "update_rows rows c u = Inr (?rows, k, w)" using update_rows_total [OF n(3)] by blast
  have some: "\<forall>r \<in> set (filter (\<lambda>r. holds (map_of (cells r)) c) ?rows). complete_row names r" using ok by auto
  have "load_csv (fst (save_csv names ?rows)) = (?rows, Some names)"
    using written_reread [OF n(2,1) ok] by (simp add: save_csv_def write_complete(1) [OF n(2) ok])
  moreover have "snd (save_csv names ?rows) = Inr ()" by (simp add: save_csv_def write_complete(1) [OF n(2) ok])
  moreover have "snd (print_csv (filter (\<lambda>r. holds (map_of (cells r)) c) ?rows) names) = Inr ()"
    by (simp add: print_csv_def write_complete(1) [OF n(2) some])
  ultimately show ?thesis
    using assms(4) view_updated [OF n(3) u, of c] unfolding run_steps(1) [OF assms(1)] assms(3) [symmetric]
    by (auto simp: edit_rows_def up m Let_def split: prod.splits)
qed

lemma demo_run: "run_on (\<lambda>f. Some demo_csv) ''t'' [''a=1''] [''b=z''] [(''a'', ''1'')] [(''b'', ''z'')]
    [demo_row ''1'' ''x'', demo_row ''2'' ''y''] [''a'', ''b'']"
proof -
  have "res_map parse_key_value [''a=1''] = Inr [(''a'', ''1'')]" "res_map parse_key_value [''b=z''] = Inr [(''b'', ''z'')]"
    "load_csv demo_csv = ([demo_row ''1'' ''x'', demo_row ''2'' ''y''], Some [''a'', ''b''])" "strip ''1'' = ''1''"
    by code_simp+
  then show ?thesis by (simp add: run_on_def demo_row_def no_none_def holds_def dict_update_def)
qed

theorem csv_edit_saves_witness:
  "\<exists>printed file rows'. csv_edit (\<lambda>f. Some demo_csv) (\<lambda>f. True) ''t'' None [''a=1''] [''b=z''] =
      \<lparr>stdout = printed, written = Some (''t'', file), ending = Inr ()\<rparr> \<and>
    load_csv file = (rows', Some [''a'', ''b'']) \<and> hd (table_view rows') ''b'' = Some (Some ''z'')"
proof -
  have "holds (map_of (cells (demo_row ''1'' ''x''))) [(''a'', ''1'')]"
    "overwrite [(''b'', ''z'')] (map_of (cells (demo_row ''1'' ''x''))) ''b'' = Some (Some ''z'')"
    by (simp_all add: demo_row_def holds_def overwrite_def map_add_def restrict_map_def dom_def) code_simp
  then show ?thesis
    using csv_edit_saves [OF demo_run, of "''t''" None "\<lambda>f. True"] by (auto simp: demo_row_def)
qed

text \<open>A record that is too long.  When one record, which the conditions do not select, is longer than
  the header, the run rewrites the file up to that record, then stops with exit code 1: read
  back, the file holds the updated rows before it, and it and all rows after it are lost.\<close>

theorem surplus_truncates:
  assumes "run_on files input_file query sets c u (pre @ bad # post) names"
    and "\<forall>r \<in> set pre \<union> set post. surplus r = None \<and> keys (cells r) = names"
    and "surplus bad \<noteq> None" and "\<not> holds (map_of (cells bad)) c"
    and "output_file = (case output of Some (x # s) \<Rightarrow> x # s | _ \<Rightarrow> input_file)" and "writable output_file"
  shows "\<exists>printed file. csv_edit files writable input_file output query sets =
      \<lparr>stdout = printed, written = Some (output_file, file), ending = Inl (SystemExit 1)\<rparr> \<and>
    load_csv file = (map (updated_row c u) pre, Some names)"
proof -
  have n: "names \<noteq> []" "distinct names" "\<forall>r \<in> set (pre @ bad # post). no_none r" using assms(1) by (auto simp: run_on_def)
  note u = run_steps(2) [OF assms(1)]
  let ?f = "updated_row c u" and ?h = "\<lambda>r. holds (map_of (cells r)) c"
  have bad: "?f bad = bad" using n(3) assms(4) by (simp add: updated_row_def matches)
  have "complete_row names r" if "r \<in> set pre \<union> set post" for r
    using that assms(2) n(3) by (auto simp: complete_row_def no_none_def)
  then have ok: "\<forall>r \<in> set (map ?f pre). complete_row names r" "\<forall>r \<in> set (map ?f post). complete_row names r"
    using updated_complete [OF _ n(2) u] by simp_all
  let ?rows = "map ?f pre @ bad # map ?f post"
  have "\<forall>r \<in> set ?rows. no_none r" using ok n(3) by (simp add: complete_row_def no_none_def ball_Un)
  then have m: "matching c ?rows = Inr (filter ?h ?rows)" by (rule matching_filter)
  obtain k w where up: "update_rows (pre @ bad # post) c u = Inr (?rows, k, w)"
    using update_rows_total [OF n(3), of c u] by (auto simp: bad)
  have some: "\<forall>r \<in> set (filter ?h ?rows). complete_row names r" using ok assms(4) by auto
  have "load_csv (fst (save_csv names ?rows)) = (map ?f pre, Some names)" "snd (save_csv names ?rows) = Inl ValueError"
    using written_reread [OF n(2,1) ok(1)] by (simp_all add: save_csv_def write_complete(2) [OF n(2) ok(1) assms(3)])
  moreover have "snd (print_csv (filter ?h ?rows) names) = Inr ()"
    by (simp add: print_csv_def write_complete(1) [OF n(2) some] del: filter_append)
  ultimately show ?thesis
    using assms(6) unfolding run_steps(1) [OF assms(1)] assms(5) [symmetric]
    by (auto simp: edit_rows_def up m Let_def simp del: filter_append split: prod.splits)
qed

theorem surplus_truncates_witness:
  "\<exists>printed file. csv_edit (\<lambda>f. Some demo_long) (\<lambda>f. True) ''t'' None [''a=1''] [''b=z''] =
      \<lparr>stdout = printed, written = Some (''t'', file), ending = Inl (SystemExit 1)\<rparr> \<and>
    load_csv file = ([demo_row ''1'' ''z''], Some [''a'', ''b''])"
proof -
  let ?bad = "(demo_row ''2'' ''y'')\<lparr>surplus := Some [[], []]\<rparr>"
  have "res_map parse_key_value [''a=1''] = Inr [(''a'', ''1'')]" "res_map parse_key_value [''b=z''] = Inr [(''b'', ''z'')]"
    "load_csv demo_long = ([demo_row ''1'' ''x'', ?bad], Some [''a'', ''b''])" "strip ''1'' = ''1''" "strip ''2'' = ''2''"
    by code_simp+
  then have run: "run_on (\<lambda>f. Some demo_long) ''t'' [''a=1''] [''b=z''] [(''a'', ''1'')] [(''b'', ''z'')]
      ([demo_row ''1'' ''x''] @ ?bad # []) [''a'', ''b'']" "\<not> holds (map_of (cells ?bad)) [(''a'', ''1'')]"
    by (simp_all add: run_on_def demo_row_def no_none_def holds_def dict_update_def)
  have "updated_row [(''a'', ''1'')] [(''b'', ''z'')] (demo_row ''1'' ''x'') = demo_row ''1'' ''z''" by code_simp
  then show ?thesis
    using surplus_truncates [OF run(1) _ _ run(2), of "''t''" None "\<lambda>f. True"] by (simp add: demo_row_def)
qed

end
