(* ===== verification/Experiments.thy ===== *)
theory Experiments
  imports Runner
begin

text \<open>
  The experiments of the benchmark: the parameter files autotest/params_*.py, each a list of
  parameters with their values and a list of filters, and their launch by autotest/exp_runner.py.

  A file computes the defaults its filters compare with from its own list.  The values are integers,
  strings and (target throughputs) decimal numbers; none of them is \<^verbatim>\<open>None\<close>.  Parts that are
  commented out are not part of an experiment.
\<close>

section \<open>Parameter files\<close>

datatype pval = PInt int | PStr string | PReal real

fun py_range_from :: "nat \<Rightarrow> int \<Rightarrow> int \<Rightarrow> int list" where
  "py_range_from 0 a s = []"
| "py_range_from (Suc n) a s = a # py_range_from n (a + s) s"

text \<open>\<^verbatim>\<open>range(a, b, s)\<close> for a positive step.\<close>

definition py_range :: "int \<Rightarrow> int \<Rightarrow> int \<Rightarrow> int list" where
  "py_range a b s = py_range_from (nat ((b - a + s - 1) div s)) a s"

text \<open>\<^verbatim>\<open>"r:" * n + "r"\<close>.\<close>

definition equal_ratio :: "nat \<Rightarrow> string \<Rightarrow> string" where
  "equal_ratio n r = concat (replicate n (r @ '':'')) @ r"

record params_module =
  g_test_parameters :: "(string \<times> pval list) list"
  g_param_filters :: "pval pfilter list"
  g_nreps :: "int option"

definition default_val :: "(string \<times> pval list) list \<Rightarrow> string \<Rightarrow> pval res" where
  "default_val ps name =
     (case map snd (filter (\<lambda>t. fst t = name) ps) of
        (v # _) # _ \<Rightarrow> Inr v
      | _ \<Rightarrow> Inl IndexError)"

text \<open>\<^verbatim>\<open>p[key] == value\<close>, and \<^verbatim>\<open>not (p[key] == value and ...)\<close>, whose second part is only read when the
  first holds.\<close>

definition is_val :: "string \<Rightarrow> string \<Rightarrow> pval pfilter" where
  "is_val k s p = res_bind (dict_get p k) (\<lambda>v. Inr (v = PStr s))"

definition not_with :: "string \<Rightarrow> string \<Rightarrow> pval pfilter \<Rightarrow> pval pfilter" where
  "not_with k s other p =
     res_bind (is_val k s p) (\<lambda>a. if a then res_bind (other p) (\<lambda>b. Inr (\<not> b)) else Inr True)"

definition not_both :: "pval pfilter" where
  "not_both = not_with ''rgx_enabled'' ''1'' (is_val ''hs_enabled'' ''1'')"

definition not_neither :: "pval pfilter" where
  "not_neither = not_with ''rgx_enabled'' ''0'' (is_val ''hs_enabled'' ''0'')"

definition only_default_flags :: "pval \<Rightarrow> pval pfilter" where
  "only_default_flags d = not_with ''rgx_enabled'' ''1'' (\<lambda>p. res_bind (dict_get p ''hs_flags'') (\<lambda>v. Inr (v \<noteq> d)))"

definition no_default_flags :: "pval \<Rightarrow> pval pfilter" where
  "no_default_flags d = not_with ''rgx_enabled'' ''1'' (\<lambda>p. res_bind (dict_get p ''hs_flags'') (\<lambda>v. Inr (v = d)))"

definition some_keyword :: "pval pfilter" where
  "some_keyword = not_with ''rules_use_content_kw'' ''0'' (is_val ''rules_use_pcre_kw'' ''0'')"

definition with_defaults ::
  "(string \<times> pval list) list \<Rightarrow> (pval \<Rightarrow> pval pfilter) \<Rightarrow> int option \<Rightarrow> params_module res" where
  "with_defaults ps flags n =
     res_bind (default_val ps ''hs_flags'') (\<lambda>d.
     res_bind (default_val ps ''nb_rgx_desc'') (\<lambda>_.
       Inr \<lparr>g_test_parameters = ps, g_param_filters = [not_both, not_neither, flags d, some_keyword], g_nreps = n\<rparr>))"

definition params_big_exp :: "(string \<times> pval list) list" where
  "params_big_exp =
     [(''n_rules'', map PInt (py_range 2048 28255 4096)),
      (''target_tp'', map PInt (py_range 5 51 5)),
      (''pkt_size'', [PInt 1500, PInt 9000]),
      (''lcores'', [PStr ''0-7'']),
      (''hs_flags'', [PStr ''--hs_flag_allowempty'', PStr ''--hs_flag_allowempty --hs_flag_singlematch --hs_flag_dotall --hs_flag_prefilter'']),
      (''nb_rgx_desc'', [PInt 256]),
      (''port_mp_size'', [PInt 32768]),
      (''port_rx_descriptors'', [PInt 32768]),
      (''port_tx_descriptors'', [PInt 2048]),
      (''jumbo_frames'', [PStr ''1'']),
      (''rgx_enabled'', [PStr ''1'', PStr ''0'']),
      (''hs_enabled'', [PStr ''1'', PStr ''0'']),
      (''port_forward_mode'', [PStr ''1'']),
      (''pktgen_latency_enabled'', [PStr ''1'']),
      (''rules_use_content_kw'', [PStr ''1'']),
      (''rules_use_pcre_kw'', [PStr ''1'', PStr ''0'']),
      (''rules_patlen_greaterthan'', [PStr ''5'']),
      (''pattern_db'', [PStr ''working_set.rules''])]"

definition params_prefix_mem :: "(string \<times> pval list) list" where
  "params_prefix_mem =
     [(''n_rules'', [PInt 1024] @ map PInt (py_range 4096 24000 4096)),
      (''target_tp'', [PInt 5, PInt 10, PInt 15, PInt 20, PInt 25, PInt 30, PInt 35, PInt 40, PInt 45, PInt 50]),
      (''pkt_size'', [PInt 1500]),
      (''lcores'', [PStr ''0-7'']),
      (''hs_flags'', [PStr ''--hs_flag_allowempty'']),
      (''nb_rgx_desc'', [PInt 256]),
      (''port_mp_size'', [PInt 32768]),
      (''port_rx_descriptors'', [PInt 32768]),
      (''port_tx_descriptors'', [PInt 2048]),
      (''jumbo_frames'', [PStr ''1'']),
      (''rgx_enabled'', [PStr ''1'']),
      (''hs_enabled'', [PStr ''0'']),
      (''port_forward_mode'', [PStr ''1'']),
      (''pktgen_latency_enabled'', [PStr ''1'']),
      (''rules_use_content_kw'', [PStr ''1'']),
      (''rules_use_pcre_kw'', [PStr ''0'']),
      (''rules_patlen_greaterthan'', [PStr ''5'']),
      (''pattern_db'', [PStr ''prefixes_4b_64k.rules''])]"

definition params_min_pkt_size :: "(string \<times> pval list) list" where
  "params_min_pkt_size =
     [(''n_rules'', [PInt 2048, PInt 28255]),
      (''target_tp'', map PInt (py_range 5 51 5)),
      (''pkt_size'', map PInt (py_range 512 1500 128) @ map PInt (py_range 1500 9000 500)),
      (''lcores'', [PStr ''0-7'']),
      (''hs_flags'', [PStr ''--hs_flag_allowempty'', PStr ''--hs_flag_allowempty --hs_flag_singlematch --hs_flag_dotall --hs_flag_prefilter'']),
      (''nb_rgx_desc'', [PInt 256]),
      (''port_mp_size'', [PInt 32768]),
      (''port_rx_descriptors'', [PInt 32768]),
      (''port_tx_descriptors'', [PInt 2048]),
      (''jumbo_frames'', [PStr ''1'']),
      (''rgx_enabled'', [PStr ''1'']),
      (''hs_enabled'', [PStr ''0'']),
      (''port_forward_mode'', [PStr ''1'']),
      (''pktgen_latency_enabled'', [PStr ''1'']),
      (''rules_use_content_kw'', [PStr ''1'']),
      (''rules_use_pcre_kw'', [PStr ''1'']),
      (''rules_patlen_greaterthan'', [PStr ''5'']),
      (''pattern_db'', [PStr ''working_set.rules''])]"

definition params_latency :: "(string \<times> pval list) list" where
  "params_latency =
     [(''n_rules'', [PInt 2048, PInt 28255]),
      (''rule_subset_ratio'', [PStr ''1.0'']),
      (''target_tp'', [PReal (1 / 10), PReal (1 / 2), PInt 1]),
      (''pkt_size'', [PInt 1500, PInt 3000, PInt 6000, PInt 9000]),
      (''lcores'', [PStr ''0-7'']),
      (''hs_flags'', [PStr ''--hs_flag_allowempty'']),
      (''nb_rgx_desc'', [PInt 2048]),
      (''port_mp_size'', [PInt 32767]),
      (''port_rx_descriptors'', [PInt 16384]),
      (''port_tx_descriptors'', [PInt 16384]),
      (''jumbo_frames'', [PStr ''1'']),
      (''rgx_enabled'', [PStr ''0'', PStr ''1'']),
      (''hs_enabled'', [PStr ''0'', PStr ''1'']),
      (''port_forward_mode'', [PStr ''1'']),
      (''pktgen_latency_enabled'', [PStr ''1'']),
      (''rules_use_content_kw'', [PStr ''1'']),
      (''rules_use_pcre_kw'', [PStr ''1'']),
      (''rules_patlen_greaterthan'', [PStr ''5'']),
      (''pattern_db'', [PStr ''working_set.rules''])]"

definition params_heatmap_rulesetsz_pktsz :: "(string \<times> pval list) list" where
  "params_heatmap_rulesetsz_pktsz =
     [(''n_rules'', [PInt 1, PInt 2048, PInt 4096, PInt 8192, PInt 16384, PInt 28255]),
      (''rule_subset_ratio'', [PStr ''1.0'']),
      (''target_tp'', map PInt (py_range 1 54 2)),
      (''pkt_size'', [PInt 128, PInt 256, PInt 512, PInt 1024, PInt 2048]),
      (''lcores'', [PStr ''0-7'']),
      (''hs_flags'', [PStr ''--hs_flag_allowempty'']),
      (''nb_rgx_desc'', [PInt 2048]),
      (''port_mp_size'', [PInt 32767]),
      (''port_rx_descriptors'', [PInt 16384]),
      (''port_tx_descriptors'', [PInt 16384]),
      (''jumbo_frames'', [PStr ''1'']),
      (''rgx_enabled'', [PStr ''1'']),
      (''hs_enabled'', [PStr ''0'']),
      (''port_forward_mode'', [PStr ''1'']),
      (''pktgen_latency_enabled'', [PStr ''1'']),
      (''rules_use_content_kw'', [PStr ''1'']),
      (''rules_use_pcre_kw'', [PStr ''1'']),
      (''rules_patlen_greaterthan'', [PStr ''5'']),
      (''pattern_db'', [PStr ''working_set.rules''])]"

definition params_hs_vs_rxp_cores :: "(string \<times> pval list) list" where
  "params_hs_vs_rxp_cores =
     [(''n_rules'', [PInt 2048, PInt 28255]),
      (''rule_subset_ratio'', [PStr ''1.0'']),
      (''target_tp'', map PInt (py_range 1 61 1)),
      (''pkt_size'', [PInt 1500]),
      (''lcores'', [PStr ''0-1'', PStr ''0-2'', PStr ''0-3'', PStr ''0-4'', PStr ''0-5'', PStr ''0-6'', PStr ''0-7'']),
      (''hs_flags'', [PStr ''--hs_flag_allowempty'']),
      (''nb_rgx_desc'', [PInt 2048]),
      (''port_mp_size'', [PInt 32767]),
      (''port_rx_descriptors'', [PInt 16384]),
      (''port_tx_descriptors'', [PInt 16384]),
      (''jumbo_frames'', [PStr ''1'']),
      (''rgx_enabled'', [PStr ''0'', PStr ''1'']),
      (''hs_enabled'', [PStr ''0'', PStr ''1'']),
      (''port_forward_mode'', [PStr ''1'']),
      (''pktgen_latency_enabled'', [PStr ''1'']),
      (''rules_use_content_kw'', [PStr ''1'']),
      (''rules_use_pcre_kw'', [PStr ''1'']),
      (''rules_patlen_greaterthan'', [PStr ''5'']),
      (''pattern_db'', [PStr ''working_set.rules''])]"

definition params_rule_subsets :: "(string \<times> pval list) list" where
  "params_rule_subsets =
     [(''n_rules'', [PInt 2048, PInt 28255]),
      (''rule_subset_ratio'', [PStr ''1.0'', PStr (equal_ratio 9 ''0.1''), PStr (equal_ratio 99 ''0.01''), PStr (equal_ratio 999 ''0.001'')]),
      (''target_tp'', map PInt (py_range 5 53 1)),
      (''pkt_size'', [PInt 1500, PInt 9000]),
      (''lcores'', [PStr ''0-7'']),
      (''hs_flags'', [PStr ''--hs_flag_allowempty'']),
      (''nb_rgx_desc'', [PInt 2048]),
      (''port_mp_size'', [PInt 32767]),
      (''port_rx_descriptors'', [PInt 16384]),
      (''port_tx_descriptors'', [PInt 16384]),
      (''jumbo_frames'', [PStr ''1'']),
      (''rgx_enabled'', [PStr ''1'']),
      (''hs_enabled'', [PStr ''0'']),
      (''port_forward_mode'', [PStr ''1'']),
      (''pktgen_latency_enabled'', [PStr ''1'']),
      (''rules_use_content_kw'', [PStr ''1'']),
      (''rules_use_pcre_kw'', [PStr ''1'']),
      (''rules_patlen_greaterthan'', [PStr ''5'']),
      (''pattern_db'', [PStr ''working_set.rules''])]"

definition big_exp :: "params_module res" where
  "big_exp = with_defaults params_big_exp no_default_flags (Some 2)"

definition prefix_mem :: "params_module res" where
  "prefix_mem = Inr \<lparr>g_test_parameters = params_prefix_mem,
     g_param_filters = [not_both, not_neither, some_keyword], g_nreps = Some 2\<rparr>"

text \<open>This file sets no number of repetitions.\<close>

definition min_pkt_size :: "params_module res" where
  "min_pkt_size = with_defaults params_min_pkt_size no_default_flags None"

definition latency :: "params_module res" where
  "latency = with_defaults params_latency only_default_flags (Some 2)"

definition heatmap_rulesetsz_pktsz :: "params_module res" where
  "heatmap_rulesetsz_pktsz = with_defaults params_heatmap_rulesetsz_pktsz only_default_flags (Some 1)"

definition hs_vs_rxp_cores :: "params_module res" where
  "hs_vs_rxp_cores = with_defaults params_hs_vs_rxp_cores only_default_flags (Some 1)"

definition rule_subsets :: "params_module res" where
  "rule_subsets = with_defaults params_rule_subsets only_default_flags (Some 1)"

definition modules :: "(string \<times> params_module res) list" where
  "modules =
     [(''params_big_exp'', big_exp), (''params_prefix_mem'', prefix_mem), (''params_min_pkt_size'', min_pkt_size),
      (''params_latency'', latency), (''params_heatmap_rulesetsz_pktsz'', heatmap_rulesetsz_pktsz),
      (''params_hs_vs_rxp_cores'', hs_vs_rxp_cores), (''params_rule_subsets'', rule_subsets)]"

section \<open>The launch\<close>

text \<open>The file name up to its first dot names the module; a fresh experiment has no saved state.\<close>

definition load_module :: "string \<Rightarrow> params_module res" where
  "load_module exp_params =
     (case map_of modules (hd (split_char (CHR ''.'') exp_params)) of
        None \<Rightarrow> Inl ModuleNotFoundError
      | Some m \<Rightarrow> m)"

definition launch ::
  "(string list \<Rightarrow> string list) \<Rightarrow> (string \<Rightarrow> int) \<Rightarrow> (pval list \<Rightarrow> int res) \<Rightarrow> string \<Rightarrow> pval runner res" where
  "launch so hs hv exp_params =
     res_bind (load_module exp_params) (\<lambda>m.
       case g_nreps m of
         None \<Rightarrow> Inl AttributeError
       | Some n \<Rightarrow> main_init so hs hv (g_test_parameters m) n (g_param_filters m) None None)"

section \<open>Shares of a rule set\<close>

text \<open>
  The generator of ratios in autotest/params_rule_subsets.py, whose use is commented out there.
  \<open>fl\<close> rounds the result of an operation to a float, \<open>rd\<close> is \<^verbatim>\<open>round(x, 3)\<close> and \<open>fmt d\<close> formats with
  \<open>d\<close> decimals.
\<close>

definition divide_space :: "(real \<Rightarrow> real) \<Rightarrow> (real \<Rightarrow> real) \<Rightarrow> real \<Rightarrow> nat \<Rightarrow> real \<Rightarrow> real list" where
  "divide_space fl rd first_group_percentage groups total_percentage =
     (let remaining_percentage = fl (total_percentage - first_group_percentage)
      in if groups = 1 \<or> remaining_percentage = 0 then [rd first_group_percentage]
         else (rd first_group_percentage #
           replicate (groups - 1) (rd (fl (remaining_percentage / real_of_int (int groups - 1))))))"

definition rstrip_char :: "char \<Rightarrow> string \<Rightarrow> string" where
  "rstrip_char c s = rev (dropWhile (\<lambda>x. x = c) (rev s))"

definition format_list :: "(nat \<Rightarrow> real \<Rightarrow> string) \<Rightarrow> real list \<Rightarrow> string" where
  "format_list fmt lst =
     (case lst of
        [x] \<Rightarrow> fmt 1 x
      | _ \<Rightarrow> join '':'' (map (\<lambda>x. rstrip_char (CHR ''.'') (rstrip_char (CHR ''0'') (fmt 3 x))) lst))"

definition format_lists :: "(nat \<Rightarrow> real \<Rightarrow> string) \<Rightarrow> real list list \<Rightarrow> string list" where
  "format_lists fmt lsts = map (format_list fmt) lsts"

text \<open>The step is an argument that the code does not use.\<close>

definition gen_params ::
  "(real \<Rightarrow> real) \<Rightarrow> (real \<Rightarrow> real) \<Rightarrow> (nat \<Rightarrow> real \<Rightarrow> string) \<Rightarrow> int \<Rightarrow> nat \<Rightarrow> string list" where
  "gen_params fl rd fmt group_percentage_step group_cnt =
     (let sizes = map (\<lambda>i. 2 ^ i) (takeWhile (\<lambda>i. 2 ^ i \<le> group_cnt) [1..<10000]);
         params = concat (map (\<lambda>groups. map (\<lambda>j.
           divide_space fl rd (if j = 0 then fl (1 / 1000) else fl (real_of_int j / 100)) groups 1) (py_range 0 101 10)) sizes)
      in format_lists fmt params)"

section \<open>Counting the configurations\<close>

text \<open>The number of elements of a product that a predicate on names and values keeps, where values of
  names it does not read only multiply the count.\<close>

fun count_kept ::
  "(string \<Rightarrow> bool) \<Rightarrow> ((string \<rightharpoonup> 'v) \<Rightarrow> bool) \<Rightarrow> (string \<rightharpoonup> 'v) \<Rightarrow> (string \<times> 'v list) list \<Rightarrow> nat" where
  "count_kept reads ok m [] = (if ok m then 1 else 0)"
| "count_kept reads ok m ((n, vs) # ps) =
     (if reads n then sum_list (map (\<lambda>v. count_kept reads ok (m(n \<mapsto> v)) ps) vs)
      else length vs * count_kept reads ok m ps)"

definition only_reads :: "(string \<Rightarrow> bool) \<Rightarrow> ((string \<rightharpoonup> 'v) \<Rightarrow> bool) \<Rightarrow> bool" where
  "only_reads reads ok \<longleftrightarrow> (\<forall>m m'. (\<forall>k. reads k \<longrightarrow> m k = m' k) \<longrightarrow> ok m = ok m')"

lemma count_kept_cong:
  assumes "only_reads reads ok" "\<forall>k. reads k \<longrightarrow> a k = b k"
  shows "count_kept reads ok a ps = count_kept reads ok b ps"
  using assms(2)
proof (induction ps arbitrary: a b)
  case Nil
  then have "ok a = ok b" using assms(1) by (simp add: only_reads_def)
  then show ?case by simp
next
  case (Cons q ps)
  obtain n vs where q: "q = (n, vs)" by (cases q)
  have "count_kept reads ok (a(n \<mapsto> v)) ps = count_kept reads ok (b(n \<mapsto> v)) ps" for v
    by (rule Cons.IH) (use Cons.prems in simp)
  moreover have "count_kept reads ok a ps = count_kept reads ok b ps" by (rule Cons.IH [OF Cons.prems])
  ultimately show ?case by (simp add: q)
qed

lemma filter_product:
  "length (filter P (product_lists (vs # vss))) = sum_list (map (\<lambda>v. length (filter (\<lambda>p. P (v # p)) (product_lists vss))) vs)"
  by (simp add: filter_concat length_concat comp_def filter_map)

lemma count_kept_product:
  assumes "only_reads reads ok" "distinct (map fst ps)"
  shows "length (filter (\<lambda>p. ok (m ++ map_of (zip (map fst ps) p))) (product_lists (map snd ps))) = count_kept reads ok m ps"
  using assms(2)
proof (induction ps arbitrary: m)
  case (Cons q ps)
  obtain n vs where q: "q = (n, vs)" by (cases q)
  have fresh: "n \<notin> set (map fst ps)" using Cons.prems by (simp add: q)
  have swap: "m ++ map_of (zip (n # map fst ps) (v # p)) = m(n \<mapsto> v) ++ map_of (zip (map fst ps) p)"
    for v and p :: "'a list"
  proof
    fix k
    have "map_of (zip (map fst ps) p) n = None"
      using fresh by (auto simp: map_of_eq_None_iff dest: set_zip_leftD)
    then show "(m ++ map_of (zip (n # map fst ps) (v # p))) k = (m(n \<mapsto> v) ++ map_of (zip (map fst ps) p)) k"
      by (simp add: map_add_def split: option.splits)
  qed
  have "length (filter (\<lambda>p. ok (m ++ map_of (zip (map fst (q # ps)) p))) (product_lists (map snd (q # ps)))) =
      sum_list (map (\<lambda>v. count_kept reads ok (m(n \<mapsto> v)) ps) vs)"
    using Cons by (simp only: q list.map fst_conv snd_conv filter_product swap) simp
  moreover have "count_kept reads ok (m(n \<mapsto> v)) ps = count_kept reads ok m ps" if "\<not> reads n" for v
    using that by (intro count_kept_cong [OF assms(1)]) simp
  ultimately show ?case by (simp add: q sum_list_triv) 
qed simp

section \<open>A fresh launch\<close>

lemma init_params:
  "\<not> started h \<Longrightarrow> res_fold (\<lambda>(name, vals). add_param name vals) ps h =
    Inr (h\<lparr>parameter_names := parameter_names h @ map fst ps, parameter_vals := parameter_vals h @ map snd ps\<rparr>)"
  by (induction ps arbitrary: h) (auto simp: add_param_def)

lemma add_filters:
  "\<not> started h \<Longrightarrow> res_fold add_param_filter fs h = Inr (h\<lparr>param_filters := param_filters h @ fs\<rparr>)"
  by (induction fs arbitrary: h) (auto simp: add_param_filter_def)

lemma fresh_sets:
  assumes "distinct (map fst ps)" "0 \<le> n"
    and "\<And>p. p \<in> set (product_lists (map snd ps)) \<Longrightarrow> keep_cfg fs (zip (map fst ps) p) = Inr (ok (map_of (zip (map fst ps) p)))"
  shows "\<exists>h0 h g. init_handler ps n = Inr h0 \<and> \<not> started h0 \<and> res_fold add_param_filter fs h0 = Inr h \<and> start h = Inr g \<and>
    params_sets g = concat (map (\<lambda>p. replicate (nat n) (Some (zip (map fst ps) p)))
      (filter (\<lambda>p. ok (map_of (zip (map fst ps) p))) (product_lists (map snd ps)))) \<and>
    get_total_configs g =
      n * int (length (filter (\<lambda>p. ok (map_of (zip (map fst ps) p))) (product_lists (map snd ps))))"
proof -
  let ?ok = "\<lambda>p. ok (map_of (zip (map fst ps) p))"
  let ?h0 = "(blank_handler n)\<lparr>parameter_names := map fst ps, parameter_vals := map snd ps\<rparr>"
  define h where "h = (blank_handler n)\<lparr>parameter_names := map fst ps, parameter_vals := map snd ps, param_filters := fs\<rparr>"
  have blank: "\<not> started (blank_handler n)" by (simp add: blank_handler_def)
  have h1: "init_handler ps n = Inr ?h0"
    using init_params [OF blank, of ps] by (simp add: init_handler_def) (simp add: blank_handler_def)
  have h2: "res_fold add_param_filter fs ?h0 = Inr h"
    by (subst add_filters) (simp_all add: h_def blank_handler_def)
  have cfg: "cfg_of h p = zip (map fst ps) p" for p
  proof -
    have "distinct (keys (zip (map fst ps) p))" using assms(1) by (simp add: map_fst_zip_take)
    then show ?thesis using dict_of_distinct by (simp add: cfg_of_def h_def)
  qed
  have len: "length p \<le> length (parameter_names h)" if "p \<in> set (product_lists (map snd ps))" for p
    using product_lists_length [OF that] by (simp add: h_def)
  have keep: "keep_cfg (param_filters h) (cfg_of h p) = Inr (?ok p)" if "p \<in> set (product_lists (map snd ps))" for p
    using assms(3) [OF that] unfolding cfg by (simp add: h_def)
  from build_fold_sets [of "product_lists (map snd ps)" h ?ok, OF len keep]
  obtain g where g: "res_fold build_one (product_lists (map snd ps)) h = Inr g"
    "params_sets g = concat (map (\<lambda>p. replicate (nat n) (Some (zip (map fst ps) p))) (filter ?ok (product_lists (map snd ps))))"
    by (auto simp: cfg) (simp add: h_def blank_handler_def)
  have "length (params_sets g) = nat n * length (filter ?ok (product_lists (map snd ps)))"
    unfolding g(2) by (simp add: length_concat comp_def sum_list_triv)
  moreover have "parameter_vals h = map snd ps" "\<not> started h" "\<not> started ?h0" by (simp_all add: h_def blank_handler_def)
  ultimately show ?thesis
    using g assms(2) h1 h2 by (simp add: start_def build_configs_def get_total_configs_def Let_def)
qed

lemma launch_sets:
  assumes "distinct (map fst ps)" "0 \<le> n"
    and "\<And>p. p \<in> set (product_lists (map snd ps)) \<Longrightarrow> keep_cfg fs (zip (map fst ps) p) = Inr (ok (map_of (zip (map fst ps) p)))"
  shows "\<exists>r. main_init so hs hv ps n fs None None = Inr r \<and>
    params_sets (exparams r) = concat (map (\<lambda>p. replicate (nat n) (Some (zip (map fst ps) p)))
      (filter (\<lambda>p. ok (map_of (zip (map fst ps) p))) (product_lists (map snd ps)))) \<and>
    get_total_configs (exparams r) =
      n * int (length (filter (\<lambda>p. ok (map_of (zip (map fst ps) p))) (product_lists (map snd ps))))"
  using fresh_sets [OF assms] by (fastforce simp: main_init_def)

section \<open>What the filters keep\<close>

definition engine_ok :: "(string \<rightharpoonup> pval) \<Rightarrow> bool" where
  "engine_ok m \<longleftrightarrow>
     \<not> (m ''rgx_enabled'' = Some (PStr ''1'') \<and> m ''hs_enabled'' = Some (PStr ''1'')) \<and>
     \<not> (m ''rgx_enabled'' = Some (PStr ''0'') \<and> m ''hs_enabled'' = Some (PStr ''0'')) \<and>
     \<not> (m ''rules_use_content_kw'' = Some (PStr ''0'') \<and> m ''rules_use_pcre_kw'' = Some (PStr ''0''))"

definition flags_ok :: "bool \<Rightarrow> pval \<Rightarrow> (string \<rightharpoonup> pval) \<Rightarrow> bool" where
  "flags_ok wanted d m \<longleftrightarrow> m ''rgx_enabled'' = Some (PStr ''1'') \<longrightarrow> (m ''hs_flags'' = Some d) = wanted"

definition read_names :: "string list" where
  "read_names = [''rgx_enabled'', ''hs_enabled'', ''hs_flags'', ''rules_use_content_kw'', ''rules_use_pcre_kw'']"

definition is_read :: "string \<Rightarrow> bool" where
  "is_read k \<longleftrightarrow> k \<in> set read_names"

lemma only_reads_filters:
  "only_reads is_read engine_ok" "only_reads is_read (\<lambda>m. engine_ok m \<and> flags_ok wanted d m)"
  unfolding only_reads_def is_read_def read_names_def engine_ok_def flags_ok_def by simp_all

lemma keep_filters:
  assumes "\<forall>k \<in> set read_names. map_of cfg k \<noteq> None"
  shows "keep_cfg [not_both, not_neither, some_keyword] cfg = Inr (engine_ok (map_of cfg))"
    "keep_cfg [not_both, not_neither, only_default_flags d, some_keyword] cfg =
      Inr (engine_ok (map_of cfg) \<and> flags_ok True d (map_of cfg))"
    "keep_cfg [not_both, not_neither, no_default_flags d, some_keyword] cfg =
      Inr (engine_ok (map_of cfg) \<and> flags_ok False d (map_of cfg))"
proof -
  obtain r h f c q where v: "map_of cfg ''rgx_enabled'' = Some r" "map_of cfg ''hs_enabled'' = Some h"
    "map_of cfg ''hs_flags'' = Some f" "map_of cfg ''rules_use_content_kw'' = Some c" "map_of cfg ''rules_use_pcre_kw'' = Some q"
    using assms by (auto simp: read_names_def)
  have f: "not_both cfg = Inr (\<not> (r = PStr ''1'' \<and> h = PStr ''1''))" "not_neither cfg = Inr (\<not> (r = PStr ''0'' \<and> h = PStr ''0''))"
    "some_keyword cfg = Inr (\<not> (c = PStr ''0'' \<and> q = PStr ''0''))"
    "only_default_flags d cfg = Inr (r = PStr ''1'' \<longrightarrow> f = d)" "no_default_flags d cfg = Inr (r = PStr ''1'' \<longrightarrow> f \<noteq> d)"
    by (simp_all add: not_both_def not_neither_def some_keyword_def only_default_flags_def no_default_flags_def not_with_def
        is_val_def dict_get_def v)
  have e: "engine_ok (map_of cfg) = (\<not> (r = PStr ''1'' \<and> h = PStr ''1'') \<and> \<not> (r = PStr ''0'' \<and> h = PStr ''0'') \<and>
      \<not> (c = PStr ''0'' \<and> q = PStr ''0''))" "flags_ok w d (map_of cfg) = (r = PStr ''1'' \<longrightarrow> (f = d) = w)" for w
    by (simp_all add: engine_ok_def flags_ok_def v)
  show "keep_cfg [not_both, not_neither, some_keyword] cfg = Inr (engine_ok (map_of cfg))"
    "keep_cfg [not_both, not_neither, only_default_flags d, some_keyword] cfg =
      Inr (engine_ok (map_of cfg) \<and> flags_ok True d (map_of cfg))"
    "keep_cfg [not_both, not_neither, no_default_flags d, some_keyword] cfg =
      Inr (engine_ok (map_of cfg) \<and> flags_ok False d (map_of cfg))"
    unfolding keep_cfg.simps f e res_bind_simps sum.inject by argo+
qed

lemma product_value:
  assumes "p \<in> set (product_lists (map snd ps))" "distinct (map fst ps)" "(k, vs) \<in> set ps"
  shows "\<exists>v \<in> set vs. map_of (zip (map fst ps) p) k = Some v"
  using assms
proof (induction ps arbitrary: p)
  case (Cons q ps)
  then obtain v p' where p: "p = v # p'" "v \<in> set (snd q)" "p' \<in> set (product_lists (map snd ps))" by auto
  show ?case
  proof (cases "k = fst q")
    case True
    moreover have "(k, vs) \<in> set ps \<Longrightarrow> k \<in> fst ` set ps" by force
    ultimately have "vs = snd q" using Cons.prems(2,3) by (cases q) auto
    then show ?thesis using p True by simp
  next
    case False
    then have "(k, vs) \<in> set ps" using Cons.prems(3) by (cases q) auto
    then show ?thesis using Cons.IH [OF p(3)] Cons.prems(2) False by (simp add: p(1))
  qed
qed simp

text \<open>Exactly one of the two engines is on, and rules give patterns.\<close>

definition one_engine :: "(string \<rightharpoonup> pval) \<Rightarrow> bool" where
  "one_engine m \<longleftrightarrow>
     (m ''rgx_enabled'' = Some (PStr ''1'') \<and> m ''hs_enabled'' = Some (PStr ''0'') \<or>
      m ''rgx_enabled'' = Some (PStr ''0'') \<and> m ''hs_enabled'' = Some (PStr ''1'')) \<and>
     (m ''rules_use_content_kw'' = Some (PStr ''1'') \<or> m ''rules_use_pcre_kw'' = Some (PStr ''1''))"

definition switches :: "(string \<times> pval list) list \<Rightarrow> bool" where
  "switches ps \<longleftrightarrow> distinct (map fst ps) \<and> set read_names \<subseteq> set (map fst ps) \<and>
     (\<forall>(k, vs) \<in> set ps. k \<in> set read_names \<longrightarrow> k \<noteq> ''hs_flags'' \<longrightarrow> set vs \<subseteq> {PStr ''0'', PStr ''1''})"

lemma one_engine_from:
  assumes "m ''rgx_enabled'' \<in> {Some (PStr ''0''), Some (PStr ''1'')}" "m ''hs_enabled'' \<in> {Some (PStr ''0''), Some (PStr ''1'')}"
    "m ''rules_use_content_kw'' \<in> {Some (PStr ''0''), Some (PStr ''1'')}" "m ''rules_use_pcre_kw'' \<in> {Some (PStr ''0''), Some (PStr ''1'')}"
    "engine_ok m"
  shows "one_engine m"
  using assms unfolding engine_ok_def one_engine_def by (elim insertE emptyE) simp_all

lemma one_engine_kept:
  assumes "switches ps" "p \<in> set (product_lists (map snd ps))" "engine_ok (map_of (zip (map fst ps) p))"
  shows "one_engine (map_of (zip (map fst ps) p))"
proof -
  have sw: "distinct (map fst ps)" "set read_names \<subseteq> fst ` set ps"
    "\<And>k vs. (k, vs) \<in> set ps \<Longrightarrow> k \<in> set read_names \<Longrightarrow> k \<noteq> ''hs_flags'' \<Longrightarrow> set vs \<subseteq> {PStr ''0'', PStr ''1''}"
    using assms(1) unfolding switches_def set_map by blast+
  have val: "map_of (zip (map fst ps) p) k \<in> {Some (PStr ''0''), Some (PStr ''1'')}"
    if k: "k \<in> set read_names" "k \<noteq> ''hs_flags''" for k
  proof -
    obtain vs where vs: "(k, vs) \<in> set ps" using k(1) sw(2) by auto
    obtain v where v: "v \<in> set vs" "map_of (zip (map fst ps) p) k = Some v" using product_value [OF assms(2) sw(1) vs] by blast
    show ?thesis using sw(3) [OF vs k] v by blast
  qed
  have names: "''rgx_enabled'' \<in> set read_names" "''hs_enabled'' \<in> set read_names"
    "''rules_use_content_kw'' \<in> set read_names" "''rules_use_pcre_kw'' \<in> set read_names"
    by (simp_all add: read_names_def)
  show ?thesis
    by (rule one_engine_from [OF val [OF names(1)] val [OF names(2)] val [OF names(3)] val [OF names(4)] assms(3)]) simp_all
qed

section \<open>The seven experiments\<close>

text \<open>A configuration gives every parameter, in the order of the file, one of its values.\<close>

definition assigns :: "(string \<times> pval list) list \<Rightarrow> pval pset \<Rightarrow> bool" where
  "assigns ps cfg \<longleftrightarrow> list_all2 (\<lambda>(n, v) (m, vs). n = m \<and> v \<in> set vs) cfg ps"

lemma product_assigns: "p \<in> set (product_lists (map snd ps)) \<Longrightarrow> assigns ps (zip (map fst ps) p)"
  unfolding assigns_def by (induction ps arbitrary: p) auto

definition sound_launch ::
  "(string list \<Rightarrow> string list) \<Rightarrow> (string \<Rightarrow> int) \<Rightarrow> (pval list \<Rightarrow> int res) \<Rightarrow> string
     \<Rightarrow> (string \<times> pval list) list \<Rightarrow> int \<Rightarrow> bool" where
  "sound_launch so hs hv file ps k \<longleftrightarrow>
     (\<exists>r. launch so hs hv file = Inr r \<and> get_total_configs (exparams r) = k \<and>
        int (length (params_sets (exparams r))) = k \<and>
        (\<forall>x \<in> set (params_sets (exparams r)).
           \<exists>cfg. x = Some cfg \<and> assigns ps cfg \<and> one_engine (map_of cfg)))"

lemma launch_sound:
  assumes "load_module file = Inr \<lparr>g_test_parameters = ps, g_param_filters = fs, g_nreps = Some n\<rparr>"
    and "switches ps" "0 \<le> n" "only_reads is_read ok" "\<And>m. ok m \<Longrightarrow> engine_ok m"
    and "\<And>cfg. \<forall>k \<in> set read_names. map_of cfg k \<noteq> None \<Longrightarrow> keep_cfg fs cfg = Inr (ok (map_of cfg))"
    and "count_kept is_read ok Map.empty ps = c" "k = n * int c"
  shows "sound_launch so hs hv file ps k"
proof -
  have sw: "distinct (map fst ps)" "set read_names \<subseteq> fst ` set ps" using assms(2) unfolding switches_def set_map by blast+
  have keep: "keep_cfg fs (zip (map fst ps) p) = Inr (ok (map_of (zip (map fst ps) p)))"
    if p: "p \<in> set (product_lists (map snd ps))" for p
  proof (rule assms(6), rule ballI)
    fix k assume "k \<in> set read_names"
    then obtain vs where "(k, vs) \<in> set ps" using sw(2) by auto
    then show "map_of (zip (map fst ps) p) k \<noteq> None" using product_value [OF p sw(1)] by fastforce
  qed
  obtain r where r: "main_init so hs hv ps n fs None None = Inr r"
    "params_sets (exparams r) = concat (map (\<lambda>p. replicate (nat n) (Some (zip (map fst ps) p)))
      (filter (\<lambda>p. ok (map_of (zip (map fst ps) p))) (product_lists (map snd ps))))"
    "get_total_configs (exparams r) =
      n * int (length (filter (\<lambda>p. ok (map_of (zip (map fst ps) p))) (product_lists (map snd ps))))"
    using launch_sets [OF sw(1) assms(3) keep, of so hs hv] by auto
  have "get_total_configs (exparams r) = k"
    unfolding r(3) assms(8) assms(7) [symmetric] count_kept_product [OF assms(4) sw(1), symmetric] by simp
  moreover have "int (length (params_sets (exparams r))) = k"
    using calculation assms(3) unfolding r(2,3) by (simp add: length_concat comp_def sum_list_triv mult.commute)
  moreover have "\<forall>x \<in> set (params_sets (exparams r)). \<exists>cfg. x = Some cfg \<and> assigns ps cfg \<and> one_engine (map_of cfg)"
    unfolding r(2) using one_engine_kept [OF assms(2)] product_assigns assms(5) by auto
  moreover have "launch so hs hv file = Inr r" by (simp add: launch_def assms(1) r(1))
  ultimately show ?thesis unfolding sound_launch_def by blast
qed

lemmas filter_lemmas = only_reads_filters keep_filters

lemma range_length: "length (py_range_from n a s) = n"
  by (induction n arbitrary: a) auto

lemma load_file:
  assumes "split_char (CHR ''.'') file = [name, ''py'']" "map_of modules name = Some m"
  shows "load_module file = m"
  using assms by (simp add: load_module_def)

lemma with_defaults_flags:
  assumes "default_val ps ''hs_flags'' = Inr d" "\<exists>x. default_val ps ''nb_rgx_desc'' = Inr x"
  shows "with_defaults ps flags n =
    Inr \<lparr>g_test_parameters = ps, g_param_filters = [not_both, not_neither, flags d, some_keyword], g_nreps = n\<rparr>"
  using assms by (auto simp: with_defaults_def)

lemma launch_big_exp: "sound_launch so hs hv ''params_big_exp.py'' params_big_exp 1680"
proof (rule launch_sound)
  have d: "default_val params_big_exp ''hs_flags'' = Inr (PStr ''--hs_flag_allowempty'')" "\<exists>x. default_val params_big_exp ''nb_rgx_desc'' = Inr x"
    by (code_simp, simp add: default_val_def params_big_exp_def)
  have "load_module ''params_big_exp.py'' = big_exp"
    by (rule load_file [of _ "''params_big_exp''"]) (code_simp, simp add: modules_def)
  then show "load_module ''params_big_exp.py'' = Inr \<lparr>g_test_parameters = params_big_exp,
      g_param_filters = [not_both, not_neither, no_default_flags (PStr ''--hs_flag_allowempty''), some_keyword], g_nreps = Some 2\<rparr>"
    unfolding big_exp_def with_defaults_flags [OF d] .
  show "switches params_big_exp" by code_simp
  show "only_reads is_read (\<lambda>m. engine_ok m \<and> flags_ok False (PStr ''--hs_flag_allowempty'') m)" by (rule filter_lemmas)
  show "count_kept is_read (\<lambda>m. engine_ok m \<and> flags_ok False (PStr ''--hs_flag_allowempty'') m) Map.empty params_big_exp = 840"
    by code_simp
qed ((rule keep_filters, assumption) | simp)+

lemma launch_latency: "sound_launch so hs hv ''params_latency.py'' params_latency 96"
proof (rule launch_sound)
  have d: "default_val params_latency ''hs_flags'' = Inr (PStr ''--hs_flag_allowempty'')" "\<exists>x. default_val params_latency ''nb_rgx_desc'' = Inr x"
    by (code_simp, simp add: default_val_def params_latency_def)
  have "load_module ''params_latency.py'' = latency"
    by (rule load_file [of _ "''params_latency''"]) (code_simp, simp add: modules_def)
  then show "load_module ''params_latency.py'' = Inr \<lparr>g_test_parameters = params_latency,
      g_param_filters = [not_both, not_neither, only_default_flags (PStr ''--hs_flag_allowempty''), some_keyword], g_nreps = Some 2\<rparr>"
    unfolding latency_def with_defaults_flags [OF d] .
  show "switches params_latency" by code_simp
  show "only_reads is_read (\<lambda>m. engine_ok m \<and> flags_ok True (PStr ''--hs_flag_allowempty'') m)" by (rule filter_lemmas)
  show "count_kept is_read (\<lambda>m. engine_ok m \<and> flags_ok True (PStr ''--hs_flag_allowempty'') m) Map.empty params_latency = 48"
    by code_simp
qed ((rule keep_filters, assumption) | simp)+

lemma launch_heatmap_rulesetsz_pktsz: "sound_launch so hs hv ''params_heatmap_rulesetsz_pktsz.py'' params_heatmap_rulesetsz_pktsz 810"
proof (rule launch_sound)
  have d: "default_val params_heatmap_rulesetsz_pktsz ''hs_flags'' = Inr (PStr ''--hs_flag_allowempty'')" "\<exists>x. default_val params_heatmap_rulesetsz_pktsz ''nb_rgx_desc'' = Inr x"
    by (code_simp, simp add: default_val_def params_heatmap_rulesetsz_pktsz_def)
  have "load_module ''params_heatmap_rulesetsz_pktsz.py'' = heatmap_rulesetsz_pktsz"
    by (rule load_file [of _ "''params_heatmap_rulesetsz_pktsz''"]) (code_simp, simp add: modules_def)
  then show "load_module ''params_heatmap_rulesetsz_pktsz.py'' = Inr \<lparr>g_test_parameters = params_heatmap_rulesetsz_pktsz,
      g_param_filters = [not_both, not_neither, only_default_flags (PStr ''--hs_flag_allowempty''), some_keyword], g_nreps = Some 1\<rparr>"
    unfolding heatmap_rulesetsz_pktsz_def with_defaults_flags [OF d] .
  show "switches params_heatmap_rulesetsz_pktsz" by code_simp
  show "only_reads is_read (\<lambda>m. engine_ok m \<and> flags_ok True (PStr ''--hs_flag_allowempty'') m)" by (rule filter_lemmas)
  show "count_kept is_read (\<lambda>m. engine_ok m \<and> flags_ok True (PStr ''--hs_flag_allowempty'') m) Map.empty params_heatmap_rulesetsz_pktsz = 810"
    by code_simp
qed ((rule keep_filters, assumption) | simp)+

lemma launch_hs_vs_rxp_cores: "sound_launch so hs hv ''params_hs_vs_rxp_cores.py'' params_hs_vs_rxp_cores 1680"
proof (rule launch_sound)
  have d: "default_val params_hs_vs_rxp_cores ''hs_flags'' = Inr (PStr ''--hs_flag_allowempty'')" "\<exists>x. default_val params_hs_vs_rxp_cores ''nb_rgx_desc'' = Inr x"
    by (code_simp, simp add: default_val_def params_hs_vs_rxp_cores_def)
  have "load_module ''params_hs_vs_rxp_cores.py'' = hs_vs_rxp_cores"
    by (rule load_file [of _ "''params_hs_vs_rxp_cores''"]) (code_simp, simp add: modules_def)
  then show "load_module ''params_hs_vs_rxp_cores.py'' = Inr \<lparr>g_test_parameters = params_hs_vs_rxp_cores,
      g_param_filters = [not_both, not_neither, only_default_flags (PStr ''--hs_flag_allowempty''), some_keyword], g_nreps = Some 1\<rparr>"
    unfolding hs_vs_rxp_cores_def with_defaults_flags [OF d] .
  show "switches params_hs_vs_rxp_cores" by code_simp
  show "only_reads is_read (\<lambda>m. engine_ok m \<and> flags_ok True (PStr ''--hs_flag_allowempty'') m)" by (rule filter_lemmas)
  show "count_kept is_read (\<lambda>m. engine_ok m \<and> flags_ok True (PStr ''--hs_flag_allowempty'') m) Map.empty params_hs_vs_rxp_cores = 1680"
    by code_simp
qed ((rule keep_filters, assumption) | simp)+

lemma launch_rule_subsets: "sound_launch so hs hv ''params_rule_subsets.py'' params_rule_subsets 768"
proof (rule launch_sound)
  have d: "default_val params_rule_subsets ''hs_flags'' = Inr (PStr ''--hs_flag_allowempty'')" "\<exists>x. default_val params_rule_subsets ''nb_rgx_desc'' = Inr x"
    by (simp_all add: default_val_def params_rule_subsets_def)
  have "load_module ''params_rule_subsets.py'' = rule_subsets"
    by (rule load_file [of _ "''params_rule_subsets''"]) (code_simp, simp add: modules_def)
  then show "load_module ''params_rule_subsets.py'' = Inr \<lparr>g_test_parameters = params_rule_subsets,
      g_param_filters = [not_both, not_neither, only_default_flags (PStr ''--hs_flag_allowempty''), some_keyword], g_nreps = Some 1\<rparr>"
    unfolding rule_subsets_def with_defaults_flags [OF d] .
  show "switches params_rule_subsets" by (simp add: switches_def read_names_def params_rule_subsets_def)
  show "only_reads is_read (\<lambda>m. engine_ok m \<and> flags_ok True (PStr ''--hs_flag_allowempty'') m)" by (rule filter_lemmas)
  show "count_kept is_read (\<lambda>m. engine_ok m \<and> flags_ok True (PStr ''--hs_flag_allowempty'') m) Map.empty params_rule_subsets = 768"
    by (simp add: is_read_def read_names_def params_rule_subsets_def py_range_def range_length engine_ok_def flags_ok_def)
qed ((rule keep_filters, assumption) | simp)+

lemma launch_prefix_mem: "sound_launch so hs hv ''params_prefix_mem.py'' params_prefix_mem 120"
proof (rule launch_sound)
  have "load_module ''params_prefix_mem.py'' = prefix_mem"
    by (rule load_file [of _ "''params_prefix_mem''"]) (code_simp, simp add: modules_def)
  then show "load_module ''params_prefix_mem.py'' = Inr \<lparr>g_test_parameters = params_prefix_mem,
      g_param_filters = [not_both, not_neither, some_keyword], g_nreps = Some 2\<rparr>"
    unfolding prefix_mem_def .
  show "switches params_prefix_mem" by code_simp
  show "only_reads is_read engine_ok" by (rule filter_lemmas)
  show "count_kept is_read engine_ok Map.empty params_prefix_mem = 60" by code_simp
qed ((rule keep_filters, assumption) | simp)+

lemma launch_min_pkt_size: "launch so hs hv ''params_min_pkt_size.py'' = Inl AttributeError"
proof -
  have d: "default_val params_min_pkt_size ''hs_flags'' = Inr (PStr ''--hs_flag_allowempty'')"
    "\<exists>x. default_val params_min_pkt_size ''nb_rgx_desc'' = Inr x"
    by (code_simp, simp add: default_val_def params_min_pkt_size_def)
  have "load_module ''params_min_pkt_size.py'' = min_pkt_size"
    by (rule load_file [of _ "''params_min_pkt_size''"]) (code_simp, simp add: modules_def)
  then show ?thesis unfolding launch_def min_pkt_size_def with_defaults_flags [OF d] by simp
qed

text \<open>C28: the experiments.  Launched afresh, six of the seven parameter files start with exactly the
  stated number of configurations, repetitions included, in each of which every parameter has one of the
  values of the file, exactly one of the two engines is on and rules give patterns; the seventh file cannot be launched, because it sets no
  number of repetitions.\<close>

theorem experiments_launch:
  "list_all (\<lambda>(file, ps, k). sound_launch so hs hv file ps k)
     [(''params_big_exp.py'', params_big_exp, 1680), (''params_prefix_mem.py'', params_prefix_mem, 120),
      (''params_latency.py'', params_latency, 96),
      (''params_heatmap_rulesetsz_pktsz.py'', params_heatmap_rulesetsz_pktsz, 810),
      (''params_hs_vs_rxp_cores.py'', params_hs_vs_rxp_cores, 1680),
      (''params_rule_subsets.py'', params_rule_subsets, 768)] \<and>
   launch so hs hv ''params_min_pkt_size.py'' = Inl AttributeError"
  by (simp add: launch_big_exp launch_prefix_mem launch_latency launch_heatmap_rulesetsz_pktsz launch_hs_vs_rxp_cores
      launch_rule_subsets launch_min_pkt_size del: One_nat_def)

end
