(* ===== verification/Log_Stats.thy ===== *)
theory Log_Stats
  imports Rule_Groups
begin

text \<open>
  The evaluation of the log directory of a Suricata run, trace-analysis/parselogs.py: the packets
  and bytes per protocol and direction, the checks per signature group, and the use of the
  prefilters.

  A file is the list of its lines with their line ends, or \<^term>\<open>None\<close> when it does not exist; the
  parser of the package \<^verbatim>\<open>json\<close> is a function from texts that fails on what is not JSON.  The
  formatting of a percentage and of JSON values that are neither strings, integers, Booleans nor
  null are arguments, and a table handed to the package \<^verbatim>\<open>tabulate\<close> is a value: its number,
  headers and rows.
\<close>

section \<open>Traffic\<close>

definition jitem :: "json \<Rightarrow> string \<Rightarrow> json res" where
  "jitem j k =
     (case j of
        JObj kvs \<Rightarrow> (case map_of kvs k of None \<Rightarrow> Inl KeyError | Some v \<Rightarrow> Inr v)
      | _ \<Rightarrow> Inl TypeError)"

definition json_lower :: "json \<Rightarrow> string res" where
  "json_lower j = (case j of JStr s \<Rightarrow> Inr (py_lower s) | _ \<Rightarrow> Inl AttributeError)"

text \<open>\<^verbatim>\<open>c[key] += flow.get(field, 0)\<close> in a counter.\<close>

definition add_field :: "json \<Rightarrow> string \<Rightarrow> string \<Rightarrow> json dict \<Rightarrow> json dict res" where
  "add_field flow field key c = res_bind (jget flow field (JInt 0)) (\<lambda>v. sum_up key v c)"

definition add_flow :: "string \<Rightarrow> json \<Rightarrow> json dict \<times> json dict \<Rightarrow> (json dict \<times> json dict) res" where
  "add_flow proto flow = (\<lambda>(pkts, bytes).
     res_bind (add_field flow ''pkts_toserver'' (proto @ ''.toserver'') pkts) (\<lambda>pkts.
     res_bind (add_field flow ''pkts_toclient'' (proto @ ''.toclient'') pkts) (\<lambda>pkts.
     res_bind (add_field flow ''bytes_toserver'' (proto @ ''.toserver'') bytes) (\<lambda>bytes.
     res_bind (add_field flow ''bytes_toclient'' (proto @ ''.toclient'') bytes) (\<lambda>bytes.
       Inr (pkts, bytes))))))"

definition eve_line ::
    "(string \<Rightarrow> json option) \<Rightarrow> string \<Rightarrow> json dict \<times> json dict \<Rightarrow> (json dict \<times> json dict) res" where
  "eve_line loads line c =
     (case loads line of
        None \<Rightarrow> Inl ValueError
      | Some j \<Rightarrow>
          res_bind (jget j ''event_type'' JNull) (\<lambda>t.
          if t = JStr ''flow'' then
            res_bind (jitem j ''proto'') (\<lambda>p.
            res_bind (json_lower p) (\<lambda>proto.
            res_bind (jitem j ''flow'') (\<lambda>flow. add_flow proto flow c)))
          else Inr c))"

definition parse_eve ::
    "(string \<Rightarrow> json option) \<Rightarrow> files \<Rightarrow> string \<Rightarrow> (json dict \<times> json dict) res" where
  "parse_eve loads fs eve_path =
     (case fs eve_path of
        None \<Rightarrow> Inl FileNotFoundError
      | Some lines \<Rightarrow> res_fold (eve_line loads) lines ([], []))"

section \<open>Signature groups\<close>

text \<open>\<^verbatim>\<open>f"{v}"\<close>\<close>

definition fmt_json :: "(json \<Rightarrow> string) \<Rightarrow> json \<Rightarrow> string" where
  "fmt_json other j =
     (case j of
        JStr s \<Rightarrow> s
      | JInt i \<Rightarrow> int_str i
      | JNull \<Rightarrow> ''None''
      | JBool b \<Rightarrow> (if b then ''True'' else ''False'')
      | _ \<Rightarrow> other j)"

definition falsy :: "json \<Rightarrow> bool" where
  "falsy j \<longleftrightarrow> j \<in> {JNull, JBool False, JInt 0, JFloat 0, JStr [], JList [], JObj []}"

type_synonym group_paths = "(json \<times> string) list"

definition note_group :: "(string \<times> json) list \<Rightarrow> string list \<Rightarrow> group_paths \<Rightarrow> group_paths res" where
  "note_group kvs path m =
     (case map_of kvs ''rulegroup'' of
        None \<Rightarrow> Inr m
      | Some g \<Rightarrow>
          res_bind (jin ''id'' g) (\<lambda>b.
          if b then
            res_bind (jitem g ''id'') (\<lambda>i.
            res_bind (jkey i) (\<lambda>k. Inr (AList.update k (join ''.'' path) m)))
          else Inr m))"

text \<open>The path of an item of a list below the member \<^verbatim>\<open>k\<close>.\<close>

definition item_path :: "(json \<Rightarrow> string) \<Rightarrow> string \<Rightarrow> (string \<times> json) list \<Rightarrow> string list" where
  "item_path other k kvs =
     (case (map_of kvs ''port'', map_of kvs ''port2'') of
        (Some p, Some q) \<Rightarrow> [k, fmt_json other p @ ''-'' @ fmt_json other q]
      | _ \<Rightarrow> [k])"

function rg_recurse :: "(json \<Rightarrow> string) \<Rightarrow> json \<Rightarrow> string list \<Rightarrow> group_paths \<Rightarrow> group_paths res"
  and rg_members :: "(json \<Rightarrow> string) \<Rightarrow> (string \<times> json) list \<Rightarrow> string list \<Rightarrow> group_paths \<Rightarrow> group_paths res"
  and rg_items :: "(json \<Rightarrow> string) \<Rightarrow> string \<Rightarrow> json list \<Rightarrow> string list \<Rightarrow> group_paths \<Rightarrow> group_paths res" where
  "rg_recurse other d path m =
     (case d of
        JObj kvs \<Rightarrow> res_bind (note_group kvs path m) (rg_members other kvs path)
      | _ \<Rightarrow> Inr m)"
| "rg_members other [] path m = Inr m"
| "rg_members other ((k, v) # kvs) path m =
     res_bind (case v of
         JObj _ \<Rightarrow> rg_recurse other v (path @ [k]) m
       | JList xs \<Rightarrow> rg_items other k xs path m
       | _ \<Rightarrow> Inr m)
     (rg_members other kvs path)"
| "rg_items other k [] path m = Inr m"
| "rg_items other k (x # xs) path m =
     res_bind (case x of
         JObj kvs \<Rightarrow> rg_recurse other x (path @ item_path other k kvs) m
       | _ \<Rightarrow> Inr m)
     (rg_items other k xs path)"
  by pat_completeness auto
termination
  by (relation "measure (\<lambda>x. case x of
        Inl (other, j, p, m) \<Rightarrow> size j
      | Inr (Inl (other, kvs, p, m)) \<Rightarrow> size_list (size_prod (\<lambda>_. 0) size) kvs
      | Inr (Inr (other, k, xs, p, m)) \<Rightarrow> size_list size xs)") auto

declare rg_recurse.simps [simp del]

definition load_rule_groups ::
    "(string \<Rightarrow> json option) \<Rightarrow> (json \<Rightarrow> string) \<Rightarrow> files \<Rightarrow> string \<Rightarrow> group_paths res" where
  "load_rule_groups loads other fs rg_json_path =
     (case fs rg_json_path of
        None \<Rightarrow> Inr []
      | Some lines \<Rightarrow>
          (case loads (concat lines) of
             None \<Rightarrow> Inr []
           | Some rg \<Rightarrow> if falsy rg then Inr [] else rg_recurse other rg [] []))"

section \<open>Performance logs\<close>

definition perf_header :: "string \<Rightarrow> string \<Rightarrow> bool" where
  "perf_header word line \<longleftrightarrow>
     line = [] \<or> startswith ''-'' line \<or> contains word line \<or> contains ''Stats for:'' line \<or>
     contains ''Date:'' line"

text \<open>\<^verbatim>\<open>checks[sgid] += check_count\<close>\<close>

definition add_checks :: "int \<Rightarrow> int \<Rightarrow> (int \<times> int) list \<Rightarrow> (int \<times> int) list" where
  "add_checks sgid n c = AList.update sgid ((case map_of c sgid of None \<Rightarrow> 0 | Some m \<Rightarrow> m) + n) c"

definition rule_group_perf_line :: "string \<Rightarrow> (int \<times> int) list \<Rightarrow> (int \<times> int) list" where
  "rule_group_perf_line line0 checks =
     (let line = strip line0; parts = split_ws line
      in if perf_header ''Sgh'' line \<or> length parts < 2 then checks
         else case py_int (parts ! 0) of
                Inl _ \<Rightarrow> checks
              | Inr sgid \<Rightarrow> (case py_int (parts ! 1) of Inl _ \<Rightarrow> checks | Inr n \<Rightarrow> add_checks sgid n checks))"

definition parse_rule_group_perf :: "files \<Rightarrow> string \<Rightarrow> (int \<times> int) list" where
  "parse_rule_group_perf fs rgp_path =
     (case fs rgp_path of None \<Rightarrow> [] | Some lines \<Rightarrow> fold rule_group_perf_line lines [])"

record prefilter_use =
  pf_uses :: int
  pf_bytes :: int

definition prefilter_perf_line :: "string \<Rightarrow> prefilter_use dict \<Rightarrow> prefilter_use dict" where
  "prefilter_perf_line line0 data =
     (let line = strip line0; parts = split_ws line
      in if perf_header ''Prefilter'' line \<or> length parts < 7 then data
         else case py_int (parts ! 2) of
                Inl _ \<Rightarrow> data
              | Inr calls \<Rightarrow>
                  (case py_int (parts ! 5) of
                     Inl _ \<Rightarrow> data
                   | Inr bytes_val \<Rightarrow>
                       dict_set (parts ! 0) \<lparr>pf_uses = calls, pf_bytes = bytes_val\<rparr> data))"

definition parse_prefilter_perf :: "files \<Rightarrow> string \<Rightarrow> prefilter_use dict" where
  "parse_prefilter_perf fs pf_path =
     (case fs pf_path of None \<Rightarrow> [] | Some lines \<Rightarrow> fold prefilter_perf_line lines [])"

section \<open>The report\<close>

definition count_of :: "json dict \<Rightarrow> string \<Rightarrow> json" where
  "count_of c d = (case map_of c d of None \<Rightarrow> JInt 0 | Some v \<Rightarrow> v)"

definition traffic_rows :: "json dict \<Rightarrow> json dict \<Rightarrow> json list list" where
  "traffic_rows pkts bytes =
     map (\<lambda>d. [JStr d, count_of pkts d, count_of bytes d])
       (sorted_list_of_set (set (keys pkts) \<union> set (keys bytes)))"

definition sgh_rows :: "group_paths \<Rightarrow> (int \<times> int) list \<Rightarrow> json list list" where
  "sgh_rows id_to_path perf =
     map (\<lambda>(p, n). [JStr p, JInt n])
       (sort_key fst
         (map (\<lambda>(sgid, n).
            (case map_of id_to_path (JInt sgid) of
               None \<Rightarrow> ''<unknown:'' @ int_str sgid @ ''>''
             | Some p \<Rightarrow> p, n)) perf))"

text \<open>\<^verbatim>\<open>f"{a/b*100:.1f}%"\<close>\<close>

definition percent :: "(real \<Rightarrow> string) \<Rightarrow> int \<Rightarrow> int \<Rightarrow> string res" where
  "percent fmt1 a b =
     (if b = 0 then Inl ZeroDivisionError else Inr (fmt1 (of_int a / of_int b * 100) @ ''%''))"

definition prefilter_rows :: "(real \<Rightarrow> string) \<Rightarrow> prefilter_use dict \<Rightarrow> json list list res" where
  "prefilter_rows fmt1 pf =
     (let total_pkts = sum_list (map (pf_uses \<circ> snd) pf);
          total_bytes = sum_list (map (pf_bytes \<circ> snd) pf)
      in res_bind
           (res_map (\<lambda>(n, v).
              res_bind (percent fmt1 (pf_uses v) total_pkts) (\<lambda>p.
              res_bind (percent fmt1 (pf_bytes v) total_bytes) (\<lambda>q.
                Inr (n, [JStr n, JInt (pf_uses v), JStr p, JInt (pf_bytes v), JStr q])))) pf)
           (\<lambda>table. Inr (map snd (sort_key fst table))))"

record log_table =
  part :: nat
  headers :: "string list"
  table_rows :: "json list list"

definition traffic_table :: "json list list \<Rightarrow> log_table" where
  "traffic_table rows = \<lparr>part = 1, headers = [''Traffic direction'', ''Pkts'', ''Bytes''], table_rows = rows\<rparr>"

definition sgh_table :: "json list list \<Rightarrow> log_table" where
  "sgh_table rows = \<lparr>part = 2, headers = [''SGH'', ''Checks''], table_rows = rows\<rparr>"

definition prefilter_table :: "json list list \<Rightarrow> log_table" where
  "prefilter_table rows =
     \<lparr>part = 3, headers = [''MPM'', ''Uses'', ''Pkts (in %)'', ''Bytes'', ''Bytes (in %)''], table_rows = rows\<rparr>"

text \<open>The tables printed, and the exception that ended the run, if one did.\<close>

definition log_main ::
    "(string \<Rightarrow> json option) \<Rightarrow> (json \<Rightarrow> string) \<Rightarrow> (real \<Rightarrow> string) \<Rightarrow> files \<Rightarrow> string \<Rightarrow>
     log_table list \<times> py_error option" where
  "log_main loads other fmt1 fs logdir =
     (let d = rev (dropWhile (\<lambda>c. c = CHR ''/'') (rev logdir))
      in case parse_eve loads fs (path_join2 d ''eve.json'') of
           Inl e \<Rightarrow> ([], Some e)
         | Inr (pkts, bytes) \<Rightarrow>
             (let t1 = traffic_table (traffic_rows pkts bytes)
              in case load_rule_groups loads other fs (path_join2 d ''rule_group.json'') of
                   Inl e \<Rightarrow> ([t1], Some e)
                 | Inr id_to_path \<Rightarrow>
                     (let t2 = sgh_table (sgh_rows id_to_path
                          (parse_rule_group_perf fs (path_join2 d ''rule_group_perf.log'')))
                      in case prefilter_rows fmt1
                             (parse_prefilter_perf fs (path_join2 d ''prefilter_perf.log'')) of
                           Inl e \<Rightarrow> ([t1, t2], Some e)
                         | Inr rows \<Rightarrow> ([t1, t2, prefilter_table rows], None))))"

section \<open>What the counters count\<close>

definition int_field :: "(string \<times> json) list \<Rightarrow> string \<Rightarrow> int" where
  "int_field kvs f = (case map_of kvs f of Some (JInt i) \<Rightarrow> i | _ \<Rightarrow> 0)"

definition int_or_absent :: "(string \<times> json) list \<Rightarrow> string \<Rightarrow> bool" where
  "int_or_absent kvs f = (case map_of kvs f of None \<Rightarrow> True | Some (JInt i) \<Rightarrow> True | _ \<Rightarrow> False)"

text \<open>The protocol and the counts of a flow event, and the events the program can count.\<close>

definition flow_of :: "json \<Rightarrow> (string \<times> (string \<times> json) list) option" where
  "flow_of j =
     (case j of
        JObj kvs \<Rightarrow>
          (if map_of kvs ''event_type'' = Some (JStr ''flow'') then
             (case (map_of kvs ''proto'', map_of kvs ''flow'') of
                (Some (JStr p), Some (JObj fl)) \<Rightarrow> Some (py_lower p, fl)
              | _ \<Rightarrow> None)
           else None)
      | _ \<Rightarrow> None)"

definition good_event :: "json \<Rightarrow> bool" where
  "good_event j =
     (case j of
        JObj kvs \<Rightarrow>
          (map_of kvs ''event_type'' = Some (JStr ''flow'') \<longrightarrow>
             (case (map_of kvs ''proto'', map_of kvs ''flow'') of
                (Some (JStr p), Some (JObj fl)) \<Rightarrow>
                  list_all (int_or_absent fl)
                    [''pkts_toserver'', ''pkts_toclient'', ''bytes_toserver'', ''bytes_toclient'']
              | _ \<Rightarrow> False))
      | _ \<Rightarrow> False)"

definition flows :: "json list \<Rightarrow> (string \<times> (string \<times> json) list) list" where
  "flows js = List.map_filter flow_of js"

definition directions :: "(string \<times> (string \<times> json) list) list \<Rightarrow> string list" where
  "directions fls = concat (map (\<lambda>(p, fl). [p @ ''.toserver'', p @ ''.toclient'']) fls)"

definition dir_count :: "string \<Rightarrow> string \<Rightarrow> (string \<times> (string \<times> json) list) list \<Rightarrow> int" where
  "dir_count unit d fls =
     sum_list (map (\<lambda>(p, fl).
       (if d = p @ ''.toserver'' then int_field fl (unit @ ''_toserver'') else 0) +
       (if d = p @ ''.toclient'' then int_field fl (unit @ ''_toclient'') else 0)) fls)"

definition ints :: "json dict \<Rightarrow> bool" where
  "ints c \<longleftrightarrow> (\<forall>k. int_or_absent c k)"

lemma ints_Nil: "ints []" by (simp add: ints_def int_or_absent_def)

lemma int_field_update:
  "int_field (AList.update k (JInt i) c) d = (if d = k then i else int_field c d)"
  by (simp add: int_field_def update_conv')

lemma ints_update: "ints c \<Longrightarrow> ints (AList.update k (JInt i) c)"
  by (auto simp: ints_def int_or_absent_def update_conv')

lemma add_field_int:
  assumes "ints c" and "int_or_absent fl f"
  shows "add_field (JObj fl) f key c = Inr (AList.update key (JInt (int_field c key + int_field fl f)) c)"
proof -
  have "int_or_absent c key" using assms(1) by (simp add: ints_def)
  then show ?thesis using assms(2)
    by (auto simp: add_field_def jget_def sum_up_def num_add_def int_field_def int_or_absent_def
        split: option.splits json.splits)
qed

lemma dir_ne: "p @ ''.toserver'' \<noteq> q @ ''.toclient''"
proof
  assume "p @ ''.toserver'' = q @ ''.toclient''"
  then have "last (p @ ''.toserver'') = last (q @ ''.toclient'')" by simp
  then show False by simp
qed

lemma add_flow_int:
  assumes c: "ints pkts" "ints bytes"
    and fl: "list_all (int_or_absent fl)
               [''pkts_toserver'', ''pkts_toclient'', ''bytes_toserver'', ''bytes_toclient'']"
  shows "\<exists>pkts' bytes'. add_flow p (JObj fl) (pkts, bytes) = Inr (pkts', bytes') \<and> ints pkts' \<and> ints bytes' \<and>
    set (keys pkts') = set (keys pkts) \<union> set (directions [(p, fl)]) \<and>
    set (keys bytes') = set (keys bytes) \<union> set (directions [(p, fl)]) \<and>
    (\<forall>d. int_field pkts' d = int_field pkts d + dir_count ''pkts'' d [(p, fl)]) \<and>
    (\<forall>d. int_field bytes' d = int_field bytes d + dir_count ''bytes'' d [(p, fl)])"
proof -
  define up where "up = (\<lambda>c a b. AList.update (p @ ''.toclient'') (JInt (int_field c (p @ ''.toclient'') + b))
      (AList.update (p @ ''.toserver'') (JInt (int_field c (p @ ''.toserver'') + a)) c))"
  have f: "int_or_absent fl ''pkts_toserver''" "int_or_absent fl ''pkts_toclient''"
      "int_or_absent fl ''bytes_toserver''" "int_or_absent fl ''bytes_toclient''"
    using fl by simp_all
  have run: "add_flow p (JObj fl) (pkts, bytes) =
      Inr (up pkts (int_field fl ''pkts_toserver'') (int_field fl ''pkts_toclient''),
           up bytes (int_field fl ''bytes_toserver'') (int_field fl ''bytes_toclient''))"
    using dir_ne [of p p]
    by (simp add: add_flow_def up_def add_field_int [OF c(1) f(1)] add_field_int [OF c(2) f(3)]
        add_field_int [OF ints_update [OF c(1)] f(2)] add_field_int [OF ints_update [OF c(2)] f(4)]
        int_field_update del: append.simps)
  have up: "ints (up c a b)" "fst ` set (up c a b) = insert (p @ ''.toserver'') (insert (p @ ''.toclient'') (fst ` set c))"
      "int_field (up c a b) d = int_field c d + ((if d = p @ ''.toserver'' then a else 0) +
         (if d = p @ ''.toclient'' then b else 0))"
    if "ints c" for c a b d
    using that dir_ne [of p p]
    by (auto simp: up_def ints_update int_field_update dom_update simp del: append.simps)
  have dirs: "set (directions [(p, fl)]) = {p @ ''.toserver'', p @ ''.toclient''}"
    by (simp add: directions_def)
  show ?thesis
    by (intro exI conjI, rule run)
       (simp_all add: up(1,2) [OF c(1)] up(1,2) [OF c(2)] up(3) [OF c(1)] up(3) [OF c(2)] dirs dir_count_def
         del: append.simps, simp_all?)
qed

lemma dir_count_Cons: "dir_count u d (fl # fls) = dir_count u d [fl] + dir_count u d fls"
  by (simp add: dir_count_def del: append.simps)

lemma directions_Cons: "set (directions (fl # fls)) = set (directions [fl]) \<union> set (directions fls)"
  by (simp add: directions_def del: append.simps)

lemma good_eventE:
  assumes "good_event j"
  obtains kvs where "j = JObj kvs" "map_of kvs ''event_type'' \<noteq> Some (JStr ''flow'')" "flow_of j = None"
  | kvs p fl where "j = JObj kvs" "map_of kvs ''event_type'' = Some (JStr ''flow'')"
      "map_of kvs ''proto'' = Some (JStr p)" "map_of kvs ''flow'' = Some (JObj fl)"
      "list_all (int_or_absent fl)
         [''pkts_toserver'', ''pkts_toclient'', ''bytes_toserver'', ''bytes_toclient'']"
      "flow_of j = Some (py_lower p, fl)"
proof (cases j)
  case (JObj kvs)
  show ?thesis
  proof (cases "map_of kvs ''event_type'' = Some (JStr ''flow'')")
    case True
    then show ?thesis using assms JObj
      by (auto simp: good_event_def flow_of_def split: option.splits json.splits intro: that(2))
  next
    case False
    then show ?thesis using JObj by (intro that(1)) (simp_all add: flow_of_def)
  qed
qed (use assms in \<open>simp_all add: good_event_def\<close>)

lemma eve_lines_int:
  assumes "map loads ls = map Some js" and "list_all good_event js" and "ints pkts" "ints bytes"
  shows "\<exists>pkts' bytes'. res_fold (eve_line loads) ls (pkts, bytes) = Inr (pkts', bytes') \<and>
    ints pkts' \<and> ints bytes' \<and>
    set (keys pkts') = set (keys pkts) \<union> set (directions (flows js)) \<and>
    set (keys bytes') = set (keys bytes) \<union> set (directions (flows js)) \<and>
    (\<forall>d. int_field pkts' d = int_field pkts d + dir_count ''pkts'' d (flows js)) \<and>
    (\<forall>d. int_field bytes' d = int_field bytes d + dir_count ''bytes'' d (flows js))"
  using assms
proof (induction ls arbitrary: js pkts bytes)
  case Nil
  then show ?case by (simp add: flows_def map_filter_simps dir_count_def directions_def)
next
  case (Cons l ls)
  then obtain j js' where js: "js = j # js'" "loads l = Some j" "map loads ls = map Some js'"
      "good_event j" "list_all good_event js'" by (cases js) auto
  note IH = Cons.IH [OF js(3,5)]
  from js(4) show ?case
  proof (cases rule: good_eventE)
    case (1 kvs)
    have "eve_line loads l (pkts, bytes) = Inr (pkts, bytes)"
      using 1 js(2) by (auto simp: eve_line_def jget_def split: option.splits)
    moreover have "flows js = flows js'" using 1(3) js(1) by (simp add: flows_def map_filter_simps)
    ultimately show ?thesis using IH [OF Cons.prems(3,4)] by simp
  next
    case (2 kvs p fl)
    obtain p1 b1 where st: "add_flow (py_lower p) (JObj fl) (pkts, bytes) = Inr (p1, b1)" "ints p1" "ints b1"
        "set (keys p1) = set (keys pkts) \<union> set (directions [(py_lower p, fl)])"
        "set (keys b1) = set (keys bytes) \<union> set (directions [(py_lower p, fl)])"
        "\<forall>d. int_field p1 d = int_field pkts d + dir_count ''pkts'' d [(py_lower p, fl)]"
        "\<forall>d. int_field b1 d = int_field bytes d + dir_count ''bytes'' d [(py_lower p, fl)]"
      using add_flow_int [OF Cons.prems(3,4) 2(5)] by blast
    have line: "eve_line loads l (pkts, bytes) = Inr (p1, b1)"
      using 2(1-4) js(2) st(1) by (simp add: eve_line_def jget_def jitem_def json_lower_def)
    have fls: "flows js = (py_lower p, fl) # flows js'"
      using 2(6) js(1) by (simp add: flows_def map_filter_simps)
    obtain p2 b2 where "res_fold (eve_line loads) ls (p1, b1) = Inr (p2, b2)" "ints p2" "ints b2"
        "set (keys p2) = set (keys p1) \<union> set (directions (flows js'))"
        "set (keys b2) = set (keys b1) \<union> set (directions (flows js'))"
        "\<forall>d. int_field p2 d = int_field p1 d + dir_count ''pkts'' d (flows js')"
        "\<forall>d. int_field b2 d = int_field b1 d + dir_count ''bytes'' d (flows js')"
      using IH [OF st(2,3)] by blast
    then show ?thesis
      by (intro exI [of _ p2] exI [of _ b2])
         (simp add: line fls st(4-7) directions_Cons [of _ "flows js'"] dir_count_Cons [of _ _ _ "flows js'"]
           Un_assoc del: set_map list.set_map)
  qed
qed

lemma count_of_int: "ints c \<Longrightarrow> count_of c d = JInt (int_field c d)"
  unfolding ints_def count_of_def int_field_def
  by (drule spec [of _ d]) (auto simp: int_or_absent_def split: option.splits json.splits)

lemma dir_count_total:
  "(\<Sum>d \<in> set (directions fls). dir_count u d fls) =
     sum_list (map (\<lambda>(p, fl). int_field fl (u @ ''_toserver'') + int_field fl (u @ ''_toclient'')) fls)"
proof -
  have one: "(\<Sum>d \<in> D. dir_count u d [(p, fl)]) =
      int_field fl (u @ ''_toserver'') + int_field fl (u @ ''_toclient'')"
    if "set (directions [(p, fl)]) \<subseteq> D" "finite D" for D p fl
    using that by (simp add: dir_count_def directions_def sum.distrib del: append.simps)
  have "(\<Sum>d \<in> D. dir_count u d fls) =
     sum_list (map (\<lambda>(p, fl). int_field fl (u @ ''_toserver'') + int_field fl (u @ ''_toclient'')) fls)"
    if "set (directions fls) \<subseteq> D" "finite D" for D
    using that
  proof (induction fls)
    case (Cons x fls)
    obtain p fl where x: "x = (p, fl)" by force
    have sub: "set (directions [(p, fl)]) \<subseteq> D" "set (directions fls) \<subseteq> D"
      using Cons.prems(1) directions_Cons [of x fls] x by auto
    have "(\<Sum>d \<in> D. dir_count u d (x # fls)) = (\<Sum>d \<in> D. dir_count u d [x]) + (\<Sum>d \<in> D. dir_count u d fls)"
      by (subst dir_count_Cons) (rule sum.distrib)
    then show ?case using one [OF sub(1) Cons.prems(2)] Cons.IH [OF sub(2) Cons.prems(2)] x by simp
  qed (simp add: dir_count_def)
  then show ?thesis by simp
qed

section \<open>Traffic per direction\<close>

text \<open>C29: When every line of eve.json is an event that can be counted, the traffic table has one row
  per protocol (in lower case) and direction of a flow, in ascending order, with the sums of the
  packets and of the bytes of the flows of that protocol in that direction; over all rows these sums
  account for every packet and byte of every flow exactly once.\<close>

theorem traffic_totals:
  assumes "fs path = Some lines" and "map loads lines = map Some js" and "list_all good_event js"
  shows "\<exists>pkts bytes. parse_eve loads fs path = Inr (pkts, bytes) \<and>
    traffic_rows pkts bytes =
      map (\<lambda>d. [JStr d, JInt (dir_count ''pkts'' d (flows js)), JInt (dir_count ''bytes'' d (flows js))])
        (sorted_list_of_set (set (directions (flows js)))) \<and>
    (\<forall>u. (\<Sum>d \<in> set (directions (flows js)). dir_count u d (flows js)) =
       sum_list (map (\<lambda>(p, fl). int_field fl (u @ ''_toserver'') + int_field fl (u @ ''_toclient''))
         (flows js)))"
proof -
  obtain pkts bytes where r: "res_fold (eve_line loads) lines ([], []) = Inr (pkts, bytes)"
      "ints pkts" "ints bytes"
      "set (keys pkts) = set (directions (flows js))" "set (keys bytes) = set (directions (flows js))"
      "\<forall>d. int_field pkts d = dir_count ''pkts'' d (flows js)"
      "\<forall>d. int_field bytes d = dir_count ''bytes'' d (flows js)"
    using eve_lines_int [OF assms(2,3) ints_Nil ints_Nil] by (auto simp: int_field_def [of "[]"])
  have "parse_eve loads fs path = Inr (pkts, bytes)" using r(1) assms(1) by (simp add: parse_eve_def)
  then show ?thesis
    using dir_count_total by (auto simp: traffic_rows_def count_of_int r simp del: set_map)
qed

definition demo_flow :: "string \<Rightarrow> int \<Rightarrow> int \<Rightarrow> json" where
  "demo_flow proto n b =
     JObj [(''event_type'', JStr ''flow''), (''proto'', JStr proto),
       (''flow'', JObj [(''pkts_toserver'', JInt n), (''bytes_toserver'', JInt b), (''pkts_toclient'', JInt 1)])]"

definition demo_loads :: "string \<Rightarrow> json option" where
  "demo_loads l =
     (if l = ''a'' then Some (demo_flow ''TCP'' 2 90)
      else if l = ''b'' then Some (JObj [(''event_type'', JStr ''alert'')])
      else if l = ''c'' then Some (demo_flow ''tcp'' 3 60)
      else None)"

theorem traffic_totals_witness:
  "\<exists>pkts bytes. parse_eve demo_loads (\<lambda>_. Some [''a'', ''b'', ''c'']) ''eve.json'' = Inr (pkts, bytes) \<and>
     traffic_rows pkts bytes =
       [[JStr ''tcp.toclient'', JInt 2, JInt 0], [JStr ''tcp.toserver'', JInt 5, JInt 150]]"
proof -
  define js where "js = [demo_flow ''TCP'' 2 90, JObj [(''event_type'', JStr ''alert'')], demo_flow ''tcp'' 3 60]"
  have 1: "map demo_loads [''a'', ''b'', ''c''] = map Some js" by (simp add: demo_loads_def js_def)
  have 2: "list_all good_event js" unfolding js_def by code_simp
  have 3: "map (\<lambda>d. [JStr d, JInt (dir_count ''pkts'' d (flows js)), JInt (dir_count ''bytes'' d (flows js))])
        (sorted_list_of_set (set (directions (flows js)))) =
      [[JStr ''tcp.toclient'', JInt 2, JInt 0], [JStr ''tcp.toserver'', JInt 5, JInt 150]]"
    unfolding js_def by code_simp
  show ?thesis using traffic_totals [where fs = "\<lambda>_. Some [''a'', ''b'', ''c'']" and path = "''eve.json''", OF refl 1 2] 3
    by auto
qed

section \<open>The groups of a document\<close>

text \<open>The groups the program visits, with their paths, and the identifier of a group.\<close>

type_synonym group_node = "string list \<times> (string \<times> json) list"

inductive group_at :: "(json \<Rightarrow> string) \<Rightarrow> json \<Rightarrow> string list \<Rightarrow> (string \<times> json) list \<Rightarrow> bool"
  for other where
  here: "group_at other (JObj kvs) [] kvs"
| member: "(k, JObj m) \<in> set kvs \<Longrightarrow> group_at other (JObj m) p n \<Longrightarrow> group_at other (JObj kvs) (k # p) n"
| item: "(k, JList xs) \<in> set kvs \<Longrightarrow> JObj m \<in> set xs \<Longrightarrow> group_at other (JObj m) p n \<Longrightarrow>
    group_at other (JObj kvs) (item_path other k m @ p) n"

inductive_cases group_at_objE: "group_at other (JObj kvs) p n"
inductive_simps group_at_leaf [simp]:
  "group_at other JNull p n" "group_at other (JBool b) p n" "group_at other (JInt i) p n"
  "group_at other (JFloat x) p n" "group_at other (JStr s) p n" "group_at other (JList xs) p n"

definition group_id :: "(string \<times> json) list \<Rightarrow> json option" where
  "group_id n =
     (case map_of n ''rulegroup'' of
        Some (JObj g) \<Rightarrow>
          (case map_of g ''id'' of None \<Rightarrow> None | Some i \<Rightarrow> (case jkey i of Inl _ \<Rightarrow> None | Inr k \<Rightarrow> Some k))
      | _ \<Rightarrow> None)"

definition group_ok :: "(string \<times> json) list \<Rightarrow> bool" where
  "group_ok n =
     (case map_of n ''rulegroup'' of
        None \<Rightarrow> True
      | Some (JObj g) \<Rightarrow>
          (case map_of g ''id'' of None \<Rightarrow> True | Some i \<Rightarrow> (case jkey i of Inl _ \<Rightarrow> False | Inr _ \<Rightarrow> True))
      | Some (JStr s) \<Rightarrow> \<not> contains ''id'' s
      | Some (JList xs) \<Rightarrow> JStr ''id'' \<notin> set xs
      | _ \<Rightarrow> False)"

lemma note_group_cases:
  "(case note_group n path m of
      Inl e \<Rightarrow> \<not> group_ok n
    | Inr m' \<Rightarrow> group_ok n \<and>
        m' = (case group_id n of None \<Rightarrow> m | Some k \<Rightarrow> AList.update k (join ''.'' path) m))"
proof (cases "map_of n ''rulegroup''")
  case None
  then show ?thesis by (simp add: note_group_def group_ok_def group_id_def)
next
  case (Some g)
  then show ?thesis
    by (cases g)
       (auto simp: note_group_def group_ok_def group_id_def jin_def jitem_def res_bind_def in_fst_iff
         split: option.splits sum.splits)
qed

definition groups_in :: "(json \<Rightarrow> string) \<Rightarrow> json \<Rightarrow> group_node set" where
  "groups_in other d = {(p, n). group_at other d p n}"

definition below :: "string list \<Rightarrow> group_node set \<Rightarrow> group_node set" where
  "below q S = (\<lambda>(p, n). (q @ p, n)) ` S"

definition item_groups :: "(json \<Rightarrow> string) \<Rightarrow> string \<Rightarrow> json list \<Rightarrow> group_node set" where
  "item_groups other k xs =
     (\<Union>m \<in> {m. JObj m \<in> set xs}. below (item_path other k m) (groups_in other (JObj m)))"

definition member_groups :: "(json \<Rightarrow> string) \<Rightarrow> (string \<times> json) list \<Rightarrow> group_node set" where
  "member_groups other kvs =
     (\<Union>(k, m) \<in> {(k, m). (k, JObj m) \<in> set kvs}. below [k] (groups_in other (JObj m))) \<union>
     (\<Union>(k, xs) \<in> {(k, xs). (k, JList xs) \<in> set kvs}. item_groups other k xs)"

lemma in_member_groups:
  "(p, n) \<in> member_groups other kvs \<longleftrightarrow>
     (\<exists>k m p'. (k, JObj m) \<in> set kvs \<and> group_at other (JObj m) p' n \<and> p = k # p') \<or>
     (\<exists>k xs m p'. (k, JList xs) \<in> set kvs \<and> JObj m \<in> set xs \<and> group_at other (JObj m) p' n \<and>
        p = item_path other k m @ p')"
  unfolding member_groups_def item_groups_def below_def groups_in_def by (auto 4 4)

lemma groups_in_obj: "groups_in other (JObj kvs) = insert ([], kvs) (member_groups other kvs)"
proof (rule set_eqI, clarify)
  fix p n
  show "(p, n) \<in> groups_in other (JObj kvs) \<longleftrightarrow> (p, n) \<in> insert ([], kvs) (member_groups other kvs)"
    unfolding insert_iff in_member_groups groups_in_def mem_Collect_eq prod.case prod.inject
    by (rule iffI, erule group_at_objE, simp, blast, blast) (blast intro: group_at.intros)
qed

text \<open>What a visit of the groups \<^term>\<open>S\<close> below a path does to the table of paths.\<close>

definition visited :: "group_node set \<Rightarrow> string list \<Rightarrow> group_paths \<Rightarrow> group_paths res \<Rightarrow> bool" where
  "visited S path m r =
     (case r of
        Inl e \<Rightarrow> \<exists>(p, n) \<in> S. \<not> group_ok n
      | Inr m' \<Rightarrow>
          (\<forall>(p, n) \<in> S. group_ok n) \<and>
          (\<forall>k. (\<exists>(p, n) \<in> S. group_id n = Some k \<and> map_of m' k = Some (join ''.'' (path @ p))) \<or>
               map_of m' k = map_of m k \<and> (\<forall>(p, n) \<in> S. group_id n \<noteq> Some k)))"

lemma visited_none: "visited {} path m (Inr m)"
  by (simp add: visited_def)

lemma visited_note: "visited {([], n)} path m (note_group n path m)"
  using note_group_cases [where n = n and path = path and m = m]
  by (auto simp: visited_def update_conv' split: sum.splits option.splits)

lemma visited_below: "visited S (path @ q) m r \<Longrightarrow> visited (below q S) path m r"
  unfolding visited_def below_def by (cases r) (simp_all add: case_prod_beta)

lemma visited_bind:
  assumes "visited S path m r" and "\<And>m'. r = Inr m' \<Longrightarrow> visited T path m' (f m')"
  shows "visited (S \<union> T) path m (res_bind r f)"
proof (cases r)
  case (Inl e)
  then show ?thesis using assms(1) by (auto simp: visited_def)
next
  case (Inr m')
  note 1 = assms(1) [unfolded Inr visited_def sum.case]
  show ?thesis
  proof (cases "f m'")
    case (Inl e)
    then show ?thesis using assms(2) [OF Inr] \<open>r = Inr m'\<close> by (auto simp: visited_def)
  next
    case (Inr m'')
    note 2 = assms(2) [OF \<open>r = Inr m'\<close>, unfolded Inr visited_def sum.case]
    have "(\<exists>(p, n) \<in> S \<union> T. group_id n = Some k \<and> map_of m'' k = Some (join ''.'' (path @ p))) \<or>
        map_of m'' k = map_of m k \<and> (\<forall>(p, n) \<in> S \<union> T. group_id n \<noteq> Some k)" for k
      using conjunct2 [OF 1, THEN spec [of _ k]] conjunct2 [OF 2, THEN spec [of _ k]] by fastforce
    then show ?thesis using 1 2 \<open>r = Inr m'\<close> Inr by (auto simp: visited_def)
  qed
qed

lemma rg_visited:
  "visited (groups_in other d) path m (rg_recurse other d path m)"
  "visited (member_groups other kvs) path m (rg_members other kvs path m)"
  "visited (item_groups other k xs) path m (rg_items other k xs path m)"
proof (induction other d path m and other kvs path m and other k xs path m
    rule: rg_recurse_rg_members_rg_items.induct)
  case (1 other d path m)
  show ?case
  proof (cases d)
    case (JObj kvs)
    then show ?thesis
      using visited_bind [OF visited_note [of kvs path m] 1(1) [OF JObj]]
      by (simp add: rg_recurse.simps groups_in_obj)
  qed (simp_all add: rg_recurse.simps groups_in_def visited_none)
next
  case (2 other path m)
  then show ?case by (simp add: member_groups_def visited_none)
next
  case (3 other k v kvs path m)
  have split: "member_groups other ((k, v) # kvs) = member_groups other [(k, v)] \<union> member_groups other kvs"
    unfolding member_groups_def list.set by auto
  have "visited (member_groups other [(k, v)]) path m (case v of
         JObj _ \<Rightarrow> rg_recurse other v (path @ [k]) m
       | JList xs \<Rightarrow> rg_items other k xs path m
       | _ \<Rightarrow> Inr m)"
    using 3(1) 3(2) by (cases v) (auto simp: member_groups_def visited_none intro: visited_below)
  then show ?case unfolding split rg_members.simps by (rule visited_bind) (rule 3(3))
next
  case (4 other k path m)
  then show ?case by (simp add: item_groups_def visited_none)
next
  case (5 other k x xs path m)
  have split: "item_groups other k (x # xs) = item_groups other k [x] \<union> item_groups other k xs"
    unfolding item_groups_def list.set by auto
  have "visited (item_groups other k [x]) path m (case x of
         JObj kvs \<Rightarrow> rg_recurse other x (path @ item_path other k kvs) m
       | _ \<Rightarrow> Inr m)"
    using 5(1) by (cases x) (auto simp: item_groups_def visited_none intro: visited_below)
  then show ?case unfolding split rg_items.simps by (rule visited_bind) (rule 5(2))
qed

text \<open>C30: Loading rule_group.json raises exactly when some rule group of the document has an identifier
  that cannot be read or cannot be a key; otherwise the table knows exactly the identifiers of the
  rule groups of the document, and gives for each the dotted path of a group with that identifier,
  ports of list items included.\<close>

theorem load_rule_groups_paths:
  assumes "fs path = Some lines" and "loads (concat lines) = Some rg"
  shows "case load_rule_groups loads other fs path of
      Inl e \<Rightarrow> (\<exists>p n. group_at other rg p n \<and> \<not> group_ok n)
    | Inr m \<Rightarrow>
        (\<forall>p n. group_at other rg p n \<longrightarrow> group_ok n) \<and>
        (\<forall>k. case map_of m k of
            None \<Rightarrow> (\<forall>p n. group_at other rg p n \<longrightarrow> group_id n \<noteq> Some k)
          | Some s \<Rightarrow> (\<exists>p n. group_at other rg p n \<and> group_id n = Some k \<and> s = join ''.'' p))"
proof -
  have "visited (groups_in other rg) [] [] (load_rule_groups loads other fs path)"
  proof (cases "falsy rg")
    case True
    have "groups_in other rg \<subseteq> {([], [])}"
      using True unfolding falsy_def groups_in_def by (auto elim: group_at_objE)
    then have "\<forall>(p, n) \<in> groups_in other rg. group_ok n \<and> group_id n = None"
      by (auto simp: group_ok_def group_id_def)
    then have "visited (groups_in other rg) [] [] (Inr [])" by (auto simp: visited_def)
    then show ?thesis using True assms by (simp add: load_rule_groups_def)
  next
    case False
    then show ?thesis using assms rg_visited(1) by (simp add: load_rule_groups_def)
  qed
  note v = this [unfolded visited_def groups_in_def]
  show ?thesis
  proof (cases "load_rule_groups loads other fs path")
    case (Inl e)
    then show ?thesis using v by auto
  next
    case (Inr m)
    note v = v [unfolded Inr sum.case]
    have "case map_of m k of
            None \<Rightarrow> (\<forall>p n. group_at other rg p n \<longrightarrow> group_id n \<noteq> Some k)
          | Some s \<Rightarrow> (\<exists>p n. group_at other rg p n \<and> group_id n = Some k \<and> s = join ''.'' p)" for k
      using conjunct2 [OF v, THEN spec [of _ k]] by (cases "map_of m k") auto
    then show ?thesis using Inr v by auto
  qed
qed

definition demo_groups :: json where
  "demo_groups =
     JObj [(''tcp'', JObj [(''toserver'', JList
       [JObj [(''port'', JInt 80), (''port2'', JInt 443),
          (''rulegroup'', JObj [(''id'', JInt 7)])]])])]"

theorem load_rule_groups_paths_witness:
  "map_of (projr (load_rule_groups (\<lambda>_. Some demo_groups) (\<lambda>_. []) (\<lambda>_. Some []) ''rule_group.json'')) (JInt 7) =
     Some ''tcp.toserver.80-443'' \<and>
   (\<exists>p n. group_at (\<lambda>_. []) demo_groups p n \<and> group_id n = Some (JInt 7) \<and> ''tcp.toserver.80-443'' = join ''.'' p)"
proof -
  have 1: "load_rule_groups (\<lambda>_. Some demo_groups) (\<lambda>_. []) (\<lambda>_. Some []) ''rule_group.json'' =
      Inr [(JInt 7, ''tcp.toserver.80-443'')]"
    by code_simp
  have "case load_rule_groups (\<lambda>_. Some demo_groups) (\<lambda>_. []) (\<lambda>_. Some []) ''rule_group.json'' of
      Inl e \<Rightarrow> (\<exists>p n. group_at (\<lambda>_. []) demo_groups p n \<and> \<not> group_ok n)
    | Inr m \<Rightarrow>
        (\<forall>p n. group_at (\<lambda>_. []) demo_groups p n \<longrightarrow> group_ok n) \<and>
        (\<forall>k. case map_of m k of
            None \<Rightarrow> (\<forall>p n. group_at (\<lambda>_. []) demo_groups p n \<longrightarrow> group_id n \<noteq> Some k)
          | Some s \<Rightarrow> (\<exists>p n. group_at (\<lambda>_. []) demo_groups p n \<and> group_id n = Some k \<and> s = join ''.'' p))"
    by (rule load_rule_groups_paths [where lines = "[]"]) simp_all
  then have "\<forall>k. case map_of [(JInt 7, ''tcp.toserver.80-443'')] k of
            None \<Rightarrow> (\<forall>p n. group_at (\<lambda>_. []) demo_groups p n \<longrightarrow> group_id n \<noteq> Some k)
          | Some s \<Rightarrow> (\<exists>p n. group_at (\<lambda>_. []) demo_groups p n \<and> group_id n = Some k \<and> s = join ''.'' p)"
    unfolding 1 sum.case by (rule conjunct2)
  then have 2: "case map_of [(JInt 7, ''tcp.toserver.80-443'')] (JInt 7) of
            None \<Rightarrow> (\<forall>p n. group_at (\<lambda>_. []) demo_groups p n \<longrightarrow> group_id n \<noteq> Some (JInt 7))
          | Some s \<Rightarrow> (\<exists>p n. group_at (\<lambda>_. []) demo_groups p n \<and> group_id n = Some (JInt 7) \<and> s = join ''.'' p)"
    by (rule spec)
  have m: "map_of [(JInt 7, ''tcp.toserver.80-443'')] (JInt 7) = Some ''tcp.toserver.80-443''" by simp
  from 2 show ?thesis unfolding 1 sum.sel m option.case by blast
qed

section \<open>Shares of the prefilters\<close>

definition share :: "int \<Rightarrow> int \<Rightarrow> real" where
  "share a b = of_int a / of_int b * 100"

lemma share_sum:
  "sum_list (map f xs) \<noteq> 0 \<Longrightarrow> sum_list (map (\<lambda>x. share (f x) (sum_list (map f xs))) xs) = 100"
proof -
  assume ne: "sum_list (map f xs) \<noteq> 0"
  have "sum_list (map (\<lambda>x. share (f x) b) xs) = share (sum_list (map f xs)) b" for b
    by (induction xs) (auto simp: share_def add_divide_distrib distrib_right)
  then show ?thesis using ne by (simp add: share_def)
qed

lemma sort_key_map_snd:
  "map snd (sort_key fst (map (\<lambda>(n, v). (n, g n v)) xs)) = map (\<lambda>(n, v). g n v) (sort_key fst xs)"
proof -
  have "sort_key fst (map (\<lambda>(n, v). (n, g n v)) xs) = map (\<lambda>(n, v). (n, g n v)) (sort_key fst xs)"
  proof (induction xs)
    case (Cons x xs)
    have "insort_key fst (n, g n v) (map (\<lambda>(n, v). (n, g n v)) ys) =
        map (\<lambda>(n, v). (n, g n v)) (insort_key fst (n, v) ys)" for n v ys
      by (induction ys) auto
    with Cons show ?case by (cases x) simp
  qed simp
  then show ?thesis by (simp add: case_prod_beta comp_def)
qed

lemma prefilter_rows_eq:
  fixes pf :: "prefilter_use dict"
  defines "u \<equiv> sum_list (map (pf_uses \<circ> snd) pf)"
    and "b \<equiv> sum_list (map (pf_bytes \<circ> snd) pf)"
  shows "prefilter_rows fmt1 pf =
    (if pf \<noteq> [] \<and> (u = 0 \<or> b = 0) then Inl ZeroDivisionError
     else Inr (map (\<lambda>(n, v). [JStr n, JInt (pf_uses v), JStr (fmt1 (share (pf_uses v) u) @ ''%''),
            JInt (pf_bytes v), JStr (fmt1 (share (pf_bytes v) b) @ ''%'')]) (sort_key fst pf)))"
proof -
  define F where "F = (\<lambda>(n :: string, v :: prefilter_use). res_bind (percent fmt1 (pf_uses v) u) (\<lambda>p.
      res_bind (percent fmt1 (pf_bytes v) b) (\<lambda>q.
        Inr (n, [JStr n :: json, JInt (pf_uses v), JStr p, JInt (pf_bytes v), JStr q]))))"
  define R where "R = (\<lambda>(n :: string) (v :: prefilter_use). [JStr n, JInt (pf_uses v), JStr (fmt1 (share (pf_uses v) u) @ ''%''),
            JInt (pf_bytes v), JStr (fmt1 (share (pf_bytes v) b) @ ''%'')])"
  have rows: "prefilter_rows fmt1 pf = res_bind (res_map F pf) (\<lambda>t. Inr (map snd (sort_key fst t)))"
    unfolding prefilter_rows_def Let_def F_def u_def b_def ..
  show ?thesis
  proof (cases "pf \<noteq> [] \<and> (u = 0 \<or> b = 0)")
    case True
    then obtain x xs where pf: "pf = x # xs" by (cases pf) auto
    have "F x = Inl ZeroDivisionError" using True by (cases x) (auto simp: F_def percent_def)
    then have "res_map F pf = Inl ZeroDivisionError" by (simp add: pf)
    then show ?thesis using True by (simp add: rows)
  next
    case False
    have "res_map F pf = Inr (map (\<lambda>(n, v). (n, R n v)) pf)"
      by (rule res_map_total)
         (use False in \<open>auto simp: F_def R_def percent_def share_def\<close>)
    then show ?thesis using False sort_key_map_snd [of R pf] by (simp add: rows R_def)
  qed
qed

text \<open>C31: A run whose traffic and rule groups could be read prints all three tables, the last with the
  prefilters in ascending order and with shares of the uses and of the bytes that add up to 100
  percent; but when the log lists prefilters and one of the two totals is zero, it stops with a
  division by zero after the second table.\<close>

theorem prefilter_shares:
  assumes "d = rev (dropWhile (\<lambda>c. c = CHR ''/'') (rev logdir))"
    and "parse_eve loads fs (path_join2 d ''eve.json'') = Inr (pkts, bytes)"
    and "load_rule_groups loads other fs (path_join2 d ''rule_group.json'') = Inr paths"
    and "pf = parse_prefilter_perf fs (path_join2 d ''prefilter_perf.log'')"
    and "u = sum_list (map (pf_uses \<circ> snd) pf)" and "b = sum_list (map (pf_bytes \<circ> snd) pf)"
  shows "(\<exists>t1 t2. log_main loads other fmt1 fs logdir =
      (if pf \<noteq> [] \<and> (u = 0 \<or> b = 0) then ([t1, t2], Some ZeroDivisionError)
       else ([t1, t2, prefilter_table
          (map (\<lambda>(n, v). [JStr n, JInt (pf_uses v), JStr (fmt1 (share (pf_uses v) u) @ ''%''),
             JInt (pf_bytes v), JStr (fmt1 (share (pf_bytes v) b) @ ''%'')]) (sort_key fst pf))], None))) \<and>
    (u \<noteq> 0 \<longrightarrow> sum_list (map (\<lambda>(n, v). share (pf_uses v) u) pf) = 100) \<and>
    (b \<noteq> 0 \<longrightarrow> sum_list (map (\<lambda>(n, v). share (pf_bytes v) b) pf) = 100)"
proof (intro conjI impI)
  show "\<exists>t1 t2. log_main loads other fmt1 fs logdir =
      (if pf \<noteq> [] \<and> (u = 0 \<or> b = 0) then ([t1, t2], Some ZeroDivisionError)
       else ([t1, t2, prefilter_table
          (map (\<lambda>(n, v). [JStr n, JInt (pf_uses v), JStr (fmt1 (share (pf_uses v) u) @ ''%''),
             JInt (pf_bytes v), JStr (fmt1 (share (pf_bytes v) b) @ ''%'')]) (sort_key fst pf))], None))"
    using prefilter_rows_eq [of fmt1 pf]
    by (simp add: log_main_def assms(1) [symmetric] assms(2-3) assms(4-6) [symmetric])
next
  assume "u \<noteq> 0"
  then show "sum_list (map (\<lambda>(n, v). share (pf_uses v) u) pf) = 100"
    using share_sum [of "pf_uses \<circ> snd" pf] by (simp add: assms(5) case_prod_unfold comp_def)
next
  assume "b \<noteq> 0"
  then show "sum_list (map (\<lambda>(n, v). share (pf_bytes v) b) pf) = 100"
    using share_sum [of "pf_bytes \<circ> snd" pf] by (simp add: assms(6) case_prod_unfold comp_def)
qed

definition demo_logs :: "string list \<Rightarrow> files" where
  "demo_logs pf path =
     (if path = ''logs/prefilter_perf.log'' then Some pf
      else if path = ''logs/eve.json'' then Some [] else None)"

theorem prefilter_shares_witness:
  "(\<exists>t1 t2. log_main (\<lambda>_. None) (\<lambda>_. []) (\<lambda>_. []) (demo_logs [''udp 0 1 0 0 10 0'', ''tcp 0 3 0 0 30 0'']) ''logs/'' =
      ([t1, t2, prefilter_table
         [[JStr ''tcp'', JInt 3, JStr ''%'', JInt 30, JStr ''%''], [JStr ''udp'', JInt 1, JStr ''%'', JInt 10, JStr ''%'']]],
       None)) \<and>
   (\<exists>t1 t2. log_main (\<lambda>_. None) (\<lambda>_. []) (\<lambda>_. []) (demo_logs [''tcp 0 0 0 0 0 0'']) ''logs/'' =
      ([t1, t2], Some ZeroDivisionError))"
proof -
  have d: "''logs'' = rev (dropWhile (\<lambda>c. c = CHR ''/'') (rev ''logs/''))" by code_simp
  have e: "parse_eve (\<lambda>_. None) (demo_logs pf) (path_join2 ''logs'' ''eve.json'') = Inr ([], [])" for pf
  proof -
    have "path_join2 ''logs'' ''eve.json'' = ''logs/eve.json''" by code_simp
    then show ?thesis by (simp add: parse_eve_def demo_logs_def)
  qed
  have r: "load_rule_groups (\<lambda>_. None) (\<lambda>_. []) (demo_logs pf) (path_join2 ''logs'' ''rule_group.json'') = Inr []"
    for pf by (simp add: load_rule_groups_def split: option.splits)
  have p1: "parse_prefilter_perf (demo_logs [''udp 0 1 0 0 10 0'', ''tcp 0 3 0 0 30 0''])
      (path_join2 ''logs'' ''prefilter_perf.log'') =
      [(''udp'', \<lparr>pf_uses = 1, pf_bytes = 10\<rparr>), (''tcp'', \<lparr>pf_uses = 3, pf_bytes = 30\<rparr>)]"
    by code_simp
  have p2: "parse_prefilter_perf (demo_logs [''tcp 0 0 0 0 0 0''])
      (path_join2 ''logs'' ''prefilter_perf.log'') = [(''tcp'', \<lparr>pf_uses = 0, pf_bytes = 0\<rparr>)]"
    by code_simp
  have s: "sort_key fst [(''udp'', \<lparr>pf_uses = 1, pf_bytes = 10\<rparr>), (''tcp'', \<lparr>pf_uses = 3, pf_bytes = 30\<rparr>)] =
      [(''tcp'', \<lparr>pf_uses = 3, pf_bytes = 30\<rparr>), (''udp'', \<lparr>pf_uses = 1, pf_bytes = 10\<rparr>)]"
    by code_simp
  show ?thesis
    using prefilter_shares [OF d e r p1 [symmetric] refl refl, of "\<lambda>_. []"]
      prefilter_shares [OF d e r p2 [symmetric] refl refl, of "\<lambda>_. []"]
    unfolding s by simp
qed

end
