(* ===== verification/Sampler_Main.thy ===== *)
theory Sampler_Main
  imports Rule_Subsets
begin

text \<open>
  The command line of data/rule_sampler.py: its function \<^verbatim>\<open>main\<close>, which runs one action on an
  input file and delivers the answer to an output file or to the terminal.

  The arguments are as \<^verbatim>\<open>argparse\<close> leaves them.  A run maps the table of files to the new one and
  to the answers it prints; a run that raises has its exception as the only result, and one that
  never ends is \<^term>\<open>None\<close>.  The table of files also gets the files of patterns handed to
  \<^verbatim>\<open>hscheck\<close> and to the RXP compiler and the files that the compiler writes.  Two names are two
  files: a table knows no links and no second way to write a path.  Warnings and messages of
  progress are left out.
\<close>

section \<open>Arguments and the outside world\<close>

record sampler_args =
  input_file :: string
  action :: string
  output_file :: "string option"
  arg0 :: "string option"
  arg1 :: "string option"

text \<open>What the actions take from outside: the rule parser, the random sample, the order of a set,
  the trie library, the checker of Hyperscan, the log, the summary and the compiled files of the RXP
  compiler (each compiled file with the suffix of its name), and the parsing and rounding of floats.\<close>

record 'r sampler_env =
  rule_parser :: "'r suricata"
  rand_sample :: "int option \<Rightarrow> string list \<Rightarrow> nat \<Rightarrow> string list"
  set_list :: "string list \<Rightarrow> string list"
  trie_regex :: "string list \<Rightarrow> string"
  hs_check :: "string list \<Rightarrow> int \<times> string"
  rxp_log :: "string list \<Rightarrow> string list"
  rxp_summary :: "string list \<Rightarrow> string list"
  rxp_compiled :: "(string \<times> (string list \<Rightarrow> string list)) list"
  float_of :: "string \<Rightarrow> real res"
  float_round :: "real \<Rightarrow> real"

type_synonym outcome = "files \<times> string list"

definition no_input_file :: string where
  "no_input_file = ''-''"

definition actions :: "string list" where
  "actions =
     [''to_hyperscan'', ''to_rxpc'', ''count'', ''preview'', ''cleanfix'', ''filter'', ''sample'',
      ''analyze'', ''extract_content'', ''extract_pcres'', ''gen_working_set'', ''filter_rxpc'',
      ''filter_hs'', ''analyze_docaflow'', ''gen_prefixes'', ''rules_from_patterns'',
      ''rules_to_subsets'']"

text \<open>The answer goes to the output file when one is named, otherwise to the terminal.\<close>

definition deliver :: "string option \<Rightarrow> string \<Rightarrow> files \<Rightarrow> outcome" where
  "deliver out message fs =
     (case write_to_file_or_print out message of
        (Some content, _) \<Rightarrow> (fs(the out \<mapsto> text_lines content), [])
      | (None, Some m) \<Rightarrow> (fs, [m])
      | (None, None) \<Rightarrow> (fs, []))"

definition nl_join :: "string list \<Rightarrow> string" where
  "nl_join ls = join [CHR 0x0A] ls"

text \<open>\<^verbatim>\<open>open(f, "w")\<close> and \<^verbatim>\<open>writelines\<close>: no name is a type error.\<close>

definition store :: "string option \<Rightarrow> string list \<Rightarrow> files \<Rightarrow> outcome res" where
  "store out ls fs =
     (case out of
        None \<Rightarrow> Inl TypeError
      | Some f \<Rightarrow> if f = [] then Inl FileNotFoundError else Inr (fs(f \<mapsto> text_lines (concat ls)), []))"

text \<open>An optional argument counts only when it is not empty.\<close>

definition given :: "string option \<Rightarrow> string option" where
  "given a = (case a of Some (c # s) \<Rightarrow> Some (c # s) | _ \<Rightarrow> None)"

definition flag_arg :: "string option \<Rightarrow> bool \<Rightarrow> bool res" where
  "flag_arg a dflt =
     (case given a of None \<Rightarrow> Inr dflt | Some s \<Rightarrow> res_bind (bool_parse s) (\<lambda>b. Inr (b = Some True)))"

definition int_arg :: "string option \<Rightarrow> int \<Rightarrow> int res" where
  "int_arg a dflt = (case given a of None \<Rightarrow> Inr dflt | Some s \<Rightarrow> py_int s)"

text \<open>\<^verbatim>\<open>os.path.basename(f).split(os.path.extsep)[0]\<close>\<close>

definition out_stem :: "string option \<Rightarrow> string res" where
  "out_stem out = (case out of None \<Rightarrow> Inl TypeError | Some f \<Rightarrow> Inr (hd (split_char (CHR ''.'') (basename f))))"

section \<open>The filters on files\<close>

definition temp_rgx :: string where
  "temp_rgx = ''temp.rgx''"

definition temp_hst :: string where
  "temp_hst = ''temp.hst''"

text \<open>The compiler names its files after its output; what it could not compile is in the last two.\<close>

definition log_suffix :: string where
  "log_suffix = ''_uncompiled_rules.log''"

definition summary_suffix :: string where
  "summary_suffix = ''_uncompiled_rules_summary.csv''"

definition compiler_files :: "'r sampler_env \<Rightarrow> (string \<times> (string list \<Rightarrow> string list)) list" where
  "compiler_files E = rxp_compiled E @ [(log_suffix, rxp_log E), (summary_suffix, rxp_summary E)]"

definition rxpc :: "'r sampler_env \<Rightarrow> string \<Rightarrow> string list \<Rightarrow> files \<Rightarrow> files" where
  "rxpc E rof2_out rgxs fs =
     fold (\<lambda>(suffix, content) fs. fs(rof2_out @ suffix \<mapsto> content rgxs)) (compiler_files E) fs"

text \<open>\<^term>\<open>filter_rxpc\<close> on files: the patterns go to the temporary file, the compiler runs, and the rules
  that are kept go to the output file.\<close>

definition filter_rxpc_file ::
  "'r sampler_env \<Rightarrow> string \<Rightarrow> string option \<Rightarrow> string \<Rightarrow> bool \<Rightarrow> bool \<Rightarrow> nat \<Rightarrow> files \<Rightarrow> outcome res" where
  "filter_rxpc_file E db_in db_out rof2_out include_pcres include_literals max_rules fs =
     res_bind (read_file fs db_in) (\<lambda>ls.
     res_bind (filter_rxpc (rule_parser E) (rxp_log E) ls include_pcres include_literals max_rules) (\<lambda>(rgxs, out).
       store db_out out (rxpc E rof2_out rgxs (fs(temp_rgx \<mapsto> text_lines (concat rgxs))))))"

text \<open>The iterative filter looks into the summary that the last run of the compiler left.\<close>

partial_function (option) rxpc_file_loop ::
  "'r sampler_env \<Rightarrow> string \<Rightarrow> bool \<Rightarrow> nat \<Rightarrow> string \<Rightarrow> files \<Rightarrow> files res option" where
  "rxpc_file_loop E out_name iterative max_rules db_out fs =
     (case (if iterative
            then res_bind (read_file fs (out_name @ summary_suffix)) (rxcp_get_n_uncompiled out_name) else Inr 0) of
        Inl e \<Rightarrow> Some (Inl e)
      | Inr n_uncompiled \<Rightarrow>
          if n_uncompiled \<le> 0 then Some (Inr fs)
          else
            (case filter_rxpc_file E db_out (Some db_out) out_name True True max_rules fs of
               Inl e \<Rightarrow> Some (Inl e)
             | Inr (fs', printed) \<Rightarrow> rxpc_file_loop E out_name iterative max_rules db_out fs'))"

definition full_rxpc_file ::
  "'r sampler_env \<Rightarrow> string \<Rightarrow> string option \<Rightarrow> bool \<Rightarrow> nat \<Rightarrow> files \<Rightarrow> files res option" where
  "full_rxpc_file E db_in db_out iterative max_rules fs =
     (case res_bind (out_stem db_out) (\<lambda>out_name.
            res_bind (filter_rxpc_file E db_in db_out out_name True True max_rules fs) (\<lambda>(fs', printed).
              Inr (out_name, fs'))) of
        Inl e \<Rightarrow> Some (Inl e)
      | Inr (out_name, fs') \<Rightarrow> rxpc_file_loop E out_name iterative max_rules (the db_out) fs')"

text \<open>The filter by \<^verbatim>\<open>hscheck\<close> reads its input before and after it writes the temporary file.\<close>

definition filter_hyperscan_file :: "'r sampler_env \<Rightarrow> string \<Rightarrow> string option \<Rightarrow> files \<Rightarrow> outcome res" where
  "filter_hyperscan_file E db_in db_out fs =
     res_bind (read_file fs db_in) (\<lambda>ls.
     res_bind (to_hyperscan (rule_parser E) ls False True True) (\<lambda>(lines, ids).
     let hst = map (\<lambda>l. l @ [CHR 0x0A]) lines;
         fs1 = fs(temp_hst \<mapsto> text_lines (concat hst))
     in res_bind (hs_excluded (hs_check E) hst (the ids)) (\<lambda>excluded.
        res_bind (read_file fs1 db_in) (\<lambda>ls'.
        res_bind (drop_excluded (rule_parser E) excluded ls') (\<lambda>out. store db_out out fs1)))))"

section \<open>Actions\<close>

definition run_count :: "sampler_args \<Rightarrow> files \<Rightarrow> outcome res" where
  "run_count a fs =
     res_bind (read_file fs (input_file a)) (\<lambda>ls.
       Inr (deliver (output_file a) (''rule count: '' @ nat_str (count_lines ls)) fs))"

text \<open>\<^verbatim>\<open>preview_file\<close> prints and returns \<^verbatim>\<open>None\<close>, over which \<^verbatim>\<open>main\<close> then iterates.\<close>

definition run_preview :: "sampler_args \<Rightarrow> files \<Rightarrow> outcome res" where
  "run_preview a fs =
     (let (fs', printed) = deliver (output_file a) ''Previewing the file...'' fs
      in res_bind (read_file fs' (input_file a)) (\<lambda>ls.
           let out = printed @ preview_file ls 5 in Inl TypeError))"

definition run_cleanfix :: "'r sampler_env \<Rightarrow> sampler_args \<Rightarrow> files \<Rightarrow> outcome res" where
  "run_cleanfix E a fs =
     res_bind (read_file fs (input_file a)) (\<lambda>ls.
     res_bind (clean_and_fix (rule_parser E) ls) (\<lambda>out. Inr (deliver (output_file a) (nl_join out) fs)))"

definition run_sample :: "'r sampler_env \<Rightarrow> sampler_args \<Rightarrow> files \<Rightarrow> outcome res" where
  "run_sample E a fs =
     res_bind (case arg0 a of None \<Rightarrow> Inl TypeError | Some s \<Rightarrow> py_int s) (\<lambda>n_samples.
     res_bind (case given (arg1 a) of None \<Rightarrow> Inr None | Some s \<Rightarrow> res_bind (py_int s) (\<lambda>i. Inr (Some i))) (\<lambda>fseed.
     res_bind (read_file fs (input_file a)) (\<lambda>ls.
     res_bind (sampleX (rand_sample E) (LFile ls) n_samples fseed) (\<lambda>out.
       Inr (deliver (output_file a) (nl_join out) fs)))))"

definition run_filter :: "'r sampler_env \<Rightarrow> sampler_args \<Rightarrow> files \<Rightarrow> outcome res" where
  "run_filter E a fs =
     res_bind (read_file fs (input_file a)) (\<lambda>ls.
     res_bind (doca_filter (rule_parser E) ls) (\<lambda>out. Inr (deliver (output_file a) (nl_join out) fs)))"

definition run_analyze :: "'r sampler_env \<Rightarrow> sampler_args \<Rightarrow> files \<Rightarrow> outcome res" where
  "run_analyze E a fs =
     res_bind (read_file fs (input_file a)) (\<lambda>ls.
     res_bind (analyze (rule_parser E) ls) (\<lambda>out. Inr (fs, out)))"

definition run_extract_content :: "'r sampler_env \<Rightarrow> sampler_args \<Rightarrow> files \<Rightarrow> outcome res" where
  "run_extract_content E a fs =
     res_bind (read_file fs (input_file a)) (\<lambda>ls.
     res_bind (extract_content_strings (rule_parser E) ls) (\<lambda>out.
       Inr (deliver (output_file a) (nl_join out) fs)))"

definition run_extract_pcres :: "'r sampler_env \<Rightarrow> sampler_args \<Rightarrow> files \<Rightarrow> outcome res" where
  "run_extract_pcres E a fs =
     res_bind (read_file fs (input_file a)) (\<lambda>ls.
     res_bind (extract_pcres (rule_parser E) ls False) (\<lambda>out.
       Inr (deliver (output_file a) (nl_join out) fs)))"

definition run_to_rxpc :: "'r sampler_env \<Rightarrow> sampler_args \<Rightarrow> files \<Rightarrow> outcome res" where
  "run_to_rxpc E a fs =
     res_bind (flag_arg (arg0 a) False) (\<lambda>uniqify.
     res_bind (flag_arg (arg1 a) False) (\<lambda>only_content.
     res_bind (read_file fs (input_file a)) (\<lambda>ls.
     res_bind (to_rxpc (rule_parser E) (set_list E) ls uniqify only_content False) (\<lambda>merged.
       Inr (deliver (output_file a) (nl_join merged) fs)))))"

definition run_to_hyperscan :: "'r sampler_env \<Rightarrow> sampler_args \<Rightarrow> files \<Rightarrow> outcome res" where
  "run_to_hyperscan E a fs =
     res_bind (flag_arg (arg0 a) True) (\<lambda>from_patterns.
     res_bind (flag_arg (arg1 a) False) (\<lambda>to_hs_tools.
     res_bind (read_file fs (input_file a)) (\<lambda>ls.
     res_bind (to_hyperscan (rule_parser E) ls from_patterns to_hs_tools False) (\<lambda>(merged, _).
       Inr (deliver (output_file a) (nl_join merged) fs)))))"

definition run_filter_hs :: "'r sampler_env \<Rightarrow> sampler_args \<Rightarrow> files \<Rightarrow> outcome res" where
  "run_filter_hs E a fs = filter_hyperscan_file E (input_file a) (output_file a) fs"

text \<open>The working set is written by the filter of the RXP compiler and then filtered in place.\<close>

definition run_gen_working_set :: "'r sampler_env \<Rightarrow> sampler_args \<Rightarrow> files \<Rightarrow> outcome res option" where
  "run_gen_working_set E a fs =
     (case (int_arg (arg0 a) 0xFFFFFFFF, flag_arg (arg1 a) False) of
        (Inl e, _) \<Rightarrow> Some (Inl e)
      | (Inr _, Inl e) \<Rightarrow> Some (Inl e)
      | (Inr max_rules, Inr iterative) \<Rightarrow>
          (case full_rxpc_file E (input_file a) (output_file a) iterative (nat max_rules) fs of
             None \<Rightarrow> None
           | Some (Inl e) \<Rightarrow> Some (Inl e)
           | Some (Inr fs') \<Rightarrow>
               Some (filter_hyperscan_file E (the (output_file a)) (output_file a) fs')))"

definition run_filter_rxpc :: "'r sampler_env \<Rightarrow> sampler_args \<Rightarrow> files \<Rightarrow> outcome res" where
  "run_filter_rxpc E a fs =
     res_bind (flag_arg (arg0 a) True) (\<lambda>include_pcres'.
     res_bind (flag_arg (arg1 a) True) (\<lambda>include_literals'.
     if given (arg0 a) = None \<or> given (arg1 a) = None
     then res_bind (out_stem (output_file a)) (\<lambda>_. Inl TypeError)
     else
       res_bind (out_stem (output_file a)) (\<lambda>rof2name.
         filter_rxpc_file E (input_file a) (output_file a) rof2name include_pcres' include_literals' 0xFFFFFFF fs)))"

definition run_analyze_docaflow :: "'r sampler_env \<Rightarrow> sampler_args \<Rightarrow> files \<Rightarrow> outcome res" where
  "run_analyze_docaflow E a fs =
     res_bind (read_file fs (input_file a)) (\<lambda>ls.
     res_bind (analyze_docaflow (rule_parser E) ls) (\<lambda>out. Inr (deliver (output_file a) out fs)))"

definition run_rules_from_patterns :: "'r sampler_env \<Rightarrow> sampler_args \<Rightarrow> files \<Rightarrow> outcome res" where
  "run_rules_from_patterns E a fs =
     res_bind (read_file fs (input_file a)) (\<lambda>ls.
       Inr (deliver (output_file a) (nl_join (rules_from_patterns (rule_parser E) ls)) fs))"

definition run_gen_prefixes :: "sampler_args \<Rightarrow> files \<Rightarrow> outcome res" where
  "run_gen_prefixes a fs =
     res_bind (int_arg (arg0 a) 4) (\<lambda>prefix_size.
     res_bind (int_arg (arg1 a) 32000) (\<lambda>max_prefixes.
     res_bind (gen_prefixes prefix_size max_prefixes) (\<lambda>out.
       Inr (deliver (output_file a) (nl_join out) fs))))"

text \<open>The ratios are read and summed before the input file.\<close>

definition run_rules_to_subsets :: "'r sampler_env \<Rightarrow> sampler_args \<Rightarrow> files \<Rightarrow> outcome res" where
  "run_rules_to_subsets E a fs =
     (case arg0 a of
        None \<Rightarrow> Inl AttributeError
      | Some ratio_str \<Rightarrow>
          res_bind (res_map (float_of E) (split_char (CHR '':'') ratio_str)) (\<lambda>ratios.
          if float_round E (sum_list ratios) \<noteq> 1 then Inl ValueError
          else res_bind (read_file fs (input_file a)) (\<lambda>rules.
               res_bind (rules_to_subsets (float_of E) (float_round E) rules ratio_str) (\<lambda>out.
                 store (output_file a) out fs))))"

definition run_compress_patterns :: "'r sampler_env \<Rightarrow> sampler_args \<Rightarrow> files \<Rightarrow> outcome res" where
  "run_compress_patterns E a fs =
     res_bind (int_arg (arg0 a) 10) (\<lambda>factor.
     res_bind (case given (arg1 a) of
         None \<Rightarrow> res_bind (read_file fs (input_file a)) (\<lambda>ls. Inr (provide_lines (LFile ls) True))
       | Some s \<Rightarrow>
           res_bind (py_int s) (\<lambda>n_rules.
           res_bind (read_file fs (input_file a)) (\<lambda>ls.
             sampleX (rand_sample E) (LFile ls) n_rules (Some 0)))) (\<lambda>lines.
     res_bind (compress_patterns (rule_parser E) (set_list E) (trie_regex E) (LList lines) factor) (\<lambda>compressed.
       Inr (deliver (output_file a) (nl_join (rgx_list_to_rxpc (LList compressed))) fs))))"

section \<open>The program\<close>

text \<open>\<^verbatim>\<open>gen_prefixes\<close> runs only without an input file; with one, no branch is taken.\<close>

definition sampler_action :: "'r sampler_env \<Rightarrow> sampler_args \<Rightarrow> files \<Rightarrow> outcome res" where
  "sampler_action E a fs =
     (let act = action a
      in if act = ''count'' then run_count a fs
         else if act = ''preview'' then run_preview a fs
         else if act = ''cleanfix'' then run_cleanfix E a fs
         else if act = ''sample'' then run_sample E a fs
         else if act = ''filter'' then run_filter E a fs
         else if act = ''analyze'' then run_analyze E a fs
         else if act = ''extract_content'' then run_extract_content E a fs
         else if act = ''extract_pcres'' then run_extract_pcres E a fs
         else if act = ''to_rxpc'' then run_to_rxpc E a fs
         else if act = ''to_hyperscan'' then run_to_hyperscan E a fs
         else if act = ''filter_rxpc'' then run_filter_rxpc E a fs
         else if act = ''filter_hs'' then run_filter_hs E a fs
         else if act = ''analyze_docaflow'' then run_analyze_docaflow E a fs
         else if act = ''rules_from_patterns'' then run_rules_from_patterns E a fs
         else if input_file a = no_input_file \<and> act = ''gen_prefixes'' then run_gen_prefixes a fs
         else if act = ''rules_to_subsets'' then run_rules_to_subsets E a fs
         else if act = ''compress_patterns'' then run_compress_patterns E a fs
         else Inr (fs, []))"

definition sampler_main :: "'r sampler_env \<Rightarrow> sampler_args \<Rightarrow> files \<Rightarrow> outcome res option" where
  "sampler_main E a fs =
     (if action a \<notin> set actions then Some (Inl (SystemExit 2))
      else if input_file a \<noteq> no_input_file \<and> fs (input_file a) = None then Some (Inl (SystemExit (-1)))
      else if action a = ''gen_working_set'' then run_gen_working_set E a fs
      else Some (sampler_action E a fs))"

section \<open>What a run changes\<close>

text \<open>The files with fixed names that the filters write beside their output file, and those that the
  compiler names after it.\<close>

definition compiler_names :: "'r sampler_env \<Rightarrow> string \<Rightarrow> string set" where
  "compiler_names E name = (\<lambda>(suffix, content). name @ suffix) ` set (compiler_files E)"

definition scratch_file :: "'r sampler_env \<Rightarrow> sampler_args \<Rightarrow> string \<Rightarrow> bool" where
  "scratch_file E a f \<longleftrightarrow>
     action a \<in> {''filter_rxpc'', ''gen_working_set''} \<and>
       (f = temp_rgx \<or> (\<exists>name. out_stem (output_file a) = Inr name \<and> f \<in> compiler_names E name)) \<or>
     action a \<in> {''filter_hs'', ''gen_working_set''} \<and> f = temp_hst"

text \<open>The outcome of an action that leaves all files but the output file and the scratch files as they
  are, and prints nothing when an output file is named.\<close>

definition frame :: "'r sampler_env \<Rightarrow> sampler_args \<Rightarrow> files \<Rightarrow> outcome \<Rightarrow> bool" where
  "frame E a fs oc \<longleftrightarrow>
     (\<forall>f. given (output_file a) \<noteq> Some f \<longrightarrow> \<not> scratch_file E a f \<longrightarrow> fst oc f = fs f) \<and>
     (given (output_file a) \<noteq> None \<and> action a \<noteq> ''analyze'' \<longrightarrow> snd oc = [])"

lemma rxpc_other: "f \<notin> compiler_names E name \<Longrightarrow> rxpc E name rgxs fs f = fs f"
proof -
  have "f \<notin> (\<lambda>(suffix, content). name @ suffix) ` set cs \<Longrightarrow>
      fold (\<lambda>(suffix, content) fs. fs(name @ suffix \<mapsto> content rgxs)) cs fs f = fs f" for cs fs
    by (induction cs arbitrary: fs) auto
  then show "f \<notin> compiler_names E name \<Longrightarrow> rxpc E name rgxs fs f = fs f"
    by (simp add: rxpc_def compiler_names_def)
qed

lemma rxpc_summary: "rxpc E name rgxs fs (name @ summary_suffix) = Some (rxp_summary E rgxs)"
  by (simp add: rxpc_def compiler_files_def)

lemma store_Inr: "store out ls fs = Inr oc \<Longrightarrow> \<exists>f. out = Some f \<and> f \<noteq> [] \<and> oc = (fs(f \<mapsto> text_lines (concat ls)), [])"
  by (auto simp: store_def split: option.splits if_splits)

lemma frame_deliver: "frame E a fs (deliver (output_file a) m fs)"
  by (auto simp: frame_def deliver_def write_to_file_or_print_def given_def split: option.splits list.splits)

lemma frame_store: "store (output_file a) ls fs = Inr oc \<Longrightarrow> frame E a fs oc"
  by (auto simp: frame_def given_def dest!: store_Inr split: list.splits)

lemma frame_same: "frame E a fs (fs, []) "
  "action a = ''analyze'' \<Longrightarrow> frame E a fs (fs, out)"
  by (simp_all add: frame_def)

lemma frame_after: "frame E a fs' oc \<Longrightarrow> (\<And>f. given (output_file a) \<noteq> Some f \<Longrightarrow> \<not> scratch_file E a f \<Longrightarrow> fs' f = fs f) \<Longrightarrow>
    frame E a fs oc"
  by (auto simp: frame_def)

lemma filter_rxpc_file_frame:
  assumes "filter_rxpc_file E i (output_file a) name ip il m fs = Inr oc" "out_stem (output_file a) = Inr name"
    and "action a = ''filter_rxpc'' \<or> action a = ''gen_working_set''"
  shows "frame E a fs oc"
proof -
  obtain rgxs out where "store (output_file a) out (rxpc E name rgxs (fs(temp_rgx \<mapsto> text_lines (concat rgxs)))) = Inr oc"
    using assms(1) by (auto simp: filter_rxpc_file_def res_bind_eq_Inr)
  then have "frame E a (rxpc E name rgxs (fs(temp_rgx \<mapsto> text_lines (concat rgxs)))) oc" by (rule frame_store)
  then show ?thesis
  proof (rule frame_after)
    fix f assume "\<not> scratch_file E a f"
    then have "f \<noteq> temp_rgx" "f \<notin> compiler_names E name" using assms(2,3) by (auto simp: scratch_file_def)
    then show "rxpc E name rgxs (fs(temp_rgx \<mapsto> text_lines (concat rgxs))) f = fs f" by (simp add: rxpc_other)
  qed
qed

lemma filter_hyperscan_file_frame:
  assumes "filter_hyperscan_file E i (output_file a) fs = Inr oc" "action a = ''filter_hs'' \<or> action a = ''gen_working_set''"
  shows "frame E a fs oc"
proof -
  obtain t out where "store (output_file a) out (fs(temp_hst \<mapsto> t)) = Inr oc"
    using assms(1) by (auto simp: filter_hyperscan_file_def Let_def res_bind_eq_Inr)
  then have "frame E a (fs(temp_hst \<mapsto> t)) oc" by (rule frame_store)
  then show ?thesis by (rule frame_after) (use assms(2) in \<open>auto simp: scratch_file_def\<close>)
qed

lemmas rxpc_file_loop_induct = rxpc_file_loop.raw_induct [rotated, consumes 1, case_names step]

lemma loop_frame:
  assumes "rxpc_file_loop E name iterative m f fs = Some r"
  shows "output_file a = Some f \<Longrightarrow> out_stem (Some f) = Inr name \<Longrightarrow> action a = ''gen_working_set'' \<Longrightarrow> r = Inr fs' \<Longrightarrow>
    frame E a fs (fs', [])"
  using assms
proof (induction rule: rxpc_file_loop_induct)
  case (step loop E name iterative m f fs r)
  show ?case
  proof (cases "fs' = fs")
    case True
    then show ?thesis by (simp add: frame_same)
  next
    case False
    then obtain fs1 printed where run: "filter_rxpc_file E f (Some f) name True True m fs = Inr (fs1, printed)"
      "loop E name iterative m f fs1 = Some (Inr fs')"
      using step.hyps step.prems by (auto split: sum.splits if_split_asm)
    have "frame E a fs (fs1, printed)" using filter_rxpc_file_frame [of E f a name] run(1) step.prems by simp
    moreover have "frame E a fs1 (fs', [])" using step.IH [OF run(2)] step.prems by simp
    ultimately show ?thesis by (auto simp: frame_def)
  qed
qed

lemmas run_defs =
  run_count_def run_preview_def run_cleanfix_def run_sample_def run_filter_def run_extract_content_def
  run_extract_pcres_def run_to_rxpc_def run_to_hyperscan_def
  run_analyze_docaflow_def run_rules_from_patterns_def run_gen_prefixes_def run_rules_to_subsets_def
  run_compress_patterns_def

lemma action_frames:
  "run_count a fs = Inr oc \<Longrightarrow> frame E a fs oc"
  "run_preview a fs = Inr oc \<Longrightarrow> frame E a fs oc"
  "run_cleanfix E a fs = Inr oc \<Longrightarrow> frame E a fs oc"
  "run_sample E a fs = Inr oc \<Longrightarrow> frame E a fs oc"
  "run_filter E a fs = Inr oc \<Longrightarrow> frame E a fs oc"
  "run_analyze E a fs = Inr oc \<Longrightarrow> action a = ''analyze'' \<Longrightarrow> frame E a fs oc"
  "run_extract_content E a fs = Inr oc \<Longrightarrow> frame E a fs oc"
  "run_extract_pcres E a fs = Inr oc \<Longrightarrow> frame E a fs oc"
  "run_to_rxpc E a fs = Inr oc \<Longrightarrow> frame E a fs oc"
  "run_to_hyperscan E a fs = Inr oc \<Longrightarrow> frame E a fs oc"
  "run_analyze_docaflow E a fs = Inr oc \<Longrightarrow> frame E a fs oc"
  "run_rules_from_patterns E a fs = Inr oc \<Longrightarrow> frame E a fs oc"
  "run_gen_prefixes a fs = Inr oc \<Longrightarrow> frame E a fs oc"
  "run_rules_to_subsets E a fs = Inr oc \<Longrightarrow> frame E a fs oc"
  "run_compress_patterns E a fs = Inr oc \<Longrightarrow> frame E a fs oc"
  by (auto simp: run_defs run_analyze_def frame_deliver Let_def res_bind_eq_Inr frame_same
      split: option.splits if_splits prod.splits list.splits intro: frame_store)

lemma run_filter_hs_frame: "run_filter_hs E a fs = Inr oc \<Longrightarrow> action a = ''filter_hs'' \<Longrightarrow> frame E a fs oc"
  unfolding run_filter_hs_def by (rule filter_hyperscan_file_frame) simp_all

lemma run_filter_rxpc_frame: "run_filter_rxpc E a fs = Inr oc \<Longrightarrow> action a = ''filter_rxpc'' \<Longrightarrow> frame E a fs oc"
  by (auto simp: run_filter_rxpc_def res_bind_eq_Inr split: if_splits intro: filter_rxpc_file_frame)

lemma sampler_action_frame:
  assumes "sampler_action E a fs = Inr oc" shows "frame E a fs oc"
  using assms unfolding sampler_action_def Let_def
  by (auto split: if_split_asm intro: action_frames run_filter_hs_frame run_filter_rxpc_frame frame_same)

lemma gen_working_set_frame:
  assumes "run_gen_working_set E a fs = Some (Inr oc)" "action a = ''gen_working_set''" shows "frame E a fs oc"
proof -
  obtain iterative m fs2 where full: "full_rxpc_file E (input_file a) (output_file a) iterative m fs = Some (Inr fs2)"
      and hs: "filter_hyperscan_file E (the (output_file a)) (output_file a) fs2 = Inr oc"
    using assms by (auto simp: run_gen_working_set_def split: prod.splits sum.splits option.splits)
  obtain name fs1 printed where run: "out_stem (output_file a) = Inr name"
    "filter_rxpc_file E (input_file a) (output_file a) name True True m fs = Inr (fs1, printed)"
    "rxpc_file_loop E name iterative m (the (output_file a)) fs1 = Some (Inr fs2)"
    using full by (auto simp: full_rxpc_file_def res_bind_eq_Inr split: sum.splits)
  then have out: "output_file a = Some (the (output_file a))" by (cases "output_file a") (auto simp: out_stem_def)
  have "frame E a fs (fs1, printed)" by (rule filter_rxpc_file_frame [OF run(2,1)]) (simp add: assms(2))
  moreover have "frame E a fs1 (fs2, [])"
    by (rule loop_frame [OF run(3) out _ assms(2) refl]) (use run(1) out in simp)
  moreover have "frame E a fs2 oc" by (rule filter_hyperscan_file_frame [OF hs]) (simp add: assms(2))
  ultimately show ?thesis by (auto simp: frame_def)
qed

text \<open>C32: A run that succeeds leaves every file but its output file and the scratch files of its action
  as it was: a filter by the RXP compiler also writes temp.rgx and the files that the compiler names
  after the output, a filter by Hyperscan temp.hst, and the working set is filtered by both.  The run
  prints nothing when an output file is named (unless it analyses), and was given an existing input
  file or none; the previewing action never succeeds, and the compressing one is refused.\<close>

theorem sampler_main_frame:
  assumes "sampler_main E a fs = Some (Inr (fs', out))"
  shows "(\<forall>f. given (output_file a) \<noteq> Some f \<longrightarrow> \<not> scratch_file E a f \<longrightarrow> fs' f = fs f) \<and>
    (given (output_file a) \<noteq> None \<and> action a \<noteq> ''analyze'' \<longrightarrow> out = []) \<and>
    (input_file a = no_input_file \<or> fs (input_file a) \<noteq> None) \<and>
    action a \<in> set actions - {''preview'', ''compress_patterns''}"
proof -
  have "frame E a fs (fs', out)"
    using assms by (auto simp: sampler_main_def split: if_split_asm intro: sampler_action_frame gen_working_set_frame)
  moreover have "action a \<in> set actions" "input_file a = no_input_file \<or> fs (input_file a) \<noteq> None"
    using assms by (auto simp: sampler_main_def split: if_split_asm)
  moreover have "action a \<noteq> ''preview''"
  proof
    assume "action a = ''preview''"
    then have "sampler_action E a fs = run_preview a fs" by (simp add: sampler_action_def)
    then show False using assms \<open>action a = ''preview''\<close>
      by (auto simp: sampler_main_def run_preview_def split: if_split_asm prod.splits)
  qed
  moreover have "''compress_patterns'' \<notin> set actions" by code_simp
  ultimately show ?thesis unfolding frame_def fst_conv snd_conv by auto
qed

definition demo_env :: "(string \<times> opt list) sampler_env" where
  "demo_env =
     \<lparr>rule_parser = demo_suricata, rand_sample = (\<lambda>_ ls n. take n ls), set_list = remdups,
      trie_regex = concat, hs_check = (\<lambda>_. (0, [])), rxp_log = (\<lambda>_. []),
      rxp_summary = (\<lambda>_. [''Total number of uncompiled rules,0'']), rxp_compiled = [(''.rof2'', \<lambda>_. [])],
      float_of = (\<lambda>_. Inr 1), float_round = (\<lambda>x. x)\<rparr>"

definition demo_args :: "string \<Rightarrow> sampler_args" where
  "demo_args act =
     \<lparr>input_file = ''in'', action = act, output_file = Some ''out'', arg0 = None, arg1 = Some ''true''\<rparr>"

definition demo_files :: files where
  "demo_files f = (if f = ''in'' then Some [''1'' @ [CHR 0x0A], ''# 2'' @ [CHR 0x0A], ''3''] else None)"

theorem sampler_main_frame_witness:
  "sampler_main demo_env (demo_args ''count'') demo_files =
     Some (Inr (demo_files(''out'' \<mapsto> [''rule count: 2'' @ [CHR 0x0A]]), [])) \<and>
   (demo_files(''out'' \<mapsto> [''rule count: 2'' @ [CHR 0x0A]])) ''in'' = demo_files ''in''"
proof -
  have read: "read_file demo_files ''in'' = Inr [''1'' @ [CHR 0x0A], ''# 2'' @ [CHR 0x0A], ''3'']"
    by (simp add: read_file_def demo_files_def)
  have n: "''rule count: '' @ nat_str (count_lines [''1'' @ [CHR 0x0A], ''# 2'' @ [CHR 0x0A], ''3'']) = ''rule count: 2''"
    by code_simp
  have t: "text_lines (''rule count: 2'' @ [CHR 0x0A]) = [''rule count: 2'' @ [CHR 0x0A]]" by code_simp
  have act: "''count'' \<in> set actions" by code_simp
  have "run_count (demo_args ''count'') demo_files =
      Inr (demo_files(''out'' \<mapsto> [''rule count: 2'' @ [CHR 0x0A]]), [])"
    unfolding run_count_def demo_args_def sampler_args.simps read res_bind_simps n deliver_def
      write_to_file_or_print_def option.case list.case prod.case option.sel t ..
  then have run: "sampler_main demo_env (demo_args ''count'') demo_files =
      Some (Inr (demo_files(''out'' \<mapsto> [''rule count: 2'' @ [CHR 0x0A]]), []))"
    using act by (simp add: sampler_main_def sampler_action_def demo_args_def demo_files_def no_input_file_def)
  show ?thesis
    using sampler_main_frame [OF run] run by (auto simp: demo_args_def given_def scratch_file_def)
qed

section \<open>The working set\<close>

lemma lines_keep_line: "CHR 0x0A \<notin> set l \<Longrightarrow> lines_keep acc (l @ CHR 0x0A # s) = (rev acc @ l @ [CHR 0x0A]) # lines_keep [] s"
  by (induction l arbitrary: acc) auto

lemma univ_newlines_id: "CHR 0x0D \<notin> set s \<Longrightarrow> univ_newlines s = s"
  by (induction s rule: univ_newlines.induct) auto

lemma text_lines_written:
  assumes "\<forall>l \<in> set ls. CHR 0x0A \<notin> set l \<and> CHR 0x0D \<notin> set l"
  shows "text_lines (concat (map (\<lambda>l. l @ [CHR 0x0A]) ls)) = map (\<lambda>l. l @ [CHR 0x0A]) ls"
proof -
  have "lines_keep [] (concat (map (\<lambda>l. l @ [CHR 0x0A]) ls)) = map (\<lambda>l. l @ [CHR 0x0A]) ls"
    using assms by (induction ls) (auto simp: lines_keep_line)
  moreover have "CHR 0x0D \<notin> set (concat (map (\<lambda>l. l @ [CHR 0x0A]) ls))" using assms by auto
  ultimately show ?thesis by (simp add: text_lines_def univ_newlines_id)
qed

text \<open>The lines a filter writes: some of those it read, each with a line end.\<close>

definition written_from :: "string list \<Rightarrow> string list \<Rightarrow> bool" where
  "written_from ls out \<longleftrightarrow> (\<exists>ks. subseq ks ls \<and> out = map (\<lambda>l. l @ [CHR 0x0A]) ks)"

lemma written_from_map:
  assumes "res_map F ls = Inr ys" and "\<And>l y. F l = Inr y \<Longrightarrow> y = [] \<or> y = [l @ [CHR 0x0A]]"
  shows "written_from ls (concat ys)"
  using assms(1)
proof (induction ls arbitrary: ys)
  case Nil
  then show ?case by (simp add: written_from_def)
next
  case (Cons l ls)
  then obtain y ys' where y: "F l = Inr y" "res_map F ls = Inr ys'" "ys = y # ys'" by auto
  obtain ks where "subseq ks ls" "concat ys' = map (\<lambda>l. l @ [CHR 0x0A]) ks"
    using Cons.IH [OF y(2)] by (auto simp: written_from_def)
  then show ?case
    using assms(2) [OF y(1)] y(3) unfolding written_from_def
    by (auto intro: exI [of _ ks] exI [of _ "l # ks"])
qed

lemma filter_rxpc_written:
  assumes "filter_rxpc S ulog db ip il m = Inr (rgxs, out)" shows "written_from (rule_lines db) out"
  using assms unfolding filter_rxpc_def Let_def
  by (auto dest!: written_from_map split: if_split_asm)

lemma filter_hyperscan_written:
  assumes "filter_hyperscan S hs db = Inr out" shows "written_from (rule_lines db) out"
  using assms unfolding filter_hyperscan_def drop_excluded_def
  by (auto simp: res_bind_eq_Inr dest!: written_from_map split: if_split_asm)

lemma written_rules:
  assumes "written_from (rule_lines db) out"
  shows "subseq (rule_lines out) (rule_lines db)"
    and "\<forall>l \<in> set db. CHR 0x0D \<notin> set l \<Longrightarrow> text_lines (concat out) = out \<and> (\<forall>l \<in> set out. CHR 0x0D \<notin> set l)"
proof -
  obtain ks where ks: "subseq ks (rule_lines db)" "out = map (\<lambda>l. l @ [CHR 0x0A]) ks"
    using assms by (auto simp: written_from_def)
  then have "set ks \<subseteq> set (rule_lines db)" by (auto elim: list_emb_set)
  then have line: "\<forall>l \<in> set ks. rule_line l" using rule_lines_lines by blast
  then show "subseq (rule_lines out) (rule_lines db)" using ks by (simp add: rule_lines_written)
  show "text_lines (concat out) = out \<and> (\<forall>l \<in> set out. CHR 0x0D \<notin> set l)"
    if r: "\<forall>l \<in> set db. CHR 0x0D \<notin> set l"
  proof -
    have "\<forall>l \<in> set (rule_lines db). CHR 0x0D \<notin> set l"
      using r set_strip by (force simp: rule_lines_def filter_whitespace_def replace_char_away)
    then show ?thesis
      using ks(2) line \<open>set ks \<subseteq> _\<close> by (auto simp: rule_line_def intro!: text_lines_written)
  qed
qed

lemma settled_written:
  assumes "settled S ulog summary name iter m db out"
  shows "\<exists>db'. subseq (rule_lines db') (rule_lines db) \<and> written_from (rule_lines db) out"
proof -
  obtain db' rgxs where db': "subseq (rule_lines db') (rule_lines db)"
      "filter_rxpc S ulog db' True True m = Inr (rgxs, out)"
    using assms by (auto simp: settled_def)
  then show ?thesis
    using filter_rxpc_written [OF db'(2)] unfolding written_from_def by (blast intro: subseq_order.trans)
qed

lemma set_split_char: "p \<in> set (split_char c s) \<Longrightarrow> set p \<subseteq> set s"
  by (induction s arbitrary: p) (fastforce split: if_splits list.splits)+

lemma takeWhile_all: "(\<And>x. x \<in> set xs \<Longrightarrow> P x) \<Longrightarrow> takeWhile P xs = xs"
  by (induction xs) auto

lemma not_the_summary: "f \<noteq> hd (split_char (CHR ''.'') (basename f)) @ summary_suffix"
proof
  let ?n = "hd (split_char (CHR ''.'') (basename f))"
  assume f: "f = ?n @ summary_suffix"
  have n: "?n \<in> set (split_char (CHR ''.'') (basename f))" by simp
  have dot: "CHR ''.'' \<notin> set ?n" by (rule split_char_pieces [OF n])
  have "set ?n \<subseteq> set (basename f)" using set_split_char [OF n] by blast
  moreover have "CHR ''/'' \<notin> set (basename f)" by (auto simp: basename_def dest: set_takeWhileD)
  ultimately have "CHR ''/'' \<notin> set (?n @ summary_suffix)" by (auto simp: summary_suffix_def)
  then have "CHR ''/'' \<notin> set f" using f by simp
  then have "takeWhile (\<lambda>c. c \<noteq> CHR ''/'') (rev f) = rev f"
    by (intro takeWhile_all) auto
  then have base: "basename f = f" by (simp only: basename_def rev_rev_ident)
  have "summary_suffix = ''_uncompiled_rules_summary'' @ CHR ''.'' # ''csv''" by (simp add: summary_suffix_def)
  then have "f = (?n @ ''_uncompiled_rules_summary'') @ CHR ''.'' # ''csv''" using f by simp
  moreover have "CHR ''.'' \<notin> set (?n @ ''_uncompiled_rules_summary'')" using dot by simp
  ultimately have "hd (split_char (CHR ''.'') f) = ?n @ ''_uncompiled_rules_summary''"
    by (metis list.sel(1) split_char_append)
  then show False using base by simp
qed

text \<open>On files the loop does what \<^term>\<open>rxpc_loop\<close> does on their contents.\<close>

definition holds_result :: "string \<Rightarrow> (string list \<times> nat) res \<Rightarrow> files res \<Rightarrow> bool" where
  "holds_result f r r' \<longleftrightarrow>
     (case r of Inl e \<Rightarrow> r' = Inl e | Inr (ws, n) \<Rightarrow> \<exists>fs'. r' = Inr fs' \<and> fs' f = Some ws)"

lemma filter_rxpc_file_run:
  assumes "fs i = Some db" "\<forall>l \<in> set db. CHR 0x0D \<notin> set l" "f \<noteq> []" "f \<noteq> name @ summary_suffix"
    and "filter_rxpc (rule_parser E) (rxp_log E) db True True m = Inr (rgxs, out)"
  shows "\<exists>fs'. filter_rxpc_file E i (Some f) name True True m fs = Inr (fs', []) \<and> fs' f = Some out \<and>
    fs' (name @ summary_suffix) = Some (rxp_summary E rgxs) \<and> (\<forall>l \<in> set out. CHR 0x0D \<notin> set l)"
proof -
  have "text_lines (concat out) = out \<and> (\<forall>l \<in> set out. CHR 0x0D \<notin> set l)"
    by (rule written_rules(2) [OF filter_rxpc_written [OF assms(5)] assms(2)])
  then show ?thesis using assms by (auto simp: filter_rxpc_file_def read_file_def store_def rxpc_summary)
qed

lemmas rxpc_loop_induct = rxpc_loop.raw_induct [rotated, consumes 1, case_names step]

lemma loop_on_files:
  assumes "rxpc_loop S ulog summary name iterative m rgxs db n = Some r"
  shows "S = rule_parser E \<Longrightarrow> ulog = rxp_log E \<Longrightarrow> summary = rxp_summary E \<Longrightarrow> fs f = Some db \<Longrightarrow>
    \<forall>l \<in> set db. CHR 0x0D \<notin> set l \<Longrightarrow> f \<noteq> [] \<Longrightarrow> f \<noteq> name @ summary_suffix \<Longrightarrow>
    fs (name @ summary_suffix) = Some (rxp_summary E rgxs) \<Longrightarrow>
    \<exists>r'. rxpc_file_loop E name iterative m f fs = Some r' \<and> holds_result f r r'"
  using assms
proof (induction arbitrary: fs rule: rxpc_loop_induct)
  case (step loop S ulog summary name iterative m rgxs db n r)
  have left: "(if iterative then res_bind (read_file fs (name @ summary_suffix)) (rxcp_get_n_uncompiled name) else Inr 0) =
      (if iterative then rxcp_get_n_uncompiled name (summary rgxs) else Inr 0)"
    using step.prems by (simp add: read_file_def)
  show ?case
  proof (cases "if iterative then rxcp_get_n_uncompiled name (summary rgxs) else Inr 0")
    case (Inl e)
    then show ?thesis using step.hyps left by (subst rxpc_file_loop.simps) (auto simp: holds_result_def)
  next
    case k: (Inr k)
    show ?thesis
    proof (cases "k \<le> 0")
      case True
      then show ?thesis
        using step.hyps step.prems k left by (subst rxpc_file_loop.simps) (auto simp: holds_result_def)
    next
      case False
      show ?thesis
      proof (cases "filter_rxpc S ulog db True True m")
        case (Inl e)
        then have "filter_rxpc_file E f (Some f) name True True m fs = Inl e"
          using step.prems by (simp add: filter_rxpc_file_def read_file_def)
        then show ?thesis
          using step.hyps k left False Inl by (subst rxpc_file_loop.simps) (auto simp: holds_result_def)
      next
        case (Inr p)
        obtain rgxs' out where p: "p = (rgxs', out)" by (cases p)
        have loop: "loop S ulog summary name iterative m rgxs' out (n + 1) = Some r"
          using step.hyps k False Inr p by simp
        have "filter_rxpc (rule_parser E) (rxp_log E) db True True m = Inr (rgxs', out)"
          using Inr p step.prems(1,2) by simp
        from filter_rxpc_file_run [where E = E and fs = fs and i = f, OF step.prems(4-7) this]
        obtain fs' where fs': "filter_rxpc_file E f (Some f) name True True m fs = Inr (fs', [])"
          "fs' f = Some out" "fs' (name @ summary_suffix) = Some (rxp_summary E rgxs')" "\<forall>l \<in> set out. CHR 0x0D \<notin> set l"
          by blast
        have "\<exists>r'. rxpc_file_loop E name iterative m f fs' = Some r' \<and> holds_result f r r'"
          by (rule step.IH [OF loop step.prems(1-3) fs'(2,4) step.prems(6,7) fs'(3)])
        then show ?thesis using left k False fs'(1) by (subst rxpc_file_loop.simps) simp
      qed
    qed
  qed
qed

lemma full_rxpc_on_files:
  assumes "full_rxpc_filter (rule_parser E) (rxp_log E) (rxp_summary E) name db iterative m = Some r"
    and "name = hd (split_char (CHR ''.'') (basename f))" "f \<noteq> []" "fs i = Some db" "\<forall>l \<in> set db. CHR 0x0D \<notin> set l"
  shows "\<exists>r'. full_rxpc_file E i (Some f) iterative m fs = Some r' \<and> holds_result f r r'"
proof (cases "filter_rxpc (rule_parser E) (rxp_log E) db True True m")
  case (Inl e)
  then show ?thesis
    using assms by (auto simp: full_rxpc_file_def full_rxpc_filter_def out_stem_def filter_rxpc_file_def read_file_def holds_result_def)
next
  case (Inr p)
  obtain rgxs out where p: "p = (rgxs, out)" by (cases p)
  have f: "f \<noteq> name @ summary_suffix" unfolding assms(2) by (rule not_the_summary)
  from filter_rxpc_file_run [where E = E and fs = fs and i = i, OF assms(4,5,3) f Inr [unfolded p]]
  obtain fs' where fs': "filter_rxpc_file E i (Some f) name True True m fs = Inr (fs', [])"
    "fs' f = Some out" "fs' (name @ summary_suffix) = Some (rxp_summary E rgxs)" "\<forall>l \<in> set out. CHR 0x0D \<notin> set l"
    by blast
  have "rxpc_loop (rule_parser E) (rxp_log E) (rxp_summary E) name iterative m rgxs out 1 = Some r"
    using assms(1) Inr p by (simp add: full_rxpc_filter_def)
  then have "\<exists>r'. rxpc_file_loop E name iterative m f fs' = Some r' \<and> holds_result f r r'"
    by (rule loop_on_files) (use fs' f assms(3) in auto)
  then show ?thesis using fs'(1) assms(2) by (simp add: full_rxpc_file_def out_stem_def)
qed

lemma res_bind_assoc: "res_bind (res_bind x g) h = res_bind x (\<lambda>y. res_bind (g y) h)"
  by (cases x) simp_all

lemma filter_hyperscan_on_file:
  assumes "fs f = Some ws" "f \<noteq> temp_hst" "f \<noteq> []"
  shows "\<exists>t. filter_hyperscan_file E f (Some f) fs =
    res_bind (filter_hyperscan (rule_parser E) (hs_check E) ws) (\<lambda>out. Inr (fs(temp_hst := t, f \<mapsto> text_lines (concat out)), []))"
proof (cases "to_hyperscan (rule_parser E) ws False True True")
  case (Inl e)
  then show ?thesis using assms by (simp add: filter_hyperscan_file_def filter_hyperscan_def read_file_def)
next
  case (Inr p)
  show ?thesis
    by (rule exI [of _ "Some (text_lines (concat (map (\<lambda>l. l @ [CHR 0x0A]) (fst p))))"])
      (use assms Inr in \<open>simp add: filter_hyperscan_file_def filter_hyperscan_def read_file_def store_def Let_def res_bind_assoc split: prod.split\<close>)
qed

lemma gen_working_set_run:
  assumes law: "\<And>rgxs k. rxcp_get_n_uncompiled name (rxp_summary E rgxs) = Inr k \<Longrightarrow> 0 < k \<Longrightarrow>
      uncompiled_of (rxp_log E rgxs) \<noteq> Inr []"
    and readable: "\<And>l. l \<in> set (rule_lines db) \<Longrightarrow> readable (rule_parser E) l"
    and out: "output_file a = Some f" "f \<noteq> []" "f \<noteq> temp_hst" "name = hd (split_char (CHR ''.'') (basename f))"
    and args: "int_arg (arg0 a) 0xFFFFFFFF = Inr max_rules" "flag_arg (arg1 a) False = Inr iterative"
    and db: "fs (input_file a) = Some db" "\<forall>l \<in> set db. CHR 0x0D \<notin> set l"
  shows "\<exists>r. run_gen_working_set E a fs = Some r \<and>
    (\<forall>fs' printed. r = Inr (fs', printed) \<longrightarrow>
      (\<exists>ws out. settled (rule_parser E) (rxp_log E) (rxp_summary E) name iterative (nat max_rules) db ws \<and>
         filter_hyperscan (rule_parser E) (hs_check E) ws = Inr out \<and>
         fs' f = Some out \<and> subseq (rule_lines out) (rule_lines db)))"
proof -
  let ?full = "full_rxpc_filter (rule_parser E) (rxp_log E) (rxp_summary E) name db iterative (nat max_rules)"
  obtain r where r: "?full = Some r"
      "\<And>ws n. r = Inr (ws, n) \<Longrightarrow>
         settled (rule_parser E) (rxp_log E) (rxp_summary E) name iterative (nat max_rules) db ws"
  proof -
    have "\<exists>r. ?full = Some r \<and> (\<forall>ws n. r = Inr (ws, n) \<longrightarrow> n \<le> 1 + length (rule_lines db) \<and>
         settled (rule_parser E) (rxp_log E) (rxp_summary E) name iterative (nat max_rules) db ws)"
      by (rule working_set_found) (use law readable in blast)+
    then show thesis using that by blast
  qed
  obtain r' where r': "full_rxpc_file E (input_file a) (Some f) iterative (nat max_rules) fs = Some r'" "holds_result f r r'"
    using full_rxpc_on_files [where fs = fs and i = "input_file a", OF r(1) out(4,2) db] by blast
  show ?thesis
  proof (cases r)
    case (Inl e)
    then show ?thesis using r' by (simp add: run_gen_working_set_def out(1) args holds_result_def)
  next
    case (Inr p)
    obtain ws n where p: "p = (ws, n)" by (cases p)
    then obtain fs2 where fs2: "r' = Inr fs2" "fs2 f = Some ws" using r'(2) Inr by (auto simp: holds_result_def)
    have st: "settled (rule_parser E) (rxp_log E) (rxp_summary E) name iterative (nat max_rules) db ws"
      using r(2) Inr p by blast
    then have w: "written_from (rule_lines db) ws" using settled_written by blast
    note ws = written_rules(1) [OF w] written_rules(2) [OF w db(2)]
    obtain t where hs: "filter_hyperscan_file E f (Some f) fs2 =
        res_bind (filter_hyperscan (rule_parser E) (hs_check E) ws) (\<lambda>out. Inr (fs2(temp_hst := t, f \<mapsto> text_lines (concat out)), []))"
      using filter_hyperscan_on_file [where fs = fs2 and f = f, OF fs2(2) out(3,2)] by blast
    have run: "run_gen_working_set E a fs = Some (filter_hyperscan_file E f (Some f) fs2)"
      using r'(1) fs2(1) by (simp add: run_gen_working_set_def out(1) args)
    show ?thesis
    proof (cases "filter_hyperscan (rule_parser E) (hs_check E) ws")
      case (Inl e)
      then show ?thesis by (simp add: run hs)
    next
      case kept: (Inr out)
      note h = filter_hyperscan_written [OF kept]
      have "text_lines (concat out) = out" using written_rules(2) [OF h] ws(2) by blast
      moreover have "subseq (rule_lines out) (rule_lines db)"
        using written_rules(1) [OF h] ws(1) by (rule subseq_order.trans)
      ultimately show ?thesis using st kept by (auto simp: run hs)
    qed
  qed
qed

text \<open>C33: The action gen_working_set ends, whatever the output file is called unless it is temp.hst, and
  when it succeeds it changes nothing but the output file and its scratch files.  The output file then
  holds what the Hyperscan filter keeps of a settled working set of the input: some of
  the rules of the input, in their order, and each written as it was read.\<close>

theorem gen_working_set_main:
  assumes "\<And>rgxs k. rxcp_get_n_uncompiled name (rxp_summary E rgxs) = Inr k \<Longrightarrow> 0 < k \<Longrightarrow>
      uncompiled_of (rxp_log E rgxs) \<noteq> Inr []"
    and "\<And>l. l \<in> set (rule_lines db) \<Longrightarrow> readable (rule_parser E) l"
    and "action a = ''gen_working_set''"
    and "output_file a = Some f" and "f \<noteq> []" and "f \<noteq> temp_hst" and "name = hd (split_char (CHR ''.'') (basename f))"
    and "int_arg (arg0 a) 0xFFFFFFFF = Inr max_rules" and "flag_arg (arg1 a) False = Inr iterative"
    and "fs (input_file a) = Some db" and "\<forall>l \<in> set db. CHR 0x0D \<notin> set l"
  shows "\<exists>r. sampler_main E a fs = Some r \<and>
    (\<forall>fs' printed. r = Inr (fs', printed) \<longrightarrow>
      (\<exists>ws out. settled (rule_parser E) (rxp_log E) (rxp_summary E) name iterative (nat max_rules) db ws \<and>
         filter_hyperscan (rule_parser E) (hs_check E) ws = Inr out \<and>
         fs' f = Some out \<and> (\<forall>g. g \<noteq> f \<longrightarrow> \<not> scratch_file E a g \<longrightarrow> fs' g = fs g) \<and>
         subseq (rule_lines out) (rule_lines db)))"
proof -
  have act: "''gen_working_set'' \<in> set actions" by code_simp
  have main: "sampler_main E a fs = run_gen_working_set E a fs"
    unfolding sampler_main_def assms(3) using act assms(10) by simp
  have "\<exists>r. run_gen_working_set E a fs = Some r \<and>
    (\<forall>fs' printed. r = Inr (fs', printed) \<longrightarrow>
      (\<exists>ws out. settled (rule_parser E) (rxp_log E) (rxp_summary E) name iterative (nat max_rules) db ws \<and>
         filter_hyperscan (rule_parser E) (hs_check E) ws = Inr out \<and>
         fs' f = Some out \<and> subseq (rule_lines out) (rule_lines db)))"
    by (rule gen_working_set_run) (use assms in blast)+
  then obtain r where r: "run_gen_working_set E a fs = Some r"
    "\<And>fs' printed. r = Inr (fs', printed) \<Longrightarrow>
      (\<exists>ws out. settled (rule_parser E) (rxp_log E) (rxp_summary E) name iterative (nat max_rules) db ws \<and>
         filter_hyperscan (rule_parser E) (hs_check E) ws = Inr out \<and>
         fs' f = Some out \<and> subseq (rule_lines out) (rule_lines db))" by blast
  have "given (output_file a) = Some f" using assms(4,5) by (cases f) (simp_all add: given_def)
  then have rest: "fs' g = fs g" if "r = Inr (fs', printed)" "g \<noteq> f" "\<not> scratch_file E a g" for fs' printed g
    using gen_working_set_frame [OF r(1) [unfolded that(1)] assms(3)] that(2,3) by (simp add: frame_def)
  show ?thesis
  proof (intro exI [of _ r] conjI allI impI)
    show "sampler_main E a fs = Some r" using r(1) main by simp
    fix fs' printed assume ok: "r = Inr (fs', printed)"
    have other: "\<forall>g. g \<noteq> f \<longrightarrow> \<not> scratch_file E a g \<longrightarrow> fs' g = fs g" using rest [OF ok] by blast
    show "\<exists>ws out. settled (rule_parser E) (rxp_log E) (rxp_summary E) name iterative (nat max_rules) db ws \<and>
         filter_hyperscan (rule_parser E) (hs_check E) ws = Inr out \<and>
         fs' f = Some out \<and> (\<forall>g. g \<noteq> f \<longrightarrow> \<not> scratch_file E a g \<longrightarrow> fs' g = fs g) \<and>
         subseq (rule_lines out) (rule_lines db)"
      using r(2) [OF ok] other by blast
  qed
qed

lemma demo_env_law:
  "rxcp_get_n_uncompiled name (rxp_summary demo_env rgxs) = Inr k \<Longrightarrow> \<not> 0 < k"
proof -
  have "rxcp_get_n_uncompiled name [''Total number of uncompiled rules,0''] = Inr 0" for name by code_simp
  then show "rxcp_get_n_uncompiled name (rxp_summary demo_env rgxs) = Inr k \<Longrightarrow> \<not> 0 < k"
    by (simp add: demo_env_def)
qed

theorem gen_working_set_main_witness:
  "\<exists>r. sampler_main demo_env (demo_args ''gen_working_set'')
         (\<lambda>f. if f = ''in'' then Some [''1'' @ [CHR 0x0A], ''3'' @ [CHR 0x0A]] else None) = Some r \<and>
    (\<forall>fs' printed. r = Inr (fs', printed) \<longrightarrow> (\<exists>out. fs' ''out'' = Some out \<and> subseq (rule_lines out) [''1'', ''3'']))"
proof -
  let ?db = "[''1'' @ [CHR 0x0A], ''3'' @ [CHR 0x0A]]"
  let ?fs = "\<lambda>f. if f = ''in'' then Some ?db else None"
  have lines: "rule_lines ?db = [''1'', ''3'']" by code_simp
  have n: "''out'' = hd (split_char (CHR ''.'') (basename ''out''))" by code_simp
  have flag: "flag_arg (arg1 (demo_args ''gen_working_set'')) False = Inr True" by code_simp
  have int: "int_arg (arg0 (demo_args ''gen_working_set'')) 0xFFFFFFFF = Inr 0xFFFFFFFF"
    by (simp add: int_arg_def demo_args_def given_def)
  have rd: "readable (rule_parser demo_env) l" for l
    by (simp add: demo_env_def demo_readable)
  have hst: "''out'' \<noteq> temp_hst" by (simp add: temp_hst_def)
  have args: "action (demo_args ''gen_working_set'') = ''gen_working_set''"
    "output_file (demo_args ''gen_working_set'') = Some ''out''"
    "?fs (input_file (demo_args ''gen_working_set'')) = Some ?db" by (simp_all add: demo_args_def)
  have ne: "''out'' \<noteq> []" by simp
  have plain: "\<forall>l \<in> set ?db. CHR 0x0D \<notin> set l" by simp
  have law: "uncompiled_of (rxp_log demo_env rgxs) \<noteq> Inr []"
    if "rxcp_get_n_uncompiled ''out'' (rxp_summary demo_env rgxs) = Inr k" "0 < k" for rgxs k
    using demo_env_law that by blast
  have "\<exists>r. sampler_main demo_env (demo_args ''gen_working_set'') ?fs = Some r \<and>
    (\<forall>fs' printed. r = Inr (fs', printed) \<longrightarrow>
      (\<exists>ws out. settled (rule_parser demo_env) (rxp_log demo_env) (rxp_summary demo_env) ''out'' True
           (nat 0xFFFFFFFF) ?db ws \<and>
         filter_hyperscan (rule_parser demo_env) (hs_check demo_env) ws = Inr out \<and>
         fs' ''out'' = Some out \<and>
         (\<forall>g. g \<noteq> ''out'' \<longrightarrow> \<not> scratch_file demo_env (demo_args ''gen_working_set'') g \<longrightarrow> fs' g = ?fs g) \<and>
         subseq (rule_lines out) (rule_lines ?db)))"
    by (rule gen_working_set_main [where a = "demo_args ''gen_working_set''" and fs = ?fs and f = "''out''" and db = ?db
          and E = demo_env and name = "''out''" and max_rules = "0xFFFFFFFF" and iterative = True,
        OF law rd args(1,2) ne hst n int flag args(3) plain])
  then obtain r where r: "sampler_main demo_env (demo_args ''gen_working_set'') ?fs = Some r"
    "\<forall>fs' printed. r = Inr (fs', printed) \<longrightarrow>
      (\<exists>ws out. settled (rule_parser demo_env) (rxp_log demo_env) (rxp_summary demo_env) ''out'' True
           (nat 0xFFFFFFFF) ?db ws \<and>
         filter_hyperscan (rule_parser demo_env) (hs_check demo_env) ws = Inr out \<and>
         fs' ''out'' = Some out \<and>
         (\<forall>g. g \<noteq> ''out'' \<longrightarrow> \<not> scratch_file demo_env (demo_args ''gen_working_set'') g \<longrightarrow> fs' g = ?fs g) \<and>
         subseq (rule_lines out) (rule_lines ?db))" by (elim exE conjE)
  have "\<exists>out. fs' ''out'' = Some out \<and> subseq (rule_lines out) [''1'', ''3'']"
    if ok: "r = Inr (fs', printed)" for fs' printed
  proof -
    obtain out where "fs' ''out'' = Some out" "subseq (rule_lines out) (rule_lines ?db)"
      using r(2) [rule_format, OF ok] by (elim exE conjE)
    then show ?thesis unfolding lines by (intro exI conjI)
  qed
  with r(1) show ?thesis by blast
qed

end
