(* ===== verification/Generators.thy ===== *)
theory Generators
  imports Py_Re "HOL-Library.State_Monad"
begin

text \<open>
  The generators of artificial rule sets: random patterns (data/regex-gen.py), prefixes out of order
  (data/prefixes_4b_64k_generate.py) and the numbering of patterns (autotest/scripts/num-regexes.py).

  The module \<^verbatim>\<open>random\<close> is a computation in the state monad: \<open>below n\<close> draws a number below \<open>n\<close>
  and changes the state of the generator, which is all that \<^verbatim>\<open>randint\<close> and \<^verbatim>\<open>choice\<close> do.
\<close>

section \<open>Random patterns\<close>

record regex_config =
  use_bound_quants :: bool
  use_unbound_quants :: bool
  use_sets :: bool
  use_groups :: bool

type_synonym 'g rng = "nat \<Rightarrow> ('g, nat) state"

definition randint :: "'g rng \<Rightarrow> nat \<Rightarrow> nat \<Rightarrow> ('g, nat) state" where
  "randint below a b = do { k \<leftarrow> below (b - a + 1); State_Monad.return (a + k) }"

definition choice :: "'g rng \<Rightarrow> 'a list \<Rightarrow> ('g, 'a) state" where
  "choice below xs = do { k \<leftarrow> below (length xs); State_Monad.return (xs ! k) }"

definition base_chars :: string where
  "base_chars = ''abcdefghijklmnopqrstuvwxyz0123456789''"

definition char_sets :: "string list" where
  "char_sets = [''[aeiou]'', ''[1-3]'', ''[a-z]'', ''[A-Z]'', ''[0-9]'', ''[^0-9]'', ''[m-n]'']"

definition generate_regex_segment :: "'g rng \<Rightarrow> regex_config \<Rightarrow> bool \<Rightarrow> ('g, string) state" where
  "generate_regex_segment below config require_non_empty =
     (let unbounded_quantifiers =
        (if use_unbound_quants config then (if require_non_empty then [''+''] else [''+'', ''*'']) else [])
      in do {
        bounded_quantifiers \<leftarrow>
          (if use_bound_quants config then do {
             n \<leftarrow> randint below 1 15;
             m \<leftarrow> randint below 1 10;
             k \<leftarrow> randint below 11 50;
             State_Monad.return [''{'' @ nat_str n @ ''}'', ''{'' @ nat_str m @ '','' @ nat_str k @ ''}''] }
           else State_Monad.return []);
        let quantifiers = unbounded_quantifiers @ bounded_quantifiers;
        segment_choice \<leftarrow> choice below (base_chars # (if use_sets config then char_sets else []));
        segment \<leftarrow>
          (if segment_choice = base_chars then do {
             c \<leftarrow> choice below segment_choice; State_Monad.return [c] }
           else State_Monad.return segment_choice);
        more \<leftarrow>
          (if quantifiers = [] then State_Monad.return False
           else if \<not> require_non_empty then State_Monad.return True
           else choice below [True, False]);
        if more then do { q \<leftarrow> choice below quantifiers; State_Monad.return (segment @ q) }
        else State_Monad.return segment })"

fun more_segments :: "'g rng \<Rightarrow> regex_config \<Rightarrow> nat \<Rightarrow> ('g, string list) state" where
  "more_segments below config 0 = State_Monad.return []"
| "more_segments below config (Suc n) = do {
     s \<leftarrow> generate_regex_segment below config False;
     ss \<leftarrow> more_segments below config n;
     State_Monad.return (s # ss) }"

definition group_segments :: "nat \<Rightarrow> string list \<Rightarrow> string list" where
  "group_segments i segments =
     take i segments @ [''('' @ segments ! i @ segments ! (i + 1) @ '')''] @ drop (i + 2) segments"

definition random_valid_regex :: "'g rng \<Rightarrow> regex_config \<Rightarrow> ('g, string) state" where
  "random_valid_regex below config = do {
     first \<leftarrow> generate_regex_segment below config True;
     num_segments \<leftarrow> randint below 3 10;
     rest \<leftarrow> more_segments below config (num_segments - 1);
     let segments = first # rest;
     if use_groups config \<and> 1 < length segments then do {
       start_index \<leftarrow> randint below 0 (length segments - 2);
       State_Monad.return (concat (group_segments start_index segments)) }
     else State_Monad.return (concat segments) }"

definition pattern_line :: "bool \<Rightarrow> nat \<Rightarrow> string \<Rightarrow> string" where
  "pattern_line suri_format rule_id pattern =
     (if suri_format then
        ''alert ip any any -> any any (msg:'' @ [CHR 0x22] @ ''Regex sample rule '' @ nat_str (rule_id + 1) @
        [CHR 0x22] @ ''; content:'' @ [CHR 0x22] @ pattern @ [CHR 0x22] @ ''; sid:'' @ nat_str (rule_id + 1) @
        ''; rev:1;)'' @ [CHR 0x0A]
      else pattern @ [CHR 0x0A])"

text \<open>The lines written.\<close>

fun generate_and_write_patterns ::
    "'g rng \<Rightarrow> nat \<Rightarrow> nat \<Rightarrow> regex_config \<Rightarrow> bool \<Rightarrow> ('g, string list) state" where
  "generate_and_write_patterns below rule_id 0 config suri_format = State_Monad.return []"
| "generate_and_write_patterns below rule_id (Suc n) config suri_format = do {
     pattern \<leftarrow> random_valid_regex below config;
     ls \<leftarrow> generate_and_write_patterns below (rule_id + 1) n config suri_format;
     State_Monad.return (pattern_line suri_format rule_id pattern # ls) }"

definition regex_gen_main :: "'g rng \<Rightarrow> ('g, string list) state" where
  "regex_gen_main below =
     generate_and_write_patterns below 0 1000000
       \<lparr>use_bound_quants = False, use_unbound_quants = False, use_sets = False, use_groups = False\<rparr> True"

section \<open>Prefixes out of order\<close>

definition is_alphabetical :: "string \<Rightarrow> bool" where
  "is_alphabetical s \<longleftrightarrow> s = sort s"

fun product_repeat :: "nat \<Rightarrow> 'a list \<Rightarrow> 'a list list" where
  "product_repeat 0 xs = [[]]"
| "product_repeat (Suc k) xs = concat (map (\<lambda>x. map (\<lambda>w. x # w) (product_repeat k xs)) xs)"

definition prefix_line :: "nat \<Rightarrow> string \<Rightarrow> string" where
  "prefix_line sid s =
     ''alert tcp any any -> any any (content:'' @ [CHR 0x22] @ s @ [CHR 0x22] @ ''; sid:'' @ nat_str sid @
     '';)'' @ [CHR 0x0A]"

text \<open>The loop: the combinations left, those used, the next number; it stops when there are enough.\<close>

fun prefix_loop :: "nat \<Rightarrow> string list \<Rightarrow> string set \<Rightarrow> nat \<Rightarrow> string list" where
  "prefix_loop desired [] used sid = []"
| "prefix_loop desired (s # ss) used sid =
     (if \<not> is_alphabetical s \<and> s \<notin> used then
        prefix_line sid s #
        (if desired \<le> card (insert s used) then [] else prefix_loop desired ss (insert s used) (sid + 1))
      else prefix_loop desired ss used sid)"

definition prefix_rules :: "string \<Rightarrow> nat \<Rightarrow> nat \<Rightarrow> string list" where
  "prefix_rules letters k desired = prefix_loop desired (product_repeat k letters) {} 1"

definition prefixes_main :: "string list" where
  "prefixes_main = prefix_rules ''abcdefghijklmnopqrstuvwxyz'' 8 1000000"

section \<open>Numbered patterns\<close>

definition num_regexes :: "string list \<Rightarrow> string list" where
  "num_regexes infile =
     map (\<lambda>(i, line). nat_str i @ '',/'' @ rev (dropWhile (\<lambda>c. c = CHR 0x0A) (rev line)) @ ''/'' @ [CHR 0x0A])
       (enumerate 1 infile)"

section \<open>The patterns as syntax trees\<close>

text \<open>An atom with a quantifier; a class is a list of ranges of characters, perhaps negated.\<close>

datatype atom = Lit char | Cls bool "(char \<times> char) list"
datatype quant = Once | Plus | Star | Times nat | Between nat nat

type_synonym seg = "atom \<times> quant"

text \<open>Segments, and where a group of two starts, if there is one.\<close>

type_synonym rx = "seg list \<times> nat option"

fun show_atom :: "atom \<Rightarrow> string" where
  "show_atom (Lit c) = [c]"
| "show_atom (Cls neg rs) =
     ''['' @ (if neg then ''^'' else []) @
     concat (map (\<lambda>(a, b). if a = b then [a] else [a, CHR ''-'', b]) rs) @ '']''"

fun show_quant :: "quant \<Rightarrow> string" where
  "show_quant Once = []"
| "show_quant Plus = ''+''"
| "show_quant Star = ''*''"
| "show_quant (Times n) = ''{'' @ nat_str n @ ''}''"
| "show_quant (Between m k) = ''{'' @ nat_str m @ '','' @ nat_str k @ ''}''"

definition show_seg :: "seg \<Rightarrow> string" where
  "show_seg s = show_atom (fst s) @ show_quant (snd s)"

definition show_rx :: "rx \<Rightarrow> string" where
  "show_rx = (\<lambda>(ss, g). case g of
       None \<Rightarrow> concat (map show_seg ss)
     | Some i \<Rightarrow> concat (map show_seg (take i ss)) @ ''('' @ show_seg (ss ! i) @ show_seg (ss ! (i + 1)) @ '')'' @
         concat (map show_seg (drop (i + 2) ss)))"

text \<open>What they match.\<close>

fun atom_re :: "atom \<Rightarrow> re" where
  "atom_re (Lit c) = RClass (\<lambda>x. x = c)"
| "atom_re (Cls neg rs) = RClass (\<lambda>x. (\<exists>(a, b) \<in> set rs. a \<le> x \<and> x \<le> b) \<noteq> neg)"

fun times_re :: "nat \<Rightarrow> re \<Rightarrow> re" where
  "times_re 0 r = REmpty"
| "times_re (Suc n) r = RSeq r (times_re n r)"

fun upto_times :: "nat \<Rightarrow> re \<Rightarrow> re" where
  "upto_times 0 r = REmpty"
| "upto_times (Suc n) r = ropt (RSeq r (upto_times n r))"

fun quant_re :: "quant \<Rightarrow> re \<Rightarrow> re" where
  "quant_re Once r = r"
| "quant_re Plus r = rplus r"
| "quant_re Star r = RStar r"
| "quant_re (Times n) r = times_re n r"
| "quant_re (Between m k) r = RSeq (times_re m r) (upto_times (k - m) r)"

definition seg_re :: "seg \<Rightarrow> re" where
  "seg_re s = quant_re (snd s) (atom_re (fst s))"

fun segs_re :: "seg list \<Rightarrow> re" where
  "segs_re [] = REmpty"
| "segs_re (s # ss) = RSeq (seg_re s) (segs_re ss)"

definition rx_re :: "rx \<Rightarrow> re" where
  "rx_re = (\<lambda>(ss, g). case g of
       None \<Rightarrow> segs_re ss
     | Some i \<Rightarrow> RSeq (segs_re (take i ss)) (RSeq (RGroup 1 (RSeq (seg_re (ss ! i)) (seg_re (ss ! (i + 1)))))
         (segs_re (drop (i + 2) ss))))"

text \<open>The segments a configuration allows; \<open>req\<close> says that a match must not be empty.\<close>

definition set_classes :: "atom list" where
  "set_classes =
     [Cls False [(CHR ''a'', CHR ''a''), (CHR ''e'', CHR ''e''), (CHR ''i'', CHR ''i''), (CHR ''o'', CHR ''o''),
        (CHR ''u'', CHR ''u'')],
      Cls False [(CHR ''1'', CHR ''3'')], Cls False [(CHR ''a'', CHR ''z'')], Cls False [(CHR ''A'', CHR ''Z'')],
      Cls False [(CHR ''0'', CHR ''9'')], Cls True [(CHR ''0'', CHR ''9'')], Cls False [(CHR ''m'', CHR ''n'')]]"

definition atom_ok :: "regex_config \<Rightarrow> atom \<Rightarrow> bool" where
  "atom_ok config a =
     (case a of Lit c \<Rightarrow> c \<in> set base_chars | _ \<Rightarrow> use_sets config \<and> a \<in> set set_classes)"

fun quant_ok :: "regex_config \<Rightarrow> bool \<Rightarrow> quant \<Rightarrow> bool" where
  "quant_ok config req Once \<longleftrightarrow> req \<or> \<not> use_bound_quants config \<and> \<not> use_unbound_quants config"
| "quant_ok config req Plus \<longleftrightarrow> use_unbound_quants config"
| "quant_ok config req Star \<longleftrightarrow> use_unbound_quants config \<and> \<not> req"
| "quant_ok config req (Times n) \<longleftrightarrow> use_bound_quants config \<and> 1 \<le> n \<and> n \<le> 15"
| "quant_ok config req (Between m k) \<longleftrightarrow> use_bound_quants config \<and> 1 \<le> m \<and> m \<le> 10 \<and> 11 \<le> k \<and> k \<le> 50"

definition seg_ok :: "regex_config \<Rightarrow> bool \<Rightarrow> seg \<Rightarrow> bool" where
  "seg_ok config req s \<longleftrightarrow> atom_ok config (fst s) \<and> quant_ok config req (snd s)"

definition rx_ok :: "regex_config \<Rightarrow> rx \<Rightarrow> bool" where
  "rx_ok config = (\<lambda>(ss, g).
     3 \<le> length ss \<and> length ss \<le> 10 \<and> seg_ok config True (hd ss) \<and> list_all (seg_ok config False) (tl ss) \<and>
     (case g of None \<Rightarrow> \<not> use_groups config | Some i \<Rightarrow> use_groups config \<and> i + 1 < length ss))"

section \<open>What the generator draws\<close>

definition draws_below :: "'g rng \<Rightarrow> bool" where
  "draws_below below \<longleftrightarrow> (\<forall>n g. 0 < n \<longrightarrow> fst (run_state (below n) g) < n)"

lemma pred_return: "P x \<Longrightarrow> pred_state P (State_Monad.return x)"
  by (rule pred_stateI) (simp add: State_Monad.return_def)

lemma pred_weaken: "pred_state P m \<Longrightarrow> (\<And>x. P x \<Longrightarrow> Q x) \<Longrightarrow> pred_state Q m"
  by (metis pred_stateD pred_stateI)

lemma pred_bind: "pred_state P m \<Longrightarrow> (\<And>x. P x \<Longrightarrow> pred_state Q (f x)) \<Longrightarrow> pred_state Q (m \<bind> f)"
  by (rule bind_predI) (rule pred_weaken)

lemma pred_below: "draws_below below \<Longrightarrow> 0 < n \<Longrightarrow> pred_state (\<lambda>k. k < n) (below n)"
  unfolding draws_below_def by (metis fst_conv pred_stateI)

lemma pred_randint:
  "draws_below below \<Longrightarrow> a \<le> b \<Longrightarrow> pred_state (\<lambda>k. a \<le> k \<and> k \<le> b) (randint below a b)"
  unfolding randint_def
  by (rule pred_bind [OF pred_below]) (auto intro!: pred_return)

lemma pred_choice: "draws_below below \<Longrightarrow> xs \<noteq> [] \<Longrightarrow> pred_state (\<lambda>x. x \<in> set xs) (choice below xs)"
  unfolding choice_def
  by (rule pred_bind [OF pred_below]) (auto intro!: pred_return)

lemma char_sets_shown: "char_sets = map show_atom set_classes"
  by code_simp

lemma base_chars_fresh: "base_chars \<notin> set char_sets"
  by code_simp

lemma base_chars_ne: "base_chars \<noteq> []"
  by (simp add: base_chars_def)

lemma char_set_atom:
  "s \<in> set char_sets \<Longrightarrow> use_sets config \<Longrightarrow> \<exists>a. s = show_atom a \<and> atom_ok config a"
proof -
  assume s: "s \<in> set char_sets" and u: "use_sets config"
  then obtain a where a: "a \<in> set set_classes" "s = show_atom a" unfolding char_sets_shown by auto
  moreover have "Lit c \<notin> set set_classes" for c by (simp add: set_classes_def)
  ultimately have "atom_ok config a" using u by (auto simp: atom_ok_def split: atom.split)
  with a(2) show ?thesis by blast
qed

lemma pred_segment:
  assumes "draws_below below"
  shows "pred_state (\<lambda>s. \<exists>sg. s = show_seg sg \<and> seg_ok config req sg) (generate_regex_segment below config req)"
proof -
  define unb where "unb = (if use_unbound_quants config then (if req then [''+''] else [''+'', ''*'']) else [])"
  have quants: "pred_state (\<lambda>qs. (qs = [] \<longleftrightarrow> \<not> use_bound_quants config) \<and>
       (\<forall>q \<in> set (unb @ qs). \<exists>t. q = show_quant t \<and> quant_ok config req t))
     (if use_bound_quants config then do {
        n \<leftarrow> randint below 1 15; m \<leftarrow> randint below 1 10; k \<leftarrow> randint below 11 50;
        State_Monad.return [''{'' @ nat_str n @ ''}'', ''{'' @ nat_str m @ '','' @ nat_str k @ ''}''] }
      else State_Monad.return [])" (is "pred_state ?Q ?m")
  proof -
    have plus: "\<exists>t. q = show_quant t \<and> quant_ok config req t" if "q \<in> set unb" for q
      using that by (auto simp: unb_def split: if_splits
          intro: exI [of _ Plus] exI [of _ Star])
    show ?thesis
    proof (cases "use_bound_quants config")
      case True
      have "?Q [''{'' @ nat_str n @ ''}'', ''{'' @ nat_str m @ '','' @ nat_str k @ ''}'']"
        if "1 \<le> n \<and> n \<le> 15" "1 \<le> m \<and> m \<le> 10" "11 \<le> k \<and> k \<le> 50" for n m k
        using that True plus
        by (auto intro: exI [of _ "Times n"] exI [of _ "Between m k"])
      then show ?thesis using True
        by (auto intro!: pred_bind [OF pred_randint [OF assms]] pred_return)
    qed (use plus in \<open>auto intro: pred_return\<close>)
  qed
  have atoms: "pred_state (\<lambda>s. \<exists>a. s = show_atom a \<and> atom_ok config a)
      (if sc = base_chars then do { c \<leftarrow> choice below sc; State_Monad.return [c] } else State_Monad.return sc)"
    if "sc \<in> set (base_chars # (if use_sets config then char_sets else []))" for sc
  proof (cases "sc = base_chars")
    case True
    have "\<exists>a. [c] = show_atom a \<and> atom_ok config a" if "c \<in> set base_chars" for c
      using that by (auto simp: atom_ok_def intro: exI [of _ "Lit c"])
    then show ?thesis using True
      by (auto intro!: pred_bind [OF pred_choice [OF assms base_chars_ne]] pred_return)
  next
    case False
    then show ?thesis using that char_set_atom by (auto intro!: pred_return split: if_splits)
  qed
  have no_quant: "\<exists>sg. show_atom a = show_seg sg \<and> seg_ok config req sg"
    if "atom_ok config a" "req \<or> \<not> use_bound_quants config \<and> \<not> use_unbound_quants config" for a
    using that by (intro exI [of _ "(a, Once)"]) (simp add: show_seg_def seg_ok_def)
  have with_quant: "\<exists>sg. show_atom a @ show_quant t = show_seg sg \<and> seg_ok config req sg"
    if "atom_ok config a" "quant_ok config req t" for a t
    using that by (intro exI [of _ "(a, t)"]) (simp add: show_seg_def seg_ok_def)
  show ?thesis
    unfolding generate_regex_segment_def Let_def unb_def [symmetric]
  proof (rule pred_bind [OF quants], rule pred_bind [OF pred_choice [OF assms]], simp,
      rule pred_bind [OF atoms], assumption, elim exE conjE)
    fix qs sc s a
    assume qs: "qs = [] \<longleftrightarrow> \<not> use_bound_quants config"
      "\<forall>q \<in> set (unb @ qs). \<exists>t. q = show_quant t \<and> quant_ok config req t"
      and s: "s = show_atom a" "atom_ok config a"
    have more: "pred_state (\<lambda>b. (b \<longrightarrow> unb @ qs \<noteq> []) \<and> (\<not> b \<longrightarrow> req \<or> unb @ qs = []))
        (if unb @ qs = [] then State_Monad.return False
         else if \<not> req then State_Monad.return True else choice below [True, False])"
      by (auto intro!: pred_return pred_weaken [OF pred_choice [OF assms]])
    have none: "unb @ qs = [] \<longleftrightarrow> \<not> use_bound_quants config \<and> \<not> use_unbound_quants config"
      using qs(1) by (auto simp: unb_def)
    show "pred_state (\<lambda>s. \<exists>sg. s = show_seg sg \<and> seg_ok config req sg)
       (do { more \<leftarrow> (if unb @ qs = [] then State_Monad.return False
              else if \<not> req then State_Monad.return True else choice below [True, False]);
             if more then do { q \<leftarrow> choice below (unb @ qs); State_Monad.return (s @ q) }
             else State_Monad.return s })"
    proof (rule pred_bind [OF more])
      fix b
      assume b: "(b \<longrightarrow> unb @ qs \<noteq> []) \<and> (\<not> b \<longrightarrow> req \<or> unb @ qs = [])"
      show "pred_state (\<lambda>s. \<exists>sg. s = show_seg sg \<and> seg_ok config req sg)
         (if b then do { q \<leftarrow> choice below (unb @ qs); State_Monad.return (s @ q) } else State_Monad.return s)"
      proof (cases b)
        case True
        then have ne: "unb @ qs \<noteq> []" using b by simp
        have "\<exists>sg. s @ q = show_seg sg \<and> seg_ok config req sg" if q: "q \<in> set (unb @ qs)" for q
        proof -
          obtain t where "q = show_quant t" "quant_ok config req t" using qs(2) q by blast
          then show ?thesis using with_quant [OF s(2)] s(1) by simp
        qed
        then have "pred_state (\<lambda>s. \<exists>sg. s = show_seg sg \<and> seg_ok config req sg)
            (do { q \<leftarrow> choice below (unb @ qs); State_Monad.return (s @ q) })"
          by (intro pred_bind [OF pred_choice [OF assms ne]] pred_return) blast
        then show ?thesis using True by simp
      next
        case False
        then show ?thesis using b no_quant [OF s(2)] s(1) none by (auto intro!: pred_return)
      qed
    qed
  qed
qed


lemma pred_more_segments:
  assumes "draws_below below"
  shows "pred_state (\<lambda>ss. \<exists>sgs. ss = map show_seg sgs \<and> length sgs = n \<and> list_all (seg_ok config False) sgs)
    (more_segments below config n)"
proof (induction n)
  case (Suc n)
  have "\<exists>sgs. show_seg sg # map show_seg sgs' = map show_seg sgs \<and> length sgs = Suc n \<and>
      list_all (seg_ok config False) sgs"
    if "seg_ok config False sg" "length sgs' = n" "list_all (seg_ok config False) sgs'" for sg sgs'
    using that by (intro exI [of _ "sg # sgs'"]) simp
  then show ?case
    unfolding more_segments.simps
    by (intro pred_bind [OF pred_segment [OF assms]] pred_bind [OF Suc] pred_return, elim exE conjE) simp
qed (auto intro: pred_return)

lemma show_group:
  "i + 1 < length sgs \<Longrightarrow> concat (group_segments i (map show_seg sgs)) = show_rx (sgs, Some i)"
  by (simp add: group_segments_def show_rx_def take_map drop_map)

lemma pred_regex:
  assumes "draws_below below"
  shows "pred_state (\<lambda>r. \<exists>rx. r = show_rx rx \<and> rx_ok config rx) (random_valid_regex below config)"
  unfolding random_valid_regex_def Let_def
proof (rule pred_bind [OF pred_segment [OF assms]], rule pred_bind [OF pred_randint [OF assms]], simp,
    rule pred_bind [OF pred_more_segments [OF assms]], elim exE conjE)
  fix s num ss sg sgs
  assume *: "s = show_seg sg" "seg_ok config True sg" "3 \<le> num" "num \<le> 10"
    "ss = map show_seg sgs" "length sgs = num - 1" "list_all (seg_ok config False) sgs"
  have len: "3 \<le> length (sg # sgs)" "length (sg # sgs) \<le> 10" using * by auto
  show "pred_state (\<lambda>r. \<exists>rx. r = show_rx rx \<and> rx_ok config rx)
     (if use_groups config \<and> 1 < length (s # ss) then do {
        start_index \<leftarrow> randint below 0 (length (s # ss) - 2);
        State_Monad.return (concat (group_segments start_index (s # ss))) }
      else State_Monad.return (concat (s # ss)))"
  proof (cases "use_groups config")
    case True
    have "\<exists>rx. concat (group_segments i (s # ss)) = show_rx rx \<and> rx_ok config rx"
      if "i \<le> length (s # ss) - 2" for i
    proof (intro exI conjI)
      have i: "i + 1 < length (sg # sgs)" using that len *(5) by simp
      show "concat (group_segments i (s # ss)) = show_rx (sg # sgs, Some i)"
        using show_group [OF i] *(1,5) by simp
      show "rx_ok config (sg # sgs, Some i)"
        using len i * True by (simp add: rx_ok_def)
    qed
    then have "pred_state (\<lambda>r. \<exists>rx. r = show_rx rx \<and> rx_ok config rx)
        (do { start_index \<leftarrow> randint below 0 (length (s # ss) - 2);
              State_Monad.return (concat (group_segments start_index (s # ss))) })"
      by (intro pred_bind [OF pred_randint [OF assms]] pred_return) auto
    moreover have "1 < length (s # ss)" using len *(5) by (cases sgs) auto
    ultimately show ?thesis using True by (simp only: simp_thms if_True)
  next
    case False
    have "concat (s # ss) = show_rx (sg # sgs, None) \<and> rx_ok config (sg # sgs, None)"
      using len * False by (simp add: rx_ok_def show_rx_def)
    then show ?thesis using False by (auto intro!: pred_return)
  qed
qed

text \<open>A pattern that always reads something.\<close>

definition consumes :: "re \<Rightarrow> bool" where
  "consumes r \<longleftrightarrow> (\<forall>b a g b' a' g'. (b', a', g') \<in> set (rmatch r (b, a, g)) \<longrightarrow> length a' < length a)"

lemma rmatch_shorter: "(b', a', g') \<in> set (rmatch r (b, a, g)) \<Longrightarrow> length a' \<le> length a"
  using rmatch_splits by fastforce

lemma consumes_class [intro]: "consumes (RClass P)"
  by (auto simp: consumes_def split: list.splits if_splits)

lemma consumes_seq:
  "consumes r \<Longrightarrow> consumes (RSeq r s)"
  "consumes s \<Longrightarrow> consumes (RSeq r s)"
  unfolding consumes_def by (fastforce dest: rmatch_shorter)+

lemma consumes_group: "consumes r \<Longrightarrow> consumes (RGroup i r)"
  unfolding consumes_def by fastforce

lemma consumes_atom: "consumes (atom_re a)"
  by (cases a) auto

lemma consumes_times: "Suc 0 \<le> n \<Longrightarrow> consumes r \<Longrightarrow> consumes (times_re n r)"
  by (cases n) (auto intro: consumes_seq)

lemma consumes_seg:
  assumes "seg_ok config True s" shows "consumes (seg_re s)"
  using assms consumes_atom [of "fst s"]
  by (cases "snd s") (auto simp: seg_re_def seg_ok_def rplus_def intro: consumes_seq consumes_times)

lemma consumes_rx:
  assumes "rx_ok config rx" shows "consumes (rx_re rx)"
proof -
  obtain ss g where rx: "rx = (ss, g)" by (cases rx)
  obtain s ss' where ss: "ss = s # ss'" using assms rx by (cases ss) (auto simp: rx_ok_def)
  have s: "consumes (seg_re s)" using assms unfolding rx ss by (auto simp: rx_ok_def intro: consumes_seg)
  show ?thesis
  proof (cases g)
    case None
    then show ?thesis using s unfolding rx ss by (auto simp: rx_re_def intro: consumes_seq)
  next
    case (Some i)
    show ?thesis
    proof (cases i)
      case 0
      then show ?thesis using s Some unfolding rx ss
        by (auto simp: rx_re_def intro: consumes_seq consumes_group)
    next
      case (Suc j)
      then have "consumes (segs_re (take i ss))" using s unfolding ss by (auto intro: consumes_seq)
      then show ?thesis using Some unfolding rx by (auto simp: rx_re_def intro: consumes_seq)
    qed
  qed
qed

section \<open>Properties\<close>

text \<open>C34: However the random numbers fall, a generated pattern is the text of three to ten segments,
  each a lower-case letter, a digit, or one of the seven classes when sets are enabled, quantified
  as the configuration allows, with a group of two neighbours exactly when groups are enabled; and
  such a pattern never matches without reading at least one character.\<close>

theorem random_regex_valid:
  assumes "draws_below below"
  shows "\<exists>rx. fst (run_state (random_valid_regex below config) g) = show_rx rx \<and> rx_ok config rx \<and>
    (\<forall>b a cs b' a' cs'. (b', a', cs') \<in> set (rmatch (rx_re rx) (b, a, cs)) \<longrightarrow> length a' < length a)"
proof -
  obtain rx where "fst (run_state (random_valid_regex below config) g) = show_rx rx" "rx_ok config rx"
    using pred_state_run_state [OF pred_regex [OF assms, of config], of g] by blast
  then show ?thesis using consumes_rx [of config rx] unfolding consumes_def by blast
qed

text \<open>The generator that counts up, for the example.\<close>

definition counting :: "nat rng" where
  "counting n = State (\<lambda>s. (if n = 0 then 0 else s mod n, s + 1))"

definition demo_config :: regex_config where
  "demo_config = \<lparr>use_bound_quants = False, use_unbound_quants = True, use_sets = True, use_groups = True\<rparr>"

theorem random_regex_valid_witness:
  "\<exists>rx. ''[m-n]+[a-z]+[0-9]+([m-n]+[aeiou]+)'' = show_rx rx \<and> rx_ok demo_config rx"
proof -
  have run: "fst (run_state (random_valid_regex counting demo_config) 7) = ''[m-n]+[a-z]+[0-9]+([m-n]+[aeiou]+)''"
    by code_simp
  have "draws_below counting" by (auto simp: draws_below_def counting_def)
  from random_regex_valid [OF this, of demo_config 7] show ?thesis unfolding run by blast
qed

section \<open>The prefixes written\<close>

lemma is_alphabetical_sorted: "is_alphabetical s \<longleftrightarrow> sorted s"
  unfolding is_alphabetical_def by (metis sorted_sort sort_key_id_if_sorted sorted_sort_id)

lemma prefix_loop_eq:
  assumes "finite used" "card used < desired" "distinct ss" "set ss \<inter> used = {}"
  shows "prefix_loop desired ss used sid =
    map (\<lambda>(i, s). prefix_line i s)
      (enumerate sid (take (desired - card used) (filter (\<lambda>s. \<not> is_alphabetical s) ss)))"
  using assms
proof (induction ss arbitrary: used sid)
  case (Cons s ss)
  show ?case
  proof (cases "is_alphabetical s")
    case False
    have c: "card (insert s used) = Suc (card used)" using Cons.prems by simp
    show ?thesis
    proof (cases "desired \<le> Suc (card used)")
      case True
      then have "desired - card used = 1" using Cons.prems(2) by linarith
      then show ?thesis using False True c Cons.prems by simp
    next
      case more: False
      then have d: "desired - card used = Suc (desired - Suc (card used))" by linarith
      have "prefix_loop desired ss (insert s used) (Suc sid) =
          map (\<lambda>(i, s). prefix_line i s)
            (enumerate (Suc sid) (take (desired - card (insert s used)) (filter (\<lambda>s. \<not> is_alphabetical s) ss)))"
        by (rule Cons.IH) (use Cons.prems more c in auto)
      then show ?thesis using False more c d Cons.prems by auto
    qed
  qed (use Cons in auto)
qed simp

lemma set_product_repeat: "set (product_repeat k xs) = {w. length w = k \<and> set w \<subseteq> set xs}"
  by (induction k) (auto simp: length_Suc_conv)

lemma length_product_repeat: "length (product_repeat k xs) = length xs ^ k"
proof -
  have "sum_list (map (\<lambda>x. n) ys) = length ys * n" for n :: nat and ys :: "'a list"
    by (induction ys) auto
  then show ?thesis by (induction k) (simp_all add: length_concat comp_def)
qed

lemma sorted_product_repeat:
  fixes xs :: "'a :: linorder list"
  assumes "sorted_wrt (<) xs" shows "sorted_wrt (<) (product_repeat k xs)"
proof (induction k)
  case (Suc k)
  have "sorted_wrt (<) (concat (map (\<lambda>x. map (\<lambda>w. x # w) ws) ys))"
    if "sorted_wrt (<) ys" "sorted_wrt (<) ws" for ys :: "'a list" and ws
    using that
    by (induction ys) (auto simp: sorted_wrt_append sorted_wrt_map)
  then show ?case using Suc assms by simp
qed simp

lemma strict_sorted_take:
  assumes "sorted_wrt (<) (xs :: 'a :: linorder list)" "t \<in> set (take n xs)" "s \<in> set xs" "s < t"
  shows "s \<in> set (take n xs)"
proof (rule ccontr)
  assume "s \<notin> set (take n xs)"
  then have "s \<in> set (drop n xs)" using assms(3) by (metis Un_iff append_take_drop_id set_append)
  moreover have "sorted_wrt (<) (take n xs @ drop n xs)" using assms(1) by simp
  ultimately have "t < s" using assms(2) unfolding sorted_wrt_append by blast
  then show False using assms(4) by simp
qed

definition letters :: string where
  "letters = ''abcdefghijklmnopqrstuvwxyz''"

definition out_of_order :: "nat \<Rightarrow> string \<Rightarrow> bool" where
  "out_of_order k s \<longleftrightarrow> length s = k \<and> set s \<subseteq> set letters \<and> \<not> sorted s"

lemma letters_sorted: "sorted_wrt (<) letters" and letters_length: "length letters = 26"
  by code_simp+

lemma out_of_order_many: "26 ^ 6 \<le> length (filter (\<lambda>s. \<not> sorted s) (product_repeat 8 letters))"
proof -
  let ?W = "product_repeat 6 letters" and ?C = "filter (\<lambda>s. \<not> sorted s) (product_repeat 8 letters)"
  have d: "distinct (product_repeat k letters)" for k
    using sorted_product_repeat [OF letters_sorted, of k] by (simp add: strict_sorted_iff)
  have "''ba'' @ w \<in> set ?C" if "w \<in> set ?W" for w
  proof -
    have "set ''ba'' \<subseteq> set letters" by code_simp
    moreover have "\<not> CHR ''b'' \<le> CHR ''a''" by code_simp
    ultimately show ?thesis using that by (simp add: set_product_repeat)
  qed
  then have le: "card ((\<lambda>w. ''ba'' @ w) ` set ?W) \<le> card (set ?C)" by (intro card_mono) auto
  have eq: "card ((\<lambda>w. ''ba'' @ w) ` set ?W) = 26 ^ 6"
    by (subst card_image) (simp_all add: inj_on_def distinct_card [OF d] length_product_repeat letters_length)
  have "card (set ?C) = length ?C" using d by (intro distinct_card) simp
  then show ?thesis using le unfolding eq by (simp only:)
qed

text \<open>The generator of prefixes writes exactly one million rules, numbered from 1: the first
  words, in alphabetical order, of eight lower-case letters that are not in order themselves,
  without repetition and without a gap.\<close>

theorem prefixes_written:
  "\<exists>ss. prefixes_main = map (\<lambda>(i, s). prefix_line i s) (enumerate 1 ss) \<and> length ss = 1000000 \<and>
     sorted_wrt (<) ss \<and> list_all (out_of_order 8) ss \<and>
     (\<forall>s t. t \<in> set ss \<longrightarrow> out_of_order 8 s \<longrightarrow> s < t \<longrightarrow> s \<in> set ss)"
proof -
  let ?C = "filter (\<lambda>s. \<not> sorted s) (product_repeat 8 letters)"
  have sorted: "sorted_wrt (<) ?C"
    using sorted_product_repeat [OF letters_sorted] by (rule sorted_wrt_filter)
  have mem: "s \<in> set ?C \<longleftrightarrow> out_of_order 8 s" for s
    by (auto simp: set_product_repeat out_of_order_def)
  have "distinct (product_repeat 8 letters)"
    using sorted_product_repeat [OF letters_sorted, of 8] by (simp add: strict_sorted_iff)
  then have "prefixes_main = map (\<lambda>(i, s). prefix_line i s) (enumerate 1 (take 1000000 ?C))"
    unfolding prefixes_main_def prefix_rules_def letters_def [symmetric]
    by (subst prefix_loop_eq) (simp_all add: is_alphabetical_sorted)
  moreover have "length (take 1000000 ?C) = 1000000" using out_of_order_many by simp
  moreover have "sorted_wrt (<) (take 1000000 ?C)" using sorted by (rule sorted_wrt_take)
  moreover have "list_all (out_of_order 8) (take 1000000 ?C)"
    using mem by (auto simp: list_all_iff simp del: set_filter dest: in_set_takeD)
  moreover have "\<forall>s t. t \<in> set (take 1000000 ?C) \<longrightarrow> out_of_order 8 s \<longrightarrow> s < t \<longrightarrow> s \<in> set (take 1000000 ?C)"
    using strict_sorted_take [OF sorted] mem by blast
  ultimately show ?thesis by blast
qed

theorem prefixes_written_witness: "length prefixes_main = 1000000"
proof -
  obtain ss where "prefixes_main = map (\<lambda>(i, s). prefix_line i s) (enumerate 1 ss)" "length ss = 1000000"
    using prefixes_written by blast
  then show ?thesis by (metis length_enumerate length_map)
qed

end
