(* ===== verification/Py_Float.thy ===== *)
theory Py_Float
  imports Complex_Main Py_Prelude
begin

text \<open>
  Floating-point numbers as the data frames of \<^verbatim>\<open>pandas\<close> hold them: a number, one of the two
  infinities, or \<^verbatim>\<open>NaN\<close>, which also marks a missing value.  Numbers are exact (rounding is left out)
  and there is one zero.  Sums and products obey the laws of a commutative monoid, so that the lists
  and sums of the library apply; comparisons with \<^verbatim>\<open>NaN\<close> are false.
\<close>

section \<open>Arithmetic\<close>

datatype flt = NaN | Fin real | Inf bool

instantiation flt :: comm_monoid_add
begin

definition zero_flt :: flt where
  "0 = Fin 0"

fun plus_flt :: "flt \<Rightarrow> flt \<Rightarrow> flt" where
  "NaN + x = NaN"
| "Fin a + NaN = NaN"
| "Fin a + Fin b = Fin (a + b)"
| "Fin a + Inf s = Inf s"
| "Inf s + NaN = NaN"
| "Inf s + Fin a = Inf s"
| "Inf s + Inf t = (if s = t then Inf s else NaN)"

instance
proof
  fix x y z :: flt
  show "x + y + z = x + (y + z)" by (cases x; cases y; cases z) auto
  show "x + y = y + x" by (cases x; cases y) auto
  show "0 + x = x" by (cases x) (auto simp: zero_flt_def)
qed

end

instantiation flt :: comm_monoid_mult
begin

definition one_flt :: flt where
  "1 = Fin 1"

fun times_flt :: "flt \<Rightarrow> flt \<Rightarrow> flt" where
  "NaN * x = NaN"
| "Fin a * NaN = NaN"
| "Fin a * Fin b = Fin (a * b)"
| "Fin a * Inf s = (if a = 0 then NaN else Inf (s = (0 < a)))"
| "Inf s * NaN = NaN"
| "Inf s * Fin a = (if a = 0 then NaN else Inf (s = (0 < a)))"
| "Inf s * Inf t = Inf (s = t)"

instance
proof
  fix x y z :: flt
  show "x * y * z = x * (y * z)"
    by (cases x; cases y; cases z) (auto simp: zero_less_mult_iff not_less le_less)
  show "x * y = y * x" by (cases x; cases y) auto
  show "1 * x = x" by (cases x) (auto simp: one_flt_def)
qed

end

instantiation flt :: inverse
begin

fun divide_flt :: "flt \<Rightarrow> flt \<Rightarrow> flt" where
  "divide NaN x = NaN"
| "divide (Fin a) NaN = NaN"
| "divide (Fin a) (Fin b) =
     (if b \<noteq> 0 then Fin (a / b) else if a = 0 then NaN else Inf (0 < a))"
| "divide (Fin a) (Inf s) = Fin 0"
| "divide (Inf s) NaN = NaN"
| "divide (Inf s) (Fin b) = Inf (s = (0 \<le> b))"
| "divide (Inf s) (Inf t) = NaN"

definition inverse_flt :: "flt \<Rightarrow> flt" where
  "inverse x = divide 1 (x :: flt)"

instance ..

end

instantiation flt :: ord
begin

fun less_flt :: "flt \<Rightarrow> flt \<Rightarrow> bool" where
  "Fin a < Fin b \<longleftrightarrow> a < b"
| "Fin a < Inf s \<longleftrightarrow> s"
| "Inf s < Fin b \<longleftrightarrow> \<not> s"
| "Inf s < Inf t \<longleftrightarrow> \<not> s \<and> t"
| "NaN < y \<longleftrightarrow> False"
| "Fin a < NaN \<longleftrightarrow> False"
| "Inf s < NaN \<longleftrightarrow> False"

definition less_eq_flt :: "flt \<Rightarrow> flt \<Rightarrow> bool" where
  "x \<le> y \<longleftrightarrow> x < y \<or> x = y \<and> x \<noteq> NaN"

instance ..

end

lemma less_flt_NaN [simp]: "\<not> x < NaN" "\<not> NaN < x"
  by (cases x; simp)+

lemma less_eq_flt_simps [simp]:
  "Fin a \<le> Fin b \<longleftrightarrow> a \<le> b" "\<not> x \<le> NaN" "\<not> NaN \<le> x"
  by (auto simp: less_eq_flt_def)

lemma zero_flt_less [simp]: "0 < Fin a \<longleftrightarrow> 0 < a" and zero_flt_eq [simp]: "Fin a = 0 \<longleftrightarrow> a = 0"
  by (auto simp: zero_flt_def)

lemma sum_list_Fin: "sum_list (map (\<lambda>x. Fin (f x)) xs) = Fin (sum_list (map f xs))"
  by (induction xs) (auto simp: zero_flt_def)

section \<open>Missing values\<close>

text \<open>\<^verbatim>\<open>fillna(0)\<close> and \<^verbatim>\<open>replace([inf, -inf], 0)\<close> on one value.\<close>

definition fillna0 :: "flt \<Rightarrow> flt" where
  "fillna0 x = (if x = NaN then 0 else x)"

fun inf_to_0 :: "flt \<Rightarrow> flt" where
  "inf_to_0 (Inf s) = 0"
| "inf_to_0 (Fin a) = Fin a"
| "inf_to_0 NaN = NaN"

end
