(* ===== verification/Process_Table.thy ===== *)
theory Process_Table
  imports Py_Float
begin

text \<open>
  The preparation of a result table for plotting, autotest/process.py: for every row the sums over
  the counters of the RXP engine, its rates and its weighted latency, the rates of Hyperscan, the
  combination of the two engines with its checks, the labels, and the columns that are kept.

  What is modelled is what the script computes for the rows and columns of a frame that was read
  and converted; the conversions of \<^verbatim>\<open>pandas\<close> from and to texts and its median are arguments.  Of the
  frame operations only the documented effect is used: a filter keeps rows, a new column is one
  value per row, concatenation gives every row all columns with \<^verbatim>\<open>NaN\<close> for the missing ones, and
  sorting by index is stable here.
\<close>

section \<open>Frames\<close>

datatype cell = Num flt | Str string

type_synonym row = "cell dict"

text \<open>The columns, and the rows with their index; every row has a cell for every column.\<close>

record frame =
  columns :: "string list"
  frame_rows :: "(nat \<times> row) list"

record conversions =
  to_float :: "string \<Rightarrow> real res"
  to_numeric :: "string \<Rightarrow> flt"
  cell_str :: "cell \<Rightarrow> string"
  median :: "flt list \<Rightarrow> flt"

definition num_of :: "row \<Rightarrow> string \<Rightarrow> flt res" where
  "num_of r c = res_bind (dict_get r c) (\<lambda>v. case v of Num x \<Rightarrow> Inr x | Str s \<Rightarrow> Inl TypeError)"

definition is_one :: "row \<Rightarrow> string \<Rightarrow> bool" where
  "is_one r c \<longleftrightarrow> map_of r c = Some (Num (Fin 1))"

definition set_num :: "string \<Rightarrow> flt \<Rightarrow> row \<Rightarrow> row" where
  "set_num c x r = dict_set c (Num x) r"

text \<open>\<^verbatim>\<open>pd.to_numeric(..., errors="coerce").fillna(0)\<close>\<close>

definition coerce0 :: "conversions \<Rightarrow> cell \<Rightarrow> flt" where
  "coerce0 E v = fillna0 (case v of Num x \<Rightarrow> x | Str s \<Rightarrow> to_numeric E s)"

section \<open>The RXP engine\<close>

text \<open>The columns of the counters, in the order the script collects them.\<close>

definition deq_col :: "string \<Rightarrow> bool" where "deq_col c \<longleftrightarrow> contains ''_deq_brst_pkts_cnt'' c"
definition enq_col :: "string \<Rightarrow> bool" where "enq_col c \<longleftrightarrow> contains ''_enq_brst_pkts_cnt'' c"
definition avg_col :: "string \<Rightarrow> bool" where "avg_col c \<longleftrightarrow> contains ''_deq_avg_rtt_cycles'' c"
definition ttl_col :: "string \<Rightarrow> bool" where "ttl_col c \<longleftrightarrow> contains ''_deq_rtt_ttl_cycles'' c"
definition match_col :: "string \<Rightarrow> bool" where
  "match_col c \<longleftrightarrow> contains ''rgx'' c \<and> contains ''_patterns_matched'' c"

definition counter_col :: "string \<Rightarrow> bool" where
  "counter_col c \<longleftrightarrow> deq_col c \<or> enq_col c \<or> avg_col c \<or> ttl_col c \<or> match_col c"

definition coerce_counters :: "conversions \<Rightarrow> row \<Rightarrow> row" where
  "coerce_counters E r = map (\<lambda>(c, v). (c, if counter_col c then Num (coerce0 E v) else v)) r"

definition nums_where :: "(string \<Rightarrow> bool) \<Rightarrow> row \<Rightarrow> flt list" where
  "nums_where P r = List.map_filter (\<lambda>(c, v). case v of Num x \<Rightarrow> if P c then Some x else None | Str s \<Rightarrow> None) r"

definition bucket_sizes :: "nat list" where
  "bucket_sizes = map (\<lambda>i. 4 * i) [1 ..< 17]"

definition avg_latency_col :: "nat \<Rightarrow> string" where
  "avg_latency_col bs = ''rgx_bs'' @ nat_str bs @ ''_deq_avg_rtt_cycles''"

definition pkts_cnt_col :: "nat \<Rightarrow> string" where
  "pkts_cnt_col bs = ''rgx_bs'' @ nat_str bs @ ''_deq_brst_pkts_cnt''"

definition add_bucket :: "row \<Rightarrow> nat \<Rightarrow> flt \<times> flt \<Rightarrow> (flt \<times> flt) res" where
  "add_bucket r bs = (\<lambda>(total_latency, total_packets).
     res_bind (num_of r (avg_latency_col bs)) (\<lambda>lat.
     res_bind (num_of r (pkts_cnt_col bs)) (\<lambda>cnt.
       Inr (total_latency + lat * cnt, total_packets + cnt))))"

definition weighted_avg_latency :: "row \<Rightarrow> flt res" where
  "weighted_avg_latency r =
     res_bind (res_fold (add_bucket r) bucket_sizes (0, 0)) (\<lambda>(total_latency, total_packets).
       Inr (if 0 < total_packets then total_latency / total_packets else 0))"

definition subset_columns :: "conversions \<Rightarrow> row \<Rightarrow> row res" where
  "subset_columns E r =
     res_bind (dict_get r ''param_rule_subset_ratio'') (\<lambda>ratio.
     let x = cell_str E ratio; parts = split_char (CHR '':'') x
     in res_bind (to_float E (hd parts)) (\<lambda>size.
          Inr (set_num ''subsets_cnt'' (Fin (of_nat (length parts)))
            (set_num ''subsets_inspected_subset_size'' (Fin size)
              (dict_set ''param_rule_subset_ratio'' (Str x) r)))))"

definition rgx_row :: "conversions \<Rightarrow> row \<Rightarrow> row res" where
  "rgx_row E r0 =
     res_bind (subset_columns E r0) (\<lambda>r1.
     let r = coerce_counters E r1;
         deq = sum_list (nums_where deq_col r);
         enq = sum_list (nums_where enq_col r);
         med = median E (nums_where avg_col r);
         ttl = sum_list (nums_where ttl_col r);
         matched = sum_list (nums_where match_col r)
     in res_bind (num_of r ''port0_rx_phy_packets'') (\<lambda>phy.
        res_bind (num_of r ''port0_rx_good_packets'') (\<lambda>good.
        res_bind (num_of r ''port0_rx_good_bytes'') (\<lambda>good_bytes.
        res_bind (weighted_avg_latency r) (\<lambda>lat.
          Inr (set_num ''rgx_weighted_avg_latency_cycles'' lat
            (set_num ''rgx_matches_per_rcvd_kB'' (inf_to_0 (matched / (good_bytes / Fin 1000)))
            (set_num ''rgx_processed_rate_of_rx_percent'' (inf_to_0 (deq / good) * Fin 100)
            (set_num ''rgx_processed_rate_0_to_1'' (inf_to_0 (deq / phy))
            (set_num ''avg_cycles_ttl_cycles_div_ttl_pkts'' (inf_to_0 (ttl / deq))
            (set_num ''sum_rgx_matched_patterns'' matched
            (set_num ''sum_rgx_deq_ttl_cycles_cols'' ttl
            (set_num ''median_rgx_deq_avg_cycles_cols'' med
            (set_num ''sum_rgx_enqueued_packets'' enq
            (set_num ''sum_rgx_dequeued_packets'' deq r)))))))))))))))"

text \<open>The columns a frame gets, also when no row is left.\<close>

definition add_columns :: "string list \<Rightarrow> string list \<Rightarrow> string list" where
  "add_columns new cols = cols @ filter (\<lambda>c. c \<notin> set cols) new"

definition rgx_new_columns :: "string list" where
  "rgx_new_columns =
     [''subsets_inspected_subset_size'', ''subsets_cnt'', ''sum_rgx_dequeued_packets'',
      ''sum_rgx_enqueued_packets'', ''median_rgx_deq_avg_cycles_cols'', ''sum_rgx_deq_ttl_cycles_cols'',
      ''sum_rgx_matched_patterns'', ''avg_cycles_ttl_cycles_div_ttl_pkts'', ''rgx_processed_rate_0_to_1'',
      ''rgx_processed_rate_of_rx_percent'', ''rgx_matches_per_rcvd_kB'', ''rgx_weighted_avg_latency_cycles'']"

definition rgx_empty_columns :: "string list" where
  "rgx_empty_columns =
     [''rgx_processed_rate_0_to_1'', ''rgx_processed_rate_of_rx_percent'', ''rgx_weighted_avg_latency_cycles'',
      ''rgx_matches_per_rcvd_kB'', ''subsets_inspected_subset_size'', ''subsets_cnt'']"

definition map_rows :: "(row \<Rightarrow> row res) \<Rightarrow> (nat \<times> row) list \<Rightarrow> (nat \<times> row) list res" where
  "map_rows f rs = res_map (\<lambda>(i, r). res_bind (f r) (\<lambda>r'. Inr (i, r'))) rs"

definition process_rgx_cols :: "conversions \<Rightarrow> frame \<Rightarrow> frame res" where
  "process_rgx_cols E df =
     (if ''param_rgx_enabled'' \<notin> set (columns df) then Inl KeyError
      else
        let rs = filter (\<lambda>(i, r). is_one r ''param_rgx_enabled'') (frame_rows df)
        in if rs = [] then Inr \<lparr>columns = add_columns rgx_empty_columns (columns df), frame_rows = []\<rparr>
           else res_bind (map_rows (rgx_row E) rs) (\<lambda>rs'.
                  Inr \<lparr>columns = add_columns rgx_new_columns (columns df), frame_rows = rs'\<rparr>))"

section \<open>Hyperscan and the packet generator\<close>

text \<open>\<^verbatim>\<open>replace(0, pd.NA)\<close>\<close>

definition zero_to_na :: "flt \<Rightarrow> flt" where
  "zero_to_na x = (if x = 0 then NaN else x)"

definition hs_row :: "row \<Rightarrow> row res" where
  "hs_row r =
     res_bind (num_of r ''hs_total_scans'') (\<lambda>scans.
     res_bind (num_of r ''port0_rx_phy_packets'') (\<lambda>phy.
     res_bind (num_of r ''hs_total_patterns_matched'') (\<lambda>matched.
     res_bind (num_of r ''port0_rx_good_bytes'') (\<lambda>good_bytes.
       Inr (set_num ''hs_matches_per_rcvd_kB'' (matched / (good_bytes / Fin 1000))
         (set_num ''hs_processed_rate_0_to_1'' (scans / zero_to_na phy) r))))))"

definition hs_new_columns :: "string list" where
  "hs_new_columns = [''hs_processed_rate_0_to_1'', ''hs_matches_per_rcvd_kB'']"

definition hs_empty_columns :: "string list" where
  "hs_empty_columns =
     [''param_hs_flags'', ''hs_total_scans'', ''hs_avg_scan_time_cycles'', ''hs_processed_rate_0_to_1'',
      ''hs_matches_per_rcvd_kB'']"

definition process_hs_cols :: "frame \<Rightarrow> frame res" where
  "process_hs_cols df =
     (if ''param_hs_enabled'' \<notin> set (columns df) then Inl KeyError
      else
        let rs = filter (\<lambda>(i, r). is_one r ''param_hs_enabled'') (frame_rows df)
        in if rs = [] then Inr \<lparr>columns = add_columns hs_empty_columns (columns df), frame_rows = []\<rparr>
           else res_bind (map_rows hs_row rs) (\<lambda>rs'.
                  Inr \<lparr>columns = add_columns hs_new_columns (columns df), frame_rows = rs'\<rparr>))"

definition pktgen_columns :: "string list" where
  "pktgen_columns = [''tx_p0_b2b_latency_cycles_avg'', ''tx_p0_b2b_latency_us_avg'']"

definition process_pktgen_cols :: "frame \<Rightarrow> frame" where
  "process_pktgen_cols df =
     (let new = filter (\<lambda>c. c \<notin> set (columns df)) pktgen_columns
      in \<lparr>columns = columns df @ new,
          frame_rows = map (\<lambda>(i, r). (i, r @ map (\<lambda>c. (c, Num 0)) new)) (frame_rows df)\<rparr>)"

section \<open>Putting the engines together\<close>

text \<open>Concatenation, sorting by the index, and \<^verbatim>\<open>fillna(0)\<close> in the columns of one frame only.\<close>

definition cell_fillna0 :: "cell \<Rightarrow> cell" where
  "cell_fillna0 v = (case v of Num x \<Rightarrow> Num (fillna0 x) | Str s \<Rightarrow> Str s)"

definition widen :: "string list \<Rightarrow> (string \<Rightarrow> bool) \<Rightarrow> row \<Rightarrow> row" where
  "widen cols unique r =
     map (\<lambda>c. (c, let v = (case map_of r c of None \<Rightarrow> Num NaN | Some v \<Rightarrow> v)
                  in if unique c then cell_fillna0 v else v)) cols"

definition concat_frames :: "frame \<Rightarrow> frame \<Rightarrow> frame" where
  "concat_frames a b =
     (let cols = add_columns (columns b) (columns a);
          unique = (\<lambda>c. (c \<in> set (columns a)) \<noteq> (c \<in> set (columns b)))
      in \<lparr>columns = cols,
          frame_rows = map (\<lambda>(i, r). (i, widen cols unique r)) (sort_key fst (frame_rows a @ frame_rows b))\<rparr>)"

text \<open>Whether two columns are positive in one row, which the script refuses.\<close>

definition both_positive :: "string \<Rightarrow> string \<Rightarrow> row \<Rightarrow> bool res" where
  "both_positive c d r =
     res_bind (num_of r c) (\<lambda>x. res_bind (num_of r d) (\<lambda>y. Inr (0 < x \<and> 0 < y)))"

definition refuse_both :: "string \<Rightarrow> string \<Rightarrow> frame \<Rightarrow> unit res" where
  "refuse_both c d df =
     (if c \<notin> set (columns df) \<or> d \<notin> set (columns df) then Inl KeyError
      else res_bind (res_map (\<lambda>(i, r). both_positive c d r) (frame_rows df)) (\<lambda>bs.
        if True \<in> set bs then Inl ValueError else Inr ()))"

definition combine_rates :: "row \<Rightarrow> row res" where
  "combine_rates r =
     res_bind (num_of r ''hs_processed_rate_0_to_1'') (\<lambda>hs.
     res_bind (num_of r ''rgx_processed_rate_0_to_1'') (\<lambda>rgx.
     res_bind (num_of r ''hs_matches_per_rcvd_kB'') (\<lambda>hm.
     res_bind (num_of r ''rgx_matches_per_rcvd_kB'') (\<lambda>rm.
     res_bind (num_of r ''rgx_weighted_avg_latency_cycles'') (\<lambda>lat.
     res_bind (num_of r ''hs_avg_scan_time_cycles'') (\<lambda>scan.
       Inr (set_num ''hs_avg_scan_time_cycles'' (fillna0 scan)
         (set_num ''rgx_weighted_avg_latency_cycles'' (fillna0 lat)
         (set_num ''matches_per_rcvd_kB'' (hm + rm)
         (set_num ''processed_rate_percent'' ((hs + rgx) * Fin 100)
         (set_num ''combined_processed_rate_0_to_1'' (hs + rgx) r)))))))))))"

definition combine_latency :: "row \<Rightarrow> row res" where
  "combine_latency r =
     res_bind (num_of r ''rgx_weighted_avg_latency_cycles'') (\<lambda>lat.
     res_bind (num_of r ''hs_avg_scan_time_cycles'') (\<lambda>scan.
       Inr (set_num ''combined_scan_avg_cycles'' (lat + scan) r)))"

definition row_label :: "conversions \<Rightarrow> row \<Rightarrow> string res" where
  "row_label E r =
     (let field = (\<lambda>key c. res_bind (dict_get r c) (\<lambda>v. Inr (key @ cell_str E v)))
      in res_bind (res_map (\<lambda>(key, c). field key c)
           [(''LC:'', ''param_lcores''), ('' NR:'', ''param_n_rules''), ('' RC:'', ''param_rules_use_content_kw''),
            ('' RP:'', ''param_rules_use_pcre_kw''), ('' PS:'', ''param_pkt_size''), ('' RE:'', ''param_rgx_enabled'')])
           (\<lambda>start.
         res_bind (if is_one r ''param_rgx_enabled'' then field '' NRD:'' ''param_nb_rgx_desc'' else Inr []) (\<lambda>nrd.
         res_bind (if ''param_rule_subset_ratio'' \<in> set (keys r) then field '' RG:'' ''param_rule_subset_ratio'' else Inr [])
           (\<lambda>rg.
         res_bind (field '' HS:'' ''param_hs_enabled'') (\<lambda>hs.
         res_bind (if is_one r ''param_hs_enabled'' then field '' HSFLGS:'' ''param_hs_flags'' else Inr []) (\<lambda>flags.
         res_bind (field '' PDB:'' ''param_pattern_db'') (\<lambda>pdb.
           Inr (concat start @ nrd @ rg @ hs @ flags @ pdb))))))))"

definition add_label :: "conversions \<Rightarrow> row \<Rightarrow> row res" where
  "add_label E r = res_bind (row_label E r) (\<lambda>s. Inr (dict_set ''label'' (Str s) r))"

definition map_frame :: "string list \<Rightarrow> (row \<Rightarrow> row res) \<Rightarrow> frame \<Rightarrow> frame res" where
  "map_frame new f df =
     res_bind (map_rows f (frame_rows df)) (\<lambda>rs.
       Inr \<lparr>columns = add_columns new (columns df), frame_rows = rs\<rparr>)"

definition postprocess_all :: "conversions \<Rightarrow> frame \<Rightarrow> frame res" where
  "postprocess_all E df =
     res_bind (refuse_both ''hs_processed_rate_0_to_1'' ''rgx_processed_rate_0_to_1'' df) (\<lambda>_.
     res_bind (map_frame [''combined_processed_rate_0_to_1'', ''processed_rate_percent'', ''matches_per_rcvd_kB'']
         combine_rates df) (\<lambda>df.
     res_bind (refuse_both ''rgx_weighted_avg_latency_cycles'' ''hs_avg_scan_time_cycles'' df) (\<lambda>_.
     res_bind (map_frame [''combined_scan_avg_cycles''] combine_latency df) (\<lambda>df.
       map_frame [''label''] (add_label E) df))))"

section \<open>The program\<close>

definition fixed_columns :: "string list" where
  "fixed_columns =
     [''rgx_processed_rate_0_to_1'', ''rgx_weighted_avg_latency_cycles'', ''rgx_processed_rate_0_to_1'',
      ''rgx_weighted_avg_latency_cycles'', ''rgx_processed_rate_of_rx_percent'', ''tx_p0_b2b_latency_cycles_avg'',
      ''tx_p0_b2b_latency_us_avg'', ''processed_rate_percent'', ''matches_per_rcvd_kB'',
      ''combined_scan_avg_cycles'', ''subsets_inspected_subset_size'', ''subsets_cnt'', ''label'']"

definition selected_columns :: "string list \<Rightarrow> string list" where
  "selected_columns cols =
     sort (filter (contains ''param_'') cols @ filter (contains ''app_'') cols @ fixed_columns)"

text \<open>A selection of columns of every row; a missing one is an error.\<close>

definition select_columns :: "string list \<Rightarrow> frame \<Rightarrow> (nat \<times> row) list res" where
  "select_columns cols df =
     (if \<exists>c \<in> set cols. c \<notin> set (columns df) then Inl KeyError
      else map_rows (\<lambda>r. res_map (\<lambda>c. res_bind (dict_get r c) (\<lambda>v. Inr (c, v))) cols) (frame_rows df))"

definition new_frame :: "conversions \<Rightarrow> frame \<Rightarrow> frame res" where
  "new_frame E df0 =
     (let df = process_pktgen_cols df0
      in res_bind (process_rgx_cols E df) (\<lambda>rgx_df.
         res_bind (process_hs_cols df) (\<lambda>hs_df. Inr (concat_frames rgx_df hs_df))))"

text \<open>Both tables written: the aggregated rows, and the rows for plotting.\<close>

definition process_main :: "conversions \<Rightarrow> frame \<Rightarrow> (frame \<times> (nat \<times> row) list) res" where
  "process_main E df0 =
     res_bind (new_frame E df0) (\<lambda>new_df.
     res_bind (postprocess_all E new_df) (\<lambda>df.
     res_bind (select_columns (selected_columns (columns df)) df) (\<lambda>sel. Inr (df, sel))))"

section \<open>Rows keep their columns\<close>

text \<open>A frame is well formed when every row has exactly its columns.\<close>

definition frame_ok :: "frame \<Rightarrow> bool" where
  "frame_ok df \<longleftrightarrow> (\<forall>(i, r) \<in> set (frame_rows df). set (keys r) = set (columns df))"

lemma frame_okD: "frame_ok df \<Longrightarrow> (i, r) \<in> set (frame_rows df) \<Longrightarrow> fst ` set r = set (columns df)"
  unfolding frame_ok_def by (drule (1) bspec) simp

lemma frame_okI:
  "(\<And>i r. (i, r) \<in> set (frame_rows df) \<Longrightarrow> fst ` set r = set (columns df)) \<Longrightarrow> frame_ok df"
  by (auto simp: frame_ok_def)

lemma keys_set_num [simp]: "fst ` set (set_num c x r) = insert c (fst ` set r)"
  by (simp add: set_num_def dom_update)

lemma map_of_set_num [simp]: "map_of (set_num c x r) = (map_of r)(c \<mapsto> Num x)"
  by (simp add: set_num_def update_conv')

lemma keys_coerce_counters: "fst ` set (coerce_counters E r) = fst ` set r"
  by (force simp: coerce_counters_def)

lemma pktgen_ok:
  assumes "frame_ok df" shows "frame_ok (process_pktgen_cols df)"
    and "set (columns (process_pktgen_cols df)) = set (columns df) \<union> set pktgen_columns"
proof -
  let ?new = "filter (\<lambda>c. c \<notin> set (columns df)) pktgen_columns"
  have keys: "fst ` set (r @ map (\<lambda>c. (c, Num 0)) cs) = fst ` set r \<union> set cs" for r :: row and cs
    by (simp add: image_Un image_image)
  show "frame_ok (process_pktgen_cols df)"
  proof (rule frame_okI)
    fix i r'
    assume "(i, r') \<in> set (frame_rows (process_pktgen_cols df))"
    then obtain r where r: "(i, r) \<in> set (frame_rows df)" "r' = r @ map (\<lambda>c. (c, Num 0)) ?new"
      by (auto simp: process_pktgen_cols_def Let_def)
    show "fst ` set r' = set (columns (process_pktgen_cols df))"
      unfolding r(2) keys frame_okD [OF assms r(1)] by (simp add: process_pktgen_cols_def Let_def)
  qed
  show "set (columns (process_pktgen_cols df)) = set (columns df) \<union> set pktgen_columns"
    by (auto simp: process_pktgen_cols_def Let_def)
qed

lemma rgx_row_keys:
  assumes "rgx_row E r = Inr r'"
  shows "set (keys r') = set (keys r) \<union> set rgx_new_columns"
    and "\<exists>x. map_of r' ''rgx_processed_rate_0_to_1'' = Some (Num x)"
proof -
  obtain r1 where r1: "subset_columns E r = Inr r1" using assms by (auto simp: rgx_row_def)
  have ratio: "''param_rule_subset_ratio'' \<in> set (keys r)"
    using r1 unfolding in_keys_iff
    by (cases "map_of r ''param_rule_subset_ratio''") (auto simp: subset_columns_def dict_get_def)
  have k1: "fst ` set r1 = fst ` set r \<union> {''subsets_inspected_subset_size'', ''subsets_cnt''}"
  proof -
    obtain m n t where r1': "r1 = set_num ''subsets_cnt'' n (set_num ''subsets_inspected_subset_size'' m
        (dict_set ''param_rule_subset_ratio'' (Str t) r))"
      using r1 by (auto simp: subset_columns_def Let_def)
    have "fst ` set (dict_set ''param_rule_subset_ratio'' (Str t) r) = fst ` set r"
      using ratio by (auto simp: dom_update)
    then show ?thesis unfolding r1' keys_set_num by auto
  qed
  obtain x1 x2 x3 x4 x5 x6 x7 x8 x9 x10 where r':
    "r' = set_num ''rgx_weighted_avg_latency_cycles'' x1
            (set_num ''rgx_matches_per_rcvd_kB'' x2
            (set_num ''rgx_processed_rate_of_rx_percent'' x3
            (set_num ''rgx_processed_rate_0_to_1'' x4
            (set_num ''avg_cycles_ttl_cycles_div_ttl_pkts'' x5
            (set_num ''sum_rgx_matched_patterns'' x6
            (set_num ''sum_rgx_deq_ttl_cycles_cols'' x7
            (set_num ''median_rgx_deq_avg_cycles_cols'' x8
            (set_num ''sum_rgx_enqueued_packets'' x9
            (set_num ''sum_rgx_dequeued_packets'' x10 (coerce_counters E r1))))))))))"
    using assms unfolding rgx_row_def r1 res_bind_simps Let_def by auto
  show "set (keys r') = set (keys r) \<union> set rgx_new_columns"
    unfolding r' set_map keys_set_num keys_coerce_counters k1 rgx_new_columns_def list.set
    by (simp only: Un_insert_right Un_insert_left Un_empty_right insert_commute)
  show "\<exists>x. map_of r' ''rgx_processed_rate_0_to_1'' = Some (Num x)" by (simp add: r')
qed

lemma hs_row_keys:
  assumes "hs_row r = Inr r'"
  shows "set (keys r') = set (keys r) \<union> set hs_new_columns"
    and "\<exists>x. map_of r' ''hs_processed_rate_0_to_1'' = Some (Num x)"
proof -
  obtain x y where r': "r' = set_num ''hs_matches_per_rcvd_kB'' y (set_num ''hs_processed_rate_0_to_1'' x r)"
    using assms by (auto simp: hs_row_def)
  show "set (keys r') = set (keys r) \<union> set hs_new_columns"
    unfolding r' set_map keys_set_num hs_new_columns_def by auto
  show "\<exists>x. map_of r' ''hs_processed_rate_0_to_1'' = Some (Num x)" by (simp add: r')
qed

lemma map_rows_in:
  assumes "map_rows f rs = Inr rs'" "(i, r') \<in> set rs'"
  shows "\<exists>r. (i, r) \<in> set rs \<and> f r = Inr r'"
  using assms unfolding map_rows_def
  by (induction rs arbitrary: rs') fastforce+

lemma set_add_columns [simp]: "set (add_columns new cols) = set cols \<union> set new"
  by (auto simp: add_columns_def)

text \<open>The two frames: their columns, and the rate that their rows have.\<close>

lemma rgx_frame:
  assumes "process_rgx_cols E df = Inr a" "frame_ok df"
  shows "frame_ok a" and "''rgx_processed_rate_0_to_1'' \<in> set (columns a)"
    and "set (columns a) \<subseteq> set (columns df) \<union> set rgx_new_columns"
    and "\<forall>(i, r) \<in> set (frame_rows a). \<exists>x. map_of r ''rgx_processed_rate_0_to_1'' = Some (Num x)"
proof -
  let ?rs = "filter (\<lambda>(i, r). is_one r ''param_rgx_enabled'') (frame_rows df)"
  have sub: "set rgx_empty_columns \<subseteq> set rgx_new_columns" by code_simp
  have new: "''rgx_processed_rate_0_to_1'' \<in> set rgx_new_columns" "''rgx_processed_rate_0_to_1'' \<in> set rgx_empty_columns"
    by code_simp+
  consider "a = \<lparr>columns = add_columns rgx_empty_columns (columns df), frame_rows = []\<rparr>"
    | rs' where "map_rows (rgx_row E) ?rs = Inr rs'"
        "a = \<lparr>columns = add_columns rgx_new_columns (columns df), frame_rows = rs'\<rparr>"
    using assms(1) by (auto simp: process_rgx_cols_def Let_def split: if_split_asm)
  then have "frame_ok a \<and> ''rgx_processed_rate_0_to_1'' \<in> set (columns a) \<and>
      set (columns a) \<subseteq> set (columns df) \<union> set rgx_new_columns \<and>
      (\<forall>(i, r) \<in> set (frame_rows a). \<exists>x. map_of r ''rgx_processed_rate_0_to_1'' = Some (Num x))"
  proof cases
    case 1
    then show ?thesis using sub new by (auto simp: frame_ok_def)
  next
    case (2 rs')
    have "set (keys r') = set (columns df) \<union> set rgx_new_columns \<and>
        (\<exists>x. map_of r' ''rgx_processed_rate_0_to_1'' = Some (Num x))" if m: "(i, r') \<in> set rs'" for i r'
    proof -
      obtain r where r: "(i, r) \<in> set ?rs" "rgx_row E r = Inr r'" using map_rows_in [OF 2(1) m] by blast
      have "set (keys r) = set (columns df)" using r(1) frame_okD [OF assms(2), of i r] by simp
      then show ?thesis using rgx_row_keys [OF r(2)] by blast
    qed
    then show ?thesis using 2(2) new by (auto simp: frame_ok_def)
  qed
  then show "frame_ok a" "''rgx_processed_rate_0_to_1'' \<in> set (columns a)"
    "set (columns a) \<subseteq> set (columns df) \<union> set rgx_new_columns"
    "\<forall>(i, r) \<in> set (frame_rows a). \<exists>x. map_of r ''rgx_processed_rate_0_to_1'' = Some (Num x)" by blast+
qed

lemma hs_frame:
  assumes "process_hs_cols df = Inr b" "frame_ok df"
  shows "frame_ok b" and "''hs_processed_rate_0_to_1'' \<in> set (columns b)"
    and "set (columns b) \<subseteq> set (columns df) \<union> set hs_empty_columns"
    and "\<forall>(i, r) \<in> set (frame_rows b). \<exists>x. map_of r ''hs_processed_rate_0_to_1'' = Some (Num x)"
proof -
  let ?rs = "filter (\<lambda>(i, r). is_one r ''param_hs_enabled'') (frame_rows df)"
  have sub: "set hs_new_columns \<subseteq> set hs_empty_columns" by code_simp
  have new: "''hs_processed_rate_0_to_1'' \<in> set hs_new_columns" "''hs_processed_rate_0_to_1'' \<in> set hs_empty_columns"
    by code_simp+
  consider "b = \<lparr>columns = add_columns hs_empty_columns (columns df), frame_rows = []\<rparr>"
    | rs' where "map_rows hs_row ?rs = Inr rs'"
        "b = \<lparr>columns = add_columns hs_new_columns (columns df), frame_rows = rs'\<rparr>"
    using assms(1) by (auto simp: process_hs_cols_def Let_def split: if_split_asm)
  then have "frame_ok b \<and> ''hs_processed_rate_0_to_1'' \<in> set (columns b) \<and>
      set (columns b) \<subseteq> set (columns df) \<union> set hs_empty_columns \<and>
      (\<forall>(i, r) \<in> set (frame_rows b). \<exists>x. map_of r ''hs_processed_rate_0_to_1'' = Some (Num x))"
  proof cases
    case 1
    then show ?thesis using new by (auto simp: frame_ok_def)
  next
    case (2 rs')
    have "set (keys r') = set (columns df) \<union> set hs_new_columns \<and>
        (\<exists>x. map_of r' ''hs_processed_rate_0_to_1'' = Some (Num x))" if m: "(i, r') \<in> set rs'" for i r'
    proof -
      obtain r where r: "(i, r) \<in> set ?rs" "hs_row r = Inr r'" using map_rows_in [OF 2(1) m] by blast
      have "set (keys r) = set (columns df)" using r(1) frame_okD [OF assms(2), of i r] by simp
      then show ?thesis using hs_row_keys [OF r(2)] by blast
    qed
    then show ?thesis using 2(2) sub new by (auto simp: frame_ok_def)
  qed
  then show "frame_ok b" "''hs_processed_rate_0_to_1'' \<in> set (columns b)"
    "set (columns b) \<subseteq> set (columns df) \<union> set hs_empty_columns"
    "\<forall>(i, r) \<in> set (frame_rows b). \<exists>x. map_of r ''hs_processed_rate_0_to_1'' = Some (Num x)" by blast+
qed

lemma map_of_widen:
  "c \<in> set cols \<Longrightarrow> map_of (widen cols unique r) c =
     Some (let v = (case map_of r c of None \<Rightarrow> Num NaN | Some v \<Rightarrow> v) in if unique c then cell_fillna0 v else v)"
  unfolding widen_def by (induction cols) auto

lemma fillna0_NaN [simp]: "cell_fillna0 (Num NaN) = Num 0"
  by (simp add: cell_fillna0_def fillna0_def)

text \<open>C35: In the frame of both engines every row has the rate of at most one of them: the row of an RXP
  run has zero in the column of Hyperscan and the other way round, also when one row of the input
  has both engines enabled.  So the first check of the combination never refuses anything.\<close>

theorem rates_exclusive:
  assumes "new_frame E df0 = Inr df" and "frame_ok df0"
    and "''hs_processed_rate_0_to_1'' \<notin> set (columns df0)"
    and "''rgx_processed_rate_0_to_1'' \<notin> set (columns df0)"
  shows "(\<forall>(i, r) \<in> set (frame_rows df).
      map_of r ''hs_processed_rate_0_to_1'' = Some (Num 0) \<or>
      map_of r ''rgx_processed_rate_0_to_1'' = Some (Num 0)) \<and>
    refuse_both ''hs_processed_rate_0_to_1'' ''rgx_processed_rate_0_to_1'' df = Inr ()"
proof -
  let ?hs = "''hs_processed_rate_0_to_1''" and ?rgx = "''rgx_processed_rate_0_to_1''"
  obtain a b where a: "process_rgx_cols E (process_pktgen_cols df0) = Inr a"
      and b: "process_hs_cols (process_pktgen_cols df0) = Inr b" and df: "df = concat_frames a b"
    using assms(1) by (auto simp: new_frame_def Let_def)
  note ok = pktgen_ok [OF assms(2)]
  note ra = rgx_frame [OF a ok(1)] and rb = hs_frame [OF b ok(1)]
  have ne: "?hs \<notin> set pktgen_columns \<union> set rgx_new_columns" "?rgx \<notin> set pktgen_columns \<union> set hs_empty_columns"
    by code_simp+
  have cols: "?hs \<notin> set (columns a)" "?rgx \<notin> set (columns b)"
    using ra(3) rb(3) ne assms(3,4) unfolding ok(2) by blast+
  let ?cols = "add_columns (columns b) (columns a)"
  let ?u = "\<lambda>c. (c \<in> set (columns a)) \<noteq> (c \<in> set (columns b))"
  have u: "?u ?hs" "?u ?rgx" "?hs \<in> set ?cols" "?rgx \<in> set ?cols" using cols ra(2) rb(2) by auto
  have wa: "map_of (widen ?cols ?u r) ?hs = Some (Num 0) \<and> (\<exists>x. map_of (widen ?cols ?u r) ?rgx = Some (Num x))"
    if m: "(i, r) \<in> set (frame_rows a)" for i r
  proof -
    have "map_of r ?hs = None"
      using frame_okD [OF ra(1) m] cols(1) by (simp add: map_of_eq_None_iff)
    moreover obtain x where "map_of r ?rgx = Some (Num x)" using bspec [OF ra(4) m] by auto
    ultimately show ?thesis
      using u by (simp add: map_of_widen cell_fillna0_def fillna0_def)
  qed
  have wb: "map_of (widen ?cols ?u r) ?rgx = Some (Num 0) \<and> (\<exists>x. map_of (widen ?cols ?u r) ?hs = Some (Num x))"
    if m: "(i, r) \<in> set (frame_rows b)" for i r
  proof -
    have "map_of r ?rgx = None"
      using frame_okD [OF rb(1) m] cols(2) by (simp add: map_of_eq_None_iff)
    moreover obtain x where "map_of r ?hs = Some (Num x)" using bspec [OF rb(4) m] by auto
    ultimately show ?thesis
      using u by (simp add: map_of_widen cell_fillna0_def fillna0_def)
  qed
  have rows: "(map_of r ?hs = Some (Num 0) \<or> map_of r ?rgx = Some (Num 0)) \<and>
      both_positive ?hs ?rgx r = Inr False" if m: "(i, r) \<in> set (frame_rows df)" for i r
  proof -
    obtain r0 where r0: "r = widen ?cols ?u r0" "(i, r0) \<in> set (frame_rows a) \<union> set (frame_rows b)"
      using m unfolding df concat_frames_def Let_def by auto
    then show ?thesis using wa [of i r0] wb [of i r0]
      by (auto simp: both_positive_def num_of_def dict_get_def zero_flt_def)
  qed
  have "columns df = ?cols" by (simp add: df concat_frames_def Let_def)
  moreover have "res_map (\<lambda>(i, r). both_positive ?hs ?rgx r) (frame_rows df) =
      Inr (map (\<lambda>_. False) (frame_rows df))"
    by (rule res_map_total) (use rows in auto)
  ultimately show ?thesis using rows u(3,4) by (auto simp: refuse_both_def)
qed

definition demo_conversions :: conversions where
  "demo_conversions =
     \<lparr>to_float = (\<lambda>s. Inr 1), to_numeric = (\<lambda>s. NaN), cell_str = (\<lambda>v. ''1:2''), median = (\<lambda>xs. NaN)\<rparr>"

text \<open>A run with Hyperscan, as the table has it.\<close>

definition demo_row :: row where
  "demo_row =
     [(''param_rgx_enabled'', Num (Fin 0)), (''param_hs_enabled'', Num (Fin 1)),
      (''port0_rx_phy_packets'', Num (Fin 10)), (''port0_rx_good_bytes'', Num (Fin 1000)),
      (''hs_total_scans'', Num (Fin 5)), (''hs_total_patterns_matched'', Num (Fin 2))]"

definition demo_frame :: frame where
  "demo_frame = \<lparr>columns = keys demo_row, frame_rows = [(0, demo_row)]\<rparr>"

theorem rates_exclusive_witness:
  "\<exists>df r. new_frame demo_conversions demo_frame = Inr df \<and> frame_rows df = [(0, r)] \<and>
     map_of r ''hs_processed_rate_0_to_1'' = Some (Num (Fin (1 / 2))) \<and>
     map_of r ''rgx_processed_rate_0_to_1'' = Some (Num 0)"
proof -
  have "case new_frame demo_conversions demo_frame of Inl e \<Rightarrow> False
      | Inr df \<Rightarrow> map fst (frame_rows df) = [0] \<and>
          map_of (snd (hd (frame_rows df))) ''hs_processed_rate_0_to_1'' = Some (Num (Fin (1 / 2)))"
    by code_simp
  then obtain df where df: "new_frame demo_conversions demo_frame = Inr df" "map fst (frame_rows df) = [0]"
      "map_of (snd (hd (frame_rows df))) ''hs_processed_rate_0_to_1'' = Some (Num (Fin (1 / 2)))"
    by (auto split: sum.splits)
  then obtain r where r: "new_frame demo_conversions demo_frame = Inr df" "frame_rows df = [(0, r)]"
      "map_of r ''hs_processed_rate_0_to_1'' = Some (Num (Fin (1 / 2)))"
    by (cases "frame_rows df") auto
  have "frame_ok demo_frame" by (simp add: frame_ok_def demo_frame_def)
  moreover have "''hs_processed_rate_0_to_1'' \<notin> set (columns demo_frame)"
      "''rgx_processed_rate_0_to_1'' \<notin> set (columns demo_frame)"
    by code_simp+
  ultimately have "map_of r ''hs_processed_rate_0_to_1'' = Some (Num 0) \<or>
      map_of r ''rgx_processed_rate_0_to_1'' = Some (Num 0)"
    using rates_exclusive [OF r(1)] r(2) by simp
  then show ?thesis using r by (auto simp: zero_flt_def)
qed

section \<open>The weighted latency\<close>

lemma add_buckets:
  assumes "\<And>bs. bs \<in> set bss \<Longrightarrow> num_of r (avg_latency_col bs) = Inr (Fin (L bs)) \<and>
      num_of r (pkts_cnt_col bs) = Inr (Fin (N bs))"
  shows "res_fold (add_bucket r) bss (Fin t, Fin p) =
    Inr (Fin (t + sum_list (map (\<lambda>bs. L bs * N bs) bss)), Fin (p + sum_list (map N bss)))"
  using assms by (induction bss arbitrary: t p) (auto simp: add_bucket_def add.assoc)

lemma weighted_mean_le:
  assumes "\<And>x. x \<in> set xs \<Longrightarrow> 0 \<le> (N x :: real)" "\<And>x. x \<in> set xs \<Longrightarrow> 0 < N x \<Longrightarrow> L x \<le> u"
  shows "sum_list (map (\<lambda>x. L x * N x) xs) \<le> u * sum_list (map N xs)"
  using assms
proof (induction xs)
  case (Cons x xs)
  have "L x * N x \<le> u * N x"
    using Cons.prems [of x] by (cases "N x = 0") (auto intro: mult_right_mono)
  then show ?case using Cons by (simp add: distrib_left add_mono)
qed simp

lemma weighted_mean_strict:
  assumes "\<And>x. x \<in> set xs \<Longrightarrow> 0 \<le> (N x :: real)" "\<And>x. x \<in> set xs \<Longrightarrow> 0 < N x \<Longrightarrow> L x < u"
    and "0 < sum_list (map N xs)"
  shows "sum_list (map (\<lambda>x. L x * N x) xs) < u * sum_list (map N xs)"
  using assms
proof (induction xs)
  case (Cons x xs)
  have le: "sum_list (map (\<lambda>x. L x * N x) xs) \<le> u * sum_list (map N xs)"
    by (rule weighted_mean_le) (use Cons.prems in \<open>auto intro: less_imp_le\<close>)
  show ?case
  proof (cases "N x = 0")
    case True
    then show ?thesis using Cons by simp
  next
    case False
    then have "0 < N x" using Cons.prems(1) [of x] by simp
    then have "L x * N x < u * N x" using Cons.prems(2) [of x] by simp
    then show ?thesis using le by (simp add: distrib_left)
  qed
qed simp

text \<open>The weighted latency of a row whose counters are numbers, with no negative counts, is a
  number: zero when no packet was dequeued, and otherwise the mean of the bucket latencies weighted
  by the packets, which lies between the latencies of two buckets that had packets.\<close>

theorem weighted_latency_bounds:
  assumes "\<And>bs. bs \<in> set bucket_sizes \<Longrightarrow> num_of r (avg_latency_col bs) = Inr (Fin (L bs)) \<and>
      num_of r (pkts_cnt_col bs) = Inr (Fin (N bs)) \<and> 0 \<le> N bs"
  shows "\<exists>w. weighted_avg_latency r = Inr (Fin w) \<and>
    (if \<forall>bs \<in> set bucket_sizes. N bs = 0 then w = 0
     else w * sum_list (map N bucket_sizes) = sum_list (map (\<lambda>bs. L bs * N bs) bucket_sizes) \<and>
       (\<exists>bs \<in> set bucket_sizes. 0 < N bs \<and> L bs \<le> w) \<and> (\<exists>bs \<in> set bucket_sizes. 0 < N bs \<and> w \<le> L bs))"
proof -
  let ?t = "sum_list (map (\<lambda>bs. L bs * N bs) bucket_sizes)" and ?p = "sum_list (map N bucket_sizes)"
  have nonneg: "0 \<le> N bs" if "bs \<in> set bucket_sizes" for bs using assms that by blast
  have run: "res_fold (add_bucket r) bucket_sizes (0, 0) = Inr (Fin ?t, Fin ?p)"
    using add_buckets [of bucket_sizes r L N 0 0] assms by (simp add: zero_flt_def)
  have zero: "?p = 0 \<longleftrightarrow> (\<forall>bs \<in> set bucket_sizes. N bs = 0)"
    using nonneg by (subst sum_list_nonneg_eq_0_iff) auto
  have "0 \<le> ?p" by (rule sum_list_nonneg) (use nonneg in auto)
  show ?thesis
  proof (cases "?p = 0")
    case True
    then have "weighted_avg_latency r = Inr (Fin 0)"
      unfolding weighted_avg_latency_def run by (simp add: zero_flt_def)
    then show ?thesis using True zero by auto
  next
    case False
    then have pos: "0 < ?p" using \<open>0 \<le> ?p\<close> by simp
    let ?w = "?t / ?p"
    have w: "weighted_avg_latency r = Inr (Fin ?w)"
      using pos False by (simp add: weighted_avg_latency_def run)
    have mean: "?w * ?p = ?t" using False by simp
    have "\<exists>bs \<in> set bucket_sizes. 0 < N bs \<and> L bs \<le> ?w"
    proof (rule ccontr)
      assume *: "\<not> ?thesis"
      have "sum_list (map (\<lambda>bs. - L bs * N bs) bucket_sizes) < - ?w * ?p"
        by (rule weighted_mean_strict [OF nonneg _ pos]) (use * in force)+
      moreover have "sum_list (map (\<lambda>bs. - L bs * N bs) bucket_sizes) = - ?t"
        by (simp add: uminus_sum_list_map comp_def)
      ultimately show False using mean by simp
    qed
    moreover have "\<exists>bs \<in> set bucket_sizes. 0 < N bs \<and> ?w \<le> L bs"
    proof (rule ccontr)
      assume *: "\<not> ?thesis"
      have "?t < ?w * ?p"
        by (rule weighted_mean_strict [OF nonneg _ pos]) (use * in force)+
      then show False using mean by simp
    qed
    ultimately show ?thesis using w mean zero False by auto
  qed
qed

definition demo_value :: "string \<Rightarrow> real" where
  "demo_value c = (if contains ''_pkts_'' c then 5 else if c = avg_latency_col 4 then 40 else 80)"

definition demo_buckets :: row where
  "demo_buckets =
     map (\<lambda>c. (c, Num (Fin (demo_value c)))) (map avg_latency_col bucket_sizes @ map pkts_cnt_col bucket_sizes)"

theorem weighted_latency_bounds_witness:
  "\<exists>w. weighted_avg_latency demo_buckets = Inr (Fin w) \<and> 40 \<le> w \<and> w \<le> 80"
proof -
  have vals: "list_all (\<lambda>bs. demo_value (avg_latency_col bs) = (if bs = 4 then 40 else 80) \<and>
      demo_value (pkts_cnt_col bs) = 5) bucket_sizes"
    by code_simp
  have cell: "num_of demo_buckets c = Inr (Fin (demo_value c))"
    if m: "c \<in> set (map avg_latency_col bucket_sizes @ map pkts_cnt_col bucket_sizes)" for c
  proof -
    have "map_of (map (\<lambda>c. (c, Num (Fin (demo_value c)))) cs) c = Some (Num (Fin (demo_value c)))"
      if "c \<in> set cs" for cs
      using that by (induction cs) auto
    from this [OF m] show ?thesis
      unfolding demo_buckets_def num_of_def dict_get_def by (simp only: option.case res_bind_simps cell.case)
  qed
  have "num_of demo_buckets (avg_latency_col bs) = Inr (Fin (if bs = 4 then 40 else 80)) \<and>
      num_of demo_buckets (pkts_cnt_col bs) = Inr (Fin 5) \<and> (0 :: real) \<le> 5" if "bs \<in> set bucket_sizes" for bs
    using vals cell [of "avg_latency_col bs"] cell [of "pkts_cnt_col bs"] that by (auto simp: list_all_iff)
  then have "\<exists>w. weighted_avg_latency demo_buckets = Inr (Fin w) \<and>
    (if \<forall>bs \<in> set bucket_sizes. (5 :: real) = 0 then w = 0
     else w * sum_list (map (\<lambda>_. 5) bucket_sizes) =
         sum_list (map (\<lambda>bs. (if bs = 4 then 40 else 80) * 5) bucket_sizes) \<and>
       (\<exists>bs \<in> set bucket_sizes. (0 :: real) < 5 \<and> (if bs = 4 then 40 else 80) \<le> w) \<and>
       (\<exists>bs \<in> set bucket_sizes. (0 :: real) < 5 \<and> w \<le> (if bs = 4 then 40 else 80)))"
    by (rule weighted_latency_bounds)
  moreover have "\<not> (\<forall>bs \<in> set bucket_sizes. (5 :: real) = 0)" by (auto simp: bucket_sizes_def)
  ultimately show ?thesis by (simp only: if_False) (elim exE conjE bexE, auto split: if_split_asm)
qed

end
