(* ===== verification/Plot_Data.thy ===== *)
theory Plot_Data
  imports Process_Table
begin

text \<open>
  What the plotting scripts compute before they draw: autotest/plot-groups-new3.py, plot-bar4.py,
  plot-heatmap-v2.py, plot-latency.py and plot.py.  Modelled are the conversions of cells, the rule
  counts and labels, the legend, the limits and ticks of the axes, the smoothing of rates, markers and
  shades, and the checks of the arguments.  The theories of the single scripts put them together.
\<close>

section \<open>Groups by rule count (plot-groups-new3.py)\<close>

definition to_bool :: "cell \<Rightarrow> bool" where
  "to_bool v =
     (case v of
        Str s \<Rightarrow> py_lower s \<in> {''true'', ''1'', ''yes''}
      | Num x \<Rightarrow> x \<noteq> 0)"

text \<open>A range counts the cores after its first; every exception gives the cell back.\<close>

definition convert_lcores :: "conversions \<Rightarrow> cell \<Rightarrow> cell" where
  "convert_lcores E x =
     (let parts = split_char (CHR ''-'') (cell_str E x)
      in if length parts = 2 then
           (case (py_int (parts ! 1), py_int (parts ! 0)) of
              (Inr b, Inr a) \<Rightarrow> Num (Fin (of_int (b - a)))
            | _ \<Rightarrow> x)
         else
           (case x of
              Num v \<Rightarrow> Num v
            | Str s \<Rightarrow> (case to_float E s of Inr v \<Rightarrow> Num (Fin v) | Inl e \<Rightarrow> x)))"

definition groupby_columns :: "string \<Rightarrow> string \<Rightarrow> string list res" where
  "groupby_columns groupby x_axis =
     (let cols = filter (\<lambda>c. c \<noteq> []) (map strip (split_char (CHR '','') groupby))
      in if x_axis \<notin> set cols then Inl (SystemExit 1) else Inr cols)"

text \<open>\<^verbatim>\<open>round\<close> to the nearest integer, and to the even one of two.\<close>

definition round_half_even :: "real \<Rightarrow> int" where
  "round_half_even x =
     (let f = \<lfloor>x\<rfloor>; d = x - of_int f
      in if d < 1 / 2 then f else if 1 / 2 < d then f + 1 else if even f then f else f + 1)"

definition literal_multiplier :: real where
  "literal_multiplier = 2198124226 / 10 ^ 9"

definition pcre_multiplier :: real where
  "pcre_multiplier = 66749248 / 10 ^ 9"

definition rule_metadata :: "(real \<times> int \<times> int) list" where
  "rule_metadata = [(2048, (4648, 131)), (28255, (62108, 1886))]"

definition estimated_counts :: "real \<Rightarrow> int \<times> int" where
  "estimated_counts n = (round_half_even (n * literal_multiplier), round_half_even (n * pcre_multiplier))"

definition rule_counts :: "real \<Rightarrow> int \<times> int" where
  "rule_counts n_rules =
     (case map_of rule_metadata n_rules of Some c \<Rightarrow> c | None \<Rightarrow> estimated_counts n_rules)"

definition get_mode :: "row \<Rightarrow> string res" where
  "get_mode r =
     res_bind (dict_get r ''param_hs_enabled'') (\<lambda>h.
     res_bind (dict_get r ''param_rgx_enabled'') (\<lambda>x.
       Inr (if \<not> to_bool h \<and> to_bool x then ''RXP''
            else if to_bool h \<and> \<not> to_bool x then ''HS'' else ''Unknown'')))"

text \<open>A series is drawn for a mode and the label of a file; its label enters the legend once.\<close>

definition series_color :: "string \<Rightarrow> string" where
  "series_color cpu_label = (if cpu_label = ''ARM'' then ''#1f77b4'' else ''#d62728'')"

definition series_marker :: "string \<Rightarrow> string" where
  "series_marker mode = (if mode = ''HS'' then ''x'' else ''o'')"

definition label_text :: "string \<Rightarrow> string \<Rightarrow> string" where
  "label_text mode cpu_label =
     (if mode = ''HS'' then ''HS on '' @ cpu_label else cpu_label @ '' to RXP'')"

definition drawn_modes :: "string set" where
  "drawn_modes = {''HS'', ''RXP''}"

definition add_series :: "string \<times> string \<Rightarrow> string list \<Rightarrow> string list" where
  "add_series = (\<lambda>(mode, cpu_label) global_labels.
     if mode \<notin> drawn_modes then global_labels
     else
       let t = label_text mode cpu_label
       in if t \<in> set global_labels then global_labels else global_labels @ [t])"

definition legend_order :: "string list" where
  "legend_order = [''HS on ARM'', ''ARM to RXP'', ''HS on x86'', ''x86 to RXP'']"

fun index_of :: "'a \<Rightarrow> 'a list \<Rightarrow> nat" where
  "index_of x [] = 0"
| "index_of x (y # ys) = (if x = y then 0 else Suc (index_of x ys))"

text \<open>The labels of the legend with the numbers of their handles.\<close>

definition final_legend :: "string list \<Rightarrow> (string \<times> nat) list" where
  "final_legend global_labels =
     map (\<lambda>l. (l, index_of l global_labels)) (filter (\<lambda>l. l \<in> set global_labels) legend_order)"

definition top_limit :: "int \<Rightarrow> real \<Rightarrow> int" where
  "top_limit interval m = (\<lfloor>m / of_int interval\<rfloor> + 1) * interval"

definition ten_ticks :: "int \<Rightarrow> int list" where
  "ten_ticks limit = map (\<lambda>i. 10 * int i) [0 ..< nat (limit div 10 + 1)]"

text \<open>The limit and the ticks of one subplot, and those shared by all.\<close>

definition subplot_axis :: "real \<Rightarrow> real \<Rightarrow> int \<times> int list" where
  "subplot_axis n_rules lm =
     (if n_rules = 2048 then (top_limit 10 lm, [0, 10, 20, 30, 40, 50])
      else if n_rules = 28255 then (top_limit 2 lm, [0, 2, 4, 6, 8, 10, 12])
      else (top_limit 10 lm, ten_ticks (top_limit 10 lm)))"

definition shared_axis :: "real list \<Rightarrow> int \<times> int list" where
  "shared_axis local_max_y_list =
     (let limit = top_limit 10 (Max (set local_max_y_list)) in (limit, ten_ticks limit))"

section \<open>Bars of subsets (plot-bar4.py)\<close>

definition conv_table :: "(int \<times> int \<times> int) list" where
  "conv_table =
     [(28, (61, 2)), (282, estimated_counts 282), (2822, estimated_counts 2822), (28255, (62108, 1886))]"

definition bar_counts :: "int \<Rightarrow> int \<times> int" where
  "bar_counts rps =
     (case map_of conv_table rps of Some c \<Rightarrow> c | None \<Rightarrow> estimated_counts (of_int rps))"

definition bar_label :: "int \<Rightarrow> int \<Rightarrow> string" where
  "bar_label rps subsets =
     (case bar_counts rps of (lits, pcrs) \<Rightarrow>
        int_str rps @ '' / '' @ int_str subsets @ [CHR 0x0A] @
        ''('' @ int_str lits @ '' / '' @ int_str pcrs @ '')'')"

text \<open>Rows of rules per subset, subsets and height; the bars with their labels, by rules per subset.\<close>

definition bars :: "(int \<times> int \<times> flt) list \<Rightarrow> (string \<times> flt) list" where
  "bars grouped = map (\<lambda>(rps, subsets, y). (bar_label rps subsets, y)) (sort_key fst grouped)"

definition bar_ylabel :: "string \<Rightarrow> string" where
  "bar_ylabel y_axis =
     (if y_axis = ''param_target_tp'' then ''Max. Throughput [Gbps]''
      else if y_axis = ''combined_scan_avg_cycles'' then ''Average Cycles (locally measured) on max throughput''
      else if y_axis = ''tx_p0_b2b_latency_cycles_avg'' then ''Average PKTGEN CPU Cycles on MAX TPT''
      else y_axis)"

section \<open>Heat map of throughputs (plot-heatmap-v2.py)\<close>

text \<open>Every rate but the first is averaged with the one before it.\<close>

fun smooth_after :: "flt \<Rightarrow> flt list \<Rightarrow> flt list" where
  "smooth_after p [] = []"
| "smooth_after p (x # xs) = (x + p) / Fin 2 # smooth_after x xs"

definition smoothed :: "flt list \<Rightarrow> flt list" where
  "smoothed rates = (case rates of [] \<Rightarrow> [] | x # xs \<Rightarrow> x # smooth_after x xs)"

definition text_color :: "real \<Rightarrow> real \<Rightarrow> real \<Rightarrow> string" where
  "text_color r g b =
     (if 299 / 1000 * r + 587 / 1000 * g + 114 / 1000 * b < 1 / 2 then ''white'' else ''black'')"

section \<open>Latency by burst size (plot-latency.py)\<close>

text \<open>\<^verbatim>\<open>int(x) == 1\<close>\<close>

definition engine_of :: "cell \<Rightarrow> string res" where
  "engine_of v =
     res_bind (case v of
         Num (Fin x) \<Rightarrow> Inr (if 0 \<le> x then \<lfloor>x\<rfloor> else \<lceil>x\<rceil>)
       | Num y \<Rightarrow> Inl ValueError
       | Str s \<Rightarrow> py_int s) (\<lambda>i. Inr (if i = 1 then ''HS'' else ''RXP''))"

definition missing_column :: "string list \<Rightarrow> string \<Rightarrow> string \<Rightarrow> string option" where
  "missing_column cols burst_col latency_col =
     List.find (\<lambda>c. c \<notin> set cols) [burst_col, latency_col, ''param_pkt_size'', ''param_n_rules'']"

definition cycle_mapping :: "string list \<Rightarrow> 'a list \<Rightarrow> ('a \<times> string) list" where
  "cycle_mapping symbols uniques = map (\<lambda>(i, u). (u, symbols ! (i mod length symbols))) (enumerate 0 uniques)"

definition marker_symbols :: "string list" where
  "marker_symbols = [''o'', ''s'', ''^'', ''d'']"

definition linestyle_patterns :: "string list" where
  "linestyle_patterns = [''-'', ''--'', '':'', ''-.'']"

text \<open>The shades of the variants of an engine, from their list in ascending order.\<close>

definition shades :: "'k list \<Rightarrow> ('k \<times> real) list" where
  "shades variants = map (\<lambda>(j, k). (k, real (j + 1) / real (length variants + 1))) (enumerate 0 variants)"

definition variant_label :: "conversions \<Rightarrow> string \<Rightarrow> cell \<Rightarrow> cell \<Rightarrow> string" where
  "variant_label E engine n_rules pkt_size =
     engine @ '', '' @ cell_str E n_rules @ '' rules, '' @ cell_str E pkt_size @ ''-byte packets''"

definition latency_unit :: "string \<Rightarrow> string" where
  "latency_unit latency_col =
     (if latency_col = ''app_avg_ns_to_process_a_packet_from_a_burst'' then ''[ns]'' else ''[cycles]'')"

section \<open>Two axes (plot.py)\<close>

definition y_axis_options :: "(string \<times> string \<times> string \<times> string) list" where
  "y_axis_options =
     [(''processed_rate_percent'', (''TPT'', ''Processed Rate [%]'', ''blue'')),
      (''rgx_processed_rate_of_rx_percent'', (''MpKB'', ''RGX dequeued to Port received ratio [%]'', ''grey'')),
      (''combined_scan_avg_cycles'', (''LAT'', ''Latency Cycles'', ''red'')),
      (''tx_p0_b2b_latency_cycles_avg'', (''PGLAT'', ''Pktgen Latency Cycles'', ''green'')),
      (''tx_p0_b2b_latency_us_avg'', (''PGLAT_US'', ''Pktgen Latency US'', ''cyan'')),
      (''matches_per_rcvd_kB'', (''MpKB'', ''Matches per received KiloByte'', ''grey'')),
      (''none'', (''None'', ''None'', ''black''))]"

definition axis_options ::
    "string \<Rightarrow> string \<Rightarrow> ((string \<times> string \<times> string) \<times> (string \<times> string \<times> string) option) res" where
  "axis_options left right =
     (case (map_of y_axis_options left, map_of y_axis_options right) of
        (Some l, Some r) \<Rightarrow>
          if left = ''none'' then Inl ValueError
          else Inr (l, if right = ''none'' then None else Some r)
      | _ \<Rightarrow> Inl ValueError)"

section \<open>The legend\<close>

lemma fold_add_series:
  "set (fold add_series series ls) =
     set ls \<union> {label_text m c | m c. (m, c) \<in> set series \<and> m \<in> drawn_modes}"
proof (induction series arbitrary: ls)
  case (Cons s series)
  obtain m c where s: "s = (m, c)" by (cases s)
  have "set (add_series s ls) = set ls \<union> (if m \<in> drawn_modes then {label_text m c} else {})"
    by (auto simp: add_series_def s Let_def)
  moreover have "{label_text m c | m c. (m, c) \<in> set (s # series) \<and> m \<in> drawn_modes} =
      (if m \<in> drawn_modes then {label_text m c} else {}) \<union>
      {label_text m c | m c. (m, c) \<in> set series \<and> m \<in> drawn_modes}"
    unfolding s by auto
  ultimately show ?case using Cons [of "add_series s ls"] by (simp only: fold_Cons comp_apply Un_assoc)
qed simp

lemma index_of_nth: "x \<in> set xs \<Longrightarrow> index_of x xs < length xs \<and> xs ! index_of x xs = x"
  by (induction xs) auto

lemma label_desired:
  assumes "m \<in> drawn_modes"
  shows "label_text m c \<in> set legend_order \<longleftrightarrow> c \<in> {''ARM'', ''x86''}"
proof -
  have last: "c @ '' to RXP'' \<noteq> s" if "last s \<noteq> CHR ''P''" for s
    using that by auto
  have rxp: "c @ '' to RXP'' \<noteq> ''HS on ARM''" "c @ '' to RXP'' \<noteq> ''HS on x86''"
    by (rule last, simp)+
  have rxp_eq: "c @ '' to RXP'' = ''ARM to RXP'' \<longleftrightarrow> c = ''ARM''" "c @ '' to RXP'' = ''x86 to RXP'' \<longleftrightarrow> c = ''x86''"
    using append_same_eq [of c "'' to RXP''" "''ARM''"] append_same_eq [of c "'' to RXP''" "''x86''"]
    by simp_all
  have hs: "''HS on '' @ c = ''HS on ARM'' \<longleftrightarrow> c = ''ARM''" "''HS on '' @ c = ''HS on x86'' \<longleftrightarrow> c = ''x86''"
    "''HS on '' @ c \<noteq> ''ARM to RXP''" "''HS on '' @ c \<noteq> ''x86 to RXP''"
    by simp_all
  have ne: "''RXP'' \<noteq> ''HS''" by simp
  from assms consider "m = ''HS''" | "m = ''RXP''" unfolding drawn_modes_def by blast
  then show ?thesis
  proof cases
    case 1
    then show ?thesis
      by (simp only: label_text_def legend_order_def list.set insert_iff empty_iff hs if_True simp_thms)
  next
    case 2
    then show ?thesis
      by (simp only: label_text_def legend_order_def list.set insert_iff empty_iff ne rxp rxp_eq if_False simp_thms)
  qed
qed

text \<open>The legend names, each once and in the order ARM before x86, exactly the drawn series of the
  files labelled ARM or x86, with the handle that was kept for the label; a series of a file with
  any other label is drawn but has no entry.\<close>

theorem legend_entries:
  assumes "labels = fold add_series series []"
  shows "set (map fst (final_legend labels)) =
      {label_text m c | m c. (m, c) \<in> set series \<and> m \<in> drawn_modes \<and> c \<in> {''ARM'', ''x86''}} \<and>
    distinct (map fst (final_legend labels)) \<and>
    (\<forall>(l, i) \<in> set (final_legend labels). i < length labels \<and> labels ! i = l) \<and>
    (\<forall>m c. (m, c) \<in> set series \<longrightarrow> m \<in> drawn_modes \<longrightarrow> label_text m c \<in> set labels)"
proof -
  have set: "set labels = {label_text m c | m c. (m, c) \<in> set series \<and> m \<in> drawn_modes}"
    using fold_add_series [of series "[]"] assms by simp
  have names: "map fst (final_legend labels) = filter (\<lambda>l. l \<in> set labels) legend_order"
    by (simp add: final_legend_def comp_def)
  have "distinct legend_order" by code_simp
  moreover have "set (filter (\<lambda>l. l \<in> set labels) legend_order) =
      {label_text m c | m c. (m, c) \<in> set series \<and> m \<in> drawn_modes \<and> c \<in> {''ARM'', ''x86''}}"
    unfolding set_filter set using label_desired by blast
  moreover have "i < length labels \<and> labels ! i = l" if "(l, i) \<in> set (final_legend labels)" for l i
    using that index_of_nth [of l labels] by (auto simp: final_legend_def simp del: index_of.simps)
  ultimately show ?thesis unfolding names set by (auto simp del: set_filter)
qed

theorem legend_entries_witness:
  "map fst (final_legend (fold add_series
     [(''HS'', ''x86''), (''HS'', ''ARM''), (''Unknown'', ''ARM''), (''HS'', ''Xeon''), (''HS'', ''ARM'')] [])) =
     [''HS on ARM'', ''HS on x86''] \<and>
   label_text ''HS'' ''Xeon'' \<in> set (fold add_series
     [(''HS'', ''x86''), (''HS'', ''ARM''), (''Unknown'', ''ARM''), (''HS'', ''Xeon''), (''HS'', ''ARM'')] [])"
proof
  let ?s = "[(''HS'', ''x86''), (''HS'', ''ARM''), (''Unknown'', ''ARM''), (''HS'', ''Xeon''), (''HS'', ''ARM'')]"
  show "map fst (final_legend (fold add_series ?s [])) = [''HS on ARM'', ''HS on x86'']" by code_simp
  have "(''HS'', ''Xeon'') \<in> set ?s" by simp
  moreover have "''HS'' \<in> drawn_modes" by (simp add: drawn_modes_def)
  ultimately show "label_text ''HS'' ''Xeon'' \<in> set (fold add_series ?s [])"
    using conjunct2 [OF conjunct2 [OF conjunct2 [OF legend_entries [OF refl, of ?s]]]]
    by (simp only: simp_thms)
qed

end
