(* ===== verification/Plot_Groups.thy ===== *)
theory Plot_Groups
  imports Plot_Data
begin

text \<open>
  The plot of throughput over cores, autotest/plot-groups-new3.py, from its arguments to what is
  drawn: the filtering of the tables, the rule counts with a subplot each, the series with their
  points and labels, ticks, titles and limits of the axes, and the legend.

  What \<^verbatim>\<open>pandas\<close> does with a whole table (reading it, a query, the maxima of groups, sorting) and
  Python's \<^verbatim>\<open>sorted\<close> for floats are functions of the record \<open>tables\<close>; the theorem uses that sorting
  keeps the elements and that the rows of a grouping have their keys from rows of the table.
\<close>

section \<open>Arguments and tables\<close>

record plot_args =
  input_file :: "(string \<times> string) list"
  pandas_query :: string
  groupby :: string
  zero_loss_threshold :: flt
  y_axis :: string
  x_axis :: string
  share_y :: bool

definition default_args :: "(string \<times> string) list \<Rightarrow> plot_args" where
  "default_args files =
     \<lparr>input_file = files, pandas_query = ''index >= 0'',
      groupby = ''param_hs_enabled,param_rgx_enabled,param_pkt_size,param_n_rules,param_lcores'',
      zero_loss_threshold = Fin (995 / 10), y_axis = ''param_target_tp'', x_axis = ''param_lcores'', share_y = False\<rparr>"

record tables =
  read_csv :: "string \<Rightarrow> frame res"
  query :: "string \<Rightarrow> frame \<Rightarrow> frame res"
  group_max :: "string list \<Rightarrow> string \<Rightarrow> frame \<Rightarrow> frame res"
  sort_values :: "string \<Rightarrow> frame \<Rightarrow> frame res"
  sorted_cells :: "(flt \<times> cell) list \<Rightarrow> (flt \<times> cell) list"
  format_1f :: "real \<Rightarrow> string"

definition strip_cell :: "cell \<Rightarrow> cell" where
  "strip_cell v = (case v of Str s \<Rightarrow> Str (strip s) | Num x \<Rightarrow> Num x)"

definition strip_frame :: "frame \<Rightarrow> frame" where
  "strip_frame f =
     \<lparr>columns = map strip (columns f),
      frame_rows = map (\<lambda>(i, r). (i, map (\<lambda>(c, v). (strip c, strip_cell v)) r)) (frame_rows f)\<rparr>"

text \<open>A comparison of a column with a number raises on a text.\<close>

definition keep_rows :: "(row \<Rightarrow> bool res) \<Rightarrow> frame \<Rightarrow> frame res" where
  "keep_rows P f =
     res_bind (res_map (\<lambda>(i, r). P r) (frame_rows f)) (\<lambda>bs.
       Inr (f\<lparr>frame_rows := map snd (filter fst (zip bs (frame_rows f)))\<rparr>))"

definition zero_loss :: "flt \<Rightarrow> frame \<Rightarrow> frame res" where
  "zero_loss threshold f =
     (if ''processed_rate_percent'' \<in> set (columns f)
      then keep_rows (\<lambda>r. res_bind (num_of r ''processed_rate_percent'') (\<lambda>x. Inr (threshold \<le> x))) f
      else Inr f)"

text \<open>Errors of reading and of the query end the program.\<close>

definition or_exit :: "'a res \<Rightarrow> 'a res" where
  "or_exit x = (case x of Inl e \<Rightarrow> Inl (SystemExit 1) | Inr y \<Rightarrow> Inr y)"

lemma or_exit_eq_Inr [simp]: "or_exit x = Inr y \<longleftrightarrow> x = Inr y"
  by (cases x) (simp_all add: or_exit_def)

definition load_table :: "tables \<Rightarrow> plot_args \<Rightarrow> string \<Rightarrow> frame res" where
  "load_table T args path =
     res_bind (or_exit (read_csv T path)) (\<lambda>f.
     res_bind (zero_loss (zero_loss_threshold args) (strip_frame f)) (\<lambda>g.
       or_exit (query T (pandas_query args) g)))"

text \<open>\<^verbatim>\<open>df[df["param_n_rules"] == n_rules]\<close>; no cell equals a missing one.\<close>

definition with_rules :: "cell \<Rightarrow> frame \<Rightarrow> frame res" where
  "with_rules n f =
     keep_rows (\<lambda>r. res_bind (dict_get r ''param_n_rules'') (\<lambda>v. Inr (v = n \<and> v \<noteq> Num NaN))) f"

definition column :: "string \<Rightarrow> frame \<Rightarrow> cell list res" where
  "column c f = res_map (\<lambda>(i, r). dict_get r c) (frame_rows f)"

definition cell_float :: "conversions \<Rightarrow> cell \<Rightarrow> flt res" where
  "cell_float E v = (case v of Num x \<Rightarrow> Inr x | Str s \<Rightarrow> res_bind (to_float E s) (\<lambda>x. Inr (Fin x)))"

definition sort_cells :: "conversions \<Rightarrow> tables \<Rightarrow> cell list \<Rightarrow> cell list res" where
  "sort_cells E T vs =
     res_bind (res_map (\<lambda>v. res_bind (cell_float E v) (\<lambda>x. Inr (x, v))) (remdups vs)) (\<lambda>kvs.
       Inr (map snd (sorted_cells T kvs)))"

text \<open>The first pass collects the rule counts of all tables.\<close>

definition table_counts :: "tables \<Rightarrow> plot_args \<Rightarrow> string \<Rightarrow> cell list res" where
  "table_counts T args path =
     res_bind (load_table T args path) (\<lambda>f.
       if ''param_n_rules'' \<in> set (columns f) then column ''param_n_rules'' f else Inl (SystemExit 1))"

definition sorted_rules :: "conversions \<Rightarrow> tables \<Rightarrow> plot_args \<Rightarrow> cell list res" where
  "sorted_rules E T args =
     res_bind (res_map (\<lambda>(path, l). table_counts T args path) (input_file args)) (\<lambda>css.
     res_bind (sort_cells E T (concat css)) (\<lambda>counts.
       if counts = [] then Inl (SystemExit 1) else Inr counts))"

section \<open>Series and subplots\<close>

record series =
  mode :: string
  cpu_label :: string
  color :: string
  marker :: string
  points :: "(cell \<times> flt) list"

definition max_of :: "flt list \<Rightarrow> flt" where
  "max_of ys = fold (\<lambda>y m. if m < y then y else m) ys (Inf False)"

definition series_of ::
  "conversions \<Rightarrow> plot_args \<Rightarrow> string \<Rightarrow> (string \<times> row) list \<Rightarrow> string \<Rightarrow> series list res" where
  "series_of E args label rows m =
     (let group = filter (\<lambda>(m', r). m' = m) rows
      in if group = [] then Inr []
         else res_bind (res_map (\<lambda>(m', r). res_bind (dict_get r (x_axis args)) (\<lambda>x.
                  res_bind (num_of r (y_axis args)) (\<lambda>y. Inr (convert_lcores E x, y)))) group) (\<lambda>ps.
                Inr [\<lparr>mode = m, cpu_label = label, color = series_color label, marker = series_marker m, points = ps\<rparr>]))"

text \<open>The series of one table for a rule count, with the maximum of all its values.\<close>

definition table_series ::
  "conversions \<Rightarrow> tables \<Rightarrow> plot_args \<Rightarrow> string list \<Rightarrow> cell \<Rightarrow> string \<times> string \<Rightarrow> (series list \<times> flt) res" where
  "table_series E T args cols n = (\<lambda>(path, label).
     res_bind (load_table T args path) (\<lambda>f0.
     res_bind (with_rules n f0) (\<lambda>f.
       if frame_rows f = [] then Inr ([], Inf False)
       else
         res_bind (or_exit (group_max T cols (y_axis args) f)) (\<lambda>agg.
         res_bind (res_map (\<lambda>(i, r). get_mode r) (frame_rows agg)) (\<lambda>_.
         res_bind (res_map (\<lambda>(i, r). num_of r (y_axis args)) (frame_rows agg)) (\<lambda>ys.
         res_bind (sort_values T (x_axis args) agg) (\<lambda>srt.
         res_bind (res_map (\<lambda>(i, r). res_bind (get_mode r) (\<lambda>m. Inr (m, r))) (frame_rows srt)) (\<lambda>rows.
         res_bind (res_map (series_of E args label rows) [''HS'', ''RXP'']) (\<lambda>ss.
           Inr (concat ss, max_of ys))))))))))"

definition larger :: "flt \<Rightarrow> flt \<Rightarrow> flt" where
  "larger lm m = (if lm < m then m else lm)"

text \<open>A failing query is ignored for the ticks.\<close>

definition table_ticks :: "conversions \<Rightarrow> tables \<Rightarrow> plot_args \<Rightarrow> cell \<Rightarrow> string \<Rightarrow> cell list res" where
  "table_ticks E T args n path =
     res_bind (read_csv T path) (\<lambda>f.
     res_bind (zero_loss (zero_loss_threshold args) (strip_frame f)) (\<lambda>g.
     res_bind (with_rules n (case query T (pandas_query args) g of Inl e \<Rightarrow> g | Inr q \<Rightarrow> q)) (\<lambda>h.
     res_bind (column (x_axis args) h) (\<lambda>xs. Inr (map (convert_lcores E) xs)))))"

record subplot =
  n_rules :: cell
  drawn :: "series list"
  local_max_y :: flt
  xticks :: "cell list"
  title :: string

definition exact_counts :: "cell \<Rightarrow> (int \<times> int) res" where
  "exact_counts n =
     (case n of
        Num (Fin x) \<Rightarrow> Inr (rule_counts x)
      | Num NaN \<Rightarrow> Inl ValueError
      | Num (Inf s) \<Rightarrow> Inl OverflowError
      | Str s \<Rightarrow> Inl TypeError)"

definition format_thousands :: "tables \<Rightarrow> int \<Rightarrow> string" where
  "format_thousands T n = format_1f T (of_int n / 1000) @ ''K''"

definition title_of :: "conversions \<Rightarrow> tables \<Rightarrow> cell \<Rightarrow> int \<times> int \<Rightarrow> string" where
  "title_of E T n = (\<lambda>(lits, pcres).
     cell_str E n @ '' rules'' @ [CHR 0x0A] @
     ''('' @ format_thousands T lits @ '' literals, '' @ format_thousands T pcres @ '' PCREs)'')"

definition subplot_of :: "conversions \<Rightarrow> tables \<Rightarrow> plot_args \<Rightarrow> string list \<Rightarrow> cell \<Rightarrow> subplot res" where
  "subplot_of E T args cols n =
     res_bind (exact_counts n) (\<lambda>counts.
     res_bind (res_map (table_series E T args cols n) (input_file args)) (\<lambda>sms.
     res_bind (res_map (\<lambda>(path, l). table_ticks E T args n path) (input_file args)) (\<lambda>xss.
     res_bind (sort_cells E T (concat xss)) (\<lambda>ticks.
       Inr \<lparr>n_rules = n, drawn = concat (map fst sms), local_max_y = fold (\<lambda>(s, m) lm. larger lm m) sms (Fin 0),
            xticks = ticks, title = title_of E T n counts\<rparr>))))"

section \<open>The figure\<close>

text \<open>A subplot with its limit and ticks; the maximum of an axis must be a number.\<close>

definition finite_max :: "flt \<Rightarrow> real res" where
  "finite_max m = (case m of Fin x \<Rightarrow> Inr x | _ \<Rightarrow> Inl ValueError)"

definition own_axis :: "subplot \<Rightarrow> (int \<times> int list) res" where
  "own_axis sp =
     res_bind (finite_max (local_max_y sp)) (\<lambda>lm.
       Inr (subplot_axis (case n_rules sp of Num (Fin x) \<Rightarrow> x | _ \<Rightarrow> 0) lm))"

definition axes_of :: "bool \<Rightarrow> subplot list \<Rightarrow> (int \<times> int list) list res" where
  "axes_of share sps =
     (if share then
        res_bind (res_map (\<lambda>sp. finite_max (local_max_y sp)) sps) (\<lambda>ms.
          Inr (replicate (length sps) (shared_axis ms)))
      else res_map own_axis sps)"

record figure =
  subplots :: "(subplot \<times> int \<times> int list) list"
  legend :: "(string \<times> nat) list"

definition plot_groups :: "conversions \<Rightarrow> tables \<Rightarrow> plot_args \<Rightarrow> figure res" where
  "plot_groups E T args =
     res_bind (groupby_columns (groupby args) (x_axis args)) (\<lambda>cols.
     res_bind (sorted_rules E T args) (\<lambda>ns.
     res_bind (res_map (subplot_of E T args cols) ns) (\<lambda>sps.
     res_bind (axes_of (share_y args) sps) (\<lambda>axes.
       Inr \<lparr>subplots = zip sps axes,
            legend = final_legend (fold add_series
              (concat (map (\<lambda>sp. map (\<lambda>s. (mode s, cpu_label s)) (drawn sp)) sps)) [])\<rparr>))))"

section \<open>Points and axes\<close>

lemma res_map_set: "res_map f xs = Inr ys \<Longrightarrow> y \<in> set ys \<Longrightarrow> \<exists>x \<in> set xs. f x = Inr y"
  by (metis in_set_conv_nth length_res_map res_map_nth)

lemma res_map_all: "res_map f xs = Inr ys \<Longrightarrow> x \<in> set xs \<Longrightarrow> \<exists>y \<in> set ys. f x = Inr y"
  by (metis in_set_conv_nth length_res_map res_map_nth)

lemma not_less_trans: "m \<noteq> NaN \<Longrightarrow> \<not> r < m \<Longrightarrow> \<not> m < y \<Longrightarrow> \<not> r < (y :: flt)"
  by (cases m; cases r; cases y) auto

lemma fold_larger:
  "m0 \<noteq> NaN \<Longrightarrow> fold (\<lambda>y m. if m < y then y else m) ys m0 = r \<Longrightarrow>
   r \<noteq> NaN \<and> \<not> r < m0 \<and> (\<forall>y \<in> set ys. \<not> r < y)"
proof (induction ys arbitrary: m0)
  case Nil
  then show ?case by (cases r) auto
next
  case (Cons y ys)
  let ?m = "if m0 < y then y else m0"
  have m: "?m \<noteq> NaN" "\<not> ?m < m0" "\<not> ?m < y" using Cons.prems(1) by (cases m0; cases y; auto)+
  have "r \<noteq> NaN \<and> \<not> r < ?m \<and> (\<forall>y \<in> set ys. \<not> r < y)" by (rule Cons.IH [OF m(1)]) (use Cons.prems(2) in simp)
  then show ?case using not_less_trans [OF m(1) _ m(2), of r] not_less_trans [OF m(1) _ m(3), of r] by auto
qed

lemma max_of_above: "max_of ys \<noteq> NaN \<and> (\<forall>y \<in> set ys. \<not> max_of ys < y)"
  using fold_larger [of "Inf False" ys] by (simp add: max_of_def)

lemma local_max_above:
  assumes "(s, m) \<in> set sms" "m \<noteq> NaN"
  shows "\<not> fold (\<lambda>(s, m) lm. larger lm m) sms (Fin 0) < m"
proof -
  have "fold (\<lambda>(s, m) lm. larger lm m) sms x = fold (\<lambda>y m. if m < y then y else m) (map snd sms) x" for x
    by (induction sms arbitrary: x) (auto simp: larger_def)
  then show ?thesis using fold_larger [of "Fin 0" "map snd sms"] assms(1) by force
qed

lemma below_top: "0 < interval \<Longrightarrow> m < of_int (top_limit interval m)"
proof -
  assume "0 < interval"
  then have "m = m / of_int interval * of_int interval" by simp
  also have "\<dots> < of_int (\<lfloor>m / of_int interval\<rfloor> + 1) * of_int interval"
    using \<open>0 < interval\<close> by (intro mult_strict_right_mono) (linarith, simp)
  finally show ?thesis by (simp add: top_limit_def)
qed

lemma axis_above: "m < of_int (fst (subplot_axis n m))"
  using below_top [of 10 m] below_top [of 2 m] by (simp add: subplot_axis_def)

lemma shared_above: "m \<in> set ms \<Longrightarrow> m < of_int (fst (shared_axis ms))"
  using below_top [of 10 "Max (set ms)"] by (auto simp: shared_axis_def Let_def intro: le_less_trans [OF Max_ge])

text \<open>The points of a table lie below its maximum and over cells of the table.\<close>

lemma table_points:
  assumes "table_series E T args cols n (path, label) = Inr (ss, m)" "s \<in> set ss" "(x, y) \<in> set (points s)"
    and "x_axis args \<in> set cols" "\<forall>c f g. sort_values T c f = Inr g \<longrightarrow> set (frame_rows g) = set (frame_rows f)"
    and "\<forall>cs c f g. group_max T cs c f = Inr g \<longrightarrow>
      (\<forall>(i, r) \<in> set (frame_rows g). \<exists>(j, r') \<in> set (frame_rows f). \<forall>k \<in> set cs. map_of r k = map_of r' k)"
  shows "m \<noteq> NaN \<and> \<not> m < y \<and> (\<exists>f0 f i r v. load_table T args path = Inr f0 \<and> with_rules n f0 = Inr f \<and>
    (i, r) \<in> set (frame_rows f) \<and> dict_get r (x_axis args) = Inr v \<and> x = convert_lcores E v)"
proof -
  obtain f0 f where f: "load_table T args path = Inr f0" "with_rules n f0 = Inr f" "frame_rows f \<noteq> []"
    using assms(1,2) by (auto simp: table_series_def split: if_splits)
  then obtain agg ys srt rows sss where g: "group_max T cols (y_axis args) f = Inr agg"
    "res_map (\<lambda>(i, r). num_of r (y_axis args)) (frame_rows agg) = Inr ys" "sort_values T (x_axis args) agg = Inr srt"
    "res_map (\<lambda>(i, r). res_bind (get_mode r) (\<lambda>m. Inr (m, r))) (frame_rows srt) = Inr rows"
    "res_map (series_of E args label rows) [''HS'', ''RXP''] = Inr sss" "ss = concat sss" "m = max_of ys"
    using assms(1) by (auto simp: table_series_def)
  obtain ss1 where "ss1 \<in> set sss" "s \<in> set ss1" using assms(2) g(6) by auto
  then obtain md where "series_of E args label rows md = Inr ss1" using res_map_set [OF g(5)] by blast
  then have "res_map (\<lambda>(m', r). res_bind (dict_get r (x_axis args)) (\<lambda>x.
      res_bind (num_of r (y_axis args)) (\<lambda>y. Inr (convert_lcores E x, y)))) (filter (\<lambda>(m', r). m' = md) rows) = Inr (points s)"
    using \<open>s \<in> set ss1\<close> by (auto simp: series_of_def Let_def split: if_splits)
  from res_map_set [OF this assms(3)] obtain mr r v where r: "(mr, r) \<in> set rows" "map_of r (x_axis args) = Some v"
    "num_of r (y_axis args) = Inr y" "x = convert_lcores E v" by auto
  obtain i where i: "(i, r) \<in> set (frame_rows agg)"
    using res_map_set [OF g(4) r(1)] assms(5) g(3) by auto
  have "y \<in> set ys" using res_map_all [OF g(2) i] r(3) by auto
  moreover obtain j r' where "(j, r') \<in> set (frame_rows f)" "map_of r (x_axis args) = map_of r' (x_axis args)"
    using assms(6) g(1) i assms(4) by blast
  ultimately show ?thesis using f(1,2) r(2,4) max_of_above [of ys] g(7) by (metis dict_get_eq_Inr)
qed

lemma sort_cells_set:
  assumes "sort_cells E T vs = Inr ws" "\<forall>kvs. set (sorted_cells T kvs) = set kvs"
  shows "set ws = set vs"
proof -
  obtain kvs where k: "res_map (\<lambda>v. res_bind (cell_float E v) (\<lambda>x. Inr (x, v))) (remdups vs) = Inr kvs"
    "ws = map snd (sorted_cells T kvs)" using assms(1) by (auto simp: sort_cells_def)
  have "set vs \<subseteq> snd ` set kvs" using res_map_all [OF k(1)] by force
  moreover have "snd ` set kvs \<subseteq> set vs" using res_map_set [OF k(1)] by fastforce
  ultimately show ?thesis using assms(2) by (auto simp: k(2))
qed

text \<open>The documented laws of sorting and grouping.\<close>

definition tables_laws :: "tables \<Rightarrow> bool" where
  "tables_laws T \<longleftrightarrow>
     (\<forall>kvs. set (sorted_cells T kvs) = set kvs) \<and>
     (\<forall>c f g. sort_values T c f = Inr g \<longrightarrow> set (frame_rows g) = set (frame_rows f)) \<and>
     (\<forall>cs c f g. group_max T cs c f = Inr g \<longrightarrow>
        (\<forall>(i, r) \<in> set (frame_rows g). \<exists>(j, r') \<in> set (frame_rows f). \<forall>k \<in> set cs. map_of r k = map_of r' k))"

lemma subplot_points:
  assumes "subplot_of E T args cols n = Inr sp" "s \<in> set (drawn sp)" "(x, y) \<in> set (points s)"
    and "x_axis args \<in> set cols" "tables_laws T"
  shows "x \<in> set (xticks sp) \<and> \<not> local_max_y sp < y"
proof -
  obtain sms xss where m: "res_map (table_series E T args cols n) (input_file args) = Inr sms"
    "res_map (\<lambda>(path, l). table_ticks E T args n path) (input_file args) = Inr xss"
    "sort_cells E T (concat xss) = Inr (xticks sp)" "drawn sp = concat (map fst sms)"
    "local_max_y sp = fold (\<lambda>(s, m) lm. larger lm m) sms (Fin 0)"
    using assms(1) by (auto simp: subplot_of_def)
  obtain ss mx where ss: "(ss, mx) \<in> set sms" "s \<in> set ss" using assms(2) m(4) by auto
  obtain path label where inp: "(path, label) \<in> set (input_file args)" "table_series E T args cols n (path, label) = Inr (ss, mx)"
    using res_map_set [OF m(1) ss(1)] by auto
  note laws = assms(5) [unfolded tables_laws_def]
  obtain f0 f i r v where p: "mx \<noteq> NaN" "\<not> mx < y" "load_table T args path = Inr f0" "with_rules n f0 = Inr f"
    "(i, r) \<in> set (frame_rows f)" "dict_get r (x_axis args) = Inr v" "x = convert_lcores E v"
    using table_points [OF inp(2) ss(2) assms(3,4)] laws by blast
  obtain xs where xs: "xs \<in> set xss" "table_ticks E T args n path = Inr xs" using res_map_all [OF m(2) inp(1)] by auto
  have "x \<in> set xs"
  proof -
    obtain fr g where fr: "read_csv T path = Inr fr" "zero_loss (zero_loss_threshold args) (strip_frame fr) = Inr g"
      "query T (pandas_query args) g = Inr f0"
      using p(3) by (auto simp: load_table_def)
    then obtain vs where "column (x_axis args) f = Inr vs" "xs = map (convert_lcores E) vs"
      using xs(2) p(4) by (auto simp: table_ticks_def)
    moreover have "v \<in> set vs"
      using res_map_all [OF calculation(1) [unfolded column_def] p(5)] p(6) by auto
    ultimately show ?thesis using p(7) by simp
  qed
  then have "x \<in> set (xticks sp)" using sort_cells_set [OF m(3)] laws xs(1) by auto
  moreover have "\<not> local_max_y sp < mx" using local_max_above [OF ss(1) p(1)] m(5) by simp
  ultimately show ?thesis using not_less_trans [OF p(1) _ p(2)] by blast
qed

text \<open>C36: every drawn point lies inside the axes of its subplot: over one of its ticks, since the x axis
  is checked to be among the grouped columns, and strictly below its upper limit, shared or not; a
  point without a value is not drawn.\<close>

theorem points_within_axes:
  assumes "plot_groups E T args = Inr fig" "tables_laws T"
    and "(sp, top_y, ticks) \<in> set (subplots fig)" "s \<in> set (drawn sp)" "(x, y) \<in> set (points s)"
  shows "x \<in> set (xticks sp) \<and> (y = NaN \<or> y < Fin (of_int top_y))"
proof -
  obtain cols ns sps axes where m: "groupby_columns (groupby args) (x_axis args) = Inr cols"
    "res_map (subplot_of E T args cols) ns = Inr sps" "axes_of (share_y args) sps = Inr axes" "subplots fig = zip sps axes"
    using assms(1) by (auto simp: plot_groups_def)
  have x: "x_axis args \<in> set cols" using m(1) by (auto simp: groupby_columns_def Let_def split: if_splits)
  obtain j where j: "j < length sps" "j < length axes" "sps ! j = sp" "axes ! j = (top_y, ticks)"
    using assms(3) unfolding m(4) by (auto simp: set_zip)
  then have "sp \<in> set sps" by auto
  then obtain n where n: "subplot_of E T args cols n = Inr sp" using res_map_set [OF m(2)] by blast
  note p = subplot_points [OF n assms(4,5) x assms(2)]
  have "\<exists>lm. local_max_y sp = Fin lm \<and> lm < of_int top_y"
  proof (cases "share_y args")
    case True
    then obtain ms where ms: "res_map (\<lambda>sp. finite_max (local_max_y sp)) sps = Inr ms"
      "axes = replicate (length sps) (shared_axis ms)" using m(3) by (auto simp: axes_of_def)
    obtain lm where lm: "lm \<in> set ms" "finite_max (local_max_y sp) = Inr lm" using res_map_all [OF ms(1) \<open>sp \<in> set sps\<close>] by auto
    have "top_y = fst (shared_axis ms)" using j ms(2) by (metis fst_conv nth_replicate)
    then have "lm < of_int top_y" using shared_above [OF lm(1)] by simp
    then show ?thesis using lm(2) by (auto simp: finite_max_def split: flt.splits)
  next
    case False
    then have "own_axis sp = Inr (top_y, ticks)"
      using m(3) res_map_nth [of own_axis sps axes j] j by (simp add: axes_of_def)
    then show ?thesis using axis_above
      by (auto simp: own_axis_def finite_max_def split: flt.splits) (metis axis_above fst_conv)+
  qed
  then obtain lm where lm: "local_max_y sp = Fin lm" "lm < of_int top_y" by blast
  then show ?thesis using p by (cases y) auto
qed

text \<open>A table of one row, and operations on tables that change nothing.\<close>

definition cores_demo_frame :: frame where
  "cores_demo_frame =
     \<lparr>columns = [''param_hs_enabled'', ''param_rgx_enabled'', ''param_n_rules'', ''param_lcores '', ''param_target_tp''],
      frame_rows = [(0, [(''param_hs_enabled'', Num (Fin 0)), (''param_rgx_enabled'', Num (Fin 1)), (''param_n_rules'', Num (Fin 2048)),
        (''param_lcores '', Str '' 0-7''), (''param_target_tp'', Num (Fin 42))])]\<rparr>"

definition cores_demo_tables :: tables where
  "cores_demo_tables =
     \<lparr>read_csv = (\<lambda>path. Inr cores_demo_frame), query = (\<lambda>q f. Inr f), group_max = (\<lambda>cs c f. Inr f), sort_values = (\<lambda>c f. Inr f),
      sorted_cells = id, format_1f = (\<lambda>x. ''1.0'')\<rparr>"

definition cores_demo_cells :: conversions where
  "cores_demo_cells =
     \<lparr>to_float = (\<lambda>s. Inl ValueError), to_numeric = (\<lambda>s. NaN),
      cell_str = (\<lambda>v. case v of Str s \<Rightarrow> s | Num x \<Rightarrow> ''2048''), median = (\<lambda>xs. NaN)\<rparr>"

definition cores_demo_args :: plot_args where
  "cores_demo_args = (default_args [(''a.csv'', ''ARM'')])\<lparr>groupby := ''param_n_rules, param_lcores''\<rparr>"

definition cores_demo_series :: series where
  "cores_demo_series = \<lparr>mode = ''RXP'', cpu_label = ''ARM'', color = series_color ''ARM'', marker = series_marker ''RXP'', points = [(Num (Fin 7), Fin 42)]\<rparr>"

definition cores_demo_stripped :: frame where
  "cores_demo_stripped =
     \<lparr>columns = [''param_hs_enabled'', ''param_rgx_enabled'', ''param_n_rules'', ''param_lcores'', ''param_target_tp''],
      frame_rows = [(0, [(''param_hs_enabled'', Num (Fin 0)), (''param_rgx_enabled'', Num (Fin 1)), (''param_n_rules'', Num (Fin 2048)),
        (''param_lcores'', Str ''0-7''), (''param_target_tp'', Num (Fin 42))])]\<rparr>"

lemma cores_demo_strip: "strip_frame cores_demo_frame = cores_demo_stripped"
  by code_simp

lemma cores_demo_zero: "zero_loss t cores_demo_stripped = Inr cores_demo_stripped"
  by (simp add: zero_loss_def cores_demo_stripped_def)

lemma cores_demo_load: "load_table cores_demo_tables cores_demo_args p = Inr cores_demo_stripped"
  by (simp add: load_table_def cores_demo_tables_def cores_demo_strip cores_demo_zero)

lemma cores_demo_rules: "with_rules (Num (Fin 2048)) cores_demo_stripped = Inr cores_demo_stripped"
  by (simp add: with_rules_def keep_rows_def cores_demo_stripped_def dict_get_def)

lemma cores_demo_cores: "convert_lcores cores_demo_cells (Str ''0-7'') = Num (Fin 7)"
proof -
  have "split_char (CHR ''-'') ''0-7'' = [''0'', ''7'']" "py_int ''7'' = Inr 7" "py_int ''0'' = Inr 0" by code_simp+
  then show ?thesis by (simp add: convert_lcores_def cores_demo_cells_def)
qed

lemma cores_demo_series_of:
  "series_of cores_demo_cells cores_demo_args ''ARM'' [(''RXP'', snd (hd (frame_rows cores_demo_stripped)))] ''RXP'' = Inr [cores_demo_series]"
  "series_of cores_demo_cells cores_demo_args ''ARM'' [(''RXP'', snd (hd (frame_rows cores_demo_stripped)))] ''HS'' = Inr []"
  by (simp_all add: series_of_def cores_demo_stripped_def cores_demo_args_def default_args_def dict_get_def num_of_def cores_demo_cores cores_demo_series_def)

lemma cores_demo_mode: "get_mode (snd (hd (frame_rows cores_demo_stripped))) = Inr ''RXP''"
  by (simp add: get_mode_def cores_demo_stripped_def dict_get_def to_bool_def zero_flt_def)

lemma cores_demo_table_series:
  "table_series cores_demo_cells cores_demo_tables cores_demo_args cols (Num (Fin 2048)) (''a.csv'', ''ARM'') = Inr ([cores_demo_series], Fin 42)"
proof -
  obtain r where r: "frame_rows cores_demo_stripped = [(0, r)]" "map_of r ''param_target_tp'' = Some (Num (Fin 42))"
    by (simp add: cores_demo_stripped_def)
  have "num_of r (y_axis cores_demo_args) = Inr (Fin 42)" using r(2) by (simp add: num_of_def cores_demo_args_def default_args_def dict_get_def)
  then show ?thesis using r(1) cores_demo_series_of cores_demo_mode
    by (simp add: table_series_def cores_demo_load cores_demo_rules) (simp add: cores_demo_tables_def max_of_def)
qed

lemma cores_demo_ticks: "table_ticks cores_demo_cells cores_demo_tables cores_demo_args (Num (Fin 2048)) p = Inr [Num (Fin 7)]"
proof -
  have "column (x_axis cores_demo_args) cores_demo_stripped = Inr [Str ''0-7'']"
    by (simp add: column_def cores_demo_stripped_def cores_demo_args_def default_args_def dict_get_def)
  then show ?thesis by (simp add: table_ticks_def cores_demo_tables_def cores_demo_strip cores_demo_zero cores_demo_rules cores_demo_cores)
qed

lemma cores_demo_input: "input_file cores_demo_args = [(''a.csv'', ''ARM'')]"
  by (simp add: cores_demo_args_def default_args_def)

lemma cores_demo_keep: "sorted_cells cores_demo_tables kvs = kvs"
  by (simp add: cores_demo_tables_def)

lemma cores_demo_sorted: "sorted_rules cores_demo_cells cores_demo_tables cores_demo_args = Inr [Num (Fin 2048)]"
proof -
  have "column ''param_n_rules'' cores_demo_stripped = Inr [Num (Fin 2048)]" "''param_n_rules'' \<in> set (columns cores_demo_stripped)"
    by (simp_all add: column_def cores_demo_stripped_def dict_get_def)
  then have "table_counts cores_demo_tables cores_demo_args p = Inr [Num (Fin 2048)]" for p by (simp add: table_counts_def cores_demo_load)
  then show ?thesis by (simp add: sorted_rules_def sort_cells_def cell_float_def cores_demo_input cores_demo_keep)
qed

lemma cores_demo_subplot:
  "\<exists>sp. subplot_of cores_demo_cells cores_demo_tables cores_demo_args cols (Num (Fin 2048)) = Inr sp \<and> drawn sp = [cores_demo_series] \<and>
     local_max_y sp = Fin 42"
  by (simp add: subplot_of_def exact_counts_def cores_demo_ticks sort_cells_def cell_float_def cores_demo_table_series
      cores_demo_input cores_demo_keep larger_def)

theorem points_within_axes_witness:
  "\<exists>fig sp top_y ticks s. plot_groups cores_demo_cells cores_demo_tables cores_demo_args = Inr fig \<and> (sp, top_y, ticks) \<in> set (subplots fig) \<and>
     s \<in> set (drawn sp) \<and> (Num (Fin 7), Fin 42) \<in> set (points s) \<and> Num (Fin 7) \<in> set (xticks sp) \<and>
     Fin 42 < Fin (of_int top_y)"
proof -
  have cols: "groupby_columns (groupby cores_demo_args) (x_axis cores_demo_args) = Inr [''param_n_rules'', ''param_lcores'']"
    by code_simp
  obtain sp where sp: "subplot_of cores_demo_cells cores_demo_tables cores_demo_args [''param_n_rules'', ''param_lcores''] (Num (Fin 2048)) = Inr sp"
    "drawn sp = [cores_demo_series]" "local_max_y sp = Fin 42" using cores_demo_subplot by blast
  obtain t ts where ax: "own_axis sp = Inr (t, ts)"
    by (cases "subplot_axis (case n_rules sp of Num (Fin x) \<Rightarrow> x | _ \<Rightarrow> 0) 42") (simp add: own_axis_def sp(3) finite_max_def)
  have "\<not> share_y cores_demo_args" by (simp add: cores_demo_args_def default_args_def)
  then obtain fig where fig: "plot_groups cores_demo_cells cores_demo_tables cores_demo_args = Inr fig" "subplots fig = [(sp, t, ts)]"
    using ax by (simp add: plot_groups_def cols cores_demo_sorted sp(1) axes_of_def)
  have laws: "tables_laws cores_demo_tables" by (auto simp: tables_laws_def cores_demo_tables_def)
  have pt: "(Num (Fin 7), Fin 42) \<in> set (points cores_demo_series)" by (simp add: cores_demo_series_def)
  have mem: "(sp, t, ts) \<in> set (subplots fig)" "cores_demo_series \<in> set (drawn sp)" by (simp_all add: fig(2) sp(2))
  have "Num (Fin 7) \<in> set (xticks sp) \<and> Fin 42 < Fin (of_int t)"
    using points_within_axes [OF fig(1) laws mem pt] by simp
  then show ?thesis using fig(1) mem pt by blast
qed

end
