(* ===== verification/Plot_Heatmap.thy ===== *)
theory Plot_Heatmap
  imports Plot_Groups
begin

text \<open>
  The heat map of autotest/plot-heatmap-v2.py, from the table to the texts drawn over the cells: the
  groups of equal parameters, the smoothing of their rates, the highest throughput without drops of
  each, and the pivot by two of the parameters.

  Grouping and pivot are written out on the rows; only the order in which \<^verbatim>\<open>pandas\<close> sorts the keys is
  an argument.  The colours of the map are one too.
\<close>

section \<open>Groups of rows\<close>

definition rename_columns :: "frame \<Rightarrow> frame" where
  "rename_columns f =
     \<lparr>columns = map strip (columns f),
      frame_rows = map (\<lambda>(i, r). (i, map (\<lambda>(c, v). (strip c, v)) r)) (frame_rows f)\<rparr>"

definition load_queried :: "tables \<Rightarrow> string \<Rightarrow> string \<Rightarrow> frame res" where
  "load_queried T path q = res_bind (read_csv T path) (\<lambda>f. query T q (rename_columns f))"

text \<open>A row with its values for the columns of a grouping; a missing value is in no group.\<close>

type_synonym keyed = "cell list \<times> nat \<times> row"

definition keyed_rows :: "string list \<Rightarrow> frame \<Rightarrow> keyed list res" where
  "keyed_rows cols f =
     (if \<not> set cols \<subseteq> set (columns f) then Inl KeyError
      else res_bind (res_map (\<lambda>(i, r). res_bind (res_map (dict_get r) cols) (\<lambda>k. Inr (k, i, r))) (frame_rows f))
             (\<lambda>ks. Inr (filter (\<lambda>(k, ir). Num NaN \<notin> set k) ks)))"

definition group_of :: "keyed list \<Rightarrow> cell list \<Rightarrow> (nat \<times> row) list" where
  "group_of ks k = map snd (filter (\<lambda>(k', ir). k' = k) ks)"

definition group_rows ::
  "(cell list list \<Rightarrow> cell list list) \<Rightarrow> string list \<Rightarrow> frame \<Rightarrow> (cell list \<times> (nat \<times> row) list) list res" where
  "group_rows so cols f =
     res_bind (keyed_rows cols f) (\<lambda>ks. Inr (map (\<lambda>k. (k, group_of ks k)) (so (remdups (map fst ks)))))"

text \<open>\<^verbatim>\<open>max\<close> skips missing values.\<close>

definition nan_max :: "flt list \<Rightarrow> flt" where
  "nan_max ys = (if filter (\<lambda>y. y \<noteq> NaN) ys = [] then NaN else max_of ys)"

section \<open>Throughput without drops\<close>

record heat_args =
  h_input_file :: string
  h_pandas_query :: string
  h_x_axis :: string
  h_y_axis :: string
  zero_drop_thres :: string

definition default_heat_args :: heat_args where
  "default_heat_args =
     \<lparr>h_input_file = ''results_selected_aggr.csv'', h_pandas_query = ''index >= 0'',
      h_x_axis = ''subsets_inspected_subset_size'', h_y_axis = ''subsets_cnt'', zero_drop_thres = ''99.95''\<rparr>"

definition grouping_columns :: "string list" where
  "grouping_columns =
     [''param_hs_enabled'', ''param_hs_flags'', ''param_jumbo_frames'',
      ''param_lcores'', ''param_n_rules'', ''param_nb_rgx_desc'', ''param_pattern_db'',
      ''param_pkt_size'', ''param_pktgen_latency_enabled'', ''param_port_forward_mode'',
      ''param_port_mp_size'', ''param_port_rx_descriptors'', ''param_port_tx_descriptors'',
      ''param_rgx_enabled'', ''param_rule_subset_ratio'', ''param_rules_use_content_kw'',
      ''param_rules_use_pcre_kw'', ''subsets_cnt'', ''subsets_inspected_subset_size'', ''label'']"

definition find_zero_drop_throughput :: "(nat \<times> row) list \<Rightarrow> flt \<Rightarrow> flt option res" where
  "find_zero_drop_throughput grp threshold =
     (let rows = sort_key fst grp
      in res_bind (res_map (\<lambda>(i, r). num_of r ''processed_rate_percent'') rows) (\<lambda>rates.
         let valid = map snd (filter (\<lambda>(s, ir). threshold \<le> s) (zip (smoothed rates) rows))
         in if valid = [] then Inr None
            else res_bind (res_map (\<lambda>(i, r). num_of r ''param_target_tp'') valid) (\<lambda>tps. Inr (Some (nan_max tps)))))"

definition zero_drop_cells ::
  "(cell list list \<Rightarrow> cell list list) \<Rightarrow> flt \<Rightarrow> frame \<Rightarrow> (cell list \<times> flt) list res" where
  "zero_drop_cells so threshold f =
     res_bind (group_rows so grouping_columns f) (\<lambda>gs.
       if gs = [] then Inl KeyError
       else
         res_bind (res_map (\<lambda>(k, g). res_bind (find_zero_drop_throughput g threshold) (\<lambda>t. Inr (k, t))) gs) (\<lambda>kts.
           Inr (List.map_filter (\<lambda>(k, t). case t of Some v \<Rightarrow> if v = NaN then None else Some (k, v) | None \<Rightarrow> None) kts)))"

section \<open>The pivot\<close>

record heatmap =
  heat_index :: "cell list"
  heat_columns :: "cell list"
  heat_cells :: "flt list list"

definition key_at :: "string \<Rightarrow> cell list \<Rightarrow> cell" where
  "key_at c k = k ! index_of c grouping_columns"

definition sorted_keys :: "(cell list list \<Rightarrow> cell list list) \<Rightarrow> cell list \<Rightarrow> cell list" where
  "sorted_keys so vs = map hd (so (remdups (map (\<lambda>v. [v]) vs)))"

definition pivot_max ::
  "(cell list list \<Rightarrow> cell list list) \<Rightarrow> string \<Rightarrow> string \<Rightarrow> (cell list \<times> flt) list \<Rightarrow> heatmap res" where
  "pivot_max so ycol xcol kvs =
     (if ycol \<notin> set grouping_columns \<or> xcol \<notin> set grouping_columns then Inl KeyError
      else
        let ys = sorted_keys so (map (\<lambda>(k, v). key_at ycol k) kvs);
            xs = sorted_keys so (map (\<lambda>(k, v). key_at xcol k) kvs)
        in Inr \<lparr>heat_index = ys, heat_columns = xs,
                heat_cells = map (\<lambda>y. map (\<lambda>x.
                  nan_max (map snd (filter (\<lambda>(k, v). key_at ycol k = y \<and> key_at xcol k = x) kvs))) xs) ys\<rparr>)"

text \<open>The texts over the cells: column, row, value and colour.\<close>

definition overlay ::
  "(flt \<Rightarrow> real \<times> real \<times> real) \<Rightarrow> (flt \<Rightarrow> string) \<Rightarrow> heatmap \<Rightarrow> (nat \<times> nat \<times> string \<times> string) list" where
  "overlay rgba format_0f H =
     concat (map (\<lambda>(i, vs). concat (map (\<lambda>(j, v).
       if v = NaN then []
       else (case rgba v of (r, g, b) \<Rightarrow> [(j, i, format_0f v, text_color r g b)])) (enumerate 0 vs)))
       (enumerate 0 (heat_cells H)))"

definition plot_heatmap ::
  "conversions \<Rightarrow> tables \<Rightarrow> (cell list list \<Rightarrow> cell list list) \<Rightarrow> (flt \<Rightarrow> real \<times> real \<times> real) \<Rightarrow> (flt \<Rightarrow> string)
     \<Rightarrow> heat_args \<Rightarrow> (heatmap \<times> (nat \<times> nat \<times> string \<times> string) list) res" where
  "plot_heatmap E T so rgba format_0f args =
     res_bind (load_queried T (h_input_file args) (h_pandas_query args)) (\<lambda>f.
     res_bind (to_float E (zero_drop_thres args)) (\<lambda>threshold.
     res_bind (zero_drop_cells so (Fin threshold) f) (\<lambda>kvs.
     res_bind (pivot_max so (h_y_axis args) (h_x_axis args) kvs) (\<lambda>H.
       Inr (H, overlay rgba format_0f H)))))"

section \<open>The best of a set\<close>

text \<open>The greatest value of a set that holds one, and \<^verbatim>\<open>NaN\<close> otherwise.\<close>

definition best :: "flt set \<Rightarrow> flt \<Rightarrow> bool" where
  "best A v \<longleftrightarrow> (if A \<subseteq> {NaN} then v = NaN else v \<in> A \<and> v \<noteq> NaN \<and> (\<forall>a \<in> A. \<not> v < a))"

lemma fold_larger_in:
  "fold (\<lambda>y m. if m < y then y else m) ys m0 \<in> insert m0 (set ys)"
  by (induction ys arbitrary: m0) (auto simp: insert_commute)

lemma best_nan_max: "best (set ys) (nan_max ys)"
proof (cases "set ys \<subseteq> {NaN}")
  case True
  then show ?thesis by (auto simp: best_def nan_max_def filter_empty_conv)
next
  case False
  then obtain y where y: "y \<in> set ys" "y \<noteq> NaN" by blast
  then have m: "nan_max ys = max_of ys" by (auto simp: nan_max_def filter_empty_conv)
  have "y = Inf False" if "max_of ys = Inf False" using max_of_above [of ys] y that by (cases y) auto
  then have "max_of ys \<in> set ys" using fold_larger_in [of ys "Inf False"] y(1) by (auto simp: max_of_def)
  then show ?thesis using False max_of_above [of ys] m by (auto simp: best_def)
qed

lemma best_Union:
  assumes "\<And>k. k \<in> K \<Longrightarrow> best (A k) (v k)" "best (v ` K - {NaN}) w"
  shows "best (\<Union>k \<in> K. A k) w"
proof (cases "(\<Union>k \<in> K. A k) \<subseteq> {NaN}")
  case True
  have "v k = NaN" if "k \<in> K" for k
  proof -
    have "A k \<subseteq> {NaN}" using True that by blast
    then show ?thesis using assms(1) [OF that] by (simp add: best_def)
  qed
  then have "v ` K - {NaN} \<subseteq> {NaN}" by blast
  then have "w = NaN" using assms(2) unfolding best_def by simp
  then show ?thesis using True by (simp add: best_def)
next
  case False
  then obtain k a where k: "k \<in> K" "a \<in> A k" "a \<noteq> NaN" by blast
  then have "\<not> A k \<subseteq> {NaN}" by blast
  then have "v k \<noteq> NaN" using assms(1) [OF k(1)] by (simp add: best_def)
  then have "\<not> v ` K - {NaN} \<subseteq> {NaN}" using k(1) by blast
  then have w: "w \<in> v ` K" "w \<noteq> NaN" "\<forall>k \<in> K. \<not> w < v k"
    using assms(2) by (auto simp: best_def)
  have "\<not> w < a" if "k \<in> K" "a \<in> A k" for k a
  proof (cases "a = NaN")
    case False
    then have "\<not> A k \<subseteq> {NaN}" using that(2) by blast
    then have "v k \<noteq> NaN" "\<not> v k < a" using assms(1) [OF that(1)] that(2) by (simp_all add: best_def)
    then show ?thesis using not_less_trans w(3) that(1) by blast
  qed (cases w; simp)
  moreover have "w \<in> (\<Union>k \<in> K. A k)"
  proof -
    obtain k where k: "k \<in> K" "w = v k" using w(1) by blast
    then have "\<not> A k \<subseteq> {NaN}" using assms(1) [OF k(1)] w(2) by (auto simp: best_def)
    then have "v k \<in> A k" using assms(1) [OF k(1)] by (simp add: best_def)
    then show ?thesis using k by blast
  qed
  ultimately show ?thesis using False w(2) by (auto simp: best_def)
qed

section \<open>Smoothing\<close>

lemma length_smoothed [simp]: "length (smoothed xs) = length xs"
proof -
  have "length (smooth_after p xs) = length xs" for p xs by (induction xs arbitrary: p) auto
  then show ?thesis by (simp add: smoothed_def split: list.split)
qed

lemma nth_smoothed:
  assumes "n < length xs"
  shows "smoothed xs ! n = (if n = 0 then xs ! 0 else (xs ! n + xs ! (n - 1)) / Fin 2)"
proof -
  have "smooth_after p ys ! m = (ys ! m + (p # ys) ! m) / Fin 2" if "m < length ys" for p ys m
    using that by (induction ys arbitrary: p m) (auto simp: nth_Cons split: nat.split)
  then show ?thesis using assms by (cases xs) (auto simp: smoothed_def nth_Cons split: nat.split)
qed

section \<open>What a cell shows\<close>

text \<open>A throughput a configuration achieves: the target of one of its rows, in the order of the table,
  whose rate, averaged with that of the row before, reaches the threshold.\<close>

definition achieved :: "flt \<Rightarrow> keyed list \<Rightarrow> cell list \<Rightarrow> flt \<Rightarrow> bool" where
  "achieved threshold ks k tp \<longleftrightarrow>
     (let rows = sort_key fst (group_of ks k); rate = (\<lambda>n. num_of (snd (rows ! n)) ''processed_rate_percent'')
      in \<exists>n r s. n < length rows \<and> rate n = Inr r \<and>
           (if n = 0 then s = r else \<exists>p. rate (n - 1) = Inr p \<and> s = (r + p) / Fin 2) \<and>
           threshold \<le> s \<and> num_of (snd (rows ! n)) ''param_target_tp'' = Inr tp)"

lemma find_zero_drop_best:
  assumes "find_zero_drop_throughput (group_of ks k) threshold = Inr t"
  shows "best {tp. achieved threshold ks k tp} (case t of None \<Rightarrow> NaN | Some v \<Rightarrow> v)"
proof -
  define rows where "rows = sort_key fst (group_of ks k)"
  obtain rates where rates: "res_map (\<lambda>(i, r). num_of r ''processed_rate_percent'') rows = Inr rates"
    using assms by (auto simp: find_zero_drop_throughput_def Let_def rows_def)
  define valid where "valid = map snd (filter (\<lambda>(s, ir). threshold \<le> s) (zip (smoothed rates) rows))"
  have len: "length rates = length rows" using length_res_map [OF rates] by simp
  have rate: "num_of (snd (rows ! n)) ''processed_rate_percent'' = Inr (rates ! n)" if "n < length rows" for n
    using res_map_nth [OF rates] that len by (simp add: case_prod_beta)
  have valid: "set valid = {rows ! n | n. n < length rows \<and> threshold \<le> smoothed rates ! n}"
    using len by (auto simp: valid_def set_zip image_iff) metis
  have A: "{tp. achieved threshold ks k tp} = {tp. \<exists>ir \<in> set valid. num_of (snd ir) ''param_target_tp'' = Inr tp}"
  proof -
    have "(\<exists>r s. num_of (snd (rows ! n)) ''processed_rate_percent'' = Inr r \<and>
        (if n = 0 then s = r
         else \<exists>p. num_of (snd (rows ! (n - 1))) ''processed_rate_percent'' = Inr p \<and> s = (r + p) / Fin 2) \<and> threshold \<le> s) \<longleftrightarrow>
      threshold \<le> smoothed rates ! n" if "n < length rows" for n
      using rate [OF that] rate [of "n - 1"] that len by (simp add: nth_smoothed)
    then have "achieved threshold ks k tp \<longleftrightarrow> (\<exists>n. n < length rows \<and> threshold \<le> smoothed rates ! n \<and>
        num_of (snd (rows ! n)) ''param_target_tp'' = Inr tp)" for tp
      unfolding achieved_def Let_def rows_def [symmetric] by blast
    then show ?thesis unfolding valid by blast
  qed
  have run: "find_zero_drop_throughput (group_of ks k) threshold =
      (if valid = [] then Inr None
       else res_bind (res_map (\<lambda>(i, r). num_of r ''param_target_tp'') valid) (\<lambda>tps. Inr (Some (nan_max tps))))"
    using rates by (simp add: find_zero_drop_throughput_def Let_def rows_def [symmetric] valid_def)
  show ?thesis
  proof (cases "valid = []")
    case True
    then have "t = None" using assms run by simp
    then show ?thesis using True by (simp add: A best_def)
  next
    case False
    then obtain tps where tps: "res_map (\<lambda>(i, r). num_of r ''param_target_tp'') valid = Inr tps" "t = Some (nan_max tps)"
      using assms run by auto
    have "{tp. achieved threshold ks k tp} = set tps"
      unfolding A using res_map_set [OF tps(1)] res_map_all [OF tps(1)] unfolding case_prod_beta by force
    then show ?thesis using best_nan_max tps(2) by simp
  qed
qed

lemma set_map_filter: "set (List.map_filter g xs) = {b. \<exists>a \<in> set xs. g a = Some b}"
  by (force simp: List.map_filter_def)

lemma zero_drop_cells_best:
  assumes "zero_drop_cells so threshold f = Inr kvs" "keyed_rows grouping_columns f = Inr ks" "\<forall>ks. set (so ks) = set ks"
  obtains V where "\<And>k. best {tp. achieved threshold ks k tp} (V k)" "set kvs = {(k, V k) | k. V k \<noteq> NaN}"
proof -
  define K where "K = so (remdups (map fst ks))"
  obtain kts where kts: "res_map (\<lambda>(k, g). res_bind (find_zero_drop_throughput g threshold) (\<lambda>t. Inr (k, t)))
      (map (\<lambda>k. (k, group_of ks k)) K) = Inr kts"
    "kvs = List.map_filter (\<lambda>(k, t). case t of Some v \<Rightarrow> if v = NaN then None else Some (k, v) | None \<Rightarrow> None) kts"
    using assms(1,2) by (auto simp: zero_drop_cells_def group_rows_def K_def split: if_splits)
  define t where "t k = (case find_zero_drop_throughput (group_of ks k) threshold of Inr t \<Rightarrow> t | Inl e \<Rightarrow> None)" for k
  define V where "V k = (case t k of None \<Rightarrow> NaN | Some v \<Rightarrow> v)" for k
  have found: "find_zero_drop_throughput (group_of ks k) threshold = Inr (t k)" if "k \<in> set K" for k
    using res_map_all [OF kts(1), of "(k, group_of ks k)"] that by (auto simp: t_def)
  have kts_set: "set kts = {(k, t k) | k. k \<in> set K}"
  proof
    show "set kts \<subseteq> {(k, t k) | k. k \<in> set K}" using res_map_set [OF kts(1)] by (fastforce simp: t_def)
    show "{(k, t k) | k. k \<in> set K} \<subseteq> set kts" using res_map_all [OF kts(1)] found by fastforce
  qed
  have none: "group_of ks k = []" if "k \<notin> set K" for k
    using that assms(3) by (force simp: K_def group_of_def filter_empty_conv)
  have V0: "V k = NaN" if "k \<notin> set K" for k
    using none [OF that] by (simp add: V_def t_def find_zero_drop_throughput_def)
  have "best {tp. achieved threshold ks k tp} (V k)" for k
  proof (cases "k \<in> set K")
    case True
    then show ?thesis using find_zero_drop_best [OF found] by (simp add: V_def)
  next
    case False
    then show ?thesis using V0 by (simp add: best_def achieved_def none)
  qed
  moreover have "set kvs = {(k, V k) | k. V k \<noteq> NaN}"
  proof -
    have "(case t of Some v \<Rightarrow> if v = NaN then None else Some (k, v) | None \<Rightarrow> None) = Some b \<longleftrightarrow>
      (\<exists>v. t = Some v \<and> v \<noteq> NaN \<and> b = (k, v))" for t :: "flt option" and k :: "cell list" and b
      by (cases t) auto
    then have "set kvs = {(k, v). (k, Some v) \<in> set kts \<and> v \<noteq> NaN}"
      by (auto simp: kts(2) set_map_filter intro: rev_bexI)
    also have "\<dots> = {(k, V k) | k. V k \<noteq> NaN}"
    proof -
      have "(k, Some v) \<in> set kts \<and> v \<noteq> NaN \<longleftrightarrow> v = V k \<and> V k \<noteq> NaN" for k v
        using V0 [of k] by (cases "t k") (auto simp: kts_set V_def)
      then show ?thesis by blast
    qed
    finally show ?thesis .
  qed
  ultimately show ?thesis by (rule that)
qed

lemma set_sorted_keys:
  assumes "\<forall>ks. set (so ks) = set ks"
  shows "set (sorted_keys so vs) = set vs"
  using assms by (simp add: sorted_keys_def image_image)

lemma overlay_iff:
  "(j, i, s, c) \<in> set (overlay rgba fmt H) \<longleftrightarrow>
     i < length (heat_cells H) \<and> j < length (heat_cells H ! i) \<and> heat_cells H ! i ! j \<noteq> NaN \<and>
     s = fmt (heat_cells H ! i ! j) \<and> c = (case rgba (heat_cells H ! i ! j) of (r, g, b) \<Rightarrow> text_color r g b)"
  (is "_ \<longleftrightarrow> ?shown")
proof
  show ?shown if "(j, i, s, c) \<in> set (overlay rgba fmt H)"
    using that by (auto simp: overlay_def in_set_enumerate_eq split: if_splits prod.splits)
  show "(j, i, s, c) \<in> set (overlay rgba fmt H)" if ?shown
    using that by (auto simp: overlay_def in_set_enumerate_eq split: prod.splits
        intro!: bexI [of _ "(i, heat_cells H ! i)"] bexI [of _ "(j, heat_cells H ! i ! j)"]
          exI [of _ "heat_cells H ! i ! j"])
qed

lemma pivot_cells:
  assumes "pivot_max so ycol xcol kvs = Inr H" "\<forall>ks. set (so ks) = set ks"
  shows "set (heat_index H) = (\<lambda>(k, v). key_at ycol k) ` set kvs" "set (heat_columns H) = (\<lambda>(k, v). key_at xcol k) ` set kvs"
    and "length (heat_cells H) = length (heat_index H)"
    and "i < length (heat_index H) \<Longrightarrow> length (heat_cells H ! i) = length (heat_columns H)"
    and "i < length (heat_index H) \<Longrightarrow> j < length (heat_columns H) \<Longrightarrow>
      best (snd ` {(k, v) \<in> set kvs. key_at ycol k = heat_index H ! i \<and> key_at xcol k = heat_columns H ! j}) (heat_cells H ! i ! j)"
proof -
  have H: "H = \<lparr>heat_index = sorted_keys so (map (\<lambda>(k, v). key_at ycol k) kvs),
      heat_columns = sorted_keys so (map (\<lambda>(k, v). key_at xcol k) kvs),
      heat_cells = map (\<lambda>y. map (\<lambda>x. nan_max (map snd (filter (\<lambda>(k, v). key_at ycol k = y \<and> key_at xcol k = x) kvs)))
        (sorted_keys so (map (\<lambda>(k, v). key_at xcol k) kvs))) (sorted_keys so (map (\<lambda>(k, v). key_at ycol k) kvs))\<rparr>"
    using assms(1) by (auto simp: pivot_max_def Let_def split: if_splits)
  show "set (heat_index H) = (\<lambda>(k, v). key_at ycol k) ` set kvs" "set (heat_columns H) = (\<lambda>(k, v). key_at xcol k) ` set kvs"
    by (simp_all add: H set_sorted_keys [OF assms(2)])
  show "length (heat_cells H) = length (heat_index H)"
    "i < length (heat_index H) \<Longrightarrow> length (heat_cells H ! i) = length (heat_columns H)" by (simp_all add: H)
  show "best (snd ` {(k, v) \<in> set kvs. key_at ycol k = heat_index H ! i \<and> key_at xcol k = heat_columns H ! j}) (heat_cells H ! i ! j)"
    if "i < length (heat_index H)" "j < length (heat_columns H)"
  proof -
    let ?ys = "map snd (filter (\<lambda>(k, v). key_at ycol k = heat_index H ! i \<and> key_at xcol k = heat_columns H ! j) kvs)"
    have "heat_cells H ! i ! j = nan_max ?ys" using that by (simp add: H)
    moreover have "set ?ys = snd ` {(k, v) \<in> set kvs. key_at ycol k = heat_index H ! i \<and> key_at xcol k = heat_columns H ! j}"
      by auto
    ultimately show ?thesis using best_nan_max [of ?ys] by simp
  qed
qed

text \<open>C37: every cell of the heat map shows the highest throughput that a configuration with its two
  values achieves without drops, and is blank without one; a text is drawn over it exactly when it
  has a value, and nothing that is achieved lies outside the map.\<close>

theorem heatmap_shows_best:
  assumes "plot_heatmap E T so rgba fmt args = Inr (H, texts)" "\<forall>ks. set (so ks) = set ks"
    and "i < length (heat_index H)" "j < length (heat_columns H)"
  shows "\<exists>f threshold ks. load_queried T (h_input_file args) (h_pandas_query args) = Inr f \<and>
    to_float E (zero_drop_thres args) = Inr threshold \<and> keyed_rows grouping_columns f = Inr ks \<and>
    best {tp. \<exists>k. key_at (h_y_axis args) k = heat_index H ! i \<and> key_at (h_x_axis args) k = heat_columns H ! j \<and>
        achieved (Fin threshold) ks k tp} (heat_cells H ! i ! j) \<and>
    ((\<exists>s c. (j, i, s, c) \<in> set texts) \<longleftrightarrow> heat_cells H ! i ! j \<noteq> NaN) \<and>
    (\<forall>k tp. achieved (Fin threshold) ks k tp \<longrightarrow> tp \<noteq> NaN \<longrightarrow>
      key_at (h_y_axis args) k \<in> set (heat_index H) \<and> key_at (h_x_axis args) k \<in> set (heat_columns H))"
proof -
  let ?y = "key_at (h_y_axis args)" and ?x = "key_at (h_x_axis args)"
  obtain f threshold kvs where m: "load_queried T (h_input_file args) (h_pandas_query args) = Inr f"
    "to_float E (zero_drop_thres args) = Inr threshold" "zero_drop_cells so (Fin threshold) f = Inr kvs"
    "pivot_max so (h_y_axis args) (h_x_axis args) kvs = Inr H" "texts = overlay rgba fmt H"
    using assms(1) by (auto simp: plot_heatmap_def)
  obtain ks where ks: "keyed_rows grouping_columns f = Inr ks"
    using m(3) by (auto simp: zero_drop_cells_def group_rows_def)
  obtain V where V: "\<And>k. best {tp. achieved (Fin threshold) ks k tp} (V k)" "set kvs = {(k, V k) | k. V k \<noteq> NaN}"
    using zero_drop_cells_best [OF m(3) ks assms(2)] by blast
  note H = pivot_cells [OF m(4) assms(2)]
  define K where "K = {k. ?y k = heat_index H ! i \<and> ?x k = heat_columns H ! j}"
  have "snd ` {(k, v) \<in> set kvs. ?y k = heat_index H ! i \<and> ?x k = heat_columns H ! j} = V ` K - {NaN}"
    by (force simp: V(2) K_def)
  then have "best (\<Union>k \<in> K. {tp. achieved (Fin threshold) ks k tp}) (heat_cells H ! i ! j)"
    using best_Union [of K _ V, OF V(1)] H(5) [OF assms(3,4)] by simp
  moreover have "(\<Union>k \<in> K. {tp. achieved (Fin threshold) ks k tp}) =
      {tp. \<exists>k. ?y k = heat_index H ! i \<and> ?x k = heat_columns H ! j \<and> achieved (Fin threshold) ks k tp}"
    by (auto simp: K_def)
  moreover have "(\<exists>s c. (j, i, s, c) \<in> set texts) \<longleftrightarrow> heat_cells H ! i ! j \<noteq> NaN"
    using H(3,4) assms(3,4) by (auto simp: m(5) overlay_iff)
  moreover have "?y k \<in> set (heat_index H) \<and> ?x k \<in> set (heat_columns H)"
    if "achieved (Fin threshold) ks k tp" "tp \<noteq> NaN" for k tp
  proof -
    have "V k \<noteq> NaN" using V(1) [of k] that by (auto simp: best_def split: if_splits)
    then have "(k, V k) \<in> set kvs" by (auto simp: V(2))
    then show ?thesis unfolding H(1,2) by force
  qed
  ultimately show ?thesis using m(1,2) ks by auto
qed

text \<open>Two rows of one configuration.\<close>

definition heat_row :: "real \<Rightarrow> real \<Rightarrow> row" where
  "heat_row rate tp =
     map (\<lambda>c. (c, Num (Fin 1))) grouping_columns @
     [(''processed_rate_percent'', Num (Fin rate)), (''param_target_tp'', Num (Fin tp))]"

definition heat_frame :: frame where
  "heat_frame =
     \<lparr>columns = grouping_columns @ [''processed_rate_percent'', ''param_target_tp''],
      frame_rows = [(0, heat_row 100 10), (1, heat_row (999 / 10) 20)]\<rparr>"

definition heat_tables :: tables where
  "heat_tables = cores_demo_tables\<lparr>read_csv := \<lambda>path. Inr heat_frame\<rparr>"

definition heat_conversions :: conversions where
  "heat_conversions = cores_demo_cells\<lparr>to_float := \<lambda>s. Inr (1999 / 20)\<rparr>"

lemma heat_names: "\<forall>c \<in> set (grouping_columns @ [''processed_rate_percent'', ''param_target_tp'']). strip c = c"
  by code_simp

lemma heat_row_values:
  "num_of (heat_row rate tp) ''processed_rate_percent'' = Inr (Fin rate)"
  "num_of (heat_row rate tp) ''param_target_tp'' = Inr (Fin tp)"
proof -
  have "''processed_rate_percent'' \<notin> set grouping_columns" "''param_target_tp'' \<notin> set grouping_columns" by code_simp+
  then have "map_of (map (\<lambda>c. (c, Num (Fin 1))) grouping_columns) ''processed_rate_percent'' = None"
    "map_of (map (\<lambda>c. (c, Num (Fin 1))) grouping_columns) ''param_target_tp'' = None"
    by (simp_all add: map_of_eq_None_iff image_image)
  then show "num_of (heat_row rate tp) ''processed_rate_percent'' = Inr (Fin rate)"
    "num_of (heat_row rate tp) ''param_target_tp'' = Inr (Fin tp)"
    by (simp_all add: num_of_def dict_get_def heat_row_def map_add_def)
qed

lemma heat_key: "res_map (dict_get (heat_row rate tp)) grouping_columns = Inr (map (\<lambda>c. Num (Fin 1)) grouping_columns)"
proof -
  have ones: "dict_get (heat_row rate tp) c = Inr (Num (Fin 1))" if "c \<in> set grouping_columns" for c
    using that by (simp add: dict_get_def heat_row_def map_add_def map_of_map_restrict)
  have const: "\<forall>c \<in> set cs. g c = Inr v \<Longrightarrow> res_map g cs = Inr (map (\<lambda>c. v) cs)" for g v and cs :: "string list"
    by (induction cs) auto
  show ?thesis by (rule const) (use ones in blast)
qed

lemma heat_loaded: "load_queried heat_tables p q = Inr heat_frame"
proof -
  have row: "map (\<lambda>(c, v). (strip c, v)) (heat_row rate tp) = heat_row rate tp" for rate tp
  proof (rule map_idI)
    have keys: "map fst (heat_row rate tp) = grouping_columns @ [''processed_rate_percent'', ''param_target_tp'']"
      by (simp add: heat_row_def comp_def)
    fix x
    assume "x \<in> set (heat_row rate tp)"
    then have "fst x \<in> set (map fst (heat_row rate tp))" by simp
    then have "strip (fst x) = fst x" using heat_names unfolding keys by blast
    then show "(case x of (c, v) \<Rightarrow> (strip c, v)) = x" by (simp add: case_prod_beta)
  qed
  have "map strip (columns heat_frame) = columns heat_frame"
    using heat_names by (simp add: heat_frame_def map_idI)
  then have "rename_columns heat_frame = heat_frame" by (simp add: rename_columns_def heat_frame_def row)
  then show ?thesis by (simp add: load_queried_def heat_tables_def cores_demo_tables_def)
qed

lemma heat_keyed:
  "keyed_rows grouping_columns heat_frame =
     Inr [(map (\<lambda>c. Num (Fin 1)) grouping_columns, 0, heat_row 100 10),
          (map (\<lambda>c. Num (Fin 1)) grouping_columns, 1, heat_row (999 / 10) 20)]"
  by (auto simp: keyed_rows_def heat_frame_def heat_key)

lemma heat_zero_drop:
  "zero_drop_cells id (Fin (1999 / 20)) heat_frame = Inr [(map (\<lambda>c. Num (Fin 1)) grouping_columns, Fin 20)]"
  by (simp add: zero_drop_cells_def group_rows_def heat_keyed group_of_def find_zero_drop_throughput_def heat_row_values
      smoothed_def nan_max_def max_of_def List.map_filter_def)

theorem heatmap_shows_best_witness:
  "\<exists>H texts. plot_heatmap heat_conversions heat_tables id (\<lambda>v. (1, 1, 1)) (\<lambda>v. ''20'') default_heat_args = Inr (H, texts) \<and>
     heat_cells H ! 0 ! 0 = Fin 20 \<and> (\<exists>s c. (0, 0, s, c) \<in> set texts)"
proof -
  let ?k = "map (\<lambda>c. Num (Fin 1)) grouping_columns"
  have mem: "h_y_axis default_heat_args \<in> set grouping_columns" "h_x_axis default_heat_args \<in> set grouping_columns"
    by code_simp+
  have "key_at c ?k = Num (Fin 1)" if "c \<in> set grouping_columns" for c
    using index_of_nth [OF that] by (simp add: key_at_def del: index_of.simps)
  then have H: "pivot_max id (h_y_axis default_heat_args) (h_x_axis default_heat_args) [(?k, Fin 20)] =
      Inr \<lparr>heat_index = [Num (Fin 1)], heat_columns = [Num (Fin 1)], heat_cells = [[Fin 20]]\<rparr>" (is "_ = Inr ?H")
    using mem by (simp add: pivot_max_def sorted_keys_def nan_max_def max_of_def Let_def)
  define texts where "texts = overlay (\<lambda>v. (1, 1, 1)) (\<lambda>v. ''20'') ?H"
  have run: "plot_heatmap heat_conversions heat_tables id (\<lambda>v. (1, 1, 1)) (\<lambda>v. ''20'') default_heat_args = Inr (?H, texts)"
    using H by (simp add: plot_heatmap_def heat_loaded heat_conversions_def heat_zero_drop texts_def)
  have "(\<exists>s c. (0, 0, s, c) \<in> set texts)"
    using heatmap_shows_best [OF run, of 0 0] by auto
  then show ?thesis using run by (intro exI [of _ ?H] exI [of _ texts]) simp
qed

end
