(* ===== verification/Plot_Lines.thy ===== *)
theory Plot_Lines
  imports Plot_Heatmap
begin

text \<open>
  The plot of latency over burst size, autotest/plot-latency.py, from its table to what is drawn: the
  groups with mean and deviation, the variants with their colours, markers and styles, the ticks, and
  the ways in which the script ends without a plot.

  The order in which \<^verbatim>\<open>pandas\<close> sorts keys, that of the variants and the colour maps of
  \<^verbatim>\<open>matplotlib\<close> are arguments.
\<close>

section \<open>Mean and deviation\<close>

definition present :: "flt list \<Rightarrow> flt list" where
  "present ys = filter (\<lambda>y. y \<noteq> NaN) ys"

definition flt_mean :: "flt list \<Rightarrow> flt" where
  "flt_mean ys = (if present ys = [] then NaN else sum_list (present ys) / Fin (real (length (present ys))))"

fun flt_sqrt :: "flt \<Rightarrow> flt" where
  "flt_sqrt (Fin x) = (if 0 \<le> x then Fin (sqrt x) else NaN)"
| "flt_sqrt (Inf s) = (if s then Inf True else NaN)"
| "flt_sqrt NaN = NaN"

definition flt_square :: "flt \<Rightarrow> flt" where
  "flt_square x = x * x"

definition flt_std :: "flt list \<Rightarrow> flt" where
  "flt_std ys =
     (if length (present ys) \<le> 1 then NaN
      else flt_sqrt (sum_list (map (\<lambda>y. flt_square (y + Fin (- 1) * flt_mean ys)) (present ys))
                     / Fin (real (length (present ys) - 1))))"

section \<open>Latency by burst size (plot-latency.py)\<close>

record latency_args =
  l_input_file :: string
  l_pandas_query :: string
  latency_col :: string
  burst_col :: string
  style_file :: string

definition default_latency_args :: latency_args where
  "default_latency_args =
     \<lparr>l_input_file = ''results_selected_aggr.csv'', l_pandas_query = ''index >= 0'',
      latency_col = ''app_avg_ns_to_process_a_packet_from_a_burst'', burst_col = ''app_avg_burst_size'',
      style_file = ''matplotlibstyle.py''\<rparr>"

definition load_style_module :: "(string \<Rightarrow> bool) \<Rightarrow> (string \<Rightarrow> 's res) \<Rightarrow> string \<Rightarrow> 's res" where
  "load_style_module exists exec_module path = (if \<not> exists path then Inl FileNotFoundError else exec_module path)"

definition with_engine :: "frame \<Rightarrow> frame res" where
  "with_engine f =
     res_bind (res_map (\<lambda>(i, r). res_bind (dict_get r ''param_hs_enabled'') (\<lambda>v.
         res_bind (engine_of v) (\<lambda>e. Inr (i, dict_set ''engine'' (Str e) r)))) (frame_rows f)) (\<lambda>rows.
       Inr \<lparr>columns = (if ''engine'' \<in> set (columns f) then columns f else columns f @ [''engine'']),
            frame_rows = rows\<rparr>)"

text \<open>A group of the latencies: engine, packet size, rules and burst size, with mean and deviation.\<close>

record latency_group =
  g_engine :: cell
  g_pkt_size :: cell
  g_n_rules :: cell
  g_burst :: cell
  g_mean :: flt
  g_std :: flt

definition latency_groups ::
  "(cell list list \<Rightarrow> cell list list) \<Rightarrow> latency_args \<Rightarrow> frame \<Rightarrow> latency_group list res" where
  "latency_groups so args f =
     res_bind (group_rows so [''engine'', ''param_pkt_size'', ''param_n_rules'', burst_col args] f) (\<lambda>gs.
       res_map (\<lambda>(k, g). res_bind (res_map (\<lambda>(i, r). num_of r (latency_col args)) g) (\<lambda>ys.
         Inr \<lparr>g_engine = k ! 0, g_pkt_size = k ! 1, g_n_rules = k ! 2, g_burst = k ! 3,
              g_mean = flt_mean ys, g_std = flt_std ys\<rparr>)) gs)"

text \<open>
  A variant is an engine with a number of rules and a packet size.  The variants of an engine are
  sorted by their numbers, by the argument \<open>sv\<close>, and get the shades of its colour map.
\<close>

type_synonym variant = "cell \<times> cell \<times> cell"
type_synonym variant_order = "((flt \<times> flt) \<times> variant) list \<Rightarrow> ((flt \<times> flt) \<times> variant) list"

definition variant_of :: "latency_group \<Rightarrow> variant" where
  "variant_of g = (g_engine g, g_n_rules g, g_pkt_size g)"

definition colour_map :: "cell \<Rightarrow> string" where
  "colour_map engine =
     (if engine = Str ''RXP'' then ''Oranges'' else if engine = Str ''HS'' then ''Blues''
      else if engine = Str ''Unknown'' then ''Greys'' else ''viridis'')"

definition engine_shades :: "conversions \<Rightarrow> variant_order \<Rightarrow> variant list \<Rightarrow> cell \<Rightarrow> (variant \<times> real) list res" where
  "engine_shades E sv vs engine =
     res_bind (res_map (\<lambda>(e, n, p). res_bind (cell_float E n) (\<lambda>x. res_bind (cell_float E p) (\<lambda>y.
         Inr ((x, y), e, n, p)))) (filter (\<lambda>(e, n, p). e = engine) vs)) (\<lambda>ks.
       Inr (shades (map snd (sv ks))))"

text \<open>
  \<open>cm\<close> is \<^verbatim>\<open>plt.get_cmap\<close>: the colour that the map of a name has at a number between 0 and 1.  Of the
  two maps in use it is known that they are tables of 256 entries, which a number below 1 selects by
  \<open>\<lfloor>256 * x\<rfloor>\<close>, and that no two entries of these tables are the same colour.
\<close>

type_synonym 'c colour_maps = "string \<Rightarrow> real \<Rightarrow> 'c"

definition colour_tables :: "'c colour_maps \<Rightarrow> bool" where
  "colour_tables cm \<longleftrightarrow>
     (\<exists>lut. (\<forall>m \<in> {''Oranges'', ''Blues''}. \<forall>x. 0 \<le> x \<and> x < 1 \<longrightarrow> cm m x = lut m \<lfloor>256 * x\<rfloor>) \<and>
       (\<forall>m \<in> {''Oranges'', ''Blues''}. \<forall>m' \<in> {''Oranges'', ''Blues''}. \<forall>i \<in> {0 ..< 256}. \<forall>j \<in> {0 ..< 256}.
          lut m i = lut m' j \<longrightarrow> m = m' \<and> i = j))"

definition color_mapping ::
  "'c colour_maps \<Rightarrow> conversions \<Rightarrow> variant_order \<Rightarrow> latency_group list \<Rightarrow> (variant \<times> 'c) list res" where
  "color_mapping cm E sv grouped =
     (let ks = remdups (map variant_of grouped)
      in res_bind (res_map (\<lambda>e. res_bind (engine_shades E sv ks e) (\<lambda>ss.
             Inr (map (\<lambda>(k, s). (k, cm (colour_map e) s)) ss))) (remdups (map fst ks))) (\<lambda>sss. Inr (concat sss)))"

text \<open>A line of the plot; without a colour of its own it would be black.\<close>

record 'c latency_line =
  line_variant :: variant
  line_color :: "'c option"
  line_marker :: string
  line_style :: string
  line_label :: string
  line_points :: "(cell \<times> flt \<times> flt) list"

definition or_default :: "'b \<Rightarrow> ('a \<times> 'b) list \<Rightarrow> 'a \<Rightarrow> 'b" where
  "or_default d m k = (case map_of m k of None \<Rightarrow> d | Some v \<Rightarrow> v)"

definition engine_text :: "cell \<Rightarrow> string" where
  "engine_text e = (case e of Str s \<Rightarrow> s | Num x \<Rightarrow> [])"

definition latency_line_of ::
  "conversions \<Rightarrow> tables \<Rightarrow> (variant \<times> 'c) list \<Rightarrow> (cell \<times> string) list \<Rightarrow> (cell \<times> string) list
     \<Rightarrow> latency_group list \<Rightarrow> variant \<Rightarrow> 'c latency_line res" where
  "latency_line_of E T colors markers styles grouped = (\<lambda>(e, n, p).
     let grp = filter (\<lambda>g. variant_of g = (e, n, p)) grouped
     in res_bind (sort_cells E T (map g_burst grp)) (\<lambda>bs.
          Inr \<lparr>line_variant = (e, n, p), line_color = map_of colors (e, n, p),
               line_marker = or_default ''o'' markers n, line_style = or_default ''-'' styles p,
               line_label = variant_label E (engine_text e) n p,
               line_points = concat (map (\<lambda>b. map (\<lambda>g. (b, g_mean g, g_std g)) (filter (\<lambda>g. g_burst g = b) grp)) bs)\<rparr>))"

text \<open>\<^verbatim>\<open>np.arange(0, m + 2, 2)\<close>\<close>

definition burst_ticks :: "real \<Rightarrow> int list" where
  "burst_ticks m = map (\<lambda>i. 2 * int i) [0 ..< nat \<lceil>(m + 2) / 2\<rceil>]"

record 'c latency_figure =
  latency_lines :: "'c latency_line list"
  burst_axis :: "int list"
  latency_ylabel :: string

definition num_cell :: "cell \<Rightarrow> flt res" where
  "num_cell v = (case v of Num x \<Rightarrow> Inr x | Str s \<Rightarrow> Inl TypeError)"

definition latency_plot ::
  "'c colour_maps \<Rightarrow> conversions \<Rightarrow> tables \<Rightarrow> (cell list list \<Rightarrow> cell list list) \<Rightarrow> variant_order \<Rightarrow> latency_args
     \<Rightarrow> frame \<Rightarrow> 'c latency_figure res" where
  "latency_plot cm E T so sv args f =
     res_bind (latency_groups so args f) (\<lambda>grouped.
     res_bind (column ''param_n_rules'' f) (\<lambda>ns. res_bind (sort_cells E T ns) (\<lambda>unique_rules.
     res_bind (column ''param_pkt_size'' f) (\<lambda>ps. res_bind (sort_cells E T ps) (\<lambda>unique_pkt.
     res_bind (color_mapping cm E sv grouped) (\<lambda>colors.
     let vs = map (\<lambda>k. (k ! 0, k ! 2, k ! 1)) (so (remdups (map (\<lambda>g. [g_engine g, g_pkt_size g, g_n_rules g]) grouped)))
     in res_bind (res_map (latency_line_of E T colors (cycle_mapping marker_symbols unique_rules)
            (cycle_mapping linestyle_patterns unique_pkt) grouped) vs) (\<lambda>lines.
        res_bind (res_map (\<lambda>g. num_cell (g_burst g)) grouped) (\<lambda>bs.
        res_bind (finite_max (nan_max bs)) (\<lambda>m.
          Inr \<lparr>latency_lines = lines, burst_axis = burst_ticks m,
               latency_ylabel = ''Average Packet Processing Time '' @ latency_unit (latency_col args)\<rparr>)))))))))"

text \<open>A failing style or a missing column ends the script with a message and without a plot.\<close>

definition plot_latency ::
  "'c colour_maps \<Rightarrow> conversions \<Rightarrow> tables \<Rightarrow> (cell list list \<Rightarrow> cell list list) \<Rightarrow> variant_order \<Rightarrow> (string \<Rightarrow> bool)
     \<Rightarrow> (string \<Rightarrow> 's res) \<Rightarrow> latency_args \<Rightarrow> 'c latency_figure option res" where
  "plot_latency cm E T so sv exists exec_module args =
     (case load_style_module exists exec_module (style_file args) of
        Inl e \<Rightarrow> Inr None
      | Inr style \<Rightarrow>
          res_bind (load_queried T (l_input_file args) (l_pandas_query args)) (\<lambda>f0.
            if ''param_hs_enabled'' \<notin> set (columns f0) then Inr None
            else
              res_bind (with_engine f0) (\<lambda>f.
                if missing_column (columns f) (burst_col args) (latency_col args) \<noteq> None then Inr None
                else res_bind (latency_plot cm E T so sv args f) (\<lambda>fig. Inr (Some fig)))))"

section \<open>The rows of a group\<close>

lemma keyed_rows_from:
  assumes "keyed_rows cols f = Inr ks" "(k, i, r) \<in> set ks"
  shows "(i, r) \<in> set (frame_rows f) \<and> length k = length cols \<and> (\<forall>j < length cols. dict_get r (cols ! j) = Inr (k ! j))"
proof -
  obtain all where all: "res_map (\<lambda>(i, r). res_bind (res_map (dict_get r) cols) (\<lambda>k. Inr (k, i, r))) (frame_rows f) = Inr all"
    "(k, i, r) \<in> set all" using assms by (auto simp: keyed_rows_def split: if_splits)
  from res_map_set [OF all] have "(i, r) \<in> set (frame_rows f)" "res_map (dict_get r) cols = Inr k" by auto
  then show ?thesis using length_res_map res_map_nth by fastforce
qed

lemma group_rows_from:
  assumes "group_rows so cols f = Inr gs" "\<forall>ks. set (so ks) = set ks" "(k, g) \<in> set gs"
  shows "\<exists>(i, r) \<in> set (frame_rows f). length k = length cols \<and> (\<forall>j < length cols. dict_get r (cols ! j) = Inr (k ! j))"
proof -
  obtain ks where ks: "keyed_rows cols f = Inr ks" "gs = map (\<lambda>k. (k, group_of ks k)) (so (remdups (map fst ks)))"
    using assms(1) by (auto simp: group_rows_def)
  then have "k \<in> fst ` set ks" using assms(2,3) by auto
  then obtain i r where "(k, i, r) \<in> set ks" by force
  then show ?thesis using keyed_rows_from [OF ks(1)] by blast
qed

lemma latency_groups_from:
  assumes "latency_groups so args f = Inr grouped" "\<forall>ks. set (so ks) = set ks" "g \<in> set grouped"
  shows "\<exists>(i, r) \<in> set (frame_rows f). dict_get r ''engine'' = Inr (g_engine g) \<and>
    dict_get r ''param_pkt_size'' = Inr (g_pkt_size g) \<and> dict_get r ''param_n_rules'' = Inr (g_n_rules g)"
proof -
  obtain gs where gs: "group_rows so [''engine'', ''param_pkt_size'', ''param_n_rules'', burst_col args] f = Inr gs"
    "res_map (\<lambda>(k, g). res_bind (res_map (\<lambda>(i, r). num_of r (latency_col args)) g) (\<lambda>ys.
         Inr \<lparr>g_engine = k ! 0, g_pkt_size = k ! 1, g_n_rules = k ! 2, g_burst = k ! 3,
              g_mean = flt_mean ys, g_std = flt_std ys\<rparr>)) gs = Inr grouped"
    using assms(1) by (auto simp: latency_groups_def)
  obtain k h where k: "(k, h) \<in> set gs" "g_engine g = k ! 0" "g_pkt_size g = k ! 1" "g_n_rules g = k ! 2"
    using res_map_set [OF gs(2) assms(3)] by auto
  obtain i r where r: "(i, r) \<in> set (frame_rows f)"
    "\<forall>j < 4. dict_get r ([''engine'', ''param_pkt_size'', ''param_n_rules'', burst_col args] ! j) = Inr (k ! j)"
    using group_rows_from [OF gs(1) assms(2) k(1)] by auto
  from r(2) have "dict_get r ''engine'' = Inr (k ! 0)" "dict_get r ''param_pkt_size'' = Inr (k ! 1)"
    "dict_get r ''param_n_rules'' = Inr (k ! 2)"
    by (force dest: spec [of _ 0], force dest: spec [of _ 1], force dest: spec [of _ 2])
  then show ?thesis using r(1) k(2-4) by (intro bexI [of _ "(i, r)"]) simp_all
qed

lemma engine_known:
  assumes "with_engine f0 = Inr f" "(i, r) \<in> set (frame_rows f)" "dict_get r ''engine'' = Inr e"
  shows "e = Str ''HS'' \<or> e = Str ''RXP''"
proof -
  have rows: "res_map (\<lambda>(i, r). res_bind (dict_get r ''param_hs_enabled'') (\<lambda>v.
      res_bind (engine_of v) (\<lambda>e. Inr (i, dict_set ''engine'' (Str e) r)))) (frame_rows f0) = Inr (frame_rows f)"
    using assms(1) by (auto simp: with_engine_def)
  obtain v s r0 where "engine_of v = Inr s" "r = dict_set ''engine'' (Str s) r0"
    using res_map_set [OF rows assms(2)] by auto
  then show ?thesis using assms(3) by (auto simp: engine_of_def map_of_dict_set split: if_splits)
qed

section \<open>Markers and shades\<close>

lemma cycle_mapping_in:
  assumes "x \<in> set xs" "symbols \<noteq> []"
  shows "or_default d (cycle_mapping symbols xs) x \<in> set symbols"
proof -
  obtain n where "n < length xs" "xs ! n = x" using assms(1) by (auto simp: in_set_conv_nth)
  then have "x \<in> fst ` set (cycle_mapping symbols xs)" by (force simp: cycle_mapping_def in_set_enumerate_eq)
  then obtain s where "map_of (cycle_mapping symbols xs) x = Some s" by (metis map_of_eq_None_iff not_None_eq)
  moreover have "s \<in> set symbols" using map_of_SomeD [OF calculation] assms(2) by (auto simp: cycle_mapping_def)
  ultimately show ?thesis by (simp add: or_default_def)
qed

lemma in_shades: "(k, s) \<in> set (shades vs) \<longleftrightarrow> (\<exists>j < length vs. k = vs ! j \<and> s = real (j + 1) / real (length vs + 1))"
  by (auto simp: shades_def in_set_enumerate_eq)

lemma engine_shades_spec:
  assumes "engine_shades E sv vs e = Inr ss" "distinct vs" "\<forall>xs. distinct xs \<longrightarrow> distinct (sv xs) \<and> set (sv xs) = set xs"
  obtains L where "ss = shades L" "distinct L" "set L = {v \<in> set vs. fst v = e}"
proof -
  obtain ks where ks: "res_map (\<lambda>(e, n, p). res_bind (cell_float E n) (\<lambda>x. res_bind (cell_float E p) (\<lambda>y.
      Inr ((x, y), e, n, p)))) (filter (\<lambda>(e', n, p). e' = e) vs) = Inr ks" "ss = shades (map snd (sv ks))"
    using assms(1) by (auto simp: engine_shades_def)
  have "res_map (\<lambda>(e, n, p). res_bind (cell_float E n) (\<lambda>x. res_bind (cell_float E p) (\<lambda>y.
      Inr ((x, y), e, n, p)))) ws = Inr ks \<Longrightarrow> map snd ks = ws" for ws ks
    by (induction ws arbitrary: ks) auto
  then have snd: "map snd ks = filter (\<lambda>(e', n, p). e' = e) vs" using ks(1) by blast
  then have "distinct (map snd ks)" using assms(2) by simp
  then have inj: "inj_on snd (set ks)" "distinct ks" by (simp_all add: distinct_map)
  then have "distinct (map snd (sv ks))" using assms(3) by (simp add: distinct_map)
  moreover have "set (map snd (sv ks)) = set (map snd ks)" using inj(2) assms(3) by simp
  then have "set (map snd (sv ks)) = {v \<in> set vs. fst v = e}" unfolding snd by auto
  ultimately show ?thesis by (rule that [OF ks(2)])
qed

lemma shades_apart:
  assumes "(v, s) \<in> set (shades L)" "(v', s') \<in> set (shades L)" "\<lfloor>256 * s\<rfloor> = \<lfloor>256 * s'\<rfloor>" "length L \<le> 255"
  shows "v = v'"
proof -
  define d where "d = real (length L + 1)"
  have d: "0 < d" "d \<le> 256" using assms(4) by (simp_all add: d_def)
  obtain i j where ij: "v = L ! i" "v' = L ! j" "s = real (i + 1) / d" "s' = real (j + 1) / d"
    using assms(1,2) by (auto simp: in_shades d_def)
  have "\<bar>256 * s - 256 * s'\<bar> < 1" using assms(3) by linarith
  moreover have "256 * s - 256 * s' = (256 * (real i - real j)) / d" using d by (simp add: ij field_simps)
  ultimately have "\<bar>256 * (real i - real j)\<bar> / d < 1" using d(1) by (simp only: abs_divide abs_of_pos)
  then have "\<bar>256 * (real i - real j)\<bar> < d" using d(1) by (simp only: pos_divide_less_eq mult_1)
  then have "\<bar>real i - real j\<bar> < 1" using d(2) by (simp only: abs_less_iff) (simp add: field_simps)
  then have "i = j" by linarith
  then show ?thesis using ij by simp
qed

lemma colour_map_inj:
  "a = Str ''HS'' \<or> a = Str ''RXP'' \<Longrightarrow> b = Str ''HS'' \<or> b = Str ''RXP'' \<Longrightarrow> colour_map a = colour_map b \<Longrightarrow> a = b"
  by (auto simp: colour_map_def)

lemma colour_tables_apart:
  assumes "colour_tables cm" "cm (colour_map a) x = cm (colour_map b) y" "0 < x" "x < 1" "0 < y" "y < 1"
    and "a = Str ''HS'' \<or> a = Str ''RXP''" "b = Str ''HS'' \<or> b = Str ''RXP''"
  shows "a = b \<and> \<lfloor>256 * x\<rfloor> = \<lfloor>256 * y\<rfloor>"
proof -
  obtain lut where at: "\<And>m x. m \<in> {''Oranges'', ''Blues''} \<Longrightarrow> 0 \<le> x \<Longrightarrow> x < 1 \<Longrightarrow> cm m x = lut m \<lfloor>256 * x\<rfloor>"
    and apart: "\<And>m m' i j. m \<in> {''Oranges'', ''Blues''} \<Longrightarrow> m' \<in> {''Oranges'', ''Blues''} \<Longrightarrow> i \<in> {0 ..< 256} \<Longrightarrow>
      j \<in> {0 ..< 256} \<Longrightarrow> lut m i = lut m' j \<Longrightarrow> m = m' \<and> i = j"
    using assms(1) unfolding colour_tables_def by blast
  have maps: "colour_map a \<in> {''Oranges'', ''Blues''}" "colour_map b \<in> {''Oranges'', ''Blues''}"
    using assms(7,8) by (auto simp: colour_map_def)
  have range: "\<lfloor>256 * x\<rfloor> \<in> {0 ..< 256}" "\<lfloor>256 * y\<rfloor> \<in> {0 ..< 256}" using assms(3-6) by (simp_all add: floor_less_iff)
  have "lut (colour_map a) \<lfloor>256 * x\<rfloor> = lut (colour_map b) \<lfloor>256 * y\<rfloor>"
    using assms(2) at [OF maps(1), of x] at [OF maps(2), of y] assms(3-6) by simp
  then have "colour_map a = colour_map b \<and> \<lfloor>256 * x\<rfloor> = \<lfloor>256 * y\<rfloor>" by (rule apart [OF maps range])
  then show ?thesis using colour_map_inj [OF assms(7,8)] by blast
qed

lemma colors_spec:
  assumes "color_mapping cm E sv grouped = Inr colors" "\<forall>xs. distinct xs \<longrightarrow> distinct (sv xs) \<and> set (sv xs) = set xs"
  obtains L where
    "\<And>v. v \<in> variant_of ` set grouped \<Longrightarrow>
       \<exists>s. map_of colors v = Some (cm (colour_map (fst v)) s) \<and> 0 < s \<and> s < 1 \<and> (v, s) \<in> set (shades (L (fst v)))"
    and "\<And>v. v \<in> variant_of ` set grouped \<Longrightarrow>
       length (L (fst v)) = card {w \<in> variant_of ` set grouped. fst w = fst v}"
proof -
  define vs where "vs = remdups (map variant_of grouped)"
  obtain sss where sss: "res_map (\<lambda>e. res_bind (engine_shades E sv vs e) (\<lambda>ss.
      Inr (map (\<lambda>(k, s). (k, cm (colour_map e) s)) ss))) (remdups (map fst vs)) = Inr sss" "colors = concat sss"
    using assms(1) by (auto simp: color_mapping_def Let_def vs_def)
  have "\<exists>L. engine_shades E sv vs e = Inr (shades L) \<and> distinct L \<and> set L = {v \<in> set vs. fst v = e}" if e: "e \<in> set (map fst vs)" for e
  proof -
    obtain ss where "engine_shades E sv vs e = Inr ss" using res_map_all [OF sss(1), of e] e by auto
    then show ?thesis using engine_shades_spec [OF _ _ assms(2), of E vs e ss] by (auto simp: vs_def)
  qed
  then have "\<forall>e \<in> set (map fst vs). \<exists>L. engine_shades E sv vs e = Inr (shades L) \<and> distinct L \<and> set L = {v \<in> set vs. fst v = e}"
    by blast
  from bchoice [OF this] obtain L where L': "\<forall>e \<in> set (map fst vs). engine_shades E sv vs e = Inr (shades (L e)) \<and>
      distinct (L e) \<and> set (L e) = {v \<in> set vs. fst v = e}" by blast
  then have L: "\<And>e. e \<in> set (map fst vs) \<Longrightarrow> engine_shades E sv vs e = Inr (shades (L e))"
    "\<And>e. e \<in> set (map fst vs) \<Longrightarrow> distinct (L e)" "\<And>e. e \<in> set (map fst vs) \<Longrightarrow> set (L e) = {v \<in> set vs. fst v = e}"
    by blast+
  have colors: "v \<in> set vs \<and> (\<exists>s. c = cm (colour_map (fst v)) s \<and> (v, s) \<in> set (shades (L (fst v))))"
    if vc: "(v, c) \<in> set colors" for v c
  proof -
    obtain ss where ss: "ss \<in> set sss" "(v, c) \<in> set ss" using vc by (auto simp: sss(2))
    obtain e where e: "e \<in> set (map fst vs)" "ss = map (\<lambda>(k, s). (k, cm (colour_map e) s)) (shades (L e))"
      using res_map_set [OF sss(1) ss(1)] L(1) by auto
    then obtain s where "(v, s) \<in> set (shades (L e))" "c = cm (colour_map e) s" using ss(2) by auto
    moreover from this have "v \<in> set (L e)" by (auto simp: in_shades)
    ultimately show ?thesis using L(3) [OF e(1)] by auto
  qed
  have named: "v \<in> fst ` set colors" if v: "v \<in> set vs" for v
  proof -
    have e: "fst v \<in> set (map fst vs)" using v by simp
    then have "v \<in> set (L (fst v))" using v L(3) by simp
    then obtain j where "j < length (L (fst v))" "v = L (fst v) ! j" by (auto simp: in_set_conv_nth)
    then obtain s where "(v, s) \<in> set (shades (L (fst v)))" by (auto simp: in_shades)
    moreover have "map (\<lambda>(k, s). (k, cm (colour_map (fst v)) s)) (shades (L (fst v))) \<in> set sss"
      using res_map_all [OF sss(1), of "fst v"] L(1) e by auto
    ultimately show ?thesis by (force simp: sss(2))
  qed
  show ?thesis
  proof (rule that [of L])
    fix v assume "v \<in> variant_of ` set grouped"
    then have v: "v \<in> set vs" by (simp add: vs_def)
    then obtain c where m: "map_of colors v = Some c" using named by (metis map_of_eq_None_iff not_None_eq)
    then obtain s where "c = cm (colour_map (fst v)) s" "(v, s) \<in> set (shades (L (fst v)))"
      using colors [OF map_of_SomeD] by blast
    moreover from this(2) have "0 < s \<and> s < 1" by (auto simp: in_shades)
    ultimately show "\<exists>s. map_of colors v = Some (cm (colour_map (fst v)) s) \<and> 0 < s \<and> s < 1 \<and>
        (v, s) \<in> set (shades (L (fst v)))" using m by blast
    have e: "fst v \<in> set (map fst vs)" using v by simp
    have "length (L (fst v)) = card {w \<in> set vs. fst w = fst v}"
      using distinct_card [OF L(2) [OF e]] L(3) [OF e] by simp
    then show "length (L (fst v)) = card {w \<in> variant_of ` set grouped. fst w = fst v}" by (simp add: vs_def)
  qed
qed

section \<open>The lines\<close>

lemma burst_ticks_span:
  assumes "0 \<le> b" "b \<le> m"
  shows "0 \<in> set (burst_ticks m) \<and> (\<exists>t \<in> set (burst_ticks m). b \<le> of_int t)"
proof -
  define k where "k = nat \<lceil>(m + 2) / 2\<rceil>"
  have "(m + 2) / 2 \<le> real k" "1 \<le> (m + 2) / 2" using assms by (auto simp: k_def)
  then have k: "0 < k" "m \<le> 2 * (real k - 1)" by (auto simp: field_simps)
  have "2 * int (k - 1) \<in> set (burst_ticks m)"
    unfolding burst_ticks_def k_def [symmetric] set_map by (rule imageI) (simp add: k(1))
  moreover have "b \<le> of_int (2 * int (k - 1))" using k assms(2) by simp
  moreover have "0 \<in> set (burst_ticks m)" using k(1) by (force simp: burst_ticks_def k_def [symmetric])
  ultimately show ?thesis by blast
qed

lemma lines_are_variants:
  assumes "res_map (latency_line_of E T colors markers styles grouped)
      (map (\<lambda>k. (k ! 0, k ! 2, k ! 1)) (so (remdups (map (\<lambda>g. [g_engine g, g_pkt_size g, g_n_rules g]) grouped)))) = Inr ls"
    and "\<forall>ks. set (so ks) = set ks"
  shows "line_variant ` set ls = variant_of ` set grouped"
proof
  show "line_variant ` set ls \<subseteq> variant_of ` set grouped"
    using res_map_set [OF assms(1)] assms(2) by (force simp: latency_line_of_def Let_def variant_of_def)
  show "variant_of ` set grouped \<subseteq> line_variant ` set ls"
  proof
    fix v assume "v \<in> variant_of ` set grouped"
    then have "v \<in> set (map (\<lambda>k. (k ! 0, k ! 2, k ! 1)) (so (remdups (map (\<lambda>g. [g_engine g, g_pkt_size g, g_n_rules g]) grouped))))"
      using assms(2) by (force simp: variant_of_def image_image)
    from res_map_all [OF assms(1) this] show "v \<in> line_variant ` set ls"
      by (cases v) (force simp: latency_line_of_def Let_def)
  qed
qed

lemma one_colour_one_variant:
  assumes "color_mapping cm E sv grouped = Inr colors" "\<forall>xs. distinct xs \<longrightarrow> distinct (sv xs) \<and> set (sv xs) = set xs"
    and "colour_tables cm" "v \<in> variant_of ` set grouped" "v' \<in> variant_of ` set grouped"
    and "fst v = Str ''HS'' \<or> fst v = Str ''RXP''" "fst v' = Str ''HS'' \<or> fst v' = Str ''RXP''"
    and "map_of colors v' = map_of colors v"
  shows "fst v' = fst v \<and> (card {w \<in> variant_of ` set grouped. fst w = fst v} \<le> 255 \<longrightarrow> v' = v)"
proof -
  obtain L where L: "\<And>v. v \<in> variant_of ` set grouped \<Longrightarrow>
       \<exists>s. map_of colors v = Some (cm (colour_map (fst v)) s) \<and> 0 < s \<and> s < 1 \<and> (v, s) \<in> set (shades (L (fst v)))"
    "\<And>v. v \<in> variant_of ` set grouped \<Longrightarrow> length (L (fst v)) = card {w \<in> variant_of ` set grouped. fst w = fst v}"
    using colors_spec [OF assms(1,2)] by blast
  obtain s s' where s: "map_of colors v = Some (cm (colour_map (fst v)) s)" "0 < s" "s < 1" "(v, s) \<in> set (shades (L (fst v)))"
    and s': "map_of colors v' = Some (cm (colour_map (fst v')) s')" "0 < s'" "s' < 1" "(v', s') \<in> set (shades (L (fst v')))"
    using L(1) [OF assms(4)] L(1) [OF assms(5)] by blast
  have "cm (colour_map (fst v')) s' = cm (colour_map (fst v)) s" using assms(8) s(1) s'(1) by simp
  then have "fst v' = fst v \<and> \<lfloor>256 * s'\<rfloor> = \<lfloor>256 * s\<rfloor>"
    by (rule colour_tables_apart [OF assms(3) _ s'(2,3) s(2,3) assms(7,6)])
  then show ?thesis using shades_apart [of v' s' _ v s] s(4) s'(4) L(2) [OF assms(4)] by auto
qed

text \<open>C38: In a plot of latencies every line has a colour of the map of its engine, so that the default is
  never used.  With colour maps that are tables of 256 different entries, no two lines of different
  engines have the same colour, and two lines of the same colour are the same variant of engine, rules
  and packet size as long as the engine has at most 255 variants.  The marker and style of a line are
  among those listed, and the ticks of the axis reach over every burst size.\<close>

theorem latency_lines_told_apart:
  assumes "plot_latency cm E T so sv exists exec_module args = Inr (Some fig)" "\<forall>ks. set (so ks) = set ks"
    and "\<forall>xs. distinct xs \<longrightarrow> distinct (sv xs) \<and> set (sv xs) = set xs" "tables_laws T" "colour_tables cm"
    and "l \<in> set (latency_lines fig)"
  shows "(\<exists>s. line_color l = Some (cm (colour_map (fst (line_variant l))) s) \<and> 0 < s \<and> s < 1) \<and>
    (\<forall>l' \<in> set (latency_lines fig). line_color l' = line_color l \<longrightarrow>
      fst (line_variant l') = fst (line_variant l) \<and>
      (card {v \<in> line_variant ` set (latency_lines fig). fst v = fst (line_variant l)} \<le> 255 \<longrightarrow>
        line_variant l' = line_variant l)) \<and>
    line_marker l \<in> set marker_symbols \<and> line_style l \<in> set linestyle_patterns \<and>
    (\<forall>b m d. (Num (Fin b), m, d) \<in> set (line_points l) \<longrightarrow> 0 \<le> b \<longrightarrow>
      0 \<in> set (burst_axis fig) \<and> (\<exists>t \<in> set (burst_axis fig). b \<le> of_int t))"
proof -
  obtain f0 f where f: "with_engine f0 = Inr f" "latency_plot cm E T so sv args f = Inr fig"
    using assms(1) by (auto simp: plot_latency_def split: sum.splits if_splits)
  obtain grouped ns unique_rules ps unique_pkt colors bs mx where m: "latency_groups so args f = Inr grouped"
    "column ''param_n_rules'' f = Inr ns" "sort_cells E T ns = Inr unique_rules" "column ''param_pkt_size'' f = Inr ps"
    "sort_cells E T ps = Inr unique_pkt" "color_mapping cm E sv grouped = Inr colors"
    "res_map (latency_line_of E T colors (cycle_mapping marker_symbols unique_rules)
      (cycle_mapping linestyle_patterns unique_pkt) grouped)
      (map (\<lambda>k. (k ! 0, k ! 2, k ! 1)) (so (remdups (map (\<lambda>g. [g_engine g, g_pkt_size g, g_n_rules g]) grouped)))) =
      Inr (latency_lines fig)"
    "res_map (\<lambda>g. num_cell (g_burst g)) grouped = Inr bs" "finite_max (nan_max bs) = Inr mx" "burst_axis fig = burst_ticks mx"
    using f(2) by (auto simp: latency_plot_def Let_def)
  have line: "line_variant l \<in> variant_of ` set grouped \<and> line_color l = map_of colors (line_variant l) \<and>
      line_marker l = or_default ''o'' (cycle_mapping marker_symbols unique_rules) (fst (snd (line_variant l))) \<and>
      line_style l = or_default ''-'' (cycle_mapping linestyle_patterns unique_pkt) (snd (snd (line_variant l))) \<and>
      (\<forall>(b, ms) \<in> set (line_points l). \<exists>g \<in> set grouped. g_burst g = b)" if "l \<in> set (latency_lines fig)" for l
    using res_map_set [OF m(7) that] assms(2)
    by (auto simp: latency_line_of_def Let_def variant_of_def)
  note l = line [OF assms(6)]
  obtain g where g: "g \<in> set grouped" "line_variant l = (g_engine g, g_n_rules g, g_pkt_size g)"
    using l by (auto simp: variant_of_def)
  have known: "fst v = Str ''HS'' \<or> fst v = Str ''RXP''" if "v \<in> variant_of ` set grouped" for v
    using that latency_groups_from [OF m(1) assms(2)] engine_known [OF f(1)] by (fastforce simp: variant_of_def)
  obtain i r where r: "(i, r) \<in> set (frame_rows f)" "dict_get r ''param_pkt_size'' = Inr (g_pkt_size g)"
    "dict_get r ''param_n_rules'' = Inr (g_n_rules g)" using latency_groups_from [OF m(1) assms(2) g(1)] by auto
  have "g_n_rules g \<in> set ns" "g_pkt_size g \<in> set ps"
    using res_map_all [OF m(2) [unfolded column_def] r(1)] res_map_all [OF m(4) [unfolded column_def] r(1)] r(2,3) by auto
  then have "g_n_rules g \<in> set unique_rules" "g_pkt_size g \<in> set unique_pkt"
    using sort_cells_set [OF m(3)] sort_cells_set [OF m(5)] assms(4) by (auto simp: tables_laws_def)
  then have marks: "line_marker l \<in> set marker_symbols" "line_style l \<in> set linestyle_patterns"
  proof -
    have "marker_symbols \<noteq> []" "linestyle_patterns \<noteq> []" by (simp_all add: marker_symbols_def linestyle_patterns_def)
    then show "line_marker l \<in> set marker_symbols" "line_style l \<in> set linestyle_patterns"
      using l g(2) cycle_mapping_in \<open>g_n_rules g \<in> set unique_rules\<close> \<open>g_pkt_size g \<in> set unique_pkt\<close> by simp_all
  qed
  have variants: "line_variant ` set (latency_lines fig) = variant_of ` set grouped"
    using lines_are_variants [of E T colors _ _ grouped so] m(7) assms(2) by blast
  have "fst (line_variant l') = fst (line_variant l) \<and>
      (card {v \<in> line_variant ` set (latency_lines fig). fst v = fst (line_variant l)} \<le> 255 \<longrightarrow> line_variant l' = line_variant l)"
    if l': "l' \<in> set (latency_lines fig)" "line_color l' = line_color l" for l'
    unfolding variants using l line [OF l'(1)] l'(2) known
    by (intro one_colour_one_variant [OF m(6) assms(3,5)]) simp_all
  moreover have "0 \<in> set (burst_axis fig) \<and> (\<exists>t \<in> set (burst_axis fig). b \<le> of_int t)"
    if b: "(Num (Fin b), ms, d) \<in> set (line_points l)" "0 \<le> b" for b ms d
  proof -
    obtain g' where "g' \<in> set grouped" "g_burst g' = Num (Fin b)" using l b(1) by auto
    then have "Fin b \<in> set bs" using res_map_all [OF m(8)] by (force simp: num_cell_def)
    moreover have "nan_max bs = Fin mx" using m(9) by (auto simp: finite_max_def split: flt.splits)
    ultimately have "b \<le> mx" using best_nan_max [of bs] by (auto simp: best_def split: if_splits)
    then show ?thesis using burst_ticks_span [OF b(2)] by (simp add: m(10))
  qed
  moreover have "\<exists>s. line_color l = Some (cm (colour_map (fst (line_variant l))) s) \<and> 0 < s \<and> s < 1"
    using colors_spec [OF m(6) assms(3)] l by metis
  ultimately show ?thesis using marks by blast
qed

text \<open>A table of one row, with short names for the two columns.\<close>

definition lat_row :: row where
  "lat_row =
     [(''param_hs_enabled'', Num (Fin 1)), (''param_pkt_size'', Num (Fin 1500)), (''param_n_rules'', Num (Fin 2048)),
      (''b'', Num (Fin 4)), (''y'', Num (Fin 100))]"

definition lat_columns :: "string list" where
  "lat_columns = [''param_hs_enabled'', ''param_pkt_size'', ''param_n_rules'', ''b'', ''y'']"

definition lat_args :: latency_args where
  "lat_args = default_latency_args\<lparr>latency_col := ''y'', burst_col := ''b''\<rparr>"

definition lat_tables :: tables where
  "lat_tables = cores_demo_tables\<lparr>read_csv := \<lambda>path. Inr \<lparr>columns = lat_columns, frame_rows = [(0, lat_row)]\<rparr>\<rparr>"

definition lat_engine_row :: row where
  "lat_engine_row = lat_row @ [(''engine'', Str ''HS'')]"

definition lat_frame :: frame where
  "lat_frame = \<lparr>columns = lat_columns @ [''engine''], frame_rows = [(0, lat_engine_row)]\<rparr>"

lemma lat_loaded: "load_queried lat_tables p q = Inr \<lparr>columns = lat_columns, frame_rows = [(0, lat_row)]\<rparr>"
proof -
  have "map strip lat_columns = lat_columns" by code_simp
  moreover have "map (\<lambda>(c, v). (strip c, v)) lat_row = lat_row" by code_simp
  ultimately show ?thesis
    by (simp add: load_queried_def rename_columns_def lat_tables_def cores_demo_tables_def)
qed

lemma lat_with_engine: "with_engine \<lparr>columns = lat_columns, frame_rows = [(0, lat_row)]\<rparr> = Inr lat_frame"
proof -
  have "''engine'' \<notin> set lat_columns" by code_simp
  moreover have "dict_set ''engine'' (Str ''HS'') lat_row = lat_engine_row" by (simp add: lat_row_def lat_engine_row_def)
  moreover have "dict_get lat_row ''param_hs_enabled'' = Inr (Num (Fin 1))" by (simp add: lat_row_def dict_get_def)
  ultimately show ?thesis by (simp add: with_engine_def engine_of_def lat_frame_def)
qed

lemma lat_values:
  "dict_get lat_engine_row ''engine'' = Inr (Str ''HS'')" "dict_get lat_engine_row ''param_pkt_size'' = Inr (Num (Fin 1500))"
  "dict_get lat_engine_row ''param_n_rules'' = Inr (Num (Fin 2048))" "dict_get lat_engine_row ''b'' = Inr (Num (Fin 4))"
  "num_of lat_engine_row ''y'' = Inr (Fin 100)"
  by (simp_all add: lat_engine_row_def lat_row_def dict_get_def num_of_def)

definition lat_group :: latency_group where
  "lat_group =
     \<lparr>g_engine = Str ''HS'', g_pkt_size = Num (Fin 1500), g_n_rules = Num (Fin 2048), g_burst = Num (Fin 4),
      g_mean = Fin 100, g_std = NaN\<rparr>"

lemma lat_groups: "latency_groups id lat_args lat_frame = Inr [lat_group]"
proof -
  have cols: "set [''engine'', ''param_pkt_size'', ''param_n_rules'', ''b''] \<subseteq> set (columns lat_frame)" by code_simp
  have "keyed_rows [''engine'', ''param_pkt_size'', ''param_n_rules'', ''b''] lat_frame =
      Inr [([Str ''HS'', Num (Fin 1500), Num (Fin 2048), Num (Fin 4)], 0, lat_engine_row)]"
    unfolding keyed_rows_def using cols by (simp add: lat_values) (simp add: lat_frame_def lat_values)
  then show ?thesis
    by (simp add: latency_groups_def group_rows_def group_of_def lat_args_def default_latency_args_def lat_values
        lat_group_def flt_mean_def flt_std_def present_def)
qed

text \<open>A colour is the name of a table and the number of its entry.\<close>

definition lat_colours :: "(string \<times> int) colour_maps" where
  "lat_colours m x = (m, \<lfloor>256 * x\<rfloor>)"

lemma lat_colour_tables: "colour_tables lat_colours"
  unfolding colour_tables_def by (rule exI [of _ Pair]) (simp add: lat_colours_def)

theorem latency_lines_told_apart_witness:
  "\<exists>fig l. plot_latency lat_colours cores_demo_cells lat_tables id id (\<lambda>p. True) (\<lambda>p. Inr ()) lat_args = Inr (Some fig) \<and>
     l \<in> set (latency_lines fig) \<and> (\<exists>i. line_color l = Some (''Blues'', i)) \<and> 0 \<in> set (burst_axis fig)"
proof -
  have sorted: "sorted_cells lat_tables = id" by (simp add: lat_tables_def cores_demo_tables_def)
  have columns: "column ''param_n_rules'' lat_frame = Inr [Num (Fin 2048)]" "column ''param_pkt_size'' lat_frame = Inr [Num (Fin 1500)]"
    by (simp_all add: column_def lat_frame_def lat_values)
  obtain colors where colors: "color_mapping lat_colours cores_demo_cells id [lat_group] = Inr colors"
    by (simp add: color_mapping_def engine_shades_def variant_of_def lat_group_def cell_float_def Let_def)
  define marks where "marks = cycle_mapping marker_symbols [Num (Fin 2048)]"
  define styles where "styles = cycle_mapping linestyle_patterns [Num (Fin 1500)]"
  have "\<exists>l. latency_line_of cores_demo_cells lat_tables colors marks styles [lat_group] (Str ''HS'', Num (Fin 2048), Num (Fin 1500)) = Inr l \<and>
      fst (line_variant l) = Str ''HS'' \<and> (Num (Fin 4), Fin 100, NaN) \<in> set (line_points l)"
    by (simp add: latency_line_of_def variant_of_def lat_group_def sort_cells_def cell_float_def sorted)
  then obtain l where l: "latency_line_of cores_demo_cells lat_tables colors marks styles [lat_group] (Str ''HS'', Num (Fin 2048), Num (Fin 1500)) = Inr l"
    "fst (line_variant l) = Str ''HS''" "(Num (Fin 4), Fin 100, NaN) \<in> set (line_points l)" by blast
  have keys: "g_engine lat_group = Str ''HS''" "g_pkt_size lat_group = Num (Fin 1500)" "g_n_rules lat_group = Num (Fin 2048)"
    "g_burst lat_group = Num (Fin 4)" by (simp_all add: lat_group_def)
  define fig where "fig = \<lparr>latency_lines = [l], burst_axis = burst_ticks 4,
    latency_ylabel = ''Average Packet Processing Time '' @ latency_unit (latency_col lat_args)\<rparr>"
  have fig: "latency_plot lat_colours cores_demo_cells lat_tables id id lat_args lat_frame = Inr fig"
    using l(1) unfolding latency_plot_def marks_def styles_def
    by (simp add: lat_groups columns sort_cells_def cell_float_def sorted colors keys num_cell_def nan_max_def max_of_def
        finite_max_def Let_def fig_def)
  have names: "''param_hs_enabled'' \<in> set lat_columns" "missing_column (columns lat_frame) (burst_col lat_args) (latency_col lat_args) = None"
    by code_simp+
  have run: "plot_latency lat_colours cores_demo_cells lat_tables id id (\<lambda>p. True) (\<lambda>p. Inr ()) lat_args = Inr (Some fig)"
    by (simp add: plot_latency_def load_style_module_def lat_loaded lat_with_engine names fig)
  have mem: "l \<in> set (latency_lines fig)" by (simp add: fig_def)
  have laws: "tables_laws lat_tables" by (auto simp: tables_laws_def lat_tables_def cores_demo_tables_def)
  note facts = latency_lines_told_apart [OF run _ _ laws lat_colour_tables mem, simplified]
  have "\<exists>i. line_color l = Some (''Blues'', i)" using facts l(2) by (auto simp: colour_map_def lat_colours_def)
  moreover have "0 \<in> set (burst_axis fig)" using facts l(3) by (meson zero_le_numeral)
  ultimately have "(\<exists>i. line_color l = Some (''Blues'', i)) \<and> 0 \<in> set (burst_axis fig)" by blast
  then show ?thesis using run mem by blast
qed

end
