(* ===== verification/Plot_Bars.thy ===== *)
theory Plot_Bars
  imports Plot_Lines
begin

text \<open>
  The bars of rule subsets (autotest/plot-bar4.py) and the two axes over the target throughput
  (autotest/plot.py), from their tables to what is drawn.  The wrapping of long legend texts is left
  out.
\<close>

section \<open>Bars of subsets (plot-bar4.py)\<close>

record bar_args =
  b_input_file :: string
  b_pandas_query :: string
  b_x_axis :: string
  b_y_axis :: string
  b_zero_drop_thres :: string

definition default_bar_args :: bar_args where
  "default_bar_args =
     \<lparr>b_input_file = ''results_selected_aggr.csv'', b_pandas_query = ''index >= 0'', b_x_axis = ''param_n_rules'',
      b_y_axis = ''param_target_tp'', b_zero_drop_thres = ''99.95''\<rparr>"

text \<open>\<^verbatim>\<open>int\<close> of a float; a column of integers has no infinite and no missing values.\<close>

definition trunc_int :: "real \<Rightarrow> int" where
  "trunc_int x = (if 0 \<le> x then \<lfloor>x\<rfloor> else \<lceil>x\<rceil>)"

definition int_of_flt :: "flt \<Rightarrow> int res" where
  "int_of_flt v = (case v of Fin x \<Rightarrow> Inr (trunc_int x) | NaN \<Rightarrow> Inl ValueError | Inf s \<Rightarrow> Inl OverflowError)"

definition as_int :: "flt \<Rightarrow> int res" where
  "as_int v = (case v of Fin x \<Rightarrow> Inr (trunc_int x) | _ \<Rightarrow> Inl ValueError)"

definition without_drops :: "flt \<Rightarrow> frame \<Rightarrow> frame res" where
  "without_drops threshold f =
     (if ''processed_rate_percent'' \<in> set (columns f)
      then keep_rows (\<lambda>r. res_bind (num_of r ''processed_rate_percent'') (\<lambda>x. Inr (threshold \<le> x))) f
      else Inl KeyError)"

text \<open>The highest value of every group of rules and subsets, with the rules per subset.\<close>

definition bar_rows ::
  "(cell list list \<Rightarrow> cell list list) \<Rightarrow> bar_args \<Rightarrow> frame \<Rightarrow> (int \<times> int \<times> flt) list res" where
  "bar_rows so args f =
     res_bind (group_rows so [b_x_axis args, ''subsets_cnt''] f) (\<lambda>gs.
       res_map (\<lambda>(k, g).
         res_bind (res_map (\<lambda>(i, r). num_of r (b_y_axis args)) g) (\<lambda>ys.
         res_bind (num_cell (k ! 0)) (\<lambda>n. res_bind (num_cell (k ! 1)) (\<lambda>subsets.
         res_bind (as_int (n / subsets)) (\<lambda>rps. res_bind (int_of_flt subsets) (\<lambda>m.
           Inr (rps, m, nan_max ys))))))) gs)"

record bar_figure =
  bar_heights :: "(string \<times> flt) list"
  bar_limit :: int
  bar_axis_label :: string

definition plot_bars ::
  "conversions \<Rightarrow> tables \<Rightarrow> (cell list list \<Rightarrow> cell list list) \<Rightarrow> bar_args \<Rightarrow> bar_figure res" where
  "plot_bars E T so args =
     res_bind (load_queried T (b_input_file args) (b_pandas_query args)) (\<lambda>f.
     res_bind (to_float E (b_zero_drop_thres args)) (\<lambda>threshold.
     res_bind (without_drops (Fin threshold) f) (\<lambda>g.
     res_bind (bar_rows so args g) (\<lambda>rows.
       Inr \<lparr>bar_heights = bars rows, bar_limit = 60, bar_axis_label = bar_ylabel (b_y_axis args)\<rparr>))))"

section \<open>Two axes (plot.py)\<close>

record two_args =
  t_input_file :: string
  t_pandas_query :: string
  left_y_axis :: string
  right_y_axis :: string

definition default_two_args :: two_args where
  "default_two_args =
     \<lparr>t_input_file = ''results_selected_aggr.csv'', t_pandas_query = ''index >= 0'',
      left_y_axis = ''processed_rate_percent'', right_y_axis = ''combined_scan_avg_cycles''\<rparr>"

text \<open>For every row the mean and deviation over the rows of its label and target.\<close>

definition axis_stats :: "frame \<Rightarrow> string \<Rightarrow> (flt \<times> flt) list res" where
  "axis_stats f c =
     (if c \<notin> set (columns f) then Inl KeyError
      else
        res_bind (keyed_rows [''label'', ''param_target_tp''] f) (\<lambda>ks.
          res_map (\<lambda>(i, r). res_bind (res_map (dict_get r) [''label'', ''param_target_tp'']) (\<lambda>k.
            res_bind (res_map (\<lambda>(i, r). num_of r c) (group_of ks k)) (\<lambda>ys. Inr (flt_mean ys, flt_std ys))))
            (frame_rows f)))"

text \<open>The name of a group of one column is a tuple of one element, and is printed as one.\<close>

definition error_bar_label :: "(cell \<Rightarrow> string) \<Rightarrow> string \<Rightarrow> cell \<Rightarrow> string" where
  "error_bar_label cell_repr sign v = sign @ '' - '' @ ''('' @ cell_repr v @ '',)''"

definition error_bars ::
  "(cell list list \<Rightarrow> cell list list) \<Rightarrow> (cell \<Rightarrow> string) \<Rightarrow> frame \<Rightarrow> string \<Rightarrow> string
     \<Rightarrow> (string \<times> (cell \<times> flt \<times> flt) list) list res" where
  "error_bars so cell_repr f c sign =
     res_bind (axis_stats f c) (\<lambda>stats.
     res_bind (column ''label'' f) (\<lambda>ls. res_bind (column ''param_target_tp'' f) (\<lambda>tps.
       let rows = zip ls (zip tps stats); names = sorted_keys so (filter (\<lambda>l. l \<noteq> Num NaN) ls)
       in Inr (map (\<lambda>l. (error_bar_label cell_repr sign l, map snd (filter (\<lambda>(l', p). l' = l) rows))) names))))"

definition axis_label :: "string \<times> string \<times> string \<Rightarrow> string \<Rightarrow> string \<times> string" where
  "axis_label = (\<lambda>(sign, label, color) kind. (sign @ '' - '' @ label @ '' ('' @ kind @ '' line)'', color))"

definition two_title :: "two_args \<Rightarrow> string" where
  "two_title args =
     ''Queried data: '' @ (if t_pandas_query args \<noteq> ''index >= 0'' then t_pandas_query args else ''all'') @
     '' from '' @ t_input_file args"

record two_figure =
  left_bars :: "(string \<times> (cell \<times> flt \<times> flt) list) list"
  right_bars :: "(string \<times> (cell \<times> flt \<times> flt) list) list"
  two_labels :: "(string \<times> string) list"
  two_legend :: "string list"
  two_caption :: string

definition plot_two ::
  "tables \<Rightarrow> (cell list list \<Rightarrow> cell list list) \<Rightarrow> (cell \<Rightarrow> string) \<Rightarrow> two_args \<Rightarrow> two_figure res" where
  "plot_two T so cell_repr args =
     res_bind (read_csv T (t_input_file args)) (\<lambda>f0.
     res_bind (query T (t_pandas_query args) (strip_frame f0)) (\<lambda>f.
     res_bind (axis_options (left_y_axis args) (right_y_axis args)) (\<lambda>(left, right).
     res_bind (error_bars so cell_repr f (left_y_axis args) (fst left)) (\<lambda>ls.
     res_bind (case right of None \<Rightarrow> Inr []
               | Some a \<Rightarrow> error_bars so cell_repr f (right_y_axis args) (fst a)) (\<lambda>rs.
       Inr \<lparr>left_bars = ls, right_bars = rs,
            two_labels = axis_label left ''solid'' # (case right of None \<Rightarrow> [] | Some a \<Rightarrow> [axis_label a ''dashed'']),
            two_legend = map fst ls @ map fst rs, two_caption = two_title args\<rparr>)))))"

section \<open>The heights of the bars\<close>

lemma num_cell_eq [simp]: "num_cell v = Inr x \<longleftrightarrow> v = Num x"
  by (auto simp: num_cell_def split: cell.splits)

lemma bar_row_best:
  assumes "bar_rows so args g = Inr rows" "\<forall>ks. set (so ks) = set ks" "(rps, m, y) \<in> set rows"
  obtains ks n s where "keyed_rows [b_x_axis args, ''subsets_cnt''] g = Inr ks" "rps = trunc_int (n / s)" "m = trunc_int s" "s \<noteq> 0"
    and "best {v. \<exists>i r. ([Num (Fin n), Num (Fin s)], i, r) \<in> set ks \<and> num_of r (b_y_axis args) = Inr v} y"
proof -
  obtain ks gs where ks: "keyed_rows [b_x_axis args, ''subsets_cnt''] g = Inr ks"
    "gs = map (\<lambda>k. (k, group_of ks k)) (so (remdups (map fst ks)))"
    and rows: "res_map (\<lambda>(k, g).
         res_bind (res_map (\<lambda>(i, r). num_of r (b_y_axis args)) g) (\<lambda>ys.
         res_bind (num_cell (k ! 0)) (\<lambda>n. res_bind (num_cell (k ! 1)) (\<lambda>subsets.
         res_bind (as_int (n / subsets)) (\<lambda>rps. res_bind (int_of_flt subsets) (\<lambda>m.
           Inr (rps, m, nan_max ys))))))) gs = Inr rows"
    using assms(1) by (auto simp: bar_rows_def group_rows_def)
  obtain k g' where g': "(k, g') \<in> set gs" "res_bind (res_map (\<lambda>(i, r). num_of r (b_y_axis args)) g') (\<lambda>ys.
      res_bind (num_cell (k ! 0)) (\<lambda>n. res_bind (num_cell (k ! 1)) (\<lambda>subsets.
      res_bind (as_int (n / subsets)) (\<lambda>rps. res_bind (int_of_flt subsets) (\<lambda>m. Inr (rps, m, nan_max ys)))))) = Inr (rps, m, y)"
    using res_map_set [OF rows assms(3)] by auto
  have kg: "k \<in> fst ` set ks" "g' = group_of ks k" using g'(1) ks(2) assms(2) by auto
  obtain ys n s where k: "res_map (\<lambda>(i, r). num_of r (b_y_axis args)) (group_of ks k) = Inr ys"
    "k ! 0 = Num n" "k ! 1 = Num s" "as_int (n / s) = Inr rps" "int_of_flt s = Inr m" "y = nan_max ys"
    using g'(2) unfolding kg(2) by auto
  obtain s' where s': "s = Fin s'" "m = trunc_int s'" using k(5) by (auto simp: int_of_flt_def split: flt.splits)
  obtain n' where n': "n = Fin n'" "s' \<noteq> 0" "rps = trunc_int (n' / s')"
    using k(4) by (cases n) (auto simp: s' as_int_def split: flt.splits if_splits)
  obtain i r where "(k, i, r) \<in> set ks" using kg(1) by force
  then have "length k = 2" using keyed_rows_from [OF ks(1)] by fastforce
  then have key: "k = [Num (Fin n'), Num (Fin s')]"
    using k(2,3) n'(1) s'(1) by (auto simp: length_Suc_conv numeral_2_eq_2)
  have "set ys = {v. \<exists>i r. (k, i, r) \<in> set ks \<and> num_of r (b_y_axis args) = Inr v}"
  proof
    show "set ys \<subseteq> {v. \<exists>i r. (k, i, r) \<in> set ks \<and> num_of r (b_y_axis args) = Inr v}"
      using res_map_set [OF k(1)] by (force simp: group_of_def)
    show "{v. \<exists>i r. (k, i, r) \<in> set ks \<and> num_of r (b_y_axis args) = Inr v} \<subseteq> set ys"
    proof
      fix v
      assume "v \<in> {v. \<exists>i r. (k, i, r) \<in> set ks \<and> num_of r (b_y_axis args) = Inr v}"
      then obtain i r where "(i, r) \<in> set (group_of ks k)" "num_of r (b_y_axis args) = Inr v"
        by (force simp: group_of_def)
      then show "v \<in> set ys" using res_map_all [OF k(1)] by fastforce
    qed
  qed
  then have "best {v. \<exists>i r. (k, i, r) \<in> set ks \<and> num_of r (b_y_axis args) = Inr v} y" using best_nan_max k(6) by metis
  then show ?thesis using that [OF ks(1) n'(3) s'(2) n'(2)] unfolding key by blast
qed

text \<open>Every bar shows the highest value of the rows without drops that have its numbers of rules and
  subsets, and the bars stand in the order of the rules per subset.\<close>

lemma bars_show_best:
  assumes "plot_bars E T so args = Inr fig" "\<forall>ks. set (so ks) = set ks" "(label, y) \<in> set (bar_heights fig)"
  shows "\<exists>f threshold g ks n s. load_queried T (b_input_file args) (b_pandas_query args) = Inr f \<and>
    to_float E (b_zero_drop_thres args) = Inr threshold \<and> without_drops (Fin threshold) f = Inr g \<and>
    keyed_rows [b_x_axis args, ''subsets_cnt''] g = Inr ks \<and> label = bar_label (trunc_int (n / s)) (trunc_int s) \<and>
    best {v. \<exists>i r. ([Num (Fin n), Num (Fin s)], i, r) \<in> set ks \<and> num_of r (b_y_axis args) = Inr v} y"
proof -
  obtain f threshold g rows where m: "load_queried T (b_input_file args) (b_pandas_query args) = Inr f"
    "to_float E (b_zero_drop_thres args) = Inr threshold" "without_drops (Fin threshold) f = Inr g"
    "bar_rows so args g = Inr rows" "bar_heights fig = bars rows"
    using assms(1) by (auto simp: plot_bars_def)
  obtain rps k where r: "(rps, k, y) \<in> set rows" "label = bar_label rps k"
    using assms(3) by (auto simp: m(5) bars_def)
  show ?thesis by (rule bar_row_best [OF m(4) assms(2) r(1)]) (use m(1-3) r(2) in blast)
qed

end
