(* ===== verification/Bench_Config.thy ===== *)
theory Bench_Config
  imports Experiments
begin

text \<open>
  What one configuration of the benchmark is made of: autotest/test_global_properties.py, which checks
  the environment and sets the machines and the initial configuration, and the scripts under
  autotest/scripts that autotest/exp_runner.py renders with it.

  Of a script only the variables that its template uses are modelled, and the name that prep_rules.sh
  gives to a set of compiled rules; what the template engine prints for a value is a parameter.
\<close>

section \<open>The environment\<close>

type_synonym environ = "string \<Rightarrow> string option"

definition needed_envs :: "string list" where
  "needed_envs = [''EXPERIMENT'', ''BF2_SSH_KEY_PATH'', ''RX_USER'', ''RX_HOST'', ''HOST_SSH_KEY_PATH'']"

text \<open>The variables named by the message about a missing one: it and all after it.\<close>

definition reported_envs :: "environ \<Rightarrow> string list" where
  "reported_envs env = dropWhile (\<lambda>v. env v \<noteq> None) needed_envs"

definition check_envs :: "environ \<Rightarrow> unit res" where
  "check_envs env = (if reported_envs env = [] then Inr () else Inl (SystemExit (-1)))"

text \<open>The globals of the experiment.  For other receivers the access is never assigned, and reading
  it raises.\<close>

record bench =
  experiment_name :: string
  receiver :: string
  sender :: string
  rx_log :: string
  tx_log :: string
  result_path :: string
  save_path :: string
  rx_access :: "ssh_config res"

definition getenv :: "environ \<Rightarrow> string \<Rightarrow> string" where
  "getenv env v = (case env v of None \<Rightarrow> ''None'' | Some s \<Rightarrow> s)"

definition access_of :: "environ \<Rightarrow> string \<Rightarrow> ssh_config res" where
  "access_of env host =
     (if host = ''dormeur'' then
        Inr \<lparr>identity = getenv env ''HOST_SSH_KEY_PATH'', user = getenv env ''RX_USER'', host_address = ''dormeur''\<rparr>
      else if host = ''nic_dormeur'' then
        Inr \<lparr>identity = getenv env ''BF2_SSH_KEY_PATH'', user = ''ubuntu'', host_address = ''10.0.0.15''\<rparr>
      else Inl NameError)"

definition load_bench :: "environ \<Rightarrow> bench res" where
  "load_bench env =
     res_bind (check_envs env) (\<lambda>_.
       Inr \<lparr>experiment_name = getenv env ''EXPERIMENT'', receiver = getenv env ''RX_HOST'', sender = ''elrond'',
            rx_log = ''rx_output.log'', tx_log = ''tx_output.log'',
            result_path = ''result_'' @ getenv env ''EXPERIMENT'' @ ''.csv'',
            save_path = ''save_'' @ getenv env ''EXPERIMENT'' @ ''.pckl'',
            rx_access = access_of env (getenv env ''RX_HOST'')\<rparr>)"

definition site_of :: "bench \<Rightarrow> ssh_config \<Rightarrow> site" where
  "site_of b access =
     \<lparr>tx = sender b, rx = receiver b, exp_name = experiment_name b, rx_ssh_cfg = Some access,
      rx_out_file = rx_log b, tx_out_file = tx_log b\<rparr>"

text \<open>The access is first read when the session of the receiver is to be started.\<close>

definition setup_bench :: "outside \<Rightarrow> bench \<Rightarrow> string dict \<Rightarrow> (generator \<times> generator) tm" where
  "setup_bench w b config =
     (case rx_access b of
        Inr access \<Rightarrow> setup_exp w (site_of b access) config
      | Inl e \<Rightarrow>
          tseq (clean_renders w True)
         (tseq (remote_tmux_stop w (sender b)) (tseq (remote_tmux_stop w (receiver b))
         (tseq (remote_tmux_start w (sender b) (experiment_name b) None) (traise e)))))"

definition init_config :: "string \<Rightarrow> string \<Rightarrow> pval dict" where
  "init_config tx_host rx_host =
     [(''exp_repetitions'', PInt 2),
      (''n_queues'', PStr ''8''),
      (''tx_burst_size'', PStr ''1''),
      (''host_tx'', PStr ''10.100.0.1''),
      (''mac_tx'', PStr ''04:3f:72:dc:4a:65''),
      (''tx_pci'', PStr (if tx_host = ''elrond'' then ''0000:98:00.0'' else ''0000:01:00.1'')),
      (''tx_dpdk_lcores'', PStr (if tx_host = ''elrond'' then ''1,3,5,7,9,11,13,15,17,19,21,23'' else ''0-7'')),
      (''tx_cpu_cores'', PStr (if tx_host = ''elrond'' then ''3/5/7/9:11/13/15/17/19/21/23'' else ''2/3/4:5/6/7'')),
      (''host_rx'', PStr ''10.100.0.2''),
      (''mac_rx'', PStr ''04:3f:72:dc:4a:64''),
      (''rx_pci'', PStr (if rx_host = ''dormeur'' then ''0000:51:00.0'' else ''0000:03:00.0'')),
      (''pktgen_lag'', PStr ''1.5''),
      (''latency_rate'', PStr ''1000''),
      (''fixed_seed'', PStr ''1''),
      (''rx_warmup'', PStr ''2''),
      (''rx_timeout'', PStr ''7''),
      (''rx_cooldown'', PStr ''1''),
      (''platform'', PStr (if rx_host = ''dormeur'' then ''host'' else ''nic'')),
      (''dpdk'', PStr ''user'')]"

text \<open>\<^verbatim>\<open>curr_cfg\<close>: a copy of the initial configuration, updated by the parameters.\<close>

definition current_config :: "bench \<Rightarrow> pval pset \<Rightarrow> pval dict" where
  "current_config b params = dict_update (init_config (sender b) (receiver b)) params"

section \<open>The rendered scripts\<close>

text \<open>The variables the templates print or compute with.  Those that are only printed when they are
  defined (\<^verbatim>\<open>packets_process_atleast\<close>) are not listed.\<close>

definition prep_rules_vars :: "string list" where
  "prep_rules_vars =
     [''n_rules'', ''rules_patlen_greaterthan'', ''rules_use_content_kw'', ''rules_use_pcre_kw'', ''rule_subset_ratio'',
      ''pattern_db'', ''fixed_seed'', ''rgx_enabled'', ''hs_enabled'']"

definition rx_vars :: "string list" where
  "rx_vars =
     [''lcores'', ''rx_pci'', ''port_forward_mode'', ''nb_rgx_desc'', ''rgx_enabled'', ''rule_subset_ratio'',
      ''port_mp_size'', ''port_rx_descriptors'', ''port_tx_descriptors'', ''pkt_size'', ''hs_enabled'', ''hs_flags'']"

definition gen_pkts_vars :: "string list" where
  "gen_pkts_vars =
     [''pkt_size'', ''host_rx'', ''host_tx'', ''mac_tx'', ''mac_rx'', ''target_tp'', ''tx_burst_size'', ''latency_rate'',
      ''rx_timeout'']"

definition launch_pktgen_vars :: "string list" where
  "launch_pktgen_vars =
     [''n_queues'', ''tx_pci'', ''tx_dpdk_lcores'', ''tx_cpu_cores'', ''gen_lua'', ''pktgen_latency_enabled'', ''jumbo_frames'']"

definition build_vars :: "string list" where
  "build_vars = [''platform'', ''dpdk'']"

definition missing_vars :: "string list \<Rightarrow> 'v dict \<Rightarrow> string list" where
  "missing_vars vars cfg = filter (\<lambda>v. v \<notin> set (keys cfg)) vars"

text \<open>Every script of an experiment with the variables its configuration lacks; the sender adds the
  path of the rendered program.\<close>

definition script_gaps :: "bench \<Rightarrow> string \<Rightarrow> pval pset \<Rightarrow> (string \<times> string list) list" where
  "script_gaps b lua params =
     (let cfg = current_config b params
      in [(''build_rgxtest.sh'', missing_vars build_vars (init_config (sender b) (receiver b))),
          (''prep_rules.sh'', missing_vars prep_rules_vars cfg),
          (''rx.sh'', missing_vars rx_vars cfg),
          (''gen_pkts.lua'', missing_vars gen_pkts_vars cfg),
          (''launch_pktgen.sh'', missing_vars launch_pktgen_vars (dict_set ''gen_lua'' (PStr lua) cfg))])"

text \<open>The name of a set of compiled rules.  \<open>printed\<close> is what the template engine prints for a
  value, or for a variable that is not defined.\<close>

definition curr_id :: "('v option \<Rightarrow> string) \<Rightarrow> 'v dict \<Rightarrow> string" where
  "curr_id printed cfg =
     ''nr'' @ printed (map_of cfg ''n_rules'') @
     ''_patlengte'' @ printed (map_of cfg ''rules_patlen_greaterthan'') @
     ''_ct'' @ printed (map_of cfg ''rules_use_content_kw'') @
     ''_pcre'' @ printed (map_of cfg ''rules_use_pcre_kw'') @
     ''_subsets'' @ printed (map_of cfg ''rule_subset_ratio'')"

definition precompiled_file :: "('v option \<Rightarrow> string) \<Rightarrow> 'v dict \<Rightarrow> string" where
  "precompiled_file printed cfg = ''precompiled_'' @ curr_id printed cfg"

section \<open>What the configurations lack\<close>

text \<open>The files that can be launched; those without a division of the rules.\<close>

definition launched_files :: "(string \<times> (string \<times> pval list) list) list" where
  "launched_files =
     [(''params_big_exp.py'', params_big_exp), (''params_prefix_mem.py'', params_prefix_mem),
      (''params_latency.py'', params_latency), (''params_heatmap_rulesetsz_pktsz.py'', params_heatmap_rulesetsz_pktsz),
      (''params_hs_vs_rxp_cores.py'', params_hs_vs_rxp_cores), (''params_rule_subsets.py'', params_rule_subsets)]"

definition undivided :: "string list" where
  "undivided = [''params_big_exp.py'', ''params_prefix_mem.py'']"

lemma keys_update: "set (keys (dict_update d e)) = set (keys d) \<union> set (keys e)"
proof (induction e arbitrary: d)
  case (Cons p e)
  obtain k v where p: "p = (k, v)" by (cases p)
  have "dict_update d (p # e) = dict_update (dict_set k v d) e" by (simp add: dict_update_def p)
  then show ?case using Cons [of "dict_set k v d"] by (auto simp: p keys_dict_set)
qed (simp add: dict_update_def)

lemma assigns_keys: "assigns ps cfg \<Longrightarrow> keys cfg = map fst ps"
  unfolding assigns_def by (induction cfg ps rule: list_all2_induct) auto

lemma assigns_distinct_value:
  assumes "assigns ps cfg" "distinct (map fst ps)" "(k, vs) \<in> set ps"
  shows "\<exists>v \<in> set vs. map_of cfg k = Some v"
proof -
  from assms(1,3) obtain v where "(k, v) \<in> set cfg" "v \<in> set vs"
    unfolding assigns_def by (fastforce simp: list_all2_conv_all_nth in_set_conv_nth)
  moreover have "distinct (keys cfg)" using assigns_keys [OF assms(1)] assms(2) by simp
  ultimately show ?thesis by auto
qed

lemma launched_sound:
  assumes "(file, ps) \<in> set launched_files"
  shows "\<exists>k. sound_launch so hs hv file ps k"
proof -
  have "list_all (\<lambda>(file, ps). \<exists>k. sound_launch so hs hv file ps k) launched_files"
    unfolding launched_files_def list.pred_inject prod.case
    by (intro conjI exI)
      (rule launch_big_exp launch_prefix_mem launch_latency launch_heatmap_rulesetsz_pktsz launch_hs_vs_rxp_cores
        launch_rule_subsets | simp)+
  then show ?thesis using assms by (auto simp: list_all_iff)
qed

definition common_params :: "string list" where
  "common_params =
     [''target_tp'', ''pkt_size'', ''lcores'', ''hs_flags'', ''nb_rgx_desc'', ''port_mp_size'', ''port_rx_descriptors'',
      ''port_tx_descriptors'', ''jumbo_frames'', ''rgx_enabled'', ''hs_enabled'', ''port_forward_mode'',
      ''pktgen_latency_enabled'', ''rules_use_content_kw'', ''rules_use_pcre_kw'', ''rules_patlen_greaterthan'', ''pattern_db'']"

lemma launched_params:
  assumes "(file, ps) \<in> set launched_files"
  shows "map fst ps = ''n_rules'' # (if file \<in> set undivided then [] else [''rule_subset_ratio'']) @ common_params"
proof -
  have u: "''params_big_exp.py'' \<in> set undivided" "''params_prefix_mem.py'' \<in> set undivided"
    "''params_latency.py'' \<notin> set undivided" "''params_heatmap_rulesetsz_pktsz.py'' \<notin> set undivided"
    "''params_hs_vs_rxp_cores.py'' \<notin> set undivided" "''params_rule_subsets.py'' \<notin> set undivided"
    by code_simp+
  have "list_all (\<lambda>(file, ps). map fst ps =
      ''n_rules'' # (if file \<in> set undivided then [] else [''rule_subset_ratio'']) @ common_params) launched_files"
    unfolding launched_files_def list.pred_inject prod.case
    by (simp only: u if_True if_False simp_thms)
      (simp add: common_params_def params_big_exp_def params_prefix_mem_def params_latency_def
        params_heatmap_rulesetsz_pktsz_def params_hs_vs_rxp_cores_def params_rule_subsets_def)
  then show ?thesis using assms by (auto simp: list_all_iff)
qed

text \<open>The names the initial configuration sets.\<close>

definition initial_names :: "string list" where
  "initial_names =
     [''exp_repetitions'', ''n_queues'', ''tx_burst_size'', ''host_tx'', ''mac_tx'', ''tx_pci'', ''tx_dpdk_lcores'',
      ''tx_cpu_cores'', ''host_rx'', ''mac_rx'', ''rx_pci'', ''pktgen_lag'', ''latency_rate'', ''fixed_seed'', ''rx_warmup'',
      ''rx_timeout'', ''rx_cooldown'', ''platform'', ''dpdk'']"

lemma keys_init_config: "keys (init_config t r) = initial_names"
  by (simp add: init_config_def initial_names_def)

lemma gap_names:
  assumes "ratio \<in> {[], [''rule_subset_ratio'']}" "K = initial_names @ ''n_rules'' # ratio @ common_params"
  shows "filter (\<lambda>v. v \<notin> set initial_names) build_vars = []"
    "filter (\<lambda>v. v \<notin> set K) prep_rules_vars = (if ratio = [] then [''rule_subset_ratio''] else [])"
    "filter (\<lambda>v. v \<notin> set K) rx_vars = (if ratio = [] then [''rule_subset_ratio''] else [])"
    "filter (\<lambda>v. v \<notin> set K) gen_pkts_vars = []"
    "filter (\<lambda>v. v \<notin> insert ''gen_lua'' (set K)) launch_pktgen_vars = []"
    "distinct (''n_rules'' # ratio @ common_params)"
proof -
  show "filter (\<lambda>v. v \<notin> set initial_names) build_vars = []" by code_simp
  let ?K = "\<lambda>ratio. initial_names @ ''n_rules'' # ratio @ common_params"
  have "filter (\<lambda>v. v \<notin> set (?K [])) prep_rules_vars = [''rule_subset_ratio'']"
    "filter (\<lambda>v. v \<notin> set (?K [''rule_subset_ratio''])) prep_rules_vars = []"
    "filter (\<lambda>v. v \<notin> set (?K [])) rx_vars = [''rule_subset_ratio'']"
    "filter (\<lambda>v. v \<notin> set (?K [''rule_subset_ratio''])) rx_vars = []"
    "filter (\<lambda>v. v \<notin> set (?K [])) gen_pkts_vars = []"
    "filter (\<lambda>v. v \<notin> set (?K [''rule_subset_ratio''])) gen_pkts_vars = []"
    "filter (\<lambda>v. v \<notin> set (''gen_lua'' # ?K [])) launch_pktgen_vars = []"
    "filter (\<lambda>v. v \<notin> set (''gen_lua'' # ?K [''rule_subset_ratio''])) launch_pktgen_vars = []"
    "distinct (''n_rules'' # [] @ common_params)" "distinct (''n_rules'' # [''rule_subset_ratio''] @ common_params)"
    by code_simp+
  note c = this
  show "filter (\<lambda>v. v \<notin> set K) prep_rules_vars = (if ratio = [] then [''rule_subset_ratio''] else [])"
    "filter (\<lambda>v. v \<notin> set K) rx_vars = (if ratio = [] then [''rule_subset_ratio''] else [])"
    "filter (\<lambda>v. v \<notin> set K) gen_pkts_vars = []"
    "filter (\<lambda>v. v \<notin> insert ''gen_lua'' (set K)) launch_pktgen_vars = []"
    "distinct (''n_rules'' # ratio @ common_params)"
    using assms(1) unfolding assms(2)
    by (elim insertE emptyE; simp only: c list.set [symmetric] if_True if_False list.distinct not_Cons_self simp_thms)+
qed

lemma current_value:
  assumes "distinct (keys c)" "k \<notin> set initial_names"
  shows "map_of (current_config b c) k = map_of c k"
proof -
  have "map_of (init_config t r) k = None" for t r
    using assms(2) keys_init_config [of t r] by (simp add: map_of_eq_None_iff del: set_map)
      (metis image_set)
  moreover have "map_of (rev c) = map_of c"
    using map_of_dict_update [of "[]" c] dict_of_distinct [OF assms(1)] by simp
  ultimately show ?thesis by (simp add: current_config_def map_of_dict_update map_add_def split: option.splits)
qed

lemma script_gaps_keys:
  "script_gaps b lua c =
     (let K = set initial_names \<union> set (keys c)
      in [(''build_rgxtest.sh'', filter (\<lambda>v. v \<notin> set initial_names) build_vars),
          (''prep_rules.sh'', filter (\<lambda>v. v \<notin> K) prep_rules_vars),
          (''rx.sh'', filter (\<lambda>v. v \<notin> K) rx_vars),
          (''gen_pkts.lua'', filter (\<lambda>v. v \<notin> K) gen_pkts_vars),
          (''launch_pktgen.sh'', filter (\<lambda>v. v \<notin> insert ''gen_lua'' K) launch_pktgen_vars)])"
proof -
  have k: "set (keys (current_config b c)) = set initial_names \<union> set (keys c)"
    unfolding current_config_def keys_update keys_init_config by simp
  have s: "set (keys (dict_set ''gen_lua'' (PStr lua) (current_config b c))) =
      insert ''gen_lua'' (set initial_names \<union> set (keys c))"
    unfolding keys_dict_set k [symmetric] by auto
  show ?thesis unfolding script_gaps_def Let_def missing_vars_def s k keys_init_config ..
qed

lemma launched_sizes:
  assumes "(file, ps) \<in> set launched_files"
  shows "\<exists>vs. (''pkt_size'', vs) \<in> set ps \<and> (\<forall>v \<in> set vs. \<exists>n. v = PInt n)"
proof -
  have "list_all (\<lambda>(file, ps). \<exists>vs. (''pkt_size'', vs) \<in> set ps \<and> (\<forall>v \<in> set vs. \<exists>n. v = PInt n)) launched_files"
    unfolding launched_files_def list.pred_inject prod.case
    by (simp add: params_big_exp_def params_prefix_mem_def params_latency_def
        params_heatmap_rulesetsz_pktsz_def params_hs_vs_rxp_cores_def params_rule_subsets_def)
  then show ?thesis using assms by (auto simp: list_all_iff)
qed

text \<open>C40: in every configuration of every experiment that can be launched, all scripts find all their
  variables, except in the two experiments whose files do not divide the rules: there the scripts
  prep_rules.sh and rx.sh print a ratio that is not defined.  The packet size is a number, as the
  computation in rx.sh needs.\<close>

theorem scripts_get_variables:
  "list_all (\<lambda>(file, ps).
     \<exists>r. launch so hs hv file = Inr r \<and>
       (\<forall>x \<in> set (params_sets (exparams r)).
          \<exists>c. x = Some c \<and>
            (let ratio = (if file \<in> set undivided then [''rule_subset_ratio''] else [])
             in script_gaps b lua c =
                  [(''build_rgxtest.sh'', []), (''prep_rules.sh'', ratio), (''rx.sh'', ratio), (''gen_pkts.lua'', []),
                   (''launch_pktgen.sh'', [])]) \<and>
            (\<exists>n. map_of (current_config b c) ''pkt_size'' = Some (PInt n)))) launched_files"
  unfolding list_all_iff
proof (clarify, goal_cases)
  case (1 f ps)
  define ratio where "ratio = (if f \<in> set undivided then [] else [''rule_subset_ratio''])"
  obtain k where "sound_launch so hs hv f ps k" using launched_sound [OF 1] by blast
  then obtain r where r: "launch so hs hv f = Inr r"
    "\<forall>x \<in> set (params_sets (exparams r)). \<exists>c. x = Some c \<and> assigns ps c"
    unfolding sound_launch_def by blast
  have names: "map fst ps = ''n_rules'' # ratio @ common_params" using launched_params [OF 1] by (simp add: ratio_def)
  have ratio: "ratio \<in> {[], [''rule_subset_ratio'']}" "ratio = [] \<longleftrightarrow> f \<in> set undivided" by (simp_all add: ratio_def)
  note gaps = gap_names [OF ratio(1) refl, unfolded ratio(2)]
  obtain vs where vs: "(''pkt_size'', vs) \<in> set ps" "\<forall>v \<in> set vs. \<exists>n. v = PInt n" using launched_sizes [OF 1] by blast
  have size: "''pkt_size'' \<notin> set initial_names" by code_simp
  have "(let ratio = (if f \<in> set undivided then [''rule_subset_ratio''] else [])
         in script_gaps b lua c =
              [(''build_rgxtest.sh'', []), (''prep_rules.sh'', ratio), (''rx.sh'', ratio), (''gen_pkts.lua'', []),
               (''launch_pktgen.sh'', [])]) \<and>
        (\<exists>n. map_of (current_config b c) ''pkt_size'' = Some (PInt n))" if c: "assigns ps c" for c
  proof
    have keys: "keys c = ''n_rules'' # ratio @ common_params" using assigns_keys [OF c] names by simp
    have u: "set initial_names \<union> set (keys c) = set (initial_names @ ''n_rules'' # ratio @ common_params)"
      unfolding keys set_append ..
    show "let ratio = (if f \<in> set undivided then [''rule_subset_ratio''] else [])
         in script_gaps b lua c =
              [(''build_rgxtest.sh'', []), (''prep_rules.sh'', ratio), (''rx.sh'', ratio), (''gen_pkts.lua'', []),
               (''launch_pktgen.sh'', [])]"
      unfolding script_gaps_keys Let_def u gaps ..
    have d: "distinct (map fst ps)" unfolding names by (rule gaps)
    obtain v where v: "v \<in> set vs" "map_of c ''pkt_size'' = Some v" using assigns_distinct_value [OF c d vs(1)] by blast
    obtain n where "v = PInt n" using v(1) vs(2) by blast
    moreover have "distinct (keys c)" unfolding assigns_keys [OF c] by (rule d)
    ultimately show "\<exists>n. map_of (current_config b c) ''pkt_size'' = Some (PInt n)"
      using v(2) current_value [OF _ size] by metis
  qed
  with r show ?case by (intro exI [of _ r]) blast
qed

definition demo_bench :: bench where
  "demo_bench =
     \<lparr>experiment_name = ''exp'', receiver = ''dormeur'', sender = ''elrond'', rx_log = ''rx'', tx_log = ''tx'',
      result_path = ''r'', save_path = ''s'', rx_access = Inl NameError\<rparr>"

theorem scripts_get_variables_witness:
  "\<exists>r. launch id (\<lambda>_. 0) (\<lambda>_. Inr 0) ''params_latency.py'' = Inr r \<and>
     (\<forall>x \<in> set (params_sets (exparams r)).
        \<exists>c. x = Some c \<and>
          script_gaps demo_bench ''gen.lua'' c =
            [(''build_rgxtest.sh'', []), (''prep_rules.sh'', []), (''rx.sh'', []), (''gen_pkts.lua'', []),
             (''launch_pktgen.sh'', [])])"
proof -
  have u: "''params_latency.py'' \<notin> set undivided" by code_simp
  have "(''params_latency.py'', params_latency) \<in> set launched_files" by (simp add: launched_files_def)
  note * = bspec [OF scripts_get_variables [unfolded list_all_iff, of id "\<lambda>_. 0" "\<lambda>_. Inr 0" demo_bench "''gen.lua''"] this]
  show ?thesis using * unfolding prod.case Let_def if_not_P [OF u] by blast
qed

section \<open>What the precompilation prepares\<close>

lemma vals_of_distinct:
  "distinct (map fst ps) \<Longrightarrow> vals_of (map fst ps) (map snd ps) k = Inr (map_of ps k)"
  by (induction ps) auto

text \<open>The space of the precompilation, for an experiment with the parameters \<open>ps\<close>.\<close>

definition compiled_space :: "(string \<times> pval list) list \<Rightarrow> (string \<times> pval list) list" where
  "compiled_space ps =
     map (\<lambda>k. (k, the (map_of ps k))) compile_params @
     [(''rgx_enabled'', [PStr ''1'']), (''hs_enabled'', [PStr ''0'']), (''fixed_seed'', [PStr ''1''])]"

lemma compiled_names:
  "map fst (compiled_space ps) = compile_params @ [''rgx_enabled'', ''hs_enabled'', ''fixed_seed'']"
  "distinct (map fst (compiled_space ps))"
proof -
  show n: "map fst (compiled_space ps) = compile_params @ [''rgx_enabled'', ''hs_enabled'', ''fixed_seed'']"
    by (simp add: compiled_space_def comp_def)
  show "distinct (map fst (compiled_space ps))" unfolding n by code_simp
qed

lemma precompiles:
  assumes "distinct (map fst ps)" "set compile_params \<subseteq> set (map fst ps)"
    and "length (product_lists (map snd (compiled_space ps))) < fuel"
  shows "\<exists>h. init_handler ps 1 = Inr h \<and>
    precompile_cfgs PStr h (init_config t r) fuel =
      Some (Inr (map (\<lambda>p. Some (zip (map fst (compiled_space ps)) p)) (product_lists (map snd (compiled_space ps)))))"
proof -
  let ?h = "(blank_handler 1)\<lparr>parameter_names := map fst ps, parameter_vals := map snd ps\<rparr>"
  let ?s = "compiled_space ps"
  have blank: "\<not> started (blank_handler 1)" by (simp add: blank_handler_def)
  have h: "init_handler ps 1 = Inr ?h"
    using init_params [OF blank, of ps] by (simp add: init_handler_def) (simp add: blank_handler_def)
  have vals: "get_param_vals ?h k = Inr (map_of ps k)" for k
    by (simp add: get_param_vals_def vals_of_distinct [OF assms(1)])
  have known: "\<exists>vs. map_of ps k = Some vs" if "k \<in> set compile_params" for k
    using that assms(2) by (metis in_keys_iff not_None_eq subsetD)
  have "res_map (\<lambda>p. res_bind (get_param_vals ?h p) (\<lambda>vs.
      case vs of None \<Rightarrow> Inl TypeError | Some v \<Rightarrow> Inr (p, v))) compile_params =
      Inr (map (\<lambda>k. (k, the (map_of ps k))) compile_params)"
    by (rule res_map_total) (use known in \<open>fastforce simp: vals\<close>)
  moreover have "dict_get (init_config t r) ''fixed_seed'' = Inr (PStr ''1'')" by (simp add: init_config_def dict_get_def)
  ultimately have space: "precompile_space PStr ?h (init_config t r) = Inr ?s"
    by (simp add: precompile_space_def compiled_space_def)
  obtain h0 g where g: "init_handler ?s 1 = Inr h0" "start h0 = Inr g"
    "params_sets g = map (\<lambda>p. Some (zip (map fst ?s) p)) (product_lists (map snd ?s))"
    using fresh_sets [OF compiled_names(2) [of ps], where n = 1 and fs = "[]" and ok = "\<lambda>_. True"]
    by (auto simp: concat_map_singleton)
  have "handler_reach g" using g(1,2) by (blast intro: reach_init reach_step step_start)
  moreover have "started g" using g(2) by (auto simp: start_def build_configs_def Let_def split: if_splits)
  moreover have "length (params_sets g) < fuel" using assms(3) by (simp add: g(3))
  ultimately obtain g' where "drain peek_params pop_params fuel g = Some (Inr (params_sets g, g'))"
    using drain_accounting [OF handler_reach_ok] by blast
  then have "precompile_cfgs PStr ?h (init_config t r) fuel = Some (Inr (params_sets g))"
    by (simp add: precompile_cfgs_def space g(1,2))
  then show ?thesis using h unfolding g(3) by blast
qed

lemma curr_id_cong:
  "\<forall>k \<in> set compile_params. map_of c k = map_of d k \<Longrightarrow>
   map_of c ''rule_subset_ratio'' = map_of d ''rule_subset_ratio'' \<Longrightarrow> curr_id printed c = curr_id printed d"
  by (simp add: curr_id_def compile_params_def)

lemma curr_id_last:
  "printed (map_of c ''rule_subset_ratio'') = s \<Longrightarrow>
   last (curr_id printed c) = (if s = [] then CHR ''s'' else last s)"
  by (simp add: curr_id_def)

lemma no_ratio: "''rule_subset_ratio'' \<notin> set initial_names" "''rule_subset_ratio'' \<notin> set (map fst (compiled_space ps))"
proof -
  show "''rule_subset_ratio'' \<notin> set initial_names" by code_simp
  show "''rule_subset_ratio'' \<notin> set (map fst (compiled_space ps))" unfolding compiled_names by code_simp
qed

lemma compile_initial: "\<forall>k \<in> set compile_params. k \<notin> set initial_names"
  by code_simp

text \<open>Every choice of the compiled parameters that an experiment makes is compiled.\<close>

lemma compiled_choice:
  assumes "assigns ps c" "distinct (map fst ps)" "set compile_params \<subseteq> set (map fst ps)"
  shows "\<exists>p \<in> set (product_lists (map snd (compiled_space ps))).
    \<forall>k \<in> set compile_params. map_of (zip (map fst (compiled_space ps)) p) k = map_of c k"
proof -
  have val: "\<exists>v \<in> set (the (map_of ps k)). map_of c k = Some v" if k: "k \<in> set compile_params" for k
  proof -
    obtain vs where vs: "(k, vs) \<in> set ps" using k assms(3) by auto
    then have "map_of ps k = Some vs" using assms(2) by simp
    then show ?thesis using assigns_distinct_value [OF assms(1,2) vs] by simp
  qed
  define p where "p = map (\<lambda>k. the (map_of c k)) compile_params @ [PStr ''1'', PStr ''0'', PStr ''1'']"
  have "list_all2 (\<lambda>v vs. v \<in> set vs) (map (\<lambda>k. the (map_of c k)) compile_params) (map (\<lambda>k. the (map_of ps k)) compile_params)"
    using val by (fastforce simp: list_all2_conv_all_nth dest: nth_mem)
  then have "p \<in> set (product_lists (map snd (compiled_space ps)))"
    by (simp add: product_lists_set compiled_space_def p_def comp_def list_all2_appendI)
  moreover have "map_of (zip (map fst (compiled_space ps)) p) k = map_of c k" if k: "k \<in> set compile_params" for k
    using k val [OF k] by (auto simp: compiled_names p_def map_add_def map_of_zip_map simp del: set_map split: option.splits)
  ultimately show ?thesis by blast
qed

lemma launched_compiled:
  assumes "(file, ps) \<in> set launched_files"
  shows "length (product_lists (map snd (compiled_space ps))) < 15"
    "file \<notin> set undivided \<Longrightarrow> \<exists>vs. (''rule_subset_ratio'', vs) \<in> set ps \<and>
      (\<forall>v \<in> set vs. \<exists>s. v = PStr s \<and> s \<noteq> [] \<and> last s \<noteq> CHR ''s'')"
proof -
  have "list_all (\<lambda>(file, ps). length (product_lists (map snd (compiled_space ps))) < 15) launched_files"
    unfolding launched_files_def list.pred_inject prod.case compiled_space_def compile_params_def
    by (simp add: length_product_lists params_big_exp_def params_prefix_mem_def params_latency_def
        params_heatmap_rulesetsz_pktsz_def params_hs_vs_rxp_cores_def params_rule_subsets_def py_range_def range_length
        length_concat comp_def sum_list_triv)
  then show "length (product_lists (map snd (compiled_space ps))) < 15" using assms by (auto simp: list_all_iff)
  have e: "r \<noteq> [] \<Longrightarrow> equal_ratio n r \<noteq> [] \<and> last (equal_ratio n r) = last r" for n r by (simp add: equal_ratio_def)
  have u: "''params_big_exp.py'' \<in> set undivided" "''params_prefix_mem.py'' \<in> set undivided" by code_simp+
  have "list_all (\<lambda>(file, ps). file \<in> set undivided \<or> (\<exists>vs. (''rule_subset_ratio'', vs) \<in> set ps \<and>
      (\<forall>v \<in> set vs. \<exists>s. v = PStr s \<and> s \<noteq> [] \<and> last s \<noteq> CHR ''s''))) launched_files"
    unfolding launched_files_def list.pred_inject prod.case
    by (simp only: u simp_thms)
      (simp add: params_latency_def e params_heatmap_rulesetsz_pktsz_def params_hs_vs_rxp_cores_def params_rule_subsets_def)
  then show "file \<notin> set undivided \<Longrightarrow> \<exists>vs. (''rule_subset_ratio'', vs) \<in> set ps \<and>
      (\<forall>v \<in> set vs. \<exists>s. v = PStr s \<and> s \<noteq> [] \<and> last s \<noteq> CHR ''s'')"
    using assms by (auto simp: list_all_iff)
qed

lemma compile_common: "set compile_params \<subseteq> set (''n_rules'' # ratio @ common_params)"
proof -
  have "set compile_params \<subseteq> insert ''n_rules'' (set common_params)" by code_simp
  then show ?thesis by auto
qed

text \<open>The compiled configurations of an experiment.  The ratio is never among their parameters, so that
  their names end without one; a configuration without a ratio has the name of one of them, and one
  with a ratio has none.\<close>

definition compiled_dicts :: "(string \<times> pval list) list \<Rightarrow> pval dict list" where
  "compiled_dicts ps = map (zip (map fst (compiled_space ps))) (product_lists (map snd (compiled_space ps)))"

lemma compiled_no_ratio:
  assumes "d \<in> set (compiled_dicts ps)"
  shows "map_of d ''rule_subset_ratio'' = None"
proof -
  obtain p where "d = zip (map fst (compiled_space ps)) p" using assms unfolding compiled_dicts_def set_map by blast
  then show ?thesis
    using no_ratio(2) [of ps] by (auto simp: map_of_eq_None_iff simp del: set_map dest: set_zip_leftD)
qed

lemma compiled_named:
  assumes "assigns ps c" "distinct (map fst ps)" "set compile_params \<subseteq> set (map fst ps)" "map_of c ''rule_subset_ratio'' = None"
  shows "curr_id printed c \<in> curr_id printed ` set (compiled_dicts ps)"
proof -
  obtain p where p: "p \<in> set (product_lists (map snd (compiled_space ps)))"
    "\<forall>k \<in> set compile_params. map_of (zip (map fst (compiled_space ps)) p) k = map_of c k"
    using compiled_choice [OF assms(1-3)] by blast
  have mem: "zip (map fst (compiled_space ps)) p \<in> set (compiled_dicts ps)" using p(1) by (simp add: compiled_dicts_def)
  have "curr_id printed (zip (map fst (compiled_space ps)) p) = curr_id printed c"
    by (rule curr_id_cong [OF p(2)]) (simp only: assms(4) compiled_no_ratio [OF mem])
  then show ?thesis using mem by (metis image_eqI)
qed

lemma ratio_not_named:
  assumes "map_of c ''rule_subset_ratio'' = Some (PStr s)" "s \<noteq> []" "last s \<noteq> CHR ''s''"
    and "printed None = []" "\<forall>s. printed (Some (PStr s)) = s"
  shows "curr_id printed c \<notin> curr_id printed ` set (compiled_dicts ps)"
proof -
  have "last (curr_id printed c) \<noteq> CHR ''s''" using assms(1-3,5) by (simp add: curr_id_last [of printed c s])
  moreover have "last (curr_id printed d) = CHR ''s''" if "d \<in> set (compiled_dicts ps)" for d
    by (subst curr_id_last [of printed _ "[]"]) (simp_all only: compiled_no_ratio [OF that] assms(4) if_True simp_thms)
  ultimately show ?thesis by (metis imageE)
qed

text \<open>C39: in every experiment that can be launched the precompilation ends and prepares compiled rules
  for all choices of its parameters, but under names that end without a ratio: when a run looks for
  the compiled rules of its configuration it finds them in the two experiments that do not divide the
  rules, and never in the other four, whose names end with their ratio.  The template engine prints
  strings as they are and nothing for a variable that is not defined.\<close>

theorem precompiled_lookup:
  assumes "printed None = []" "\<forall>s. printed (Some (PStr s)) = s" "15 \<le> fuel"
  shows "list_all (\<lambda>(file, ps).
     \<exists>r h ds. launch so hs hv file = Inr r \<and> init_handler ps 1 = Inr h \<and>
       precompile_cfgs PStr h (init_config (sender b) (receiver b)) fuel = Some (Inr (map Some ds)) \<and>
       (\<forall>x \<in> set (params_sets (exparams r)).
          \<exists>c. x = Some c \<and>
            (precompiled_file printed (current_config b c) \<in> precompiled_file printed ` set ds \<longleftrightarrow>
             file \<in> set undivided))) launched_files"
  unfolding list_all_iff
proof (clarify, goal_cases)
  case (1 f ps)
  obtain k where "sound_launch so hs hv f ps k" using launched_sound [OF 1] by blast
  then obtain r where r: "launch so hs hv f = Inr r"
    "\<forall>x \<in> set (params_sets (exparams r)). \<exists>c. x = Some c \<and> assigns ps c"
    unfolding sound_launch_def by blast
  define ratio where "ratio = (if f \<in> set undivided then [] else [''rule_subset_ratio''])"
  have names: "map fst ps = ''n_rules'' # ratio @ common_params" using launched_params [OF 1] by (simp add: ratio_def)
  have ratio: "ratio \<in> {[], [''rule_subset_ratio'']}" by (simp add: ratio_def)
  have d: "distinct (map fst ps)" unfolding names by (rule gap_names [OF ratio refl])
  have comp: "set compile_params \<subseteq> set (map fst ps)" unfolding names by (rule compile_common)
  obtain h where h: "init_handler ps 1 = Inr h"
    "precompile_cfgs PStr h (init_config (sender b) (receiver b)) fuel = Some (Inr (map Some (compiled_dicts ps)))"
    using precompiles [OF d comp, of fuel] launched_compiled(1) [OF 1] assms(3) by (auto simp: compiled_dicts_def comp_def)
  have "precompiled_file printed (current_config b c) \<in> precompiled_file printed ` set (compiled_dicts ps) \<longleftrightarrow> f \<in> set undivided"
    if c: "assigns ps c" for c
  proof -
    have dk: "distinct (keys c)" unfolding assigns_keys [OF c] by (rule d)
    have "curr_id printed (current_config b c) = curr_id printed c"
      using current_value [OF dk] compile_initial no_ratio(1) by (intro curr_id_cong) auto
    then have eq: "precompiled_file printed (current_config b c) \<in> precompiled_file printed ` set (compiled_dicts ps) \<longleftrightarrow>
        curr_id printed c \<in> curr_id printed ` set (compiled_dicts ps)"
      by (auto simp: precompiled_file_def)
    show ?thesis
    proof (cases "f \<in> set undivided")
      case True
      then have "''rule_subset_ratio'' \<notin> set (keys c)"
        unfolding assigns_keys [OF c] names ratio_def using no_ratio by (simp, code_simp)
      then have "map_of c ''rule_subset_ratio'' = None" using in_keys_iff by blast
      then show ?thesis using True eq compiled_named [OF c d comp] by blast
    next
      case False
      obtain vs where "(''rule_subset_ratio'', vs) \<in> set ps"
        "\<forall>v \<in> set vs. \<exists>s. v = PStr s \<and> s \<noteq> [] \<and> last s \<noteq> CHR ''s''"
        using launched_compiled(2) [OF 1 False] by blast
      then obtain s where "map_of c ''rule_subset_ratio'' = Some (PStr s)" "s \<noteq> []" "last s \<noteq> CHR ''s''"
        using assigns_distinct_value [OF c d] by metis
      from ratio_not_named [where printed = printed, OF this assms(1,2)] show ?thesis using False eq by blast
    qed
  qed
  with r h show ?case by (intro exI [of _ r] exI [of _ h] exI [of _ "compiled_dicts ps"]) blast
qed

definition demo_printed :: "pval option \<Rightarrow> string" where
  "demo_printed v = (case v of Some (PStr s) \<Rightarrow> s | Some (PInt i) \<Rightarrow> int_str i | _ \<Rightarrow> [])"

theorem precompiled_lookup_witness:
  "list_all (\<lambda>(file, ps).
     \<exists>r h ds. launch id (\<lambda>_. 0) (\<lambda>_. Inr 0) file = Inr r \<and> init_handler ps 1 = Inr h \<and>
       precompile_cfgs PStr h (init_config (sender demo_bench) (receiver demo_bench)) 15 = Some (Inr (map Some ds)) \<and>
       (\<forall>x \<in> set (params_sets (exparams r)).
          \<exists>c. x = Some c \<and>
            (precompiled_file demo_printed (current_config demo_bench c) \<in> precompiled_file demo_printed ` set ds \<longleftrightarrow>
             file \<in> set undivided))) launched_files"
  by (rule precompiled_lookup) (simp_all add: demo_printed_def)

section \<open>The machines\<close>

lemma check_envs_iff: "check_envs env = Inr () \<longleftrightarrow> (\<forall>v \<in> set needed_envs. env v \<noteq> None)"
  by (auto simp: check_envs_def reported_envs_def dropWhile_eq_Nil_conv)

lemma reported_unset: "v \<in> set needed_envs \<Longrightarrow> env v = None \<Longrightarrow> v \<in> set (reported_envs env)"
  unfolding reported_envs_def
  by (metis (mono_tags, lifting) Un_iff set_append set_takeWhileD takeWhile_dropWhile_id)

text \<open>A receiver that is neither of the two known hosts stops the setup, after its first steps.\<close>

lemma unknown_receiver:
  assumes "load_bench env = Inr b" "receiver b \<notin> {''dormeur'', ''nic_dormeur''}"
  shows "setup_bench w b config h \<noteq> Some (Inr x, h')"
proof -
  have "rx_access b = Inl NameError"
    using assms by (auto simp: load_bench_def access_of_def check_envs_def split: if_splits)
  then show ?thesis by (auto simp: setup_bench_def tseq_def tbind_def traise_def split: option.splits sum.splits)
qed

end
