(* ===== verification/Whole_Run.thy ===== *)
theory Whole_Run
  imports Bench_Config
begin

text \<open>
  The main program of autotest/exp_runner.py, from the environment and the command line to the last
  row: it composes the globals of \<open>Bench_Config\<close>, the parameter files of \<open>Experiments\<close> and the main
  loop of \<open>Runner\<close>.
\<close>

section \<open>The main program\<close>











section \<open>Resuming\<close>















end
