(* ===== verification/Campaign.thy ===== *)
theory Campaign
  imports Runner
begin

text \<open>
  What an experiment promises, as a machine on configurations, and the proof that the loop of
  autotest/exp_runner.py implements it whatever the threads leave: results or errors, complete or
  not, valid or not.

  A state of the machine is the configuration at work, those still to come, and the configurations
  of the rows recorded so far.
\<close>

section \<open>The machine\<close>

type_synonym 'c campaign = "'c option \<times> 'c list \<times> 'c list"

inductive campaign_step :: "'c campaign \<Rightarrow> 'c campaign \<Rightarrow> bool" where
  take_next: "campaign_step (None, c # todo, rec) (Some c, todo, rec)"
| record_more: "campaign_step (Some c, todo, rec) (Some c, todo, rec @ [c])"
| finish: "campaign_step (Some c, todo, rec) (None, todo, rec @ [c])"

text \<open>The rows of a finished configuration are consecutive, in the order of the queue, and there is
  at least one.\<close>

definition grouped :: "'c list \<Rightarrow> nat list \<Rightarrow> 'c list" where
  "grouped cs ms = concat (map2 (\<lambda>c m. replicate m c) cs ms)"

definition campaign_inv :: "'c list \<Rightarrow> 'c campaign \<Rightarrow> bool" where
  "campaign_inv cs = (\<lambda>(cur, todo, rec).
     \<exists>fin ms m. length ms = length fin \<and> (\<forall>n \<in> set ms. 0 < n) \<and>
       (case cur of None \<Rightarrow> cs = fin @ todo \<and> rec = grouped fin ms
        | Some c \<Rightarrow> cs = fin @ c # todo \<and> rec = grouped fin ms @ replicate m c))"

lemma campaign_inv_idle:
  "campaign_inv cs (None, todo, rec) \<longleftrightarrow>
     (\<exists>fin ms. length ms = length fin \<and> (\<forall>n \<in> set ms. 0 < n) \<and> cs = fin @ todo \<and> rec = grouped fin ms)"
  by (simp add: campaign_inv_def)

lemma campaign_inv_busy:
  "campaign_inv cs (Some c, todo, rec) \<longleftrightarrow>
     (\<exists>fin ms m. length ms = length fin \<and> (\<forall>n \<in> set ms. 0 < n) \<and> cs = fin @ c # todo \<and>
        rec = grouped fin ms @ replicate m c)"
  by (simp add: campaign_inv_def)

lemma grouped_snoc: "length ms = length fin \<Longrightarrow> grouped (fin @ [c]) (ms @ [m]) = grouped fin ms @ replicate m c"
  by (simp add: grouped_def)

lemma campaign_inv_step:
  assumes "campaign_step s s'" "campaign_inv cs s"
  shows "campaign_inv cs s'"
  using assms
proof (induction rule: campaign_step.induct)
  case (take_next c todo rec)
  then obtain fin ms where "length ms = length fin" "\<forall>n \<in> set ms. 0 < n" "cs = fin @ c # todo" "rec = grouped fin ms"
    unfolding campaign_inv_idle by blast
  then show ?case unfolding campaign_inv_busy by (intro exI [of _ fin] exI [of _ ms] exI [of _ 0]) simp
next
  case (record_more c todo rec)
  then obtain fin ms m where "length ms = length fin" "\<forall>n \<in> set ms. 0 < n" "cs = fin @ c # todo"
    "rec = grouped fin ms @ replicate m c" unfolding campaign_inv_busy by blast
  then show ?case unfolding campaign_inv_busy
    by (intro exI [of _ fin] exI [of _ ms] exI [of _ "Suc m"]) (simp add: replicate_append_same)
next
  case (finish c todo rec)
  then obtain fin ms m where "length ms = length fin" "\<forall>n \<in> set ms. 0 < n" "cs = fin @ c # todo"
    "rec = grouped fin ms @ replicate m c" unfolding campaign_inv_busy by blast
  then show ?case unfolding campaign_inv_idle
    by (intro exI [of _ "fin @ [c]"] exI [of _ "ms @ [Suc m]"]) (auto simp: replicate_append_same grouped_snoc)
qed

lemma campaign_inv_steps:
  "campaign_step\<^sup>*\<^sup>* s s' \<Longrightarrow> campaign_inv cs s \<Longrightarrow> campaign_inv cs s'"
  by (induction rule: rtranclp_induct) (blast intro: campaign_inv_step)+

lemma record_many: "campaign_step\<^sup>*\<^sup>* (Some c, todo, rec) (Some c, todo, rec @ replicate n c)"
proof (induction n)
  case (Suc n)
  have "campaign_step (Some c, todo, rec @ replicate n c) (Some c, todo, (rec @ replicate n c) @ [c])" by (rule record_more)
  then show ?case using Suc by (simp add: replicate_append_same rtranclp.rtrancl_into_rtrancl)
qed simp

section \<open>The loop\<close>

text \<open>A row of a configuration has its parameters.\<close>

definition row_of :: "'v pset \<Rightarrow> 'v entry \<Rightarrow> bool" where
  "row_of c row \<longleftrightarrow> (\<forall>p v. map_of c p = Some v \<longrightarrow> map_of row (''param_'' @ p) = Some [CObj v])"

definition plain_data :: "dm \<times> 'v dm_class \<Rightarrow> bool" where
  "plain_data = (\<lambda>(d, k). metrics_to_compute k = [] \<and> parameter_prefix d = ''param_'')"

text \<open>The entries \<open>rows\<close> are added, and the queue is left alone.\<close>

definition adds :: "'v pset \<Rightarrow> nat \<Rightarrow> 'v runner \<Rightarrow> 'v runner \<Rightarrow> bool" where
  "adds c n s s' \<longleftrightarrow> exparams s' = exparams s \<and> plain_data (data s') \<and>
     (\<exists>rows. cls_entries (snd (data s')) = cls_entries (snd (data s)) @ rows \<and> length rows = n \<and> list_all (row_of c) rows)"

lemma add_entry_rows:
  assumes "add_entry so e (Some c) force upd (d, k) = (r, d', k')" "plain_data (d, k)" "distinct (keys c)"
  shows "plain_data (d', k') \<and> (\<exists>rows. cls_entries k' = cls_entries k @ rows \<and> list_all (row_of c) rows \<and>
    length rows = (if r = Inr True then 1 else 0)) \<and> (force \<longrightarrow> r \<noteq> Inr False)"
proof -
  let ?d = "learn_columns so upd e d k"
  let ?e1 = "fill_invalid e (columns ?d k) (invalid_token ?d)"
  obtain e2 d2 where n: "number_entry ?d k ?e1 = (e2, d2)" by (cases "number_entry ?d k ?e1")
  have p: "metrics_to_compute k = []" "parameter_prefix d = ''param_''" using assms(2) by (simp_all add: plain_data_def)
  have pre: "parameter_prefix ?d = ''param_''" using p by (simp add: learn_columns_def)
  then have d2: "parameter_prefix d2 = ''param_''" using n by (auto simp: number_entry_def split: if_splits)
  have "row_of c (set_params ''param_'' c e2)"
    using map_of_set_params_own [OF assms(3), where prefix = "''param_''" and e = e2] by (simp add: row_of_def)
  then show ?thesis
    using assms(1) n p pre d2
    by (auto simp: add_entry_def Let_def compute_metrics_def plain_data_def split: sum.splits if_splits bool.splits)
qed

lemma attempt_adds:
  assumes "attempt so st c x s = (r, s')" "plain_data (data s)" "distinct (keys c)"
  shows "\<exists>n. adds c n s s' \<and> (r = Inr True \<longrightarrow> 0 < n)"
proof -
  obtain d k where dk: "data s = (d, k)" by (cases "data s")
  have none: "adds c 0 s s" using assms(2) by (simp add: adds_def)
  have report: "\<exists>n. adds c n s s1" "q \<noteq> Inr True" if "report_invalid so e c s = (q, s1)" for e q s1
    using that assms(2,3) add_entry_rows [of so e c False True d k]
    by (auto simp: report_invalid_def dk adds_def split: prod.splits sum.splits)
  have valid: "adds c n s0 s1" if "record_valid st s2 = (q, s1)" "adds c n s0 s2" for q s1 s2 n s0
    using that by (auto simp: record_valid_def Let_def adds_def split: sum.splits)
  have rep: "attempt so st c x s = report_invalid so e c s2 \<Longrightarrow> ?thesis" if "s2 = s" for e s2
    using report [of e r s'] assms(1) that by auto
  have add: "plain_data (d', k') \<and> (\<exists>rows. cls_entries k' = cls_entries k @ rows \<and> list_all (row_of c) rows \<and>
      length rows = (if q = Inr True then 1 else 0)) \<and> q \<noteq> Inr False"
    if "add_entry so e (Some c) True True (data s) = (q, d', k')" for e q d' k'
    using add_entry_rows [of so e c True True d k q d' k'] that assms(2,3) by (simp add: dk)
  obtain rx tx where x: "x = (rx, tx)" by (cases x)
  consider (stop) e where "attempt so st c x s = (Inl e, s)" | (again) "attempt so st c x s = (Inr False, s)"
    | (invalid) e where "attempt so st c x s = report_invalid so e c s"
    | (added) e where "attempt so st c x s = (case add_entry so e (Some c) True True (data s) of
                          (Inl x, d) \<Rightarrow> (Inl x, s\<lparr>data := d\<rparr>)
                        | (Inr False, d) \<Rightarrow> report_invalid so e c (s\<lparr>data := d\<rparr>)
                        | (Inr True, d) \<Rightarrow> record_valid st (s\<lparr>data := d\<rparr>))"
  proof (cases "res_bind (progress (exparams s)) (\<lambda>_. agg_failed rx)")
    case (Inl e)
    show thesis by (rule stop [of e]) (simp add: attempt_def x Inl)
  next
    case rx: (Inr b)
    show thesis
    proof (cases b)
      case True
      show thesis by (rule again) (simp add: attempt_def x rx True)
    next
      case False
      show thesis
      proof (cases "agg_failed tx")
        case (Inl e)
        show thesis by (rule stop [of e]) (simp add: attempt_def x rx False Inl)
      next
        case tx: (Inr b')
        let ?e = "agg_entry (merge_results rx tx)"
        show thesis
        proof (cases b')
          case True
          show thesis by (rule again) (simp add: attempt_def x rx False tx True)
        next
          case b': False
          show thesis
          proof (cases "validate_results (merge_results rx tx)")
            case True
            show thesis by (rule added [of ?e]) (simp add: attempt_def x rx False tx b' True Let_def)
          next
            case nv: False
            show thesis by (rule invalid [of ?e]) (simp add: attempt_def x rx False tx b' nv Let_def)
          qed
        qed
      qed
    qed
  qed
  then show ?thesis
  proof cases
    case stop
    then show ?thesis using none assms(1) by auto
  next
    case again
    then show ?thesis using none assms(1) by auto
  next
    case invalid
    then show ?thesis by (rule rep [OF refl])
  next
    case added
    obtain q d' k' where q: "add_entry so e (Some c) True True (data s) = (q, d', k')" by (metis prod.collapse)
    note a = add [OF q]
    show ?thesis
    proof (cases q)
      case (Inl err)
      then show ?thesis using added q a assms(1) by (auto simp: adds_def dk intro!: exI [of _ 0])
    next
      case (Inr ok)
      then have "ok" using a by (cases ok) auto
      then have "record_valid st (s\<lparr>data := (d', k')\<rparr>) = (r, s')" using added q Inr assms(1) by simp
      moreover have "adds c 1 s (s\<lparr>data := (d', k')\<rparr>)" using a Inr \<open>ok\<close> by (auto simp: adds_def dk)
      ultimately have "adds c 1 s s'" using valid by blast
      then show ?thesis by (intro exI [of _ 1]) simp
    qed
  qed
qed

lemma adds_trans: "adds c m s s1 \<Longrightarrow> adds c n s1 s2 \<Longrightarrow> adds c (m + n) s s2"
  by (fastforce simp: adds_def)

lemma until_valid_adds:
  assumes "until_valid so st c xs s = (r, s')" "plain_data (data s)" "distinct (keys c)"
  shows "\<exists>n. adds c n s s' \<and> (\<forall>rest. r = Some (Inr rest) \<longrightarrow> 0 < n)"
  using assms(1,2)
proof (induction xs arbitrary: s)
  case Nil
  then show ?case by (auto simp: adds_def)
next
  case (Cons x xs)
  obtain q s1 where q: "attempt so st c x s = (q, s1)" by (cases "attempt so st c x s")
  obtain m where m: "adds c m s s1" "q = Inr True \<longrightarrow> 0 < m" using attempt_adds [OF q Cons.prems(2) assms(3)] by blast
  show ?case
  proof (cases "q = Inr False")
    case True
    then have "until_valid so st c xs s1 = (r, s')" using Cons.prems(1) q by simp
    moreover have "plain_data (data s1)" using m(1) by (simp add: adds_def)
    ultimately obtain n where n: "adds c n s1 s'" "\<forall>rest. r = Some (Inr rest) \<longrightarrow> 0 < n"
      using Cons.IH by blast
    show ?thesis using adds_trans [OF m(1) n(1)] n(2) by (intro exI [of _ "m + n"]) simp
  next
    case False
    then have "s' = s1" "\<forall>rest. r = Some (Inr rest) \<longrightarrow> q = Inr True"
      using Cons.prems(1) q by (auto split: sum.splits bool.splits)
    then show ?thesis using m by blast
  qed
qed

lemma list_all_row_of: "list_all (row_of c) rows \<Longrightarrow> list_all2 row_of (replicate (length rows) c) rows"
  by (induction rows) auto

lemma main_loop_steps:
  assumes "main_loop so st fuel xs s = (r, s')" "plain_data (data s)" "queue_ready (exparams s)"
    and "params_sets (exparams s) = map Some cs" "\<And>c. c \<in> set cs \<Longrightarrow> distinct (keys c)"
  shows "\<exists>cur todo rec rows. campaign_step\<^sup>*\<^sup>* (None, cs, rec0) (cur, todo, rec0 @ rec) \<and>
    cls_entries (snd (data s')) = cls_entries (snd (data s)) @ rows \<and> list_all2 row_of rec rows \<and>
    params_sets (exparams s') = map Some todo \<and> (r = Some (Inr ()) \<longrightarrow> cur = None \<and> todo = [])"
  using assms
proof (induction fuel arbitrary: xs s cs rec0)
  case 0
  then show ?case by (intro exI [of _ None] exI [of _ cs] exI [of _ "[]"]) auto
next
  case (Suc fuel)
  show ?case
  proof (cases cs)
    case Nil
    then have "next_config s = (Inr None, s)"
      using Suc.prems(3,4) by (simp add: queue_ready_def next_config_def peek_params_def ensure_built_def)
    then show ?thesis using Suc.prems(1,4) Nil by (intro exI [of _ None] exI [of _ cs] exI [of _ "[]"]) auto
  next
    case (Cons c cs')
    obtain h where h: "next_config s = (Inr (Some c), s\<lparr>exparams := h\<rparr>)" "queue_ready h" "params_sets h = map Some cs'"
      using Suc.prems(3,4) unfolding Cons
      by (auto simp: queue_ready_def next_config_def peek_params_def pop_params_def ensure_built_def)
    have take: "campaign_step\<^sup>*\<^sup>* (None, cs, rec0) (Some c, cs', rec0)" unfolding Cons by (blast intro: take_next)
    let ?s1 = "s\<lparr>exparams := h\<rparr>"
    show ?thesis
    proof (cases "process_parameters (evts ?s1) c (prepared ?s1)")
      case (Inl e)
      then have "r = Some (Inl e)" "s' = ?s1" using Suc.prems(1) h(1) by simp_all
      then show ?thesis using take h(3) by (intro exI [of _ "Some c"] exI [of _ cs'] exI [of _ "[]"]) auto
    next
      case (Inr mp)
      obtain m p where mp: "mp = (m, p)" by (cases mp)
      let ?s2 = "?s1\<lparr>evts := m, prepared := p\<rparr>"
      obtain q s2 where q: "until_valid so st c xs ?s2 = (q, s2)" by (cases "until_valid so st c xs ?s2")
      obtain n where n: "adds c n ?s2 s2" "\<forall>rest. q = Some (Inr rest) \<longrightarrow> 0 < n"
        using until_valid_adds [OF q] Suc.prems(2,5) Cons by auto
      then obtain rows where rows: "cls_entries (snd (data s2)) = cls_entries (snd (data s)) @ rows" "length rows = n"
        "list_all2 row_of (replicate n c) rows" "exparams s2 = h" "plain_data (data s2)"
        using list_all_row_of by (auto simp: adds_def)
      have more: "campaign_step\<^sup>*\<^sup>* (None, cs, rec0) (Some c, cs', rec0 @ replicate k c)" for k
        using take record_many by (rule rtranclp_trans)
      show ?thesis
      proof (cases "\<exists>rest. q = Some (Inr rest)")
        case True
        then obtain rest where rest: "q = Some (Inr rest)" by blast
        then have "0 < n" using n(2) by blast
        then obtain k where k: "n = Suc k" using gr0_implies_Suc by blast
        have "campaign_step (Some c, cs', rec0 @ replicate k c) (None, cs', (rec0 @ replicate k c) @ [c])" by (rule finish)
        then have finished: "campaign_step\<^sup>*\<^sup>* (None, cs, rec0) (None, cs', rec0 @ replicate n c)"
          using more [of k] by (simp add: k replicate_append_same rtranclp.rtrancl_into_rtrancl)
        have "main_loop so st fuel rest s2 = (r, s')" using Suc.prems(1) h(1) Inr mp q rest by simp
        from Suc.IH [OF this rows(5), of cs' "rec0 @ replicate n c"] h(2,3) rows(4) Suc.prems(5) Cons
        obtain cur todo rec rows' where ih: "campaign_step\<^sup>*\<^sup>* (None, cs', rec0 @ replicate n c) (cur, todo, (rec0 @ replicate n c) @ rec)"
          "cls_entries (snd (data s')) = cls_entries (snd (data s2)) @ rows'" "list_all2 row_of rec rows'"
          "params_sets (exparams s') = map Some todo" "r = Some (Inr ()) \<longrightarrow> cur = None \<and> todo = []" by auto
        have "list_all2 row_of (replicate n c @ rec) (rows @ rows')" using rows(3) ih(3) by (rule list_all2_appendI)
        moreover have "campaign_step\<^sup>*\<^sup>* (None, cs, rec0) (cur, todo, rec0 @ replicate n c @ rec)"
          using rtranclp_trans [OF finished ih(1)] by simp
        ultimately show ?thesis using rows(1) ih(2,4,5)
          by (intro exI [of _ cur] exI [of _ todo] exI [of _ "replicate n c @ rec"] exI [of _ "rows @ rows'"]) simp
      next
        case False
        then have "s' = s2" "r \<noteq> Some (Inr ())"
          using Suc.prems(1) h(1) Inr mp q by (auto split: option.splits sum.splits)
        then show ?thesis using more [of n] rows h(3)
          by (intro exI [of _ "Some c"] exI [of _ cs'] exI [of _ "replicate n c"] exI [of _ rows]) simp
      qed
    qed
  qed
qed

text \<open>C2: the loop implements the machine.  Whatever the threads leave and however often they fail, up to
  any point at which the loop ends, raises or still waits for outcomes, the machine can take steps
  from the queue at the beginning to the queue and the rows at that point, where every row has the
  parameters of its configuration; when the loop ends normally nothing is at work or left.\<close>

theorem main_loop_refines:
  assumes "main_loop so st fuel xs s = (r, s')" "plain_data (data s)" "queue_ready (exparams s)"
    and "params_sets (exparams s) = map Some cs" "\<And>c. c \<in> set cs \<Longrightarrow> distinct (keys c)"
  shows "\<exists>cur todo rec rows. campaign_step\<^sup>*\<^sup>* (None, cs, []) (cur, todo, rec) \<and>
    cls_entries (snd (data s')) = cls_entries (snd (data s)) @ rows \<and> list_all2 row_of rec rows \<and>
    params_sets (exparams s') = map Some todo \<and> (r = Some (Inr ()) \<longrightarrow> cur = None \<and> todo = [])"
  using main_loop_steps [OF assms, of "[]"] by simp

text \<open>C3: rows follow the queue.  At any point of any run the recorded rows are one or more rows for
  each configuration that is finished, in the order of the queue, then any number for the one at
  work, and none for those still queued: no configuration is skipped and none is taken up again.\<close>

theorem rows_follow_queue:
  assumes "main_loop so st fuel xs s = (r, s')" "plain_data (data s)" "queue_ready (exparams s)"
    and "params_sets (exparams s) = map Some cs" "\<And>c. c \<in> set cs \<Longrightarrow> distinct (keys c)"
  shows "\<exists>fin work todo ms m rows. cs = fin @ work @ todo \<and> length work \<le> 1 \<and>
    params_sets (exparams s') = map Some todo \<and> length ms = length fin \<and> (\<forall>n \<in> set ms. 0 < n) \<and>
    cls_entries (snd (data s')) = cls_entries (snd (data s)) @ rows \<and>
    list_all2 row_of (grouped fin ms @ concat (map (replicate m) work)) rows \<and>
    (r = Some (Inr ()) \<longrightarrow> fin = cs)"
proof -
  obtain cur todo rec rows where *: "campaign_step\<^sup>*\<^sup>* (None, cs, []) (cur, todo, rec)"
    "cls_entries (snd (data s')) = cls_entries (snd (data s)) @ rows" "list_all2 row_of rec rows"
    "params_sets (exparams s') = map Some todo" "r = Some (Inr ()) \<longrightarrow> cur = None \<and> todo = []"
    using main_loop_steps [OF assms, of "[]"] by auto
  have "campaign_inv cs (None, cs, [])" unfolding campaign_inv_idle
    by (intro exI [of _ "[]"]) (simp add: grouped_def)
  then have inv: "campaign_inv cs (cur, todo, rec)" using campaign_inv_steps *(1) by blast
  show ?thesis
  proof (cases cur)
    case None
    then obtain fin ms where f: "length ms = length fin" "\<forall>n \<in> set ms. 0 < n" "cs = fin @ todo" "rec = grouped fin ms"
      using inv [unfolded None campaign_inv_idle] by blast
    then show ?thesis using * by (intro exI [of _ fin] exI [of _ "[]"] exI [of _ todo] exI [of _ ms] exI [of _ 0] exI [of _ rows]) simp
  next
    case (Some c)
    then obtain fin ms m where f: "length ms = length fin" "\<forall>n \<in> set ms. 0 < n" "cs = fin @ c # todo"
      "rec = grouped fin ms @ replicate m c"
      using inv [unfolded Some campaign_inv_busy] by blast
    then show ?thesis using * Some
      by (intro exI [of _ fin] exI [of _ "[c]"] exI [of _ todo] exI [of _ ms] exI [of _ m] exI [of _ rows]) simp
  qed
qed

lemma small_start:
  "plain_data (data small_runner)" "queue_ready (exparams small_runner)"
  "c \<in> set [[(''n'', 1 :: int)], [(''n'', 2)]] \<Longrightarrow> distinct (keys c)"
  by (auto simp: plain_data_def small_runner_def data_manager_def dm_initial_class_def queue_ready_def small_handler_def
      blank_handler_def)

text \<open>A run in which the second configuration gives no results.\<close>

theorem main_loop_refines_witness:
  "\<exists>r s' cur todo rec rows. main_loop remdups int_str 2 [late_pair, good_pair, ([], [])] small_runner = (r, s') \<and>
     campaign_step\<^sup>*\<^sup>* (None, [[(''n'', 1)], [(''n'', 2)]], []) (cur, todo, rec) \<and>
     cls_entries (snd (data s')) = rows \<and> list_all2 row_of rec rows \<and> params_sets (exparams s') = map Some todo"
proof -
  obtain r s' where run: "main_loop remdups int_str 2 [late_pair, good_pair, ([], [])] small_runner = (r, s')" by fastforce
  have "cls_entries (snd (data small_runner)) = []"
    by (simp add: small_runner_def data_manager_def dm_initial_class_def)
  then show ?thesis using main_loop_refines [OF run small_start(1,2) small_sets small_start(3)] run
    by (metis append_Nil)
qed

theorem rows_follow_queue_witness:
  "\<exists>r s' fin work todo. main_loop remdups int_str 2 [late_pair, good_pair, ([], [])] small_runner = (r, s') \<and>
     [[(''n'', 1)], [(''n'', 2)]] = fin @ work @ todo \<and> params_sets (exparams s') = map Some todo"
proof -
  obtain r s' where run: "main_loop remdups int_str 2 [late_pair, good_pair, ([], [])] small_runner = (r, s')" by fastforce
  have "\<exists>fin work todo. [[(''n'', 1)], [(''n'', 2)]] = fin @ work @ todo \<and> params_sets (exparams s') = map Some todo"
    using rows_follow_queue [OF run small_start(1,2) small_sets small_start(3)] by blast
  then show ?thesis using run by blast
qed

end
