(* ===== verification/Spec2Isabelle.thy ===== *)
theory Spec2Isabelle
  imports Params Events Result_Parse Data_Manager Tmux Runner Rule_Subsets Report_Read Csv_Edit Experiments Log_Stats Sampler_Main Generators Process_Table Plot_Data Plot_Groups Plot_Heatmap Plot_Lines Plot_Bars Bench_Config Whole_Run Campaign
begin

text \<open>
  A model of the Python side of PAMO-RXPBench, the benchmark of hardware (RXP) and software
  (Hyperscan) pattern matching on network cards.

  \<^bold>\<open>The program.\<close>  Three groups of scripts make up the Python code.

  \<^item> \<^verbatim>\<open>autotest/\<close> runs experiments.  A parameter file (\<^verbatim>\<open>params_*.py\<close>) gives
    the parameters, their values and filters; \<^verbatim>\<open>exp_runner.py\<close> builds a queue of configurations
    from it, and for each configuration lets a receiver and a sender run in two threads.  Each thread
    drives a terminal session on another machine: it renders scripts with the values of the
    parameters, copies them, types commands, waits for prompts and for printed events, and reads the
    result lines the test program prints.  Complete results are added as an entry of a table that
    is exported as a CSV file after every configuration, together with the saved state of the queue,
    so that an interrupted experiment can be resumed.  The parts it uses are the classes of
    \<^verbatim>\<open>expelib.py\<close>; \<^verbatim>\<open>csvedit.py\<close> edits the tables afterwards, \<^verbatim>\<open>process.py\<close> combines
    them, and the plot scripts draw them.
  \<^item> \<^verbatim>\<open>data/\<close> prepares rule sets: \<^verbatim>\<open>rule_lib.py\<close> and
    \<^verbatim>\<open>rule_sampler.py\<close> clean, filter, sample and convert Suricata rules into pattern files
    for the two engines, and cut them into subsets; small scripts generate rules and patterns.
  \<^item> \<^verbatim>\<open>et-analysis/\<close> and \<^verbatim>\<open>trace-analysis/\<close> analyse what Suricata writes about
    rule groups: \<^verbatim>\<open>met7.py\<close> prints a report of overlaps and pattern statistics, which
    \<^verbatim>\<open>latextable2.py\<close> reads back and turns into a table; \<^verbatim>\<open>parselogs.py\<close> prints statistics
    of its logs.

  \<^bold>\<open>Conventions.\<close>  A Python function becomes a function of the same name; what it reads from
  the outside is an argument.  A statement that can raise has the result type \<^typ>\<open>'a res\<close>, whose
  left values are the exceptions of \<^typ>\<open>py_error\<close>; \<^term>\<open>res_bind\<close> stops at the first one.  Python integers are
  \<^typ>\<open>int\<close> (or \<^typ>\<open>nat\<close> where they count), strings are lists of characters of Latin-1,
  dictionaries are association lists in the order of insertion, objects with state are records that
  operations return updated.  Floats are real numbers, and where the code depends on how they are
  rounded or printed, the rounding or the printing is an argument with its law as a hypothesis.  The
  order in which Python lists a set is an argument too (\<^term>\<open>set_order\<close>).

  \<^bold>\<open>Shared theories.\<close>
  \<^item> \<open>Py_Prelude\<close>: errors and results, string methods, \<^verbatim>\<open>int()\<close> and \<^verbatim>\<open>repr()\<close>,
    dictionaries, paths and text files, and their laws.
  \<^item> \<open>Py_Re\<close>: the fragment of Python's \<^verbatim>\<open>re\<close> the sources use, as a backtracking matcher on
    syntax trees, with two interfaces: \<open>munch\<close> for a greedy repetition followed by something
    that cannot start inside it, and \<open>scanner\<close> for patterns that are found from left to right.
  \<^item> \<open>Py_Float\<close>: floats with infinity and NaN as a datatype, an instance of the classes of the
    arithmetic operations; finite values are not rounded.
  \<^item> \<open>Work_Queue\<close>: the interface \<open>work_queue\<close> of the loops that peek at and pop from a queue.

  \<^bold>\<open>Experiments\<close> (\<^verbatim>\<open>autotest/\<close>).
  \<^item> \<open>Params\<close> models \<^verbatim>\<open>ParameterHandler\<close>: the product of the values, filters, repetitions,
    the queue with its two counters, \<^verbatim>\<open>save_state\<close>, \<^verbatim>\<open>load_state\<close> and the hash.  The theorems say
    which configurations are queued, that the counters are right in every reachable handler, that
    the loop over the queue ends with every configuration handed out once, and what resuming
    repeats and miscounts.  The handler interprets \<open>work_queue\<close>.
  \<^item> \<open>Events\<close> models \<^verbatim>\<open>ParameterEventManager\<close> and its only use, the preparation of rules: which
    callbacks run, and that in a fresh run the rules on the receiver agree with the configuration on
    the parameters that are watched.
  \<^item> \<open>Result_Parse\<close> models the output protocol (the regular expressions and \<^verbatim>\<open>Results\<close> readers):
    reading inverts printing.  Its four scanners interpret \<open>scanner\<close>.
  \<^item> \<open>Data_Manager\<close> models \<^verbatim>\<open>DataManager\<close>, with its class attributes as one state shared by all
    instances: when an entry is recorded, numbering, the exported matrix, and what a table is
    after it was exported and loaded.
  \<^item> \<open>Tmux\<close> models sessions, uploads, rendering, batches and cleaning as functions on a record of
    actions and answers of an arbitrary outside world: retries, waiting, the output of a command.
    The waits may run forever; they are partial functions into \<^typ>\<open>'a option\<close> whose value is
    \<^term>\<open>None\<close> when they do, and the theorem says exactly when that is.
  \<^item> \<open>Runner\<close> models \<^verbatim>\<open>exp_runner.py\<close>: the two threads, and the main loop over their outcomes.
    A configuration that keeps failing is tried forever; the loop is a partial function, and the
    liveness theorem gives a result when every configuration at some time yields good results.
  \<^item> \<open>Experiments\<close> models the seven parameter files and launches each of them with the handler of
    \<open>Params\<close>: the number of configurations and what their filters guarantee.
  \<^item> \<open>Bench_Config\<close> models \<^verbatim>\<open>test_global_properties.py\<close> (the environment, the machines, the initial
    configuration) and which variables the rendered scripts use: no script of a launched experiment
    lacks one, except the ratio in two experiments, and the rules that are compiled beforehand are
    found by no experiment that sets a ratio.
  \<^item> \<open>Campaign\<close> is an abstract machine of experiments: a queue, and rows of configurations with
    their results that only grow.  The main loop of \<open>Runner\<close> refines it, and its invariant says
    that the recorded rows are those of the configurations taken from the queue, in their order.
  \<^item> \<open>Whole_Run\<close> composes them to the main program: a launchable file is run to its last row, and a
    run that is interrupted and resumed from the saved files.
  \<^item> \<open>Csv_Edit\<close> models \<^verbatim>\<open>csvedit.py\<close>, on the CSV reader of \<open>Data_Manager\<close>: an update seen
    as overwriting of maps, what a run writes and reads back, and the record that makes it fail.
  \<^item> \<open>Process_Table\<close> models \<^verbatim>\<open>process.py\<close> row by row and column by column: the rates of the two
    engines exclude each other, and the weighted latency lies between those of the buckets.
  \<^item> The plot scripts, from their tables to what is drawn.  \<open>Plot_Data\<close> holds the conversions, labels
    and limits; \<open>Plot_Groups\<close> models \<^verbatim>\<open>plot-groups-new3.py\<close>, whose points all lie inside their axes;
    \<open>Plot_Heatmap\<close> \<^verbatim>\<open>plot-heatmap-v2.py\<close>, whose cells show the highest throughput achieved without
    drops; \<open>Plot_Lines\<close> \<^verbatim>\<open>plot-latency.py\<close>, whose lines can be told apart; and \<open>Plot_Bars\<close>
    \<^verbatim>\<open>plot-bar4.py\<close> and \<^verbatim>\<open>plot.py\<close>.

  \<^bold>\<open>Rule sets\<close> (\<^verbatim>\<open>data/\<close>).  The rule parser \<^verbatim>\<open>suricataparser\<close> is a record of functions,
  \<^typ>\<open>'r suricata\<close>, with the laws of getting and setting options as \<^term>\<open>rule_laws\<close>.
  \<^item> \<open>Rule_Lib\<close> models \<^verbatim>\<open>rule_lib.py\<close>: a content as a regular expression denotes the same
    bytes, and the filter by the RXP compiler keeps exactly the rules it promises.
  \<^item> \<open>Rule_Sampler\<close> models cleaning and filtering for DOCA, \<open>Rule_Patterns\<close> the patterns for Hyperscan,
    the filter by its checker and the iterated search for a working set (a loop that need not
    end, shown to end within one round more than there are rules), and
    \<open>Rule_Subsets\<close> the subsets of given shares.  \<open>Sampler_Main\<close> models the command line of
    \<^verbatim>\<open>rule_sampler.py\<close> over a map of files: which file a run may change, and that the search for a
    working set ends.
  \<^item> \<open>Generators\<close> models the three generating scripts, with the random numbers as a stream that a
    state monad consumes: every generated pattern is well formed.

  \<^bold>\<open>Analysis\<close> (\<^verbatim>\<open>et-analysis/\<close>, \<^verbatim>\<open>trace-analysis/\<close>).
  \<^item> \<open>Rule_Groups\<close> models \<^verbatim>\<open>met7.py\<close> on JSON documents: extraction, metrics, statistics and
    the printed report.  \<open>Group_Table\<close> models \<^verbatim>\<open>latextable2.py\<close>, and \<open>Report_Read\<close> composes
    the two: what the second reads is what the first computed.
  \<^item> \<open>Log_Stats\<close> models \<^verbatim>\<open>parselogs.py\<close>: the sums per protocol and direction, the paths of the
    groups in a document (an inductive relation) and the shares of the prefilters.

  \<^bold>\<open>Bounds.\<close>  Loops over queues and lists of files are structural or take a number of rounds, and each
  theorem says how many are enough: one more than there are configurations for \<open>main_loop\<close> and
  \<open>drain\<close>, fifteen for the precompilation of any experiment.  Loops that may run forever are partial
  functions.

  \<^bold>\<open>Not modelled.\<close>  The C program under test with its helpers and the vendored samples are outside this
  development; the outside world of \<open>Tmux\<close> stands for them.  Logging, printed progress and the
  parsing of command lines by \<^verbatim>\<open>argparse\<close> are left out where they do not change what is
  computed.  Of the scripts rendered by \<^verbatim>\<open>jinja2\<close> only the variables are modelled.  The reading,
  the queries and the conversions of \<^verbatim>\<open>pandas\<close> are arguments and the drawing is left out, and with them
  the notebook \<^verbatim>\<open>data_exploration.ipynb\<close> and the viewer \<^verbatim>\<open>pyg.py\<close>.
  \<^verbatim>\<open>results_rule_subsets_v1.py\<close> is a table of results, \<^verbatim>\<open>matplotlibstyle.py\<close> a list of constants and
  \<^verbatim>\<open>draft.py\<close> a trial of one expression.  The drivers \<^verbatim>\<open>test_db_size_seed.py\<close> and
  \<^verbatim>\<open>test_e2e_latency.py\<close> are earlier copies of \<^verbatim>\<open>exp_runner.py\<close>.
\<close>

end
